(* ===== verification/Danos_Prelude.thy ===== *)
theory Danos_Prelude
  imports Main "HOL-Library.Word" "HOL-Library.Sublist"
begin

text \<open>
  The prelude of the development: the machine-integer types of the C sources, the
  little-endian object representation that \<^verbatim>\<open>memcpy\<close> and \<^verbatim>\<open>fwrite\<close> expose (the
  sources are built for LP64 little-endian targets), reads at an offset of a byte buffer,
  the named collections of simplification rules of the development and the generic list
  lemmas the components share.
\<close>

unbundle bit_operations_syntax

type_synonym u8 = "8 word"
type_synonym u16 = "16 word"
type_synonym u32 = "32 word"
type_synonym u64 = "64 word"
type_synonym bytes = "u8 list"

named_theorems codec_simps \<open>lengths and reads of encoded fields\<close>
named_theorems store_simps \<open>what the object store operations do to its contents\<close>
named_theorems frame_simps \<open>fields an operation leaves unchanged\<close>

subsection \<open>Reading a buffer at an offset\<close>

definition bslice :: "nat \<Rightarrow> nat \<Rightarrow> 'a list \<Rightarrow> 'a list" where
  "bslice off n bs = take n (drop off bs)"

lemma length_bslice [simp]: "length (bslice off n bs) = min n (length bs - off)"
  by (simp add: bslice_def)

lemma bslice_all: "length bs = n \<Longrightarrow> bslice 0 n bs = bs"
  by (simp add: bslice_def)

lemma bslice_append_left:
  "off + n \<le> length xs \<Longrightarrow> bslice off n (xs @ ys) = bslice off n xs"
  by (simp add: bslice_def)

lemma bslice_append_right:
  "length xs \<le> off \<Longrightarrow> bslice off n (xs @ ys) = bslice (off - length xs) n ys"
  by (simp add: bslice_def)

lemma bslice_bslice: "m + k \<le> n \<Longrightarrow> bslice m k (bslice off n bs) = bslice (off + m) k bs"
  by (simp add: bslice_def drop_take add.commute min_absorb1)

lemma take_length_append_le: "n \<le> length xs \<Longrightarrow> take n (xs @ ys) = take n xs"
  by simp

subsection \<open>Little-endian words\<close>

text \<open>\<open>le_bytes n w\<close> is the object representation of an \<open>n\<close>-byte unsigned integer.\<close>

definition le_bytes :: "nat \<Rightarrow> 'a::len word \<Rightarrow> bytes" where
  "le_bytes n w = map (\<lambda>i. ucast (drop_bit (8 * i) w)) [0..<n]"

fun le_word :: "bytes \<Rightarrow> 'a::len word" where
  "le_word [] = 0"
| "le_word (b # bs) = ucast b OR push_bit 8 (le_word bs)"

lemma length_le_bytes [simp]: "length (le_bytes n w) = n"
  by (simp add: le_bytes_def)

lemma bit_le_bytes:
  "i < n \<Longrightarrow> bit (le_bytes n w ! i) j \<longleftrightarrow> j < 8 \<and> bit w (8 * i + j)"
  by (auto simp: le_bytes_def bit_simps add.commute)

lemma bit_le_word:
  "bit (le_word bs :: 'a::len word) k \<longleftrightarrow>
     k < LENGTH('a) \<and> k div 8 < length bs \<and> bit (bs ! (k div 8)) (k mod 8)"
proof (induction bs arbitrary: k)
  case Nil
  then show ?case by simp
next
  case (Cons b bs)
  show ?case
  proof (cases "k < 8")
    case True
    then show ?thesis
      by (auto simp: bit_simps dest: bit_imp_le_length)
  next
    case False
    then obtain m where m: "k = 8 + m"
      using le_Suc_ex not_less by blast
    have nb: "\<not> bit b k"
      using False by (auto dest: bit_imp_le_length)
    have d: "k div 8 = Suc (m div 8)" "k mod 8 = m mod 8"
      by (simp_all add: m)
    show ?thesis
      using Cons.IH [of m] nb by (auto simp: bit_simps d) (auto simp: m)
  qed
qed

lemma le_word_le_bytes:
  assumes "8 * n = LENGTH('a::len)"
  shows "(le_word (le_bytes n w) :: 'a word) = w"
proof (rule bit_word_eqI)
  fix k assume k: "k < LENGTH('a)"
  then have "k div 8 < n" using assms by linarith
  then show "bit (le_word (le_bytes n w) :: 'a word) k \<longleftrightarrow> bit w k"
    using k by (simp add: bit_le_word bit_le_bytes)
qed

lemma le_bytes_le_word:
  assumes "length bs = n" and "8 * n \<le> LENGTH('a::len)"
  shows "le_bytes n (le_word bs :: 'a word) = bs"
proof (rule nth_equalityI)
  show "length (le_bytes n (le_word bs :: 'a word)) = length bs"
    using assms by simp
next
  fix i assume i: "i < length (le_bytes n (le_word bs :: 'a word))"
  then have i: "i < n" by simp
  show "le_bytes n (le_word bs :: 'a word) ! i = bs ! i"
  proof (rule bit_word_eqI)
    fix j assume "j < LENGTH(8)"
    then have j: "j < 8" by simp
    have "8 * i + j < LENGTH('a)" using i j assms(2) by linarith
    then show "bit (le_bytes n (le_word bs :: 'a word) ! i) j \<longleftrightarrow> bit (bs ! i) j"
      using i j assms(1) by (simp add: bit_le_bytes bit_le_word)
  qed
qed

text \<open>The widths the sources use.\<close>

abbreviation le16 :: "u16 \<Rightarrow> bytes" where "le16 \<equiv> le_bytes 2"
abbreviation le32 :: "u32 \<Rightarrow> bytes" where "le32 \<equiv> le_bytes 4"
abbreviation le64 :: "u64 \<Rightarrow> bytes" where "le64 \<equiv> le_bytes 8"

definition rd8 :: "nat \<Rightarrow> bytes \<Rightarrow> u8" where
  "rd8 off bs = le_word (bslice off 1 bs)"

definition rd16 :: "nat \<Rightarrow> bytes \<Rightarrow> u16" where
  "rd16 off bs = le_word (bslice off 2 bs)"

definition rd32 :: "nat \<Rightarrow> bytes \<Rightarrow> u32" where
  "rd32 off bs = le_word (bslice off 4 bs)"

definition rd64 :: "nat \<Rightarrow> bytes \<Rightarrow> u64" where
  "rd64 off bs = le_word (bslice off 8 bs)"

lemma le_word_le16 [simp]: "le_word (le16 w) = w"
  by (rule le_word_le_bytes) simp

lemma le_word_le32 [simp]: "le_word (le32 w) = w"
  by (rule le_word_le_bytes) simp

lemma le_word_le64 [simp]: "le_word (le64 w) = w"
  by (rule le_word_le_bytes) simp

lemma le_word_single [simp]: "(le_word [b] :: u8) = b"
  by simp

lemma bool_byte [simp]: "((of_bool p :: u8) \<noteq> 0) = p" "((of_bool p :: u8) = 0) = (\<not> p)"
  by simp_all

subsection \<open>C strings\<close>

text \<open>The string a byte array holds: its bytes up to the first zero.\<close>

definition cstr :: "bytes \<Rightarrow> bytes" where
  "cstr = takeWhile (\<lambda>b. b \<noteq> 0)"

lemma cstr_id: "0 \<notin> set s \<Longrightarrow> cstr s = s"
  unfolding cstr_def by (rule takeWhile_eq_all_conv [THEN iffD2]) auto

lemma length_cstr: "length (cstr s) \<le> length s"
  by (simp add: cstr_def length_takeWhile_le)

lemma cstr_no_zero [simp]: "0 \<notin> set (cstr s)"
  unfolding cstr_def by (auto dest: set_takeWhileD)

lemma cstr_stop: "0 \<notin> set s \<Longrightarrow> cstr (s @ 0 # t) = s"
  unfolding cstr_def by (induction s) auto

subsection \<open>Stores into a buffer\<close>

text \<open>
  \<open>mem_put off d buf\<close> is \<^verbatim>\<open>memcpy(buf + off, d, n)\<close>.  A copy that passes the end of the buffer
  makes the list longer than the buffer is, so a writer whose buffer keeps its length never
  wrote outside.
\<close>

definition mem_put :: "nat \<Rightarrow> bytes \<Rightarrow> bytes \<Rightarrow> bytes" where
  "mem_put off d buf = take off buf @ d @ drop (off + length d) buf"

lemma length_mem_put [simp]: "off + length d \<le> length b \<Longrightarrow> length (mem_put off d b) = length b"
  by (simp add: mem_put_def)

lemma take_mem_put_before: "n \<le> off \<Longrightarrow> off \<le> length b \<Longrightarrow> take n (mem_put off d b) = take n b"
  by (simp add: mem_put_def)

lemma take_mem_put_end: "off \<le> length b \<Longrightarrow> take (off + length d) (mem_put off d b) = take off b @ d"
  by (simp add: mem_put_def)

end
