(* ===== verification/Dpa_Types.thy ===== *)
theory Dpa_Types
  imports Danos_Prelude
begin

text \<open>
  The public data model of \<^verbatim>\<open>danos-dpa/include/danos/dpa.h\<close>: the enumerations the core
  branches on as datatypes with their C values, the object structs as records, and the
  object representation of every struct that the object store keeps as an opaque byte
  blob. Offsets, sizes and padding are those of the LP64 ABI (x86-64 and AArch64,
  little-endian); padding bytes are written as zero, which is what the zero-initialised
  structs of the callers hold. An enumeration that is only a field of a stored struct is
  kept as the 32-bit value the bytes hold, with its C constants as definitions, since a
  stored blob may hold any value.
\<close>

subsection \<open>Status codes\<close>

datatype danos_status =
    DANOS_OK
  | ERR_INVALID_ARG | ERR_NOT_FOUND | ERR_EXISTS | ERR_NO_MEMORY | ERR_NO_CAPACITY
  | ERR_NOT_SUPPORTED | ERR_RETRY | ERR_PERMISSION
  | ERR_TX_CONFLICT | ERR_TX_TIMEOUT | ERR_TX_ABORTED | ERR_TX_ROLLBACK | ERR_TX_INVALID
  | ERR_BACKEND_DOWN | ERR_BACKEND_BUSY | ERR_BACKEND_IO
  | ERR_VERIFY_FAIL | ERR_PARTIAL | ERR_VERSION | ERR_CAPABILITY | ERR_INTERNAL

fun status_code :: "danos_status \<Rightarrow> nat" where
  "status_code DANOS_OK = 0"
| "status_code ERR_INVALID_ARG = 1"
| "status_code ERR_NOT_FOUND = 2"
| "status_code ERR_EXISTS = 3"
| "status_code ERR_NO_MEMORY = 4"
| "status_code ERR_NO_CAPACITY = 5"
| "status_code ERR_NOT_SUPPORTED = 6"
| "status_code ERR_RETRY = 7"
| "status_code ERR_PERMISSION = 8"
| "status_code ERR_TX_CONFLICT = 10"
| "status_code ERR_TX_TIMEOUT = 11"
| "status_code ERR_TX_ABORTED = 12"
| "status_code ERR_TX_ROLLBACK = 13"
| "status_code ERR_TX_INVALID = 14"
| "status_code ERR_BACKEND_DOWN = 20"
| "status_code ERR_BACKEND_BUSY = 21"
| "status_code ERR_BACKEND_IO = 22"
| "status_code ERR_VERIFY_FAIL = 30"
| "status_code ERR_PARTIAL = 31"
| "status_code ERR_VERSION = 40"
| "status_code ERR_CAPABILITY = 41"
| "status_code ERR_INTERNAL = 99"

fun danos_status_str :: "danos_status \<Rightarrow> string" where
  "danos_status_str DANOS_OK = ''OK''"
| "danos_status_str ERR_INVALID_ARG = ''INVALID_ARG''"
| "danos_status_str ERR_NOT_FOUND = ''NOT_FOUND''"
| "danos_status_str ERR_EXISTS = ''EXISTS''"
| "danos_status_str ERR_NO_MEMORY = ''NO_MEMORY''"
| "danos_status_str ERR_NO_CAPACITY = ''NO_CAPACITY''"
| "danos_status_str ERR_NOT_SUPPORTED = ''NOT_SUPPORTED''"
| "danos_status_str ERR_PERMISSION = ''PERMISSION''"
| "danos_status_str ERR_TX_CONFLICT = ''TX_CONFLICT''"
| "danos_status_str ERR_TX_TIMEOUT = ''TX_TIMEOUT''"
| "danos_status_str ERR_TX_ABORTED = ''TX_ABORTED''"
| "danos_status_str ERR_TX_ROLLBACK = ''TX_ROLLBACK''"
| "danos_status_str ERR_TX_INVALID = ''TX_INVALID''"
| "danos_status_str ERR_BACKEND_DOWN = ''BACKEND_DOWN''"
| "danos_status_str ERR_BACKEND_BUSY = ''BACKEND_BUSY''"
| "danos_status_str ERR_BACKEND_IO = ''BACKEND_IO''"
| "danos_status_str ERR_VERIFY_FAIL = ''VERIFY_FAIL''"
| "danos_status_str ERR_PARTIAL = ''PARTIAL''"
| "danos_status_str ERR_VERSION = ''VERSION''"
| "danos_status_str ERR_CAPABILITY = ''CAPABILITY''"
| "danos_status_str ERR_INTERNAL = ''INTERNAL''"
| "danos_status_str _ = ''UNKNOWN''"

subsection \<open>Object types\<close>

datatype danos_obj_type =
    OBJ_INVALID | OBJ_IFACE | OBJ_VLAN | OBJ_VRF | OBJ_ROUTE | OBJ_NEXTHOP | OBJ_NHGROUP
  | OBJ_ACL | OBJ_QOS | OBJ_MPLS_LSP | OBJ_TUNNEL | OBJ_EVPN | OBJ_MULTICAST | OBJ_BFD
  | OBJ_QOS_BIND

fun obj_type_code :: "danos_obj_type \<Rightarrow> u32" where
  "obj_type_code OBJ_INVALID = 0"
| "obj_type_code OBJ_IFACE = 1"
| "obj_type_code OBJ_VLAN = 2"
| "obj_type_code OBJ_VRF = 3"
| "obj_type_code OBJ_ROUTE = 4"
| "obj_type_code OBJ_NEXTHOP = 5"
| "obj_type_code OBJ_NHGROUP = 6"
| "obj_type_code OBJ_ACL = 7"
| "obj_type_code OBJ_QOS = 8"
| "obj_type_code OBJ_MPLS_LSP = 9"
| "obj_type_code OBJ_TUNNEL = 10"
| "obj_type_code OBJ_EVPN = 11"
| "obj_type_code OBJ_MULTICAST = 12"
| "obj_type_code OBJ_BFD = 13"
| "obj_type_code OBJ_QOS_BIND = 14"

type_synonym obj_key = "danos_obj_type \<times> u64"

subsection \<open>Constants of the stored enumerations\<close>

definition DANOS_AF_UNSPEC :: u32 where "DANOS_AF_UNSPEC = 0"
definition DANOS_AF_IPV4 :: u32 where "DANOS_AF_IPV4 = 4"
definition DANOS_AF_IPV6 :: u32 where "DANOS_AF_IPV6 = 6"

definition DANOS_ROUTE_FLAG_BLACKHOLE :: u32 where "DANOS_ROUTE_FLAG_BLACKHOLE = 1"

lemmas af_defs = DANOS_AF_UNSPEC_def DANOS_AF_IPV4_def DANOS_AF_IPV6_def

subsection \<open>The contract of an object representation\<close>

text \<open>
  What the clients of a struct rely on: its representation has the size the C code passes
  as \<^verbatim>\<open>sizeof\<close>, that size is not zero (the store refuses empty blobs), and reading the
  bytes back gives the struct.
\<close>

locale struct_codec =
  fixes enc :: "'a \<Rightarrow> bytes"
    and dec :: "bytes \<Rightarrow> 'a"
    and sz :: nat
    and wf :: "'a \<Rightarrow> bool"
  assumes enc_length: "wf x \<Longrightarrow> length (enc x) = sz"
    and sz_pos: "0 < sz"
    and dec_enc: "wf x \<Longrightarrow> dec (enc x) = x"
begin

lemma enc_inj: "wf x \<Longrightarrow> wf y \<Longrightarrow> enc x = enc y \<Longrightarrow> x = y"
  by (metis dec_enc)

lemma enc_not_Nil: "wf x \<Longrightarrow> enc x \<noteq> []"
  using enc_length sz_pos by fastforce

end

text \<open>Fixed-size arrays of words.\<close>

definition le_words :: "nat \<Rightarrow> 'a::len word list \<Rightarrow> bytes" where
  "le_words k ws = concat (map (le_bytes k) ws)"

definition rd_words :: "nat \<Rightarrow> nat \<Rightarrow> bytes \<Rightarrow> 'a::len word list" where
  "rd_words k n bs = map (\<lambda>i. le_word (bslice (k * i) k bs)) [0..<n]"

lemma length_le_words [simp]: "length (le_words k ws) = k * length ws"
  by (induction ws) (simp_all add: le_words_def)

lemma bslice_le_words:
  "i < length ws \<Longrightarrow> bslice (k * i) k (le_words k ws) = le_bytes k (ws ! i)"
proof (induction ws arbitrary: i)
  case Nil
  then show ?case by simp
next
  case (Cons w ws)
  show ?case
  proof (cases i)
    case 0
    then show ?thesis
      by (simp add: le_words_def bslice_append_left bslice_all)
  next
    case (Suc j)
    with Cons show ?thesis
      by (simp add: le_words_def bslice_append_right)
  qed
qed

lemma rd_words_le_words:
  assumes "8 * k = LENGTH('a::len)" and "length ws = n"
  shows "rd_words k n (le_words k ws) = (ws :: 'a word list)"
  by (rule nth_equalityI)
    (simp_all add: rd_words_def assms bslice_le_words le_word_le_bytes)

lemmas bslice_simps = bslice_append_left bslice_append_right bslice_all

declare rd8_def [codec_simps] rd16_def [codec_simps] rd32_def [codec_simps]
  rd64_def [codec_simps] bslice_simps [codec_simps]
  rd_words_le_words [codec_simps]

end
