(* ===== verification/Transaction.thy ===== *)
theory Transaction
  imports Dpa_Types
begin

text \<open>
  The transaction engine of \<^verbatim>\<open>danos-core/src/transaction/transaction.c\<close>: transaction records
  in a heap, the manager with its counters and free list, and one function per call of the
  public API. The state of the clock and the outcome of the timed wait for the writer lock
  are arguments of the calls that use them. \<open>tx_bad\<close> records that a call followed a pointer to
  no record or used the manager before it exists. API calls are atomic steps; a run of the
  system interleaves calls on any number of caller-owned handles.
\<close>

subsection \<open>Data\<close>

datatype tx_state = TX_OPEN | TX_PREPARE | TX_VALIDATE | TX_COMMIT | TX_VERIFY | TX_DONE | TX_ABORT | TX_ROLLBACK

fun tx_code :: "tx_state \<Rightarrow> nat" where
  "tx_code TX_OPEN = 0"
| "tx_code TX_PREPARE = 1"
| "tx_code TX_VALIDATE = 2"
| "tx_code TX_COMMIT = 3"
| "tx_code TX_VERIFY = 4"
| "tx_code TX_DONE = 5"
| "tx_code TX_ABORT = 6"
| "tx_code TX_ROLLBACK = 7"

record danos_tx =
  tx_id :: u64
  txst :: tx_state
  start_ns :: u64
  deadline_ns :: u64
  initiator :: "string option"
  tx_internal :: "nat option"

definition zero_tx :: danos_tx where
  "zero_tx = \<lparr>tx_id = 0, txst = TX_OPEN, start_ns = 0, deadline_ns = 0, initiator = None, tx_internal = None\<rparr>"

record tx_timeouts =
  prepare_ms :: u64
  commit_ms :: u64
  verify_ms :: u64

record tx_record =
  pub :: danos_tx
  in_use :: bool
  tx_link :: "nat option"

record tx_manager =
  free_list :: "nat option"
  next_tx_id :: u64
  active_count :: u64

record tx_world =
  g_tx_mgr :: "tx_manager option"
  tx_recs :: "nat \<Rightarrow> tx_record option"
  tx_fresh :: nat
  tx_mem :: "nat \<Rightarrow> bool"
  tx_mem_next :: nat
  tx_bad :: bool

subsection \<open>Manager and record pool\<close>

definition tx_calloc :: "tx_world \<Rightarrow> bool \<times> tx_world" where
  "tx_calloc w = (tx_mem w (tx_mem_next w), w\<lparr>tx_mem_next := Suc (tx_mem_next w)\<rparr>)"

definition danos_tx_manager_init :: "tx_world \<Rightarrow> int \<times> tx_world" where
  "danos_tx_manager_init w =
     (if g_tx_mgr w \<noteq> None then (0, w)
      else
        (let (ok, w1) = tx_calloc w
         in if \<not> ok then (- 1, w1)
            else (0, w1\<lparr>g_tx_mgr := Some \<lparr>free_list = None, next_tx_id = 1, active_count = 0\<rparr>\<rparr>)))"

text \<open>The walk that frees the pool; \<open>n\<close> bounds the number of records in it.\<close>

fun free_pool :: "nat \<Rightarrow> nat option \<Rightarrow> (nat \<Rightarrow> tx_record option) \<Rightarrow> (nat \<Rightarrow> tx_record option)" where
  "free_pool 0 p m = m"
| "free_pool (Suc n) None m = m"
| "free_pool (Suc n) (Some a) m =
     (case m a of None \<Rightarrow> m | Some r \<Rightarrow> free_pool n (tx_link r) (m(a := None)))"

definition danos_tx_manager_fini :: "tx_world \<Rightarrow> tx_world" where
  "danos_tx_manager_fini w =
     (case g_tx_mgr w of
        None \<Rightarrow> w
      | Some m \<Rightarrow> w\<lparr>tx_recs := free_pool (tx_fresh w) (free_list m) (tx_recs w), g_tx_mgr := None\<rparr>)"

definition danos_tx_record_alloc :: "tx_world \<Rightarrow> nat option \<times> tx_world" where
  "danos_tx_record_alloc w =
     (case g_tx_mgr w of
        None \<Rightarrow> (None, w\<lparr>tx_bad := True\<rparr>)
      | Some m \<Rightarrow>
          (case free_list m of
             Some a \<Rightarrow>
               (case tx_recs w a of
                  None \<Rightarrow> (None, w\<lparr>tx_bad := True\<rparr>)
                | Some r \<Rightarrow>
                    (Some a, w\<lparr>g_tx_mgr := Some (m\<lparr>free_list := tx_link r\<rparr>),
                       tx_recs := (tx_recs w)(a \<mapsto> \<lparr>pub = zero_tx, in_use = True, tx_link = None\<rparr>)\<rparr>))
           | None \<Rightarrow>
               (let (ok, w1) = tx_calloc w
                in if \<not> ok then (None, w1)
                   else
                     (Some (tx_fresh w1), w1\<lparr>tx_fresh := Suc (tx_fresh w1),
                        tx_recs := (tx_recs w1)(tx_fresh w1 \<mapsto> \<lparr>pub = zero_tx, in_use = True, tx_link = None\<rparr>)\<rparr>))))"

definition danos_tx_record_free :: "tx_world \<Rightarrow> nat option \<Rightarrow> tx_world" where
  "danos_tx_record_free w p =
     (case p of
        None \<Rightarrow> w
      | Some a \<Rightarrow>
          (case (tx_recs w a, g_tx_mgr w) of
             (Some r, Some m) \<Rightarrow>
               w\<lparr>tx_recs := (tx_recs w)(a \<mapsto> r\<lparr>in_use := False, tx_link := free_list m\<rparr>),
                 g_tx_mgr := Some (m\<lparr>free_list := Some a\<rparr>)\<rparr>
           | _ \<Rightarrow> w\<lparr>tx_bad := True\<rparr>))"

definition danos_tx_validate_ptr :: "danos_tx option \<Rightarrow> nat option" where
  "danos_tx_validate_ptr tx = (case tx of None \<Rightarrow> None | Some t \<Rightarrow> tx_internal t)"

definition danos_tx_in_state :: "tx_record \<Rightarrow> tx_state \<Rightarrow> bool" where
  "danos_tx_in_state rec expected \<longleftrightarrow> txst (pub rec) = expected"

subsection \<open>The public API\<close>

definition kDefaultTimeouts :: tx_timeouts where
  "kDefaultTimeouts = \<lparr>prepare_ms = 100, commit_ms = 500, verify_ms = 1000\<rparr>"

definition danos_tx_begin ::
  "tx_world \<Rightarrow> danos_tx option \<Rightarrow> string option \<Rightarrow> tx_timeouts option \<Rightarrow> u64
     \<Rightarrow> danos_status \<times> tx_world \<times> danos_tx option" where
  "danos_tx_begin w tx who timeouts now =
     (if tx = None then (ERR_INVALID_ARG, w, tx)
      else
        (let w1 = (if g_tx_mgr w = None then snd (danos_tx_manager_init w) else w);
             (p, w2) = danos_tx_record_alloc w1
         in (case p of
               None \<Rightarrow> (ERR_NO_MEMORY, w2, tx)
             | Some a \<Rightarrow>
                 (case g_tx_mgr w2 of
                    None \<Rightarrow> (ERR_NO_MEMORY, w2\<lparr>tx_bad := True\<rparr>, tx)
                  | Some m \<Rightarrow>
                      (let t = (case timeouts of Some t \<Rightarrow> t | None \<Rightarrow> kDefaultTimeouts);
                           pb = \<lparr>tx_id = next_tx_id m, txst = TX_OPEN, start_ns = now,
                             deadline_ns = now + (prepare_ms t + commit_ms t + verify_ms t) * 1000000,
                             initiator = (case who of Some i \<Rightarrow> Some i | None \<Rightarrow> Some ''unknown''),
                             tx_internal = Some a\<rparr>
                       in (DANOS_OK,
                           w2\<lparr>tx_recs := (tx_recs w2)(a \<mapsto> \<lparr>pub = pb, in_use = True, tx_link = None\<rparr>),
                              g_tx_mgr := Some (m\<lparr>next_tx_id := next_tx_id m + 1,
                                                 active_count := active_count m + 1\<rparr>)\<rparr>,
                           Some pb))))))"

text \<open>
  The shape the state-changing calls share: find the record, test its state under its lock,
  write the new state to the record and to the caller's handle.
\<close>

definition tx_put :: "tx_world \<Rightarrow> nat \<Rightarrow> tx_record \<Rightarrow> tx_state \<Rightarrow> tx_world" where
  "tx_put w a r new = w\<lparr>tx_recs := (tx_recs w)(a \<mapsto> r\<lparr>pub := (pub r)\<lparr>txst := new\<rparr>\<rparr>)\<rparr>"

definition tx_dec :: "tx_world \<Rightarrow> tx_world" where
  "tx_dec w =
     (case g_tx_mgr w of
        None \<Rightarrow> w\<lparr>tx_bad := True\<rparr>
      | Some m \<Rightarrow> w\<lparr>g_tx_mgr := Some (m\<lparr>active_count := active_count m - 1\<rparr>)\<rparr>)"

definition tx_locked ::
  "tx_world \<Rightarrow> danos_tx option \<Rightarrow> (tx_state \<Rightarrow> bool)
     \<Rightarrow> (nat \<Rightarrow> tx_record \<Rightarrow> danos_status \<times> tx_world \<times> tx_state)
     \<Rightarrow> danos_status \<times> tx_world \<times> danos_tx option" where
  "tx_locked w tx guard body =
     (case danos_tx_validate_ptr tx of
        None \<Rightarrow> (ERR_TX_INVALID, w, tx)
      | Some a \<Rightarrow>
          (case tx_recs w a of
             None \<Rightarrow> (ERR_TX_INVALID, w\<lparr>tx_bad := True\<rparr>, tx)
           | Some r \<Rightarrow>
               if \<not> guard (txst (pub r)) then (ERR_TX_INVALID, w, tx)
               else (let (st, w1, new) = body a r in (st, w1, map_option (\<lambda>t. t\<lparr>txst := new\<rparr>) tx))))"

definition danos_tx_prepare where
  "danos_tx_prepare w tx =
     tx_locked w tx (\<lambda>s. s = TX_OPEN) (\<lambda>a r. (DANOS_OK, tx_put w a r TX_PREPARE, TX_PREPARE))"

definition danos_tx_validate where
  "danos_tx_validate w tx =
     tx_locked w tx (\<lambda>s. s = TX_PREPARE) (\<lambda>a r. (DANOS_OK, tx_put w a r TX_VALIDATE, TX_VALIDATE))"

text \<open>\<open>late\<close> is the outcome of the one-second wait for the writer lock.\<close>

definition danos_tx_commit where
  "danos_tx_commit w tx late =
     tx_locked w tx (\<lambda>s. s = TX_VALIDATE)
       (\<lambda>a r. let w0 = (if g_tx_mgr w = None then w\<lparr>tx_bad := True\<rparr> else w)
              in if late then (ERR_TX_TIMEOUT, tx_put w0 a r TX_ABORT, TX_ABORT)
                 else (DANOS_OK, tx_put w0 a r TX_COMMIT, TX_COMMIT))"

definition danos_tx_verify where
  "danos_tx_verify w tx =
     tx_locked w tx (\<lambda>s. s = TX_COMMIT)
       (\<lambda>a r. (DANOS_OK, tx_dec (tx_put (tx_put w a r TX_VERIFY) a r TX_DONE), TX_DONE))"

definition danos_tx_abort where
  "danos_tx_abort w tx =
     tx_locked w tx (\<lambda>s. \<not> tx_code s \<ge> tx_code TX_COMMIT)
       (\<lambda>a r. (DANOS_OK, tx_dec (tx_put w a r TX_ABORT), TX_ABORT))"

definition danos_tx_rollback where
  "danos_tx_rollback w tx =
     tx_locked w tx (\<lambda>s. s = TX_COMMIT \<or> s = TX_VERIFY)
       (\<lambda>a r. (DANOS_OK, tx_dec (tx_put w a r TX_ROLLBACK), TX_ROLLBACK))"

definition danos_tx_get_state :: "danos_tx option \<Rightarrow> bool \<Rightarrow> danos_status \<times> tx_state option" where
  "danos_tx_get_state tx have_out =
     (case tx of
        None \<Rightarrow> (ERR_INVALID_ARG, None)
      | Some t \<Rightarrow> if have_out then (DANOS_OK, Some (txst t)) else (ERR_INVALID_ARG, None))"

definition danos_tx_commit_atomic where
  "danos_tx_commit_atomic w tx late =
     (let (st, w1, tx1) = danos_tx_prepare w tx
      in if st \<noteq> DANOS_OK then (st, w1, tx1)
         else
           (let (st, w2, tx2) = danos_tx_validate w1 tx1
            in if st \<noteq> DANOS_OK then (st, w2, tx2)
               else
                 (let (st, w3, tx3) = danos_tx_commit w2 tx2 late
                  in if st \<noteq> DANOS_OK then (st, w3, tx3) else danos_tx_verify w3 tx3)))"

lemmas tx_api_defs = danos_tx_prepare_def danos_tx_validate_def danos_tx_commit_def danos_tx_verify_def
  danos_tx_abort_def danos_tx_rollback_def

subsection \<open>Interleaved calls\<close>

datatype tx_call =
    TxBegin "string option" "tx_timeouts option" u64
  | TxPrepare
  | TxValidate
  | TxCommit bool
  | TxVerify
  | TxAbort
  | TxRollback
  | TxCommitAtomic bool

fun tx_do :: "tx_world \<Rightarrow> danos_tx option \<Rightarrow> tx_call \<Rightarrow> danos_status \<times> tx_world \<times> danos_tx option" where
  "tx_do w tx (TxBegin who t now) = danos_tx_begin w tx who t now"
| "tx_do w tx TxPrepare = danos_tx_prepare w tx"
| "tx_do w tx TxValidate = danos_tx_validate w tx"
| "tx_do w tx (TxCommit late) = danos_tx_commit w tx late"
| "tx_do w tx TxVerify = danos_tx_verify w tx"
| "tx_do w tx TxAbort = danos_tx_abort w tx"
| "tx_do w tx TxRollback = danos_tx_rollback w tx"
| "tx_do w tx (TxCommitAtomic late) = danos_tx_commit_atomic w tx late"

definition tx_boot :: "(nat \<Rightarrow> bool) \<Rightarrow> tx_world" where
  "tx_boot mem = \<lparr>g_tx_mgr = None, tx_recs = Map.empty, tx_fresh = 0, tx_mem = mem, tx_mem_next = 0, tx_bad = False\<rparr>"

text \<open>
  The reachable states: every caller owns a handle, zero at first, and calls the API on it.
  The first allocation, of the manager, succeeds; later ones may fail. The counter is the
  number of commits that ran into the writer-lock timeout.
\<close>

inductive tx_reach :: "nat \<Rightarrow> tx_world \<Rightarrow> (nat \<Rightarrow> danos_tx) \<Rightarrow> bool" where
  boot: "mem 0 \<Longrightarrow> tx_reach 0 (tx_boot mem) (\<lambda>_. zero_tx)"
| call: "tx_reach n w hs \<Longrightarrow> tx_do w (Some (hs h)) c = (st, w', Some t) \<Longrightarrow>
    tx_reach (if st = ERR_TX_TIMEOUT then Suc n else n) w' (hs(h := t))"

text \<open>
  All runs: any allocation may fail, the one of the manager included, and the manager may be
  torn down and created again while handles are out. A run stops at a call that follows a bad
  pointer; which calls these are is a property below.
\<close>

inductive tx_run :: "tx_world \<Rightarrow> (nat \<Rightarrow> danos_tx) \<Rightarrow> bool" where
  run_boot: "tx_run (tx_boot mem) (\<lambda>_. zero_tx)"
| run_call: "tx_run w hs \<Longrightarrow> tx_do w (Some (hs h)) c = (st, w', Some t) \<Longrightarrow> \<not> tx_bad w' \<Longrightarrow>
    tx_run w' (hs(h := t))"
| run_fini: "tx_run w hs \<Longrightarrow> tx_run (danos_tx_manager_fini w) hs"

text \<open>
  The contract of the calls on a transaction that was begun, written out independently of the
  code: the status a call returns and the state it leaves, for each state it finds.
\<close>

fun tx_table :: "tx_call \<Rightarrow> tx_state \<Rightarrow> danos_status \<times> tx_state" where
  "tx_table TxPrepare TX_OPEN = (DANOS_OK, TX_PREPARE)"
| "tx_table TxValidate TX_PREPARE = (DANOS_OK, TX_VALIDATE)"
| "tx_table (TxCommit late) TX_VALIDATE =
     (if late then (ERR_TX_TIMEOUT, TX_ABORT) else (DANOS_OK, TX_COMMIT))"
| "tx_table TxVerify TX_COMMIT = (DANOS_OK, TX_DONE)"
| "tx_table TxAbort TX_OPEN = (DANOS_OK, TX_ABORT)"
| "tx_table TxAbort TX_PREPARE = (DANOS_OK, TX_ABORT)"
| "tx_table TxAbort TX_VALIDATE = (DANOS_OK, TX_ABORT)"
| "tx_table TxRollback TX_COMMIT = (DANOS_OK, TX_ROLLBACK)"
| "tx_table TxRollback TX_VERIFY = (DANOS_OK, TX_ROLLBACK)"
| "tx_table (TxCommitAtomic late) TX_OPEN =
     (if late then (ERR_TX_TIMEOUT, TX_ABORT) else (DANOS_OK, TX_DONE))"
| "tx_table c s = (ERR_TX_INVALID, s)"

text \<open>
  The calls that go through the manager: beginning a transaction when the manager has to be
  allocated and cannot, and every accepted call but prepare and validate.
\<close>

definition tx_uses_manager :: "tx_world \<Rightarrow> danos_tx \<Rightarrow> tx_call \<Rightarrow> bool" where
  "tx_uses_manager w t c \<longleftrightarrow>
     (case c of
        TxBegin who tm now \<Rightarrow> \<not> tx_mem w (tx_mem_next w)
      | TxPrepare \<Rightarrow> False
      | TxValidate \<Rightarrow> False
      | _ \<Rightarrow> tx_internal t \<noteq> None \<and> fst (tx_table c (txst t)) \<noteq> ERR_TX_INVALID)"

subsection \<open>One call on one record\<close>

definition terminal :: "tx_state \<Rightarrow> bool" where
  "terminal s \<longleftrightarrow> s = TX_DONE \<or> s = TX_ABORT \<or> s = TX_ROLLBACK"

text \<open>The edges of the state machine; verification passes through VERIFY under the lock.\<close>

definition tx_edge :: "tx_state \<Rightarrow> tx_state \<Rightarrow> bool" where
  "tx_edge s s' \<longleftrightarrow>
     (s, s') \<in> {(TX_OPEN, TX_PREPARE), (TX_PREPARE, TX_VALIDATE), (TX_VALIDATE, TX_COMMIT), (TX_COMMIT, TX_DONE),
       (TX_OPEN, TX_ABORT), (TX_PREPARE, TX_ABORT), (TX_VALIDATE, TX_ABORT),
       (TX_COMMIT, TX_ROLLBACK), (TX_VERIFY, TX_ROLLBACK)}"

definition live :: "tx_world \<Rightarrow> nat set" where
  "live w = {a. \<exists>r. tx_recs w a = Some r \<and> \<not> terminal (txst (pub r))}"

definition tx_moved :: "tx_world \<Rightarrow> danos_tx \<Rightarrow> danos_status \<Rightarrow> tx_world \<Rightarrow> danos_tx \<Rightarrow> bool" where
  "tx_moved w t st w' t' \<longleftrightarrow>
     st = ERR_TX_INVALID \<and> w' = w \<and> t' = t \<or>
     (\<exists>a r new m. tx_internal t = Some a \<and> tx_recs w a = Some r \<and> tx_edge (txst (pub r)) new \<and>
        t' = t\<lparr>txst := new\<rparr> \<and> g_tx_mgr w = Some m \<and>
        (st = DANOS_OK \<or> st = ERR_TX_TIMEOUT \<and> new = TX_ABORT) \<and>
        w' = w\<lparr>tx_recs := (tx_recs w)(a \<mapsto> r\<lparr>pub := (pub r)\<lparr>txst := new\<rparr>\<rparr>),
               g_tx_mgr := Some (m\<lparr>active_count :=
                 (if terminal new \<and> st = DANOS_OK then active_count m - 1 else active_count m)\<rparr>)\<rparr>)"

definition tx_inv :: "nat \<Rightarrow> tx_world \<Rightarrow> (nat \<Rightarrow> danos_tx) \<Rightarrow> bool" where
  "tx_inv n w hs \<longleftrightarrow>
     \<not> tx_bad w \<and> dom (tx_recs w) = {..<tx_fresh w} \<and>
     (\<forall>a r. tx_recs w a = Some r \<longrightarrow> tx_id (pub r) = of_nat (Suc a) \<and> tx_internal (pub r) = Some a) \<and>
     (\<forall>h a. tx_internal (hs h) = Some a \<longrightarrow> map_option pub (tx_recs w a) = Some (hs h)) \<and>
     (\<forall>h h' a. h \<noteq> h' \<longrightarrow> tx_internal (hs h) = Some a \<longrightarrow> tx_internal (hs h') \<noteq> Some a) \<and>
     (case g_tx_mgr w of
        None \<Rightarrow> tx_fresh w = 0 \<and> n = 0 \<and> tx_mem w (tx_mem_next w)
      | Some m \<Rightarrow> free_list m = None \<and> next_tx_id m = of_nat (Suc (tx_fresh w)) \<and>
          active_count m = of_nat (card (live w) + n))"

lemma inv_view: "tx_inv n w hs \<Longrightarrow> tx_internal (hs h) = Some a \<Longrightarrow> map_option pub (tx_recs w a) = Some (hs h)"
  unfolding tx_inv_def by blast

lemma inv_own:
  "tx_inv n w hs \<Longrightarrow> h \<noteq> h' \<Longrightarrow> tx_internal (hs h) = Some a \<Longrightarrow> tx_internal (hs h') \<noteq> Some a"
  unfolding tx_inv_def by blast

lemma inv_rec:
  "tx_inv n w hs \<Longrightarrow> tx_recs w a = Some r \<Longrightarrow> tx_id (pub r) = of_nat (Suc a) \<and> tx_internal (pub r) = Some a"
  unfolding tx_inv_def by blast

text \<open>What a call needs of the state: the handle points to a record, and then the manager exists.\<close>

definition handle_ok :: "tx_world \<Rightarrow> danos_tx \<Rightarrow> bool" where
  "handle_ok w t \<longleftrightarrow> (\<forall>a. tx_internal t = Some a \<longrightarrow> tx_recs w a \<noteq> None \<and> g_tx_mgr w \<noteq> None)"

lemma inv_handle_ok: "tx_inv n w hs \<Longrightarrow> handle_ok w (hs h)"
  by (fastforce simp: tx_inv_def handle_ok_def split: option.splits)

lemma locked_moved:
  assumes ok: "handle_ok w t"
    and g: "\<And>r. tx_recs w (the (tx_internal t)) = Some r \<Longrightarrow> guard (txst (pub r)) \<Longrightarrow>
      tx_edge (txst (pub r)) new \<and> (res = DANOS_OK \<or> res = ERR_TX_TIMEOUT \<and> new = TX_ABORT)"
    and b: "\<And>a r m. g_tx_mgr w = Some m \<Longrightarrow> body a r =
      (res, w\<lparr>tx_recs := (tx_recs w)(a \<mapsto> r\<lparr>pub := (pub r)\<lparr>txst := new\<rparr>\<rparr>),
              g_tx_mgr := Some (m\<lparr>active_count :=
                (if terminal new \<and> res = DANOS_OK then active_count m - 1 else active_count m)\<rparr>)\<rparr>, new)"
    and l: "tx_locked w (Some t) guard body = (st, w', t')"
  shows "\<exists>t1. t' = Some t1 \<and> tx_moved w t st w' t1"
proof (cases "tx_internal t")
  case None
  then show ?thesis using l by (auto simp: tx_locked_def danos_tx_validate_ptr_def tx_moved_def)
next
  case (Some a)
  then obtain r m where r: "tx_recs w a = Some r" and m: "g_tx_mgr w = Some m" using ok by (auto simp: handle_ok_def)
  show ?thesis
    using l Some r m b [OF m, of a r] g [of r]
    by (cases "guard (txst (pub r))") (auto simp: tx_locked_def danos_tx_validate_ptr_def tx_moved_def)
qed

lemma mgr_same: "g_tx_mgr w = Some m \<Longrightarrow>
  w\<lparr>tx_recs := f, g_tx_mgr := Some (m\<lparr>active_count := active_count m\<rparr>)\<rparr> = w\<lparr>tx_recs := f\<rparr>"
  by (cases w; cases m) simp

lemma prepare_moved:
  "handle_ok w t \<Longrightarrow> danos_tx_prepare w (Some t) = (st, w', t') \<Longrightarrow> \<exists>t1. t' = Some t1 \<and> tx_moved w t st w' t1"
  unfolding danos_tx_prepare_def
  by (rule locked_moved [where new = TX_PREPARE and res = DANOS_OK])
    (auto simp: tx_edge_def tx_put_def terminal_def mgr_same)

lemma validate_moved:
  "handle_ok w t \<Longrightarrow> danos_tx_validate w (Some t) = (st, w', t') \<Longrightarrow> \<exists>t1. t' = Some t1 \<and> tx_moved w t st w' t1"
  unfolding danos_tx_validate_def
  by (rule locked_moved [where new = TX_VALIDATE and res = DANOS_OK])
    (auto simp: tx_edge_def tx_put_def terminal_def mgr_same)

lemma commit_moved:
  "handle_ok w t \<Longrightarrow> danos_tx_commit w (Some t) late = (st, w', t') \<Longrightarrow> \<exists>t1. t' = Some t1 \<and> tx_moved w t st w' t1"
  unfolding danos_tx_commit_def
  by (rule locked_moved [where new = "if late then TX_ABORT else TX_COMMIT"
        and res = "if late then ERR_TX_TIMEOUT else DANOS_OK"])
    (auto simp: tx_edge_def tx_put_def terminal_def mgr_same)

lemma verify_moved:
  "handle_ok w t \<Longrightarrow> danos_tx_verify w (Some t) = (st, w', t') \<Longrightarrow> \<exists>t1. t' = Some t1 \<and> tx_moved w t st w' t1"
  unfolding danos_tx_verify_def
  by (rule locked_moved [where new = TX_DONE and res = DANOS_OK])
    (auto simp: tx_edge_def tx_put_def tx_dec_def terminal_def)

lemma abort_moved:
  "handle_ok w t \<Longrightarrow> danos_tx_abort w (Some t) = (st, w', t') \<Longrightarrow> \<exists>t1. t' = Some t1 \<and> tx_moved w t st w' t1"
  unfolding danos_tx_abort_def
proof (rule locked_moved [where new = TX_ABORT and res = DANOS_OK])
  fix r :: tx_record
  assume "\<not> tx_code TX_COMMIT \<le> tx_code (txst (pub r))"
  then show "tx_edge (txst (pub r)) TX_ABORT \<and> (DANOS_OK = DANOS_OK \<or> DANOS_OK = ERR_TX_TIMEOUT \<and> TX_ABORT = TX_ABORT)"
    by (cases "txst (pub r)") (simp_all add: tx_edge_def)
qed (auto simp: tx_put_def tx_dec_def terminal_def)

lemma rollback_moved:
  "handle_ok w t \<Longrightarrow> danos_tx_rollback w (Some t) = (st, w', t') \<Longrightarrow> \<exists>t1. t' = Some t1 \<and> tx_moved w t st w' t1"
  unfolding danos_tx_rollback_def
  by (rule locked_moved [where new = TX_ROLLBACK and res = DANOS_OK])
    (auto simp: tx_edge_def tx_put_def tx_dec_def terminal_def)

lemma tx_edge_live: "tx_edge s s' \<Longrightarrow> \<not> terminal s"
  by (auto simp: tx_edge_def terminal_def)

lemma live_put:
  assumes "tx_recs w a = Some r" and "\<not> terminal (txst (pub r))"
  shows "live (w\<lparr>tx_recs := (tx_recs w)(a \<mapsto> r\<lparr>pub := (pub r)\<lparr>txst := new\<rparr>\<rparr>), g_tx_mgr := m\<rparr>) =
    (if terminal new then live w - {a} else live w)"
  using assms by (auto simp: live_def)

lemma finite_live:
  assumes "dom (tx_recs w) = {..<n}"
  shows "finite (live w)"
proof (rule finite_subset)
  show "live w \<subseteq> dom (tx_recs w)" by (auto simp: live_def)
qed (simp add: assms)

lemma moved_inv:
  assumes inv: "tx_inv n w hs" and mv: "tx_moved w (hs h) st w' t'"
  shows "tx_inv (if st = ERR_TX_TIMEOUT then Suc n else n) w' (hs(h := t'))"
  using mv unfolding tx_moved_def
proof (elim disjE)
  assume "st = ERR_TX_INVALID \<and> w' = w \<and> t' = hs h"
  then show ?thesis using inv by simp
next
  assume "\<exists>a r new m. tx_internal (hs h) = Some a \<and> tx_recs w a = Some r \<and> tx_edge (txst (pub r)) new \<and>
        t' = (hs h)\<lparr>txst := new\<rparr> \<and> g_tx_mgr w = Some m \<and>
        (st = DANOS_OK \<or> st = ERR_TX_TIMEOUT \<and> new = TX_ABORT) \<and>
        w' = w\<lparr>tx_recs := (tx_recs w)(a \<mapsto> r\<lparr>pub := (pub r)\<lparr>txst := new\<rparr>\<rparr>),
               g_tx_mgr := Some (m\<lparr>active_count :=
                 (if terminal new \<and> st = DANOS_OK then active_count m - 1 else active_count m)\<rparr>)\<rparr>"
  then obtain a r new m where a: "tx_internal (hs h) = Some a" and r: "tx_recs w a = Some r"
    and e: "tx_edge (txst (pub r)) new" and t': "t' = (hs h)\<lparr>txst := new\<rparr>" and m: "g_tx_mgr w = Some m"
    and st: "st = DANOS_OK \<or> st = ERR_TX_TIMEOUT \<and> new = TX_ABORT"
    and w': "w' = w\<lparr>tx_recs := (tx_recs w)(a \<mapsto> r\<lparr>pub := (pub r)\<lparr>txst := new\<rparr>\<rparr>),
               g_tx_mgr := Some (m\<lparr>active_count :=
                 (if terminal new \<and> st = DANOS_OK then active_count m - 1 else active_count m)\<rparr>)\<rparr>"
    by blast
  have nt: "\<not> terminal (txst (pub r))" using tx_edge_live [OF e] .
  have hs: "hs h = pub r" using inv_view [OF inv a] r by simp
  have dom: "dom (tx_recs w) = {..<tx_fresh w}" using inv by (simp add: tx_inv_def)
  have fin: "finite (live w)" using finite_live [OF dom] .
  have al: "a \<in> live w" using r nt by (auto simp: live_def)
  then have pos: "card (live w) = Suc (card (live w - {a}))" using fin by (metis card_Suc_Diff1)
  have live: "live w' = (if terminal new then live w - {a} else live w)" unfolding w' by (rule live_put [OF r nt])
  have dom': "dom (tx_recs w') = {..<tx_fresh w'}" using dom r by (auto simp: w')
  have cnt: "active_count (the (g_tx_mgr w')) =
      of_nat (card (live w') + (if st = ERR_TX_TIMEOUT then Suc n else n))"
    using inv m st pos live by (auto simp: w' tx_inv_def terminal_def)
  show ?thesis
    unfolding tx_inv_def
  proof (intro conjI allI impI)
    show "\<not> tx_bad w'" using inv by (simp add: tx_inv_def w')
    show "dom (tx_recs w') = {..<tx_fresh w'}" by (rule dom')
    show "tx_id (pub r') = of_nat (Suc b)" "tx_internal (pub r') = Some b" if "tx_recs w' b = Some r'" for b r'
      using that inv_rec [OF inv, of b] inv_rec [OF inv r] by (auto simp: w' split: if_splits)
    show "map_option pub (tx_recs w' b) = Some ((hs(h := t')) h')" if b: "tx_internal ((hs(h := t')) h') = Some b" for h' b
    proof (cases "h' = h")
      case True
      then show ?thesis using b a hs by (simp add: t' w')
    next
      case False
      then have "b \<noteq> a" using inv_own [OF inv, of h' h b] a b by auto
      then show ?thesis using False b inv_view [OF inv, of h' b] by (simp add: w')
    qed
    show "tx_internal ((hs(h := t')) h2) \<noteq> Some b"
      if "h1 \<noteq> h2" "tx_internal ((hs(h := t')) h1) = Some b" for h1 h2 b
      using that inv_own [OF inv, of h1 h2 b] by (auto simp: t' split: if_splits)
    show "case g_tx_mgr w' of
        None \<Rightarrow> tx_fresh w' = 0 \<and> (if st = ERR_TX_TIMEOUT then Suc n else n) = 0 \<and> tx_mem w' (tx_mem_next w')
      | Some m \<Rightarrow> free_list m = None \<and> next_tx_id m = of_nat (Suc (tx_fresh w')) \<and>
          active_count m = of_nat (card (live w') + (if st = ERR_TX_TIMEOUT then Suc n else n))"
      using cnt inv m by (simp add: w' tx_inv_def)
  qed
qed

subsection \<open>Whole calls\<close>

inductive tx_moves :: "tx_world \<Rightarrow> danos_tx \<Rightarrow> danos_status \<Rightarrow> tx_world \<Rightarrow> danos_tx \<Rightarrow> bool" where
  one: "tx_moved w t st w' t' \<Longrightarrow> tx_moves w t st w' t'"
| more: "tx_moved w t DANOS_OK w1 t1 \<Longrightarrow> tx_moves w1 t1 st w' t' \<Longrightarrow> tx_moves w t st w' t'"

lemma moved_handle_ok: "handle_ok w t \<Longrightarrow> tx_moved w t st w' t' \<Longrightarrow> handle_ok w' t'"
  by (auto simp: handle_ok_def tx_moved_def)

lemma atomic_moves:
  assumes ok: "handle_ok w t" and c: "danos_tx_commit_atomic w (Some t) late = (st, w', x)"
  shows "\<exists>t'. x = Some t' \<and> tx_moves w t st w' t'"
proof -
  obtain s1 w1 x1 where 1: "danos_tx_prepare w (Some t) = (s1, w1, x1)" by (metis surj_pair)
  obtain t1 where t1: "x1 = Some t1" and m1: "tx_moved w t s1 w1 t1" using prepare_moved [OF ok 1] by blast
  have ok1: "handle_ok w1 t1" using moved_handle_ok [OF ok m1] .
  obtain s2 w2 x2 where 2: "danos_tx_validate w1 (Some t1) = (s2, w2, x2)" by (metis surj_pair)
  obtain t2 where t2: "x2 = Some t2" and m2: "tx_moved w1 t1 s2 w2 t2" using validate_moved [OF ok1 2] by blast
  have ok2: "handle_ok w2 t2" using moved_handle_ok [OF ok1 m2] .
  obtain s3 w3 x3 where 3: "danos_tx_commit w2 (Some t2) late = (s3, w3, x3)" by (metis surj_pair)
  obtain t3 where t3: "x3 = Some t3" and m3: "tx_moved w2 t2 s3 w3 t3" using commit_moved [OF ok2 3] by blast
  have ok3: "handle_ok w3 t3" using moved_handle_ok [OF ok2 m3] .
  obtain s4 w4 x4 where 4: "danos_tx_verify w3 (Some t3) = (s4, w4, x4)" by (metis surj_pair)
  obtain t4 where t4: "x4 = Some t4" and m4: "tx_moved w3 t3 s4 w4 t4" using verify_moved [OF ok3 4] by blast
  note step = 1 2 3 4 t1 t2 t3 t4
  show ?thesis
  proof (cases "s1 = DANOS_OK \<and> s2 = DANOS_OK")
    case True
    then show ?thesis
      using c step m1 m2 m3 m4
      by (cases "s3 = DANOS_OK") (auto simp: danos_tx_commit_atomic_def, (blast intro: tx_moves.intros)+)
  next
    case False
    then show ?thesis
      using c step m1 m2
      by (cases "s1 = DANOS_OK") (auto simp: danos_tx_commit_atomic_def, (blast intro: tx_moves.intros)+)
  qed
qed

lemma call_moves:
  assumes ok: "handle_ok w t" and c: "tx_do w (Some t) c = (st, w', x)" and nb: "\<And>who tm now. c \<noteq> TxBegin who tm now"
  shows "\<exists>t'. x = Some t' \<and> tx_moves w t st w' t'"
proof (cases c)
  case TxPrepare
  then show ?thesis using prepare_moved [OF ok, of st w' x] c by (auto intro: tx_moves.one)
next
  case TxValidate
  then show ?thesis using validate_moved [OF ok, of st w' x] c by (auto intro: tx_moves.one)
next
  case (TxCommit late)
  then show ?thesis using commit_moved [OF ok, of late st w' x] c by (auto intro: tx_moves.one)
next
  case TxVerify
  then show ?thesis using verify_moved [OF ok, of st w' x] c by (auto intro: tx_moves.one)
next
  case TxAbort
  then show ?thesis using abort_moved [OF ok, of st w' x] c by (auto intro: tx_moves.one)
next
  case TxRollback
  then show ?thesis using rollback_moved [OF ok, of st w' x] c by (auto intro: tx_moves.one)
next
  case (TxCommitAtomic late)
  then show ?thesis using atomic_moves [OF ok] c by simp
qed (use nb in blast)

lemma moves_inv:
  "tx_moves w t st w' t' \<Longrightarrow> tx_inv n w hs \<Longrightarrow> t = hs h \<Longrightarrow>
     tx_inv (if st = ERR_TX_TIMEOUT then Suc n else n) w' (hs(h := t'))"
proof (induction arbitrary: hs rule: tx_moves.induct)
  case (one w t st w' t')
  then show ?case using moved_inv by blast
next
  case (more w t w1 t1 st w' t')
  have "tx_inv n w1 (hs(h := t1))" using moved_inv [OF more.prems(1), of h DANOS_OK w1 t1] more.hyps(1) more.prems(2) by simp
  from more.IH [OF this] show ?case unfolding fun_upd_upd fun_upd_same by blast
qed

lemma begin_cases:
  assumes inv: "tx_inv n w hs" and b: "danos_tx_begin w (Some t) who tm now = (st, w', x)"
  shows "st = ERR_NO_MEMORY \<and> x = Some t \<and> tx_inv n w' hs \<and> tx_recs w' = tx_recs w \<or>
    (\<exists>pb m'. st = DANOS_OK \<and> x = Some pb \<and> tx_id pb = of_nat (Suc (tx_fresh w)) \<and>
       tx_internal pb = Some (tx_fresh w) \<and> txst pb = TX_OPEN \<and> \<not> tx_bad w' \<and>
       tx_recs w' = (tx_recs w)(tx_fresh w \<mapsto> \<lparr>pub = pb, in_use = True, tx_link = None\<rparr>) \<and>
       tx_fresh w' = Suc (tx_fresh w) \<and> g_tx_mgr w' = Some m' \<and> free_list m' = None \<and>
       next_tx_id m' = of_nat (Suc (Suc (tx_fresh w))) \<and> active_count m' = of_nat (card (live w) + n) + 1)"
proof -
  define w1 where "w1 = (if g_tx_mgr w = None then snd (danos_tx_manager_init w) else w)"
  have e: "live w = {}" if "tx_fresh w = 0" using inv that by (auto simp: live_def tx_inv_def)
  obtain m where w1: "tx_recs w1 = tx_recs w" "tx_fresh w1 = tx_fresh w" "\<not> tx_bad w1"
    and m: "g_tx_mgr w1 = Some m" "free_list m = None" "next_tx_id m = of_nat (Suc (tx_fresh w))"
      "active_count m = of_nat (card (live w) + n)"
  proof (cases "g_tx_mgr w")
    case None
    then show ?thesis
      using inv e that [of "\<lparr>free_list = None, next_tx_id = 1, active_count = 0\<rparr>"]
      by (simp add: tx_inv_def w1_def danos_tx_manager_init_def tx_calloc_def)
  next
    case (Some m)
    then show ?thesis using inv that [of m] by (simp add: tx_inv_def w1_def)
  qed
  have l1: "live w1 = live w" by (simp add: live_def w1)
  show ?thesis
  proof (cases "tx_mem w1 (tx_mem_next w1)")
    case False
    have "tx_inv n w1 hs" using inv m w1 l1 by (simp add: tx_inv_def)
    then have "tx_inv n (w1\<lparr>tx_mem_next := Suc (tx_mem_next w1)\<rparr>) hs" using m by (simp add: tx_inv_def live_def)
    then show ?thesis
      using b False m w1
      by (auto simp: danos_tx_begin_def danos_tx_record_alloc_def tx_calloc_def Let_def simp flip: w1_def)
  next
    case True
    then show ?thesis
      using b m w1
      by (auto simp: danos_tx_begin_def danos_tx_record_alloc_def tx_calloc_def Let_def simp flip: w1_def)
  qed
qed

lemma begin_inv:
  assumes inv: "tx_inv n w hs" and b: "danos_tx_begin w (Some (hs h)) who tm now = (st, w', x)"
  shows "\<exists>t'. x = Some t' \<and> tx_inv n w' (hs(h := t')) \<and> st \<noteq> ERR_TX_TIMEOUT"
  using begin_cases [OF inv b]
proof (elim disjE exE conjE)
  assume "st = ERR_NO_MEMORY" "x = Some (hs h)" "tx_inv n w' hs" "tx_recs w' = tx_recs w"
  then show ?thesis by auto
next
  fix pb m'
  let ?a = "tx_fresh w"
  assume st: "st = DANOS_OK" "x = Some pb" and pb: "tx_id pb = of_nat (Suc ?a)" "tx_internal pb = Some ?a" "txst pb = TX_OPEN"
    and nb: "\<not> tx_bad w'" and recs: "tx_recs w' = (tx_recs w)(?a \<mapsto> \<lparr>pub = pb, in_use = True, tx_link = None\<rparr>)"
    and fr: "tx_fresh w' = Suc ?a"
    and m: "g_tx_mgr w' = Some m'" "free_list m' = None" "next_tx_id m' = of_nat (Suc (Suc ?a))"
      "active_count m' = of_nat (card (live w) + n) + 1"
  have dom: "dom (tx_recs w) = {..<?a}" using inv by (simp add: tx_inv_def)
  have new: "tx_recs w ?a = None" using dom by (metis domIff lessThan_iff less_irrefl)
  have live: "live w' = insert ?a (live w)" using new pb by (auto simp: live_def recs terminal_def)
  have "?a \<notin> live w" using new by (simp add: live_def)
  then have card: "card (live w') = Suc (card (live w))" using finite_live [OF dom] live by simp
  have own: "tx_internal (hs h') \<noteq> Some ?a" for h' using inv_view [OF inv, of h' ?a] new by auto
  have "tx_inv n w' (hs(h := pb))"
    unfolding tx_inv_def
  proof (intro conjI allI impI)
    show "\<not> tx_bad w'" by (rule nb)
    show "dom (tx_recs w') = {..<tx_fresh w'}" using dom by (auto simp: recs fr lessThan_Suc)
    show "tx_id (pub r') = of_nat (Suc b)" "tx_internal (pub r') = Some b" if "tx_recs w' b = Some r'" for b r'
      using that inv_rec [OF inv, of b] pb by (auto simp: recs split: if_splits)
    show "map_option pub (tx_recs w' b) = Some ((hs(h := pb)) h')" if "tx_internal ((hs(h := pb)) h') = Some b" for h' b
      using that pb inv_view [OF inv, of h' b] own [of h'] by (auto simp: recs split: if_splits)
    show "tx_internal ((hs(h := pb)) h2) \<noteq> Some b" if "h1 \<noteq> h2" "tx_internal ((hs(h := pb)) h1) = Some b" for h1 h2 b
      using that pb own inv_own [OF inv, of h1 h2 b] by (auto split: if_splits)
    show "case g_tx_mgr w' of
        None \<Rightarrow> tx_fresh w' = 0 \<and> n = 0 \<and> tx_mem w' (tx_mem_next w')
      | Some m \<Rightarrow> free_list m = None \<and> next_tx_id m = of_nat (Suc (tx_fresh w')) \<and>
          active_count m = of_nat (card (live w') + n)"
      using m card fr by simp
  qed
  then show ?thesis using st by simp
qed

lemma call_inv:
  assumes inv: "tx_inv n w hs" and c: "tx_do w (Some (hs h)) c = (st, w', x)"
  shows "\<exists>t'. x = Some t' \<and> tx_inv (if st = ERR_TX_TIMEOUT then Suc n else n) w' (hs(h := t'))"
proof (cases "\<exists>who tm now. c = TxBegin who tm now")
  case True
  then show ?thesis using begin_inv [OF inv, of h] c by fastforce
next
  case False
  then obtain t' where "x = Some t'" "tx_moves w (hs h) st w' t'"
    using call_moves [OF inv_handle_ok [OF inv] c] by blast
  then show ?thesis using moves_inv [OF _ inv] by blast
qed

lemma reach_inv: "tx_reach n w hs \<Longrightarrow> tx_inv n w hs"
proof (induction rule: tx_reach.induct)
  case (boot mem)
  then show ?case by (simp add: tx_inv_def tx_boot_def zero_tx_def)
next
  case (call n w hs h c st w' t)
  then show ?case using call_inv [OF call.IH call.hyps(2)] by (metis option.inject)
qed

subsection \<open>Every run\<close>

definition run_inv :: "tx_world \<Rightarrow> (nat \<Rightarrow> danos_tx) \<Rightarrow> bool" where
  "run_inv w hs \<longleftrightarrow>
     \<not> tx_bad w \<and> dom (tx_recs w) = {..<tx_fresh w} \<and>
     (\<forall>h a. tx_internal (hs h) = Some a \<longrightarrow> map_option pub (tx_recs w a) = Some (hs h)) \<and>
     (\<forall>h h' a. h \<noteq> h' \<longrightarrow> tx_internal (hs h) = Some a \<longrightarrow> tx_internal (hs h') \<noteq> Some a) \<and>
     (\<forall>m. g_tx_mgr w = Some m \<longrightarrow> free_list m = None)"

lemma run_view: "run_inv w hs \<Longrightarrow> tx_internal (hs h) = Some a \<Longrightarrow> \<exists>r. tx_recs w a = Some r \<and> pub r = hs h"
  unfolding run_inv_def by fastforce

text \<open>A call on a transaction that was begun does what the table says.\<close>

definition tx_stepped :: "tx_world \<Rightarrow> nat \<Rightarrow> tx_record \<Rightarrow> bool \<Rightarrow> tx_state
    \<Rightarrow> tx_world \<Rightarrow> danos_tx option \<Rightarrow> bool" where
  "tx_stepped w a r deref new w' x \<longleftrightarrow>
     x = Some ((pub r)\<lparr>txst := new\<rparr>) \<and> tx_recs w' = (tx_recs w)(a \<mapsto> r\<lparr>pub := (pub r)\<lparr>txst := new\<rparr>\<rparr>) \<and>
     tx_fresh w' = tx_fresh w \<and> map_option free_list (g_tx_mgr w') = map_option free_list (g_tx_mgr w) \<and>
     (tx_bad w' \<longleftrightarrow> tx_bad w \<or> g_tx_mgr w = None \<and> deref)"

lemmas tx_step_defs = tx_stepped_def tx_locked_def danos_tx_validate_ptr_def tx_put_def tx_dec_def tx_uses_manager_def

lemma put_same: "tx_recs w a = Some r \<Longrightarrow> (tx_recs w)(a \<mapsto> r\<lparr>pub := (pub r)\<lparr>txst := txst (pub r)\<rparr>\<rparr>) = tx_recs w"
  by (rule ext) simp

lemma call_stepped:
  assumes i: "tx_internal (pub r) = Some a" and r: "tx_recs w a = Some r" and nb: "\<And>who tm now. c \<noteq> TxBegin who tm now"
    and c: "tx_do w (Some (pub r)) c = (st, w', x)"
  shows "st = fst (tx_table c (txst (pub r))) \<and>
    tx_stepped w a r (tx_uses_manager w (pub r) c) (snd (tx_table c (txst (pub r)))) w' x"
proof (cases c)
  case TxPrepare
  then show ?thesis using c i r put_same [OF r]
    by (cases "txst (pub r)") (auto simp: danos_tx_prepare_def tx_step_defs)
next
  case TxValidate
  then show ?thesis using c i r put_same [OF r]
    by (cases "txst (pub r)") (auto simp: danos_tx_validate_def tx_step_defs)
next
  case (TxCommit late)
  then show ?thesis using c i r put_same [OF r]
    by (cases "txst (pub r)"; cases late) (auto simp: danos_tx_commit_def tx_step_defs Let_def)
next
  case TxVerify
  then show ?thesis using c i r put_same [OF r]
    by (cases "txst (pub r)"; cases "g_tx_mgr w") (auto simp: danos_tx_verify_def tx_step_defs)
next
  case TxAbort
  then show ?thesis using c i r put_same [OF r]
    by (cases "txst (pub r)"; cases "g_tx_mgr w") (auto simp: danos_tx_abort_def tx_step_defs)
next
  case TxRollback
  then show ?thesis using c i r put_same [OF r]
    by (cases "txst (pub r)"; cases "g_tx_mgr w") (auto simp: danos_tx_rollback_def tx_step_defs)
next
  case (TxCommitAtomic late)
  then show ?thesis using c i r put_same [OF r]
    by (cases "txst (pub r)"; cases "g_tx_mgr w"; cases late)
      (auto simp: danos_tx_commit_atomic_def tx_api_defs tx_step_defs Let_def)
qed (use nb in blast)

lemma call_unbegun:
  assumes "tx_internal t = None" and "\<And>who tm now. c \<noteq> TxBegin who tm now"
  shows "tx_do w (Some t) c = (ERR_TX_INVALID, w, Some t) \<and> \<not> tx_uses_manager w t c"
  using assms by (cases c) (auto simp: tx_api_defs danos_tx_commit_atomic_def tx_locked_def danos_tx_validate_ptr_def
      tx_uses_manager_def)

text \<open>The record, the handle and the manager that a successful begin leaves.\<close>

definition tx_begun :: "tx_world \<Rightarrow> tx_world \<Rightarrow> danos_tx \<Rightarrow> bool" where
  "tx_begun w w' t \<longleftrightarrow>
     tx_internal t = Some (tx_fresh w) \<and> txst t = TX_OPEN \<and> tx_fresh w' = Suc (tx_fresh w) \<and>
     tx_recs w' = (tx_recs w)(tx_fresh w \<mapsto> \<lparr>pub = t, in_use = True, tx_link = None\<rparr>)"

lemma begin_run:
  assumes inv: "run_inv w hs" and b: "danos_tx_begin w (Some t) who tm now = (st, w', x)"
  shows "(tx_bad w' \<longleftrightarrow> g_tx_mgr w = None \<and> \<not> tx_mem w (tx_mem_next w)) \<and>
    (\<forall>m. g_tx_mgr w' = Some m \<longrightarrow> free_list m = None) \<and>
    (st = ERR_NO_MEMORY \<and> x = Some t \<and> tx_recs w' = tx_recs w \<and> tx_fresh w' = tx_fresh w \<or>
     (\<exists>t'. st = DANOS_OK \<and> x = Some t' \<and> tx_begun w w' t'))"
proof (cases "g_tx_mgr w")
  case None
  then show ?thesis
    using inv b
    by (cases "tx_mem w (tx_mem_next w)"; cases "tx_mem w (Suc (tx_mem_next w))")
      (auto simp: run_inv_def danos_tx_begin_def danos_tx_manager_init_def danos_tx_record_alloc_def tx_calloc_def
        tx_begun_def Let_def)
next
  case (Some m)
  then show ?thesis
    using inv b
    by (cases "tx_mem w (tx_mem_next w)")
      (auto simp: run_inv_def danos_tx_begin_def danos_tx_record_alloc_def tx_calloc_def tx_begun_def Let_def)
qed

lemma fini_inv: "run_inv w hs \<Longrightarrow> run_inv (danos_tx_manager_fini w) hs"
proof (cases "g_tx_mgr w")
  case (Some m)
  assume inv: "run_inv w hs"
  then have "free_list m = None" using Some by (simp add: run_inv_def)
  then have "free_pool (tx_fresh w) (free_list m) (tx_recs w) = tx_recs w" by (cases "tx_fresh w") simp_all
  then show ?thesis using inv Some by (simp add: run_inv_def danos_tx_manager_fini_def)
qed (simp add: danos_tx_manager_fini_def)

lemma begun_inv:
  assumes inv: "run_inv w hs" and b: "tx_begun w w' t" and nb: "\<not> tx_bad w'"
    and fl: "\<forall>m. g_tx_mgr w' = Some m \<longrightarrow> free_list m = None"
  shows "run_inv w' (hs(h := t))"
proof -
  have dom: "dom (tx_recs w) = {..<tx_fresh w}" using inv by (simp add: run_inv_def)
  then have new: "tx_recs w (tx_fresh w) = None" by (metis domIff lessThan_iff less_irrefl)
  have own: "tx_internal (hs h') \<noteq> Some (tx_fresh w)" for h' using run_view [OF inv, of h' "tx_fresh w"] new by auto
  show ?thesis
    unfolding run_inv_def
  proof (intro conjI allI impI)
    show "dom (tx_recs w') = {..<tx_fresh w'}" using dom b by (auto simp: tx_begun_def lessThan_Suc)
    show "map_option pub (tx_recs w' a) = Some ((hs(h := t)) h')" if "tx_internal ((hs(h := t)) h') = Some a" for h' a
      using that b run_view [OF inv, of h' a] own [of h'] by (auto simp: tx_begun_def split: if_splits)
    show "tx_internal ((hs(h := t)) h2) \<noteq> Some a" if "h1 \<noteq> h2" "tx_internal ((hs(h := t)) h1) = Some a" for h1 h2 a
      using that b own inv by (auto simp: tx_begun_def run_inv_def split: if_splits)
  qed (use nb fl in auto)
qed

lemma stepped_inv:
  assumes inv: "run_inv w hs" and a: "tx_internal (hs h) = Some a" and r: "tx_recs w a = Some r" "pub r = hs h"
    and s: "tx_stepped w a r d new w' (Some t)" and nb: "\<not> tx_bad w'"
  shows "run_inv w' (hs(h := t))"
  unfolding run_inv_def
proof (intro conjI allI impI)
  have t: "t = (hs h)\<lparr>txst := new\<rparr>" and recs: "tx_recs w' = (tx_recs w)(a \<mapsto> r\<lparr>pub := t\<rparr>)"
    and fr: "tx_fresh w' = tx_fresh w" using s r by (simp_all add: tx_stepped_def)
  have own: "tx_internal (hs h2) \<noteq> Some b" if "h1 \<noteq> h2" "tx_internal (hs h1) = Some b" for h1 h2 b
    using that inv by (simp add: run_inv_def)
  show "dom (tx_recs w') = {..<tx_fresh w'}" using inv r by (auto simp: recs fr run_inv_def)
  show "map_option pub (tx_recs w' b) = Some ((hs(h := t)) h')" if b: "tx_internal ((hs(h := t)) h') = Some b" for h' b
  proof (cases "h' = h")
    case True
    then show ?thesis using b a by (simp add: t recs)
  next
    case False
    then have "b \<noteq> a" using own [of h' h b] a b by auto
    then show ?thesis using False b run_view [OF inv, of h' b] by (auto simp: recs)
  qed
  show "tx_internal ((hs(h := t)) h2) \<noteq> Some b" if "h1 \<noteq> h2" "tx_internal ((hs(h := t)) h1) = Some b" for h1 h2 b
    using that own [of h1 h2 b] by (auto simp: t split: if_splits)
  show "free_list m = None" if "g_tx_mgr w' = Some m" for m
    using that s inv by (cases "g_tx_mgr w") (auto simp: tx_stepped_def run_inv_def)
qed (rule nb)

text \<open>What one call of a run does: the three cases of the properties below.\<close>

lemma run_step:
  assumes inv: "run_inv w hs" and c: "tx_do w (Some (hs h)) c = (st, w', x)"
  obtains (begins) who tm now where "c = TxBegin who tm now" "danos_tx_begin w (Some (hs h)) who tm now = (st, w', x)"
  | (unbegun) "\<And>who tm now. c \<noteq> TxBegin who tm now" "tx_internal (hs h) = None" "st = ERR_TX_INVALID" "w' = w"
      "x = Some (hs h)" "\<not> tx_uses_manager w (hs h) c"
  | (table) a r where "\<And>who tm now. c \<noteq> TxBegin who tm now" "tx_internal (hs h) = Some a" "tx_recs w a = Some r"
      "pub r = hs h" "st = fst (tx_table c (txst (hs h)))"
      "tx_stepped w a r (tx_uses_manager w (hs h) c) (snd (tx_table c (txst (hs h)))) w' x"
proof (cases "\<exists>who tm now. c = TxBegin who tm now")
  case True
  then show ?thesis using c begins by fastforce
next
  case nb: False
  show ?thesis
  proof (cases "tx_internal (hs h)")
    case None
    then show ?thesis using call_unbegun [OF None, of c w] nb c unbegun by auto
  next
    case (Some a)
    then obtain r where r: "tx_recs w a = Some r" "pub r = hs h" using run_view [OF inv] by blast
    then show ?thesis using call_stepped [of r a w c st w' x] table [of a r] nb c Some by simp
  qed
qed

lemma run_call_inv:
  assumes inv: "run_inv w hs" and c: "tx_do w (Some (hs h)) c = (st, w', Some t)" and nb: "\<not> tx_bad w'"
  shows "run_inv w' (hs(h := t))"
  using inv c
proof (cases rule: run_step)
  case (begins who tm now)
  note b = begin_run [OF inv begins(2)]
  then show ?thesis
  proof (elim conjE disjE exE)
    assume "Some t = Some (hs h)" "tx_recs w' = tx_recs w" "tx_fresh w' = tx_fresh w"
    then show ?thesis using inv nb b by (simp add: run_inv_def)
  next
    fix t' assume "Some t = Some t'" "tx_begun w w' t'"
    then show ?thesis using begun_inv [OF inv _ nb] b by simp
  qed
next
  case unbegun
  then show ?thesis using inv by simp
next
  case (table a r)
  then show ?thesis using stepped_inv [OF inv _ _ _ _ nb] by blast
qed

lemma tx_run_inv: "tx_run w hs \<Longrightarrow> run_inv w hs"
proof (induction rule: tx_run.induct)
  case (run_boot mem)
  then show ?case by (simp add: run_inv_def tx_boot_def zero_tx_def)
next
  case (run_call w hs h c st w' t)
  then show ?case using run_call_inv by blast
next
  case (run_fini w hs)
  then show ?case using fini_inv by blast
qed

lemma run_bad:
  assumes inv: "run_inv w hs" and c: "tx_do w (Some (hs h)) c = (st, w', x)"
  shows "tx_bad w' \<longleftrightarrow> g_tx_mgr w = None \<and> tx_uses_manager w (hs h) c"
  using inv c
proof (cases rule: run_step)
  case (begins who tm now)
  then show ?thesis using begin_run [OF inv] by (simp add: tx_uses_manager_def)
next
  case unbegun
  then show ?thesis using inv by (simp add: run_inv_def)
next
  case (table a r)
  then show ?thesis using inv by (simp add: run_inv_def tx_stepped_def)
qed

lemma reach_run: "tx_reach n w hs \<Longrightarrow> tx_run w hs"
proof (induction rule: tx_reach.induct)
  case (boot mem)
  show ?case by (rule run_boot)
next
  case (call n w hs h c st w' t)
  have "tx_inv (if st = ERR_TX_TIMEOUT then Suc n else n) w' (hs(h := t))"
    by (rule reach_inv [OF tx_reach.call [OF call.hyps]])
  then have "\<not> tx_bad w'" by (simp add: tx_inv_def)
  then show ?case by (rule run_call [OF call.IH call.hyps(2)])
qed

lemma reach_ids_unique:
  assumes "tx_reach n w hs" and "tx_fresh w < 2 ^ 64" and "tx_recs w a = Some r" and "tx_recs w b = Some r'"
    and "tx_id (pub r) = tx_id (pub r')"
  shows "a = b"
proof -
  note inv = reach_inv [OF assms(1)]
  have "a < tx_fresh w" "b < tx_fresh w" using inv assms(3,4) by (auto simp: tx_inv_def)
  moreover have "(of_nat (Suc a) :: u64) = of_nat (Suc b)"
    using inv_rec [OF inv assms(3)] inv_rec [OF inv assms(4)] assms(5) by simp
  ultimately have "(of_nat a :: u64) = of_nat b" "a < 2 ^ 64" "b < 2 ^ 64" using assms(2) by simp_all
  then have "unat (of_nat a :: u64) = unat (of_nat b :: u64)" by simp
  then show ?thesis using \<open>a < 2 ^ 64\<close> \<open>b < 2 ^ 64\<close> by (simp add: unat_of_nat)
qed

subsection \<open>Properties of every run\<close>

text \<open>
  C26: When the transaction engine is memory safe, and that its handles are truthful. In every
  run, with failing allocations and teardown of the manager anywhere, no bad pointer has been
  followed, the public fields of a handle equal those of its record, and two handles never share
  a record. The next call follows a bad pointer exactly when there is no manager and the call
  uses it: a begin whose allocation of the manager fails, or an accepted commit, verify, abort,
  rollback or one-call commit on a handle that outlived \<^verbatim>\<open>danos_tx_manager_fini\<close>. In the runs
  where the manager is allocated and not torn down, no call ever does, and while fewer than
  \<open>2\<^sup>6\<^sup>4\<close> transactions were begun no two records have the same transaction id.
\<close>

theorem tx_handles_safe:
  assumes "tx_run w hs"
  shows "\<not> tx_bad w \<and>
    (\<forall>h a. tx_internal (hs h) = Some a \<longrightarrow> map_option pub (tx_recs w a) = Some (hs h)) \<and>
    (\<forall>h h' a. h \<noteq> h' \<longrightarrow> tx_internal (hs h) = Some a \<longrightarrow> tx_internal (hs h') \<noteq> Some a) \<and>
    (\<forall>h c. tx_bad (fst (snd (tx_do w (Some (hs h)) c))) \<longleftrightarrow> g_tx_mgr w = None \<and> tx_uses_manager w (hs h) c) \<and>
    (\<forall>n. tx_reach n w hs \<longrightarrow>
      (\<forall>h c. \<not> tx_bad (fst (snd (tx_do w (Some (hs h)) c)))) \<and>
      (tx_fresh w < 2 ^ 64 \<longrightarrow>
        (\<forall>a b r r'. tx_recs w a = Some r \<longrightarrow> tx_recs w b = Some r' \<longrightarrow> tx_id (pub r) = tx_id (pub r') \<longrightarrow> a = b)))"
proof -
  note inv = tx_run_inv [OF assms]
  have bad: "tx_bad (fst (snd (tx_do w (Some (hs h)) c))) \<longleftrightarrow> g_tx_mgr w = None \<and> tx_uses_manager w (hs h) c" for h c
    using run_bad [OF inv, of h c] by (metis prod.collapse)
  have safe: "\<not> tx_bad (fst (snd (tx_do w (Some (hs h)) c)))" if "tx_reach n w hs" for n h c
    using call_inv [OF reach_inv [OF that], of h c] by (metis prod.collapse tx_inv_def)
  have ids: "a = b" if "tx_reach n w hs" "tx_fresh w < 2 ^ 64" "tx_recs w a = Some r" "tx_recs w b = Some r'"
      "tx_id (pub r) = tx_id (pub r')" for n a b r r'
    by (rule reach_ids_unique [OF that])
  have "\<not> tx_bad w" "\<forall>h a. tx_internal (hs h) = Some a \<longrightarrow> map_option pub (tx_recs w a) = Some (hs h)"
    "\<forall>h h' a. h \<noteq> h' \<longrightarrow> tx_internal (hs h) = Some a \<longrightarrow> tx_internal (hs h') \<noteq> Some a"
    using inv unfolding run_inv_def by blast+
  then show ?thesis using bad safe ids by (intro conjI) blast+
qed

text \<open>
  The count of active transactions. In every reachable state it is the number of
  records that are not done, aborted or rolled back, plus the number of commits that ran
  into the writer-lock timeout: those end in ABORT without giving their count back.
\<close>

theorem tx_active_count:
  assumes "tx_reach n w hs" and "g_tx_mgr w = Some m"
  shows "active_count m = of_nat (card (live w) + n)"
  using reach_inv [OF assms(1)] assms(2) by (simp add: tx_inv_def)


text \<open>
  C27: The one-call commit. On an open transaction it ends in DONE and gives the active
  count back, or, when the writer lock is not obtained in time, returns TX_TIMEOUT with the
  transaction aborted and the active count kept; in both cases a later abort is refused.
\<close>

theorem tx_commit_atomic_outcome:
  assumes "tx_reach n w hs" and "tx_internal (hs h) = Some a" and "txst (hs h) = TX_OPEN"
    and "g_tx_mgr w = Some m" and "danos_tx_commit_atomic w (Some (hs h)) late = (st, w', x)"
  shows "st = (if late then ERR_TX_TIMEOUT else DANOS_OK) \<and>
    map_option txst x = Some (if late then TX_ABORT else TX_DONE) \<and>
    map_option active_count (g_tx_mgr w') = Some (if late then active_count m else active_count m - 1) \<and>
    fst (danos_tx_abort w' x) = ERR_TX_INVALID"
proof -
  obtain r where r: "tx_recs w a = Some r" "pub r = hs h"
    using inv_view [OF reach_inv [OF assms(1)] assms(2)] by auto
  show ?thesis
    using assms(2-5) r
    by (cases late)
      (auto simp: danos_tx_commit_atomic_def tx_api_defs tx_locked_def danos_tx_validate_ptr_def tx_put_def tx_dec_def
        tx_code.simps)
qed

subsection \<open>A sample run\<close>

definition sample_tx :: danos_tx where
  "sample_tx = \<lparr>tx_id = 1, txst = TX_OPEN, start_ns = 5, deadline_ns = 1600000005, initiator = Some ''unknown'',
     tx_internal = Some 0\<rparr>"

definition sample_world :: tx_world where
  "sample_world = \<lparr>g_tx_mgr = Some \<lparr>free_list = None, next_tx_id = 2, active_count = 1\<rparr>,
     tx_recs = [0 \<mapsto> \<lparr>pub = sample_tx, in_use = True, tx_link = None\<rparr>], tx_fresh = 1, tx_mem = (\<lambda>_. True),
     tx_mem_next = 2, tx_bad = False\<rparr>"

lemma sample_reach: "tx_reach 0 sample_world ((\<lambda>_. zero_tx)(0 := sample_tx))"
proof -
  have "tx_do (tx_boot (\<lambda>_. True)) (Some zero_tx) (TxBegin None None 5) = (DANOS_OK, sample_world, Some sample_tx)"
    by (simp add: danos_tx_begin_def tx_boot_def danos_tx_manager_init_def danos_tx_record_alloc_def tx_calloc_def
        kDefaultTimeouts_def sample_world_def sample_tx_def Let_def)
  from tx_reach.call [OF tx_reach.boot this] show ?thesis by simp
qed

text \<open>A run in which the manager is torn down while the sample transaction is open.\<close>

definition torn_world :: tx_world where
  "torn_world = sample_world\<lparr>g_tx_mgr := None\<rparr>"

lemma torn_run: "tx_run torn_world ((\<lambda>_. zero_tx)(0 := sample_tx))"
  using run_fini [OF reach_run [OF sample_reach]] by (simp add: torn_world_def sample_world_def danos_tx_manager_fini_def)

theorem tx_handles_safe_witness:
  "tx_run torn_world ((\<lambda>_. zero_tx)(0 := sample_tx)) \<and> \<not> tx_bad torn_world \<and>
     map_option pub (tx_recs torn_world 0) = Some sample_tx \<and>
     tx_bad (fst (snd (tx_do torn_world (Some sample_tx) TxAbort))) \<and>
     \<not> tx_bad (fst (snd (tx_do torn_world (Some sample_tx) TxPrepare)))"
proof -
  note safe = tx_handles_safe [OF torn_run]
  have "tx_bad (fst (snd (tx_do torn_world (Some (((\<lambda>_. zero_tx)(0 := sample_tx)) 0)) TxAbort)))"
    using safe [THEN conjunct2, THEN conjunct2, THEN conjunct2, THEN conjunct1, rule_format, of 0 TxAbort]
    by (simp add: torn_world_def sample_tx_def tx_uses_manager_def)
  moreover have "\<not> tx_bad (fst (snd (tx_do torn_world (Some (((\<lambda>_. zero_tx)(0 := sample_tx)) 0)) TxPrepare)))"
    using safe [THEN conjunct2, THEN conjunct2, THEN conjunct2, THEN conjunct1, rule_format, of 0 TxPrepare]
    by (simp add: tx_uses_manager_def)
  ultimately show ?thesis using torn_run by (simp add: torn_world_def sample_world_def)
qed

theorem tx_active_count_witness:
  "tx_reach 0 sample_world ((\<lambda>_. zero_tx)(0 := sample_tx)) \<and> (1 :: u64) = of_nat (card (live sample_world))"
  using tx_active_count [OF sample_reach, of "the (g_tx_mgr sample_world)"] sample_reach
  by (simp add: sample_world_def)


theorem tx_commit_atomic_outcome_witness:
  "\<exists>w' x. danos_tx_commit_atomic sample_world (Some sample_tx) True = (ERR_TX_TIMEOUT, w', x) \<and>
     map_option active_count (g_tx_mgr w') = Some 1 \<and> fst (danos_tx_abort w' x) = ERR_TX_INVALID"
proof -
  obtain st w' x where c: "danos_tx_commit_atomic sample_world (Some (((\<lambda>_. zero_tx)(0 := sample_tx)) 0)) True = (st, w', x)"
    by (metis surj_pair)
  show ?thesis
    using tx_commit_atomic_outcome [OF sample_reach, of 0 0 "\<lparr>free_list = None, next_tx_id = 2, active_count = 1\<rparr>"
        True st w' x] c
    by (simp add: sample_world_def sample_tx_def)
qed
end
