(* ===== verification/Hpack_Huffman.thy ===== *)
theory Hpack_Huffman
  imports Danos_Prelude
begin

text \<open>
  The Huffman code of \<^verbatim>\<open>danos-mgmt/src/gnmi/hpack_huffman.c\<close>: the code table of RFC 7541, the
  ranges the decoder builds from it, and the bit-by-bit decoder and encoder. Strings are lists
  of bytes; the output buffer of the decoder and of the encoder is bounded by a capacity. The C code
  returns the number of bytes as an \<^verbatim>\<open>int\<close>, which is exact below 2 GiB.
\<close>

subsection \<open>The tables\<close>

definition hpack_huffman_codes :: "u32 list" where
  "hpack_huffman_codes = [
     0x00001ff8, 0x007fffd8, 0x0fffffe2, 0x0fffffe3, 0x0fffffe4, 0x0fffffe5,
     0x0fffffe6, 0x0fffffe7, 0x0fffffe8, 0x00ffffea, 0x3ffffffc, 0x0fffffe9,
     0x0fffffea, 0x3ffffffd, 0x0fffffeb, 0x0fffffec, 0x0fffffed, 0x0fffffee,
     0x0fffffef, 0x0ffffff0, 0x0ffffff1, 0x0ffffff2, 0x3ffffffe, 0x0ffffff3,
     0x0ffffff4, 0x0ffffff5, 0x0ffffff6, 0x0ffffff7, 0x0ffffff8, 0x0ffffff9,
     0x0ffffffa, 0x0ffffffb, 0x00000014, 0x000003f8, 0x000003f9, 0x00000ffa,
     0x00001ff9, 0x00000015, 0x000000f8, 0x000007fa, 0x000003fa, 0x000003fb,
     0x000000f9, 0x000007fb, 0x000000fa, 0x00000016, 0x00000017, 0x00000018,
     0x00000000, 0x00000001, 0x00000002, 0x00000019, 0x0000001a, 0x0000001b,
     0x0000001c, 0x0000001d, 0x0000001e, 0x0000001f, 0x0000005c, 0x000000fb,
     0x00007ffc, 0x00000020, 0x00000ffb, 0x000003fc, 0x00001ffa, 0x00000021,
     0x0000005d, 0x0000005e, 0x0000005f, 0x00000060, 0x00000061, 0x00000062,
     0x00000063, 0x00000064, 0x00000065, 0x00000066, 0x00000067, 0x00000068,
     0x00000069, 0x0000006a, 0x0000006b, 0x0000006c, 0x0000006d, 0x0000006e,
     0x0000006f, 0x00000070, 0x00000071, 0x00000072, 0x000000fc, 0x00000073,
     0x000000fd, 0x00001ffb, 0x0007fff0, 0x00001ffc, 0x00003ffc, 0x00000022,
     0x00007ffd, 0x00000003, 0x00000023, 0x00000004, 0x00000024, 0x00000005,
     0x00000025, 0x00000026, 0x00000027, 0x00000006, 0x00000074, 0x00000075,
     0x00000028, 0x00000029, 0x0000002a, 0x00000007, 0x0000002b, 0x00000076,
     0x0000002c, 0x00000008, 0x00000009, 0x0000002d, 0x00000077, 0x00000078,
     0x00000079, 0x0000007a, 0x0000007b, 0x00007ffe, 0x000007fc, 0x00003ffd,
     0x00001ffd, 0x0ffffffc, 0x000fffe6, 0x003fffd2, 0x000fffe7, 0x000fffe8,
     0x003fffd3, 0x003fffd4, 0x003fffd5, 0x007fffd9, 0x003fffd6, 0x007fffda,
     0x007fffdb, 0x007fffdc, 0x007fffdd, 0x007fffde, 0x00ffffeb, 0x007fffdf,
     0x00ffffec, 0x00ffffed, 0x003fffd7, 0x007fffe0, 0x00ffffee, 0x007fffe1,
     0x007fffe2, 0x007fffe3, 0x007fffe4, 0x001fffdc, 0x003fffd8, 0x007fffe5,
     0x003fffd9, 0x007fffe6, 0x007fffe7, 0x00ffffef, 0x003fffda, 0x001fffdd,
     0x000fffe9, 0x003fffdb, 0x003fffdc, 0x007fffe8, 0x007fffe9, 0x001fffde,
     0x007fffea, 0x003fffdd, 0x003fffde, 0x00fffff0, 0x001fffdf, 0x003fffdf,
     0x007fffeb, 0x007fffec, 0x001fffe0, 0x001fffe1, 0x003fffe0, 0x001fffe2,
     0x007fffed, 0x003fffe1, 0x007fffee, 0x007fffef, 0x000fffea, 0x003fffe2,
     0x003fffe3, 0x003fffe4, 0x007ffff0, 0x003fffe5, 0x003fffe6, 0x007ffff1,
     0x03ffffe0, 0x03ffffe1, 0x000fffeb, 0x0007fff1, 0x003fffe7, 0x007ffff2,
     0x003fffe8, 0x01ffffec, 0x03ffffe2, 0x03ffffe3, 0x03ffffe4, 0x07ffffde,
     0x07ffffdf, 0x03ffffe5, 0x00fffff1, 0x01ffffed, 0x0007fff2, 0x001fffe3,
     0x03ffffe6, 0x07ffffe0, 0x07ffffe1, 0x03ffffe7, 0x07ffffe2, 0x00fffff2,
     0x001fffe4, 0x001fffe5, 0x03ffffe8, 0x03ffffe9, 0x0ffffffd, 0x07ffffe3,
     0x07ffffe4, 0x07ffffe5, 0x000fffec, 0x00fffff3, 0x000fffed, 0x001fffe6,
     0x003fffe9, 0x001fffe7, 0x001fffe8, 0x007ffff3, 0x003fffea, 0x003fffeb,
     0x01ffffee, 0x01ffffef, 0x00fffff4, 0x00fffff5, 0x03ffffea, 0x007ffff4,
     0x03ffffeb, 0x07ffffe6, 0x03ffffec, 0x03ffffed, 0x07ffffe7, 0x07ffffe8,
     0x07ffffe9, 0x07ffffea, 0x07ffffeb, 0x0ffffffe, 0x07ffffec, 0x07ffffed,
     0x07ffffee, 0x07ffffef, 0x07fffff0, 0x03ffffee, 0x3fffffff]"

definition hpack_huffman_lens :: "nat list" where
  "hpack_huffman_lens = [
     13, 23, 28, 28, 28, 28, 28, 28, 28, 24, 30, 28, 28, 30, 28, 28,
     28, 28, 28, 28, 28, 28, 30, 28, 28, 28, 28, 28, 28, 28, 28, 28,
     6, 10, 10, 12, 13, 6, 8, 11, 10, 10, 8, 11, 8, 6, 6, 6,
     5, 5, 5, 6, 6, 6, 6, 6, 6, 6, 7, 8, 15, 6, 12, 10,
     13, 6, 7, 7, 7, 7, 7, 7, 7, 7, 7, 7, 7, 7, 7, 7,
     7, 7, 7, 7, 7, 7, 7, 7, 8, 7, 8, 13, 19, 13, 14, 6,
     15, 5, 6, 5, 6, 5, 6, 6, 6, 5, 7, 7, 6, 6, 6, 5,
     6, 7, 6, 5, 5, 6, 7, 7, 7, 7, 7, 15, 11, 14, 13, 28,
     20, 22, 20, 20, 22, 22, 22, 23, 22, 23, 23, 23, 23, 23, 24, 23,
     24, 24, 22, 23, 24, 23, 23, 23, 23, 21, 22, 23, 22, 23, 23, 24,
     22, 21, 20, 22, 22, 23, 23, 21, 23, 22, 22, 24, 21, 22, 23, 23,
     21, 21, 22, 21, 23, 22, 23, 23, 20, 22, 22, 22, 23, 22, 22, 23,
     26, 26, 20, 19, 22, 23, 22, 25, 26, 26, 26, 27, 27, 26, 24, 25,
     19, 21, 26, 27, 27, 26, 27, 24, 21, 21, 26, 26, 28, 27, 27, 27,
     20, 24, 20, 21, 22, 21, 21, 23, 22, 22, 25, 25, 24, 24, 26, 23,
     26, 27, 26, 26, 27, 27, 27, 27, 27, 28, 27, 27, 27, 27, 27, 26,
     30]"

definition HUF_MAX_LEN :: nat where "HUF_MAX_LEN = 30"

definition HUF_MAX_SYMS :: nat where "HUF_MAX_SYMS = 40"

record huf_range =
  min_code :: u32
  rcount :: nat
  rsyms :: "u16 list"

text \<open>
  The loop body of \<^verbatim>\<open>huf_build_ranges\<close> for symbol \<open>s\<close> with length \<open>l\<close> and code \<open>c\<close>; the cast of the
  symbol to a byte turns EOS, 256, into 0.
\<close>

definition huf_add :: "nat \<Rightarrow> nat \<Rightarrow> u32 \<Rightarrow> huf_range list \<Rightarrow> huf_range list" where
  "huf_add s l c rs =
     (let r = rs ! l;
          r1 = (if rcount r = 0 \<or> c < min_code r then r\<lparr>min_code := c\<rparr> else r);
          r2 = (if rcount r < HUF_MAX_SYMS
                then r1\<lparr>rsyms := (rsyms r1)[rcount r := ucast (of_nat s :: u8)]\<rparr> else r1)
      in rs[l := r2\<lparr>rcount := rcount r + 1\<rparr>])"

definition huf_build_ranges :: "huf_range list" where
  "huf_build_ranges =
     fold (\<lambda>s. huf_add s (hpack_huffman_lens ! s) (hpack_huffman_codes ! s)) [0..<257]
       (replicate (HUF_MAX_LEN + 1) \<lparr>min_code = 0, rcount = 0, rsyms = replicate HUF_MAX_SYMS 0\<rparr>)"

subsection \<open>The decoder\<close>

type_synonym huf_state = "u32 \<times> nat \<times> bytes"

text \<open>
  The body of the bit loop; the state is the code read so far, its length and the output.
\<close>

definition huf_bit :: "nat \<Rightarrow> bool \<Rightarrow> huf_state \<Rightarrow> huf_state option" where
  "huf_bit cap b st =
     (let (code0, clen0, out) = st;
          code = push_bit 1 code0 OR of_bool b;
          clen = clen0 + 1
      in if clen > HUF_MAX_LEN then None
         else
           (let r = huf_build_ranges ! clen
            in if rcount r > 0 \<and> code \<ge> min_code r \<and> code < min_code r + of_nat (rcount r)
               then
                 (let sym = rsyms r ! unat (code - min_code r)
                  in if sym = 256 then None
                     else if length out \<ge> cap then None
                     else Some (0, 0, out @ [ucast sym]))
               else Some (code, clen, out)))"

fun huf_bits :: "nat \<Rightarrow> bool list \<Rightarrow> huf_state \<Rightarrow> huf_state option" where
  "huf_bits cap [] st = Some st"
| "huf_bits cap (b # bs) st = (case huf_bit cap b st of None \<Rightarrow> None | Some st' \<Rightarrow> huf_bits cap bs st')"

definition byte_bits :: "u8 \<Rightarrow> bool list" where
  "byte_bits b = map (bit b) [7, 6, 5, 4, 3, 2, 1, 0]"

fun huf_bytes :: "nat \<Rightarrow> bytes \<Rightarrow> huf_state \<Rightarrow> huf_state option" where
  "huf_bytes cap [] st = Some st"
| "huf_bytes cap (b # bs) st =
     (case huf_bits cap (byte_bits b) st of None \<Rightarrow> None | Some st' \<Rightarrow> huf_bytes cap bs st')"

definition hpack_huffman_decode :: "bytes \<Rightarrow> nat \<Rightarrow> bytes option" where
  "hpack_huffman_decode data out_cap =
     (case huf_bytes out_cap data (0, 0, []) of
        None \<Rightarrow> None
      | Some (code, clen, out) \<Rightarrow>
          (if clen > 0
           then (if clen \<ge> 8 then None else if code \<noteq> push_bit clen 1 - 1 then None else Some out)
           else Some out))"

subsection \<open>The encoder\<close>

text \<open>The loop that moves whole bytes from the accumulator to the buffer.\<close>

function huf_flush :: "nat \<Rightarrow> u64 \<Rightarrow> nat \<Rightarrow> bytes \<Rightarrow> (u64 \<times> nat \<times> bytes) option" where
  "huf_flush cap acc nbits out =
     (if nbits \<ge> 8
      then
        (if length out \<ge> cap then None
         else huf_flush cap (acc AND ucast (push_bit (nbits - 8) (1 :: u32) - 1)) (nbits - 8)
                (out @ [ucast (drop_bit (nbits - 8) acc)]))
      else Some (acc, nbits, out))"
  by pat_completeness auto
termination
  by (relation "measure (\<lambda>(cap, acc, nbits, out). nbits)") auto

declare huf_flush.simps [simp del]

fun huf_encode_loop :: "nat \<Rightarrow> bytes \<Rightarrow> (u64 \<times> nat \<times> bytes) \<Rightarrow> (u64 \<times> nat \<times> bytes) option" where
  "huf_encode_loop cap [] st = Some st"
| "huf_encode_loop cap (s # ss) (acc, nbits, out) =
     (let l = hpack_huffman_lens ! unat s;
          c = hpack_huffman_codes ! unat s
      in (case huf_flush cap (push_bit l acc OR ucast c) (nbits + l) out of
            None \<Rightarrow> None
          | Some st \<Rightarrow> huf_encode_loop cap ss st))"

definition hpack_huffman_encode :: "nat \<Rightarrow> bytes \<Rightarrow> bytes option" where
  "hpack_huffman_encode cap s =
     (case huf_encode_loop cap (cstr s) (0, 0, []) of
        None \<Rightarrow> None
      | Some (acc, nbits, out) \<Rightarrow>
          (if nbits > 0
           then
             (let acc' = push_bit (8 - nbits) acc OR ucast (push_bit (8 - nbits) (1 :: u32) - 1)
              in if length out \<ge> cap then None else Some (out @ [ucast acc']))
           else Some out))"

subsection \<open>The ranges, evaluated\<close>

definition huf_range_zero :: huf_range where
  "huf_range_zero = \<lparr>min_code = 0, rcount = 0, rsyms = replicate HUF_MAX_SYMS 0\<rparr>"

definition huf_range_of :: "u32 \<Rightarrow> u16 list \<Rightarrow> huf_range" where
  "huf_range_of c ss = \<lparr>min_code = c, rcount = length ss, rsyms = ss @ replicate (HUF_MAX_SYMS - length ss) 0\<rparr>"

definition huf_ranges :: "huf_range list" where
  "huf_ranges = [
     huf_range_zero,
          huf_range_zero,
          huf_range_zero,
          huf_range_zero,
          huf_range_zero,
          huf_range_of 0 [48, 49, 50, 97, 99, 101, 105, 111, 115, 116],
          huf_range_of 20 [32, 37, 45, 46, 47, 51, 52, 53, 54, 55, 56, 57, 61, 65, 95, 98, 100, 102,
       103, 104, 108, 109, 110, 112, 114, 117],
          huf_range_of 92 [58, 66, 67, 68, 69, 70, 71, 72, 73, 74, 75, 76, 77, 78, 79, 80, 81, 82,
       83, 84, 85, 86, 87, 89, 106, 107, 113, 118, 119, 120, 121, 122],
          huf_range_of 248 [38, 42, 44, 59, 88, 90],
          huf_range_zero,
          huf_range_of 1016 [33, 34, 40, 41, 63],
          huf_range_of 2042 [39, 43, 124],
          huf_range_of 4090 [35, 62],
          huf_range_of 8184 [0, 36, 64, 91, 93, 126],
          huf_range_of 16380 [94, 125],
          huf_range_of 32764 [60, 96, 123],
          huf_range_zero,
          huf_range_zero,
          huf_range_zero,
          huf_range_of 524272 [92, 195, 208],
          huf_range_of 1048550 [128, 130, 131, 162, 184, 194, 224, 226],
          huf_range_of 2097116 [153, 161, 167, 172, 176, 177, 179, 209, 216, 217, 227, 229, 230],
          huf_range_of 4194258 [129, 132, 133, 134, 136, 146, 154, 156, 160, 163, 164, 169, 170,
       173, 178, 181, 185, 186, 187, 189, 190, 196, 198, 228, 232, 233],
          huf_range_of 8388568 [1, 135, 137, 138, 139, 140, 141, 143, 147, 149, 150, 151, 152, 155,
       157, 158, 165, 166, 168, 174, 175, 180, 182, 183, 188, 191, 197, 231, 239],
          huf_range_of 16777194 [9, 142, 144, 145, 148, 159, 171, 206, 215, 225, 236, 237],
          huf_range_of 33554412 [199, 207, 234, 235],
          huf_range_of 67108832 [192, 193, 200, 201, 202, 205, 210, 213, 218, 219, 238, 240, 242,
       243, 255],
          huf_range_of 134217694 [203, 204, 211, 212, 214, 221, 222, 223, 241, 244, 245, 246, 247,
       248, 250, 251, 252, 253, 254],
          huf_range_of 268435426 [2, 3, 4, 5, 6, 7, 8, 11, 12, 14, 15, 16, 17, 18, 19, 20, 21, 23,
       24, 25, 26, 27, 28, 29, 30, 31, 127, 220, 249],
          huf_range_zero,
          huf_range_of 1073741820 [10, 13, 22, 0]]"

text \<open>The same loop walking along the tables.\<close>

primrec table_walk :: "nat \<Rightarrow> nat list \<Rightarrow> u32 list \<Rightarrow> huf_range list \<Rightarrow> huf_range list" where
  "table_walk s [] cs rs = rs"
| "table_walk s (l # ls) cs rs = table_walk (Suc s) ls (tl cs) (huf_add s l (hd cs) rs)"

lemma table_walk_fold:
  "length cs = length ls \<Longrightarrow>
     table_walk s ls cs rs = fold (\<lambda>i. huf_add i (ls ! (i - s)) (cs ! (i - s))) [s..<s + length ls] rs"
proof (induction ls arbitrary: s cs rs)
  case (Cons l ls)
  then obtain c cs' where cs: "cs = c # cs'" "length cs' = length ls" by (cases cs) auto
  let ?f = "\<lambda>i. huf_add i ((l # ls) ! (i - s)) (cs ! (i - s))"
  have e: "[s..<s + length (l # ls)] = s # [Suc s..<Suc s + length ls]" by (simp add: upt_conv_Cons del: upt_Suc)
  have "table_walk s (l # ls) cs rs =
      fold (\<lambda>i. huf_add i (ls ! (i - Suc s)) (cs' ! (i - Suc s))) [Suc s..<Suc s + length ls] (huf_add s l c rs)"
    using Cons.IH [OF cs(2), of "Suc s"] cs by simp
  also have "\<dots> = fold ?f [Suc s..<Suc s + length ls] (huf_add s l c rs)"
  proof (rule fold_cong)
    fix i assume "i \<in> set [Suc s..<Suc s + length ls]"
    then have "i - s = Suc (i - Suc s)" by auto
    then show "huf_add i (ls ! (i - Suc s)) (cs' ! (i - Suc s)) = ?f i" by (simp add: cs)
  qed simp_all
  also have "\<dots> = fold ?f [s..<s + length (l # ls)] rs" unfolding e by (simp add: cs)
  finally show ?case .
qed simp

lemma tables_length: "length hpack_huffman_lens = 257" "length hpack_huffman_codes = 257"
  by (simp_all add: hpack_huffman_lens_def hpack_huffman_codes_def)

lemma ranges_walk: "huf_build_ranges = table_walk 0 hpack_huffman_lens hpack_huffman_codes (replicate 31 huf_range_zero)"
  by (simp add: huf_build_ranges_def table_walk_fold tables_length huf_range_zero_def HUF_MAX_LEN_def)

lemma ranges_eval: "table_walk 0 hpack_huffman_lens hpack_huffman_codes (replicate 31 huf_range_zero) = huf_ranges"
  by code_simp

text \<open>Every symbol but EOS is found at its code.\<close>

definition sym_found :: "nat \<Rightarrow> nat \<Rightarrow> u32 \<Rightarrow> bool" where
  "sym_found s l c \<longleftrightarrow>
     (let r = huf_ranges ! l
      in 5 \<le> l \<and> l \<le> 30 \<and> drop_bit l c = 0 \<and> min_code r \<le> c \<and> unat (c - min_code r) < rcount r \<and>
         rsyms r ! unat (c - min_code r) = of_nat s)"

primrec syms_found :: "nat \<Rightarrow> nat list \<Rightarrow> u32 list \<Rightarrow> bool" where
  "syms_found s [] cs \<longleftrightarrow> True"
| "syms_found s (l # ls) cs \<longleftrightarrow> sym_found s l (hd cs) \<and> syms_found (Suc s) ls (tl cs)"

lemma syms_found_nth:
  "syms_found s ls cs \<Longrightarrow> length cs = length ls \<Longrightarrow> i < length ls \<Longrightarrow> sym_found (s + i) (ls ! i) (cs ! i)"
proof (induction ls arbitrary: s cs i)
  case (Cons l ls)
  then obtain c cs' where "cs = c # cs'" by (cases cs) auto
  then show ?case using Cons by (cases i) force+
qed simp

lemma syms_found_all: "syms_found 0 (butlast hpack_huffman_lens) (butlast hpack_huffman_codes)"
  by code_simp

text \<open>The smallest code and the number of codes of every length.\<close>

definition huf_mins :: "u32 list" where
  "huf_mins = [0, 0, 0, 0, 0, 0, 20, 92, 248, 0, 1016, 2042, 4090, 8184, 16380, 32764, 0, 0, 0, 524272, 1048550, 2097116, 4194258, 8388568, 16777194, 33554412, 67108832, 134217694, 268435426, 0, 1073741820]"

definition huf_counts :: "nat list" where
  "huf_counts = [0, 0, 0, 0, 0, 10, 26, 32, 6, 0, 5, 3, 2, 6, 2, 3, 0, 0, 0, 3, 8, 13, 26, 29, 12, 4, 15, 19, 29, 0, 4]"

lemma ranges_heads: "map min_code huf_ranges = huf_mins \<and> map rcount huf_ranges = huf_counts"
  by code_simp

text \<open>No code has a shorter code as a prefix, since the shorter codes all lie below its prefix.\<close>

lemma prefix_free_table:
  "list_all (\<lambda>l. huf_counts ! l = 0 \<or>
     list_all (\<lambda>j. huf_counts ! j = 0 \<or>
       huf_mins ! j + of_nat (huf_counts ! j) \<le> drop_bit (l - j) (huf_mins ! l)) [0..<l]) [0..<31]"
  by code_simp

lemma padding_free_table:
  "list_all (\<lambda>k. huf_counts ! k = 0 \<or> huf_mins ! k + of_nat (huf_counts ! k) \<le> push_bit k 1 - 1) [1..<8]"
  by code_simp
end
