(* ===== verification/Huffman_Codec.thy ===== *)
theory Huffman_Codec
  imports Hpack_Huffman
begin

text \<open>
  Correctness of the Huffman coder of HPACK: decoding inverts encoding, the decoder never
  runs out of the buffer its caller provides, and the end-of-string code is accepted.
\<close>

subsection \<open>Words as lists of bits\<close>

definition wbits :: "nat \<Rightarrow> 'a::len word \<Rightarrow> bool list" where
  "wbits n w = map (bit w) (rev [0..<n])"

lemma length_wbits [simp]: "length (wbits n w) = n"
  by (simp add: wbits_def)

lemma wbits_0 [simp]: "wbits 0 w = []"
  by (simp add: wbits_def)

lemma wbits_Suc: "wbits (Suc n) w = bit w n # wbits n w"
  by (simp add: wbits_def)

lemma wbits_cong: "(\<And>i. i < n \<Longrightarrow> bit v i = bit w i) \<Longrightarrow> wbits n v = wbits n w"
  by (simp add: wbits_def)

lemma byte_bits_wbits: "byte_bits b = wbits 8 b"
proof -
  have "rev [0..<8] = [7, 6, 5, 4, 3, 2, 1, 0 :: nat]" by code_simp
  then show ?thesis by (simp add: byte_bits_def wbits_def)
qed

lemma wbits_append:
  assumes "\<And>i. i < m \<Longrightarrow> bit w i = bit c i" and "\<And>i. i < n \<Longrightarrow> bit w (m + i) = bit a i"
  shows "wbits (n + m) w = wbits n a @ wbits m c"
  using assms(2)
proof (induction n)
  case 0
  then show ?case using wbits_cong [of m w c] assms(1) by auto
next
  case (Suc n)
  have "wbits (n + m) w = wbits n a @ wbits m c" using Suc less_SucI by blast
  moreover have "bit w (n + m) = bit a n" using Suc.prems [of n] by (simp add: add.commute)
  ultimately show ?case by (simp add: wbits_Suc)
qed

lemma wbits_shift_in:
  fixes acc :: u64 and c :: u32
  assumes "drop_bit l c = 0" and "n + l \<le> 64" and "l \<le> 32"
  shows "wbits (n + l) (push_bit l acc OR ucast c) = wbits n acc @ wbits l c"
proof (rule wbits_append)
  have z: "\<not> bit c (l + i)" for i using arg_cong [OF assms(1), of "\<lambda>x. bit x i"] by (simp add: bit_drop_bit_eq)
  show "bit (push_bit l acc OR ucast c) i = bit c i" if "i < l" for i
    using that assms by (auto simp: bit_simps)
  show "bit (push_bit l acc OR ucast c) (l + i) = bit acc i" if "i < n" for i
    using that assms z [of i] by (auto simp: bit_simps)
qed

lemma wbits_byte_out:
  fixes acc :: u64
  assumes "8 \<le> n" and "n \<le> 64"
  shows "wbits n acc = byte_bits (ucast (drop_bit (n - 8) acc)) @ wbits (n - 8) acc"
proof -
  have "wbits (8 + (n - 8)) acc = wbits 8 (ucast (drop_bit (n - 8) acc) :: u8) @ wbits (n - 8) acc"
    using assms by (intro wbits_append) (auto simp: bit_simps)
  then show ?thesis using assms by (simp add: byte_bits_wbits)
qed

lemma wbits_masked:
  fixes acc :: u64
  assumes "n < 32"
  shows "wbits n (acc AND ucast (push_bit n (1 :: u32) - 1)) = wbits n acc"
proof (rule wbits_cong)
  fix i assume "i < n"
  have "push_bit n (1 :: u32) - 1 = Bit_Operations.mask n" by (simp add: mask_eq_exp_minus_1 push_bit_eq_mult)
  then show "bit (acc AND ucast (push_bit n (1 :: u32) - 1)) i = bit acc i"
    using assms \<open>i < n\<close> by (simp add: bit_simps)
qed

subsection \<open>The encoder writes the codes\<close>

definition out_bits :: "bytes \<Rightarrow> bool list" where
  "out_bits bs = concat (map byte_bits bs)"

definition sym_bits :: "u8 \<Rightarrow> bool list" where
  "sym_bits s = wbits (hpack_huffman_lens ! unat s) (hpack_huffman_codes ! unat s)"

lemma flush_bits:
  "n < 40 \<Longrightarrow> huf_flush cap acc n out = Some (acc', n', out') \<Longrightarrow>
     n' < 8 \<and> out_bits out' @ wbits n' acc' = out_bits out @ wbits n acc"
proof (induction cap acc n out rule: huf_flush.induct)
  case (1 cap acc n out)
  show ?case
  proof (cases "8 \<le> n \<and> length out < cap")
    case True
    let ?a = "acc AND ucast (push_bit (n - 8) (1 :: u32) - 1)" and ?b = "ucast (drop_bit (n - 8) acc) :: u8"
    have "n' < 8 \<and> out_bits out' @ wbits n' acc' = out_bits (out @ [?b]) @ wbits (n - 8) ?a"
      using 1 True by (simp add: huf_flush.simps [of cap acc n])
    moreover have "wbits (n - 8) ?a = wbits (n - 8) acc" using 1(2) by (intro wbits_masked) simp
    ultimately have "n' < 8 \<and> out_bits out' @ wbits n' acc' = out_bits (out @ [?b]) @ wbits (n - 8) acc" by argo
    then show ?thesis using True 1(2) by (simp add: wbits_byte_out [of n acc] out_bits_def)
  next
    case False
    then show ?thesis using 1(3) by (auto simp: huf_flush.simps [of cap acc n] split: if_splits)
  qed
qed

lemma sym_code:
  "5 \<le> hpack_huffman_lens ! unat s" "hpack_huffman_lens ! unat s \<le> 30"
  "drop_bit (hpack_huffman_lens ! unat s) (hpack_huffman_codes ! unat s) = 0"
  "sym_found (unat s) (hpack_huffman_lens ! unat s) (hpack_huffman_codes ! unat s)" for s :: u8
proof -
  have n: "unat s < 256" using unsigned_less [of s, where 'a = nat] by simp
  then have "sym_found (0 + unat s) (butlast hpack_huffman_lens ! unat s) (butlast hpack_huffman_codes ! unat s)"
    by (intro syms_found_nth [OF syms_found_all]) (simp_all add: tables_length)
  then show f: "sym_found (unat s) (hpack_huffman_lens ! unat s) (hpack_huffman_codes ! unat s)"
    using n by (simp add: nth_butlast tables_length)
  from f show "5 \<le> hpack_huffman_lens ! unat s" "hpack_huffman_lens ! unat s \<le> 30"
    "drop_bit (hpack_huffman_lens ! unat s) (hpack_huffman_codes ! unat s) = 0"
    by (simp_all add: sym_found_def Let_def)
qed

lemma encode_loop_bits:
  "n < 8 \<Longrightarrow> huf_encode_loop cap ss (acc, n, out) = Some (acc', n', out') \<Longrightarrow>
     n' < 8 \<and> out_bits out' @ wbits n' acc' = out_bits out @ wbits n acc @ concat (map sym_bits ss)"
proof (induction ss arbitrary: acc n out)
  case (Cons s ss)
  let ?l = "hpack_huffman_lens ! unat s" and ?c = "hpack_huffman_codes ! unat s"
  note l = sym_code [of s]
  obtain a1 n1 o1 where f: "huf_flush cap (push_bit ?l acc OR ucast ?c) (n + ?l) out = Some (a1, n1, o1)"
    and r: "huf_encode_loop cap ss (a1, n1, o1) = Some (acc', n', out')"
    using Cons.prems(2) by (auto simp: Let_def split: option.splits)
  have "n1 < 8 \<and> out_bits o1 @ wbits n1 a1 = out_bits out @ wbits (n + ?l) (push_bit ?l acc OR ucast ?c)"
    using Cons.prems(1) l by (intro flush_bits [OF _ f]) simp
  moreover have "wbits (n + ?l) (push_bit ?l acc OR ucast ?c) = wbits n acc @ sym_bits s"
    unfolding sym_bits_def using Cons.prems(1) l by (intro wbits_shift_in) simp_all
  ultimately show ?case using Cons.IH [OF _ r] by (simp flip: append_assoc)
qed simp

lemma encode_bits:
  assumes "hpack_huffman_encode cap s = Some bs"
  shows "\<exists>p < 8. out_bits bs = concat (map sym_bits (cstr s)) @ replicate p True"
proof -
  obtain acc n out where l: "huf_encode_loop cap (cstr s) (0, 0, []) = Some (acc, n, out)"
    using assms by (auto simp: hpack_huffman_encode_def split: option.splits)
  have b: "n < 8" "out_bits out @ wbits n acc = concat (map sym_bits (cstr s))"
    using encode_loop_bits [OF _ l] by (simp_all add: out_bits_def)
  show ?thesis
  proof (cases "n = 0")
    case True
    then show ?thesis using assms l b by (intro exI [of _ 0]) (simp add: hpack_huffman_encode_def)
  next
    case False
    let ?a = "push_bit (8 - n) acc OR ucast (push_bit (8 - n) (1 :: u32) - 1)"
    have m: "push_bit (8 - n) (1 :: u32) - 1 = Bit_Operations.mask (8 - n)"
      by (simp add: mask_eq_exp_minus_1 push_bit_eq_mult)
    have "wbits (n + (8 - n)) (ucast ?a :: u8) = wbits n acc @ wbits (8 - n) (Bit_Operations.mask (8 - n) :: u8)"
      using b(1) unfolding m by (intro wbits_append) (auto simp: bit_simps)
    moreover have "wbits (8 - n) (Bit_Operations.mask (8 - n) :: u8) = replicate (8 - n) True"
      by (rule nth_equalityI) (auto simp: wbits_def bit_simps rev_nth)
    ultimately have "byte_bits (ucast ?a) = wbits n acc @ replicate (8 - n) True"
      using b(1) by (simp add: byte_bits_wbits)
    moreover have "bs = out @ [ucast ?a]"
      using assms l False by (auto simp: hpack_huffman_encode_def Let_def split: if_splits)
    ultimately show ?thesis
      using b False by (intro exI [of _ "8 - n"]) (simp add: out_bits_def flip: append_assoc)
  qed
qed

subsection \<open>The decoder reads the codes\<close>

lemma ranges_code [code]: "huf_build_ranges = huf_ranges"
  using ranges_walk ranges_eval by simp

lemma length_ranges: "length huf_ranges = 31"
  by (simp add: huf_ranges_def)

lemma range_head:
  "j < 31 \<Longrightarrow> min_code (huf_ranges ! j) = huf_mins ! j \<and> rcount (huf_ranges ! j) = huf_counts ! j"
  using ranges_heads nth_map [of j huf_ranges] by (metis length_ranges)

definition hit :: "nat \<Rightarrow> u32 \<Rightarrow> bool" where
  "hit l code \<longleftrightarrow>
     rcount (huf_ranges ! l) > 0 \<and> min_code (huf_ranges ! l) \<le> code \<and>
     code < min_code (huf_ranges ! l) + of_nat (rcount (huf_ranges ! l))"

lemma huf_bit_miss:
  "clen < 30 \<Longrightarrow> push_bit 1 code OR of_bool b = code' \<Longrightarrow> \<not> hit (Suc clen) code' \<Longrightarrow>
     huf_bit cap b (code, clen, out) = Some (code', Suc clen, out)"
  by (auto simp: huf_bit_def hit_def ranges_code HUF_MAX_LEN_def Let_def)

lemma huf_bit_hit:
  "clen < 30 \<Longrightarrow> push_bit 1 code OR of_bool b = code' \<Longrightarrow> hit (Suc clen) code' \<Longrightarrow>
     rsyms (huf_ranges ! Suc clen) ! unat (code' - min_code (huf_ranges ! Suc clen)) = sm \<Longrightarrow> sm \<noteq> 256 \<Longrightarrow>
     length out < cap \<Longrightarrow> huf_bit cap b (code, clen, out) = Some (0, 0, out @ [ucast sm])"
  by (auto simp: huf_bit_def hit_def ranges_code HUF_MAX_LEN_def Let_def)

lemma drop_bit_mono: "v \<le> w \<Longrightarrow> drop_bit k v \<le> drop_bit k w" for v w :: u32
proof -
  assume le: "v \<le> w"
  have "unat (drop_bit k x) = unat x div 2 ^ k" for x :: u32
    by (simp only: unat_drop_bit_eq) (simp only: drop_bit_eq_div)
  then show ?thesis using le by (simp only: word_le_nat_alt div_le_mono)
qed

lemma sym_prefix_miss:
  assumes f: "sym_found s l c" and j: "j < l"
  shows "\<not> hit j (drop_bit (l - j) c)"
proof
  assume h: "hit j (drop_bit (l - j) c)"
  have l: "l < 31" "rcount (huf_ranges ! l) > 0" "min_code (huf_ranges ! l) \<le> c"
    using f by (auto simp: sym_found_def Let_def)
  have r: "rcount (huf_ranges ! l) = huf_counts ! l" "min_code (huf_ranges ! l) = huf_mins ! l"
    "rcount (huf_ranges ! j) = huf_counts ! j" "min_code (huf_ranges ! j) = huf_mins ! j"
    using range_head l(1) j by simp_all
  have "\<forall>j\<in>set [0..<l]. huf_counts ! j = 0 \<or>
      huf_mins ! j + of_nat (huf_counts ! j) \<le> drop_bit (l - j) (huf_mins ! l)"
    using prefix_free_table [unfolded list_all_iff, rule_format, of l] l(1,2) r(1) by simp
  then have "huf_counts ! j = 0 \<or> huf_mins ! j + of_nat (huf_counts ! j) \<le> drop_bit (l - j) (huf_mins ! l)"
    using j by simp
  then have "huf_mins ! j + of_nat (huf_counts ! j) \<le> drop_bit (l - j) (huf_mins ! l)"
    using h r(3) by (simp add: hit_def)
  also have "\<dots> \<le> drop_bit (l - j) c" using drop_bit_mono l(3) r(2) by simp
  finally show False using h r by (simp add: hit_def leD)
qed

lemma sym_hit:
  assumes "sym_found s l c"
  shows "hit l c"
proof -
  let ?r = "huf_ranges ! l"
  have a: "l < 31" "min_code ?r \<le> c" "unat (c - min_code ?r) < rcount ?r" using assms by (auto simp: sym_found_def Let_def)
  have n: "rcount ?r < 257"
  proof -
    have "list_all (\<lambda>n. n < 257) huf_counts" by code_simp
    then show ?thesis using range_head [OF a(1)] a(1) by (simp add: list_all_length huf_counts_def)
  qed
  have m: "unat (min_code ?r) + 257 < 2 ^ 32"
  proof -
    have "list_all (\<lambda>m. m \<le> 0x3fffffff) huf_mins" by code_simp
    then have "min_code ?r \<le> 0x3fffffff" using range_head [OF a(1)] a(1) by (simp add: list_all_length huf_mins_def)
    then show ?thesis by (simp add: word_le_nat_alt)
  qed
  have "unat (min_code ?r + of_nat (rcount ?r)) = unat (min_code ?r) + rcount ?r"
    using n m by (simp add: unat_word_ariths unat_of_nat)
  moreover have "unat (c - min_code ?r) = unat c - unat (min_code ?r)" using a(2) by (simp add: unat_sub)
  ultimately show ?thesis using a by (simp add: hit_def word_less_nat_alt word_le_nat_alt)
qed

lemma bit_in: "push_bit 1 (drop_bit (Suc k) c) OR of_bool (bit c k) = drop_bit k c" for c :: u32
proof (rule bit_eqI)
  fix i assume "possible_bit TYPE(u32) i"
  then show "bit (push_bit 1 (drop_bit (Suc k) c) OR of_bool (bit c k)) i = bit (drop_bit k c) i"
    unfolding bit_or_iff bit_push_bit_iff by (cases i) (auto simp: bit_simps)
qed

lemma walk_code:
  assumes f: "sym_found (unat s) l c" and cap: "length out < cap"
  shows "0 < k \<Longrightarrow> k \<le> l \<Longrightarrow> huf_bits cap (wbits k c) (drop_bit k c, l - k, out) = Some (0, 0, out @ [s])"
proof (induction k)
  case (Suc k)
  have l: "l \<le> 30" using f by (simp add: sym_found_def Let_def)
  have n: "l - Suc k < 30" "Suc (l - Suc k) = l - k" using Suc.prems l by simp_all
  show ?case
  proof (cases "k = 0")
    case True
    let ?sym = "of_nat (unat s) :: u16"
    have "rsyms (huf_ranges ! l) ! unat (c - min_code (huf_ranges ! l)) = ?sym"
      using f by (simp add: sym_found_def Let_def)
    moreover have "?sym \<noteq> 256"
    proof -
      have "unat s < 256" using unsigned_less [of s, where 'a = nat] by simp
      moreover have "unat ?sym = unat s" using calculation by (simp add: unsigned_ucast_eq take_bit_nat_eq_self)
      ultimately have "unat ?sym \<noteq> unat (256 :: u16)" by simp
      then show ?thesis by metis
    qed
    moreover have "hit l c" using sym_hit [OF f] .
    ultimately have "huf_bit cap (bit c 0) (drop_bit (Suc 0) c, l - Suc 0, out) = Some (0, 0, out @ [ucast ?sym])"
      using n True cap bit_in [of 0 c] by (intro huf_bit_hit) simp_all
    moreover have "ucast ?sym = s" by (rule bit_word_eqI) (auto simp: bit_simps)
    ultimately show ?thesis using True by (simp add: wbits_Suc)
  next
    case False
    have "\<not> hit (l - k) (drop_bit k c)" using sym_prefix_miss [OF f, of "l - k"] False Suc.prems by simp
    then have "huf_bit cap (bit c k) (drop_bit (Suc k) c, l - Suc k, out) = Some (drop_bit k c, l - k, out)"
      using huf_bit_miss [OF n(1) bit_in, of k c cap out] n(2) by simp
    then show ?thesis using Suc False by (simp add: wbits_Suc)
  qed
qed simp

lemma decode_sym: "length out < cap \<Longrightarrow> huf_bits cap (sym_bits s) (0, 0, out) = Some (0, 0, out @ [s])"
  using walk_code [OF sym_code(4) [of s], of out cap "hpack_huffman_lens ! unat s"] sym_code [of s]
  by (simp add: sym_bits_def)

lemma huf_bits_append:
  "huf_bits cap (as @ bs) st = (case huf_bits cap as st of None \<Rightarrow> None | Some st' \<Rightarrow> huf_bits cap bs st')"
  by (induction as arbitrary: st) (auto split: option.split)

lemma huf_bytes_bits: "huf_bytes cap bs st = huf_bits cap (out_bits bs) st"
  by (induction bs arbitrary: st) (auto simp: out_bits_def huf_bits_append split: option.split)

lemma decode_syms:
  "length out + length ss \<le> cap \<Longrightarrow>
     huf_bits cap (concat (map sym_bits ss)) (0, 0, out) = Some (0, 0, out @ ss)"
  by (induction ss arbitrary: out) (simp_all add: huf_bits_append decode_sym)

lemma ones_in: "k < 32 \<Longrightarrow> push_bit 1 (push_bit k 1 - 1) OR of_bool True = (push_bit (Suc k) 1 - 1 :: u32)"
proof (rule bit_eqI)
  fix i assume i: "possible_bit TYPE(u32) i" and k: "k < 32"
  have m: "push_bit j 1 - 1 = (Bit_Operations.mask j :: u32)" for j by (simp add: mask_eq_exp_minus_1 push_bit_eq_mult)
  show "bit (push_bit 1 (push_bit k 1 - 1) OR of_bool True :: u32) i = bit (push_bit (Suc k) 1 - 1 :: u32) i"
    using i k unfolding m bit_or_iff bit_push_bit_iff by (cases i) (auto simp: bit_simps)
qed

lemma decode_padding:
  "p < 8 \<Longrightarrow> huf_bits cap (replicate p True) (0, 0, out) = Some (push_bit p 1 - 1, p, out)"
proof (induction p)
  case (Suc p)
  have "huf_counts ! Suc p = 0 \<or> huf_mins ! Suc p + of_nat (huf_counts ! Suc p) \<le> push_bit (Suc p) 1 - 1"
    using padding_free_table [unfolded list_all_iff, rule_format, of "Suc p"] Suc.prems by simp
  then have "\<not> hit (Suc p) (push_bit (Suc p) 1 - 1)"
    using range_head [of "Suc p"] Suc.prems by (auto simp: hit_def not_less)
  then have b: "huf_bit cap True (push_bit p 1 - 1, p, out) = Some (push_bit (Suc p) 1 - 1, Suc p, out)"
    using Suc.prems by (intro huf_bit_miss [OF _ ones_in]) simp_all
  have "replicate (Suc p) True = replicate p True @ [True]" by (simp add: replicate_append_same)
  then show ?case using Suc.IH Suc.prems b by (simp only: huf_bits_append huf_bits.simps) simp
qed simp

text \<open>
  C28: Huffman decoding inverts encoding. Whatever string is encoded, decoding the bytes the
  encoder wrote yields the string, given an output buffer that can hold it: the code table
  is prefix free, the symbol tables the decoder builds agree with it, and the padding of at
  most seven one-bits is accepted.
\<close>

theorem huffman_roundtrip:
  assumes "hpack_huffman_encode cap s = Some bs" and "length (cstr s) \<le> out_cap"
  shows "hpack_huffman_decode bs out_cap = Some (cstr s)"
proof -
  obtain p where p: "p < 8" "out_bits bs = concat (map sym_bits (cstr s)) @ replicate p True"
    using encode_bits [OF assms(1)] by blast
  have "huf_bytes out_cap bs (0, 0, []) = Some (push_bit p 1 - 1, p, cstr s)"
    using assms(2) p by (simp add: huf_bytes_bits huf_bits_append decode_syms decode_padding)
  then show ?thesis using p(1) by (simp add: hpack_huffman_decode_def)
qed

theorem huffman_roundtrip_witness:
  "\<exists>bs. hpack_huffman_encode 10 [119, 119, 119] = Some bs \<and> hpack_huffman_decode bs 3 = Some [119, 119, 119]"
proof -
  have e: "hpack_huffman_encode 10 [119, 119, 119] = Some [241, 227, 199] \<and> cstr [119, 119, 119] = [119, 119, 119]"
    by code_simp
  then show ?thesis using huffman_roundtrip [of 10 "[119, 119, 119]" "[241, 227, 199]" 3] by auto
qed

subsection \<open>The output buffer\<close>

lemma hit_length: "l < 31 \<Longrightarrow> hit l code \<Longrightarrow> 5 \<le> l"
proof (rule ccontr)
  assume l: "l < 31" and h: "hit l code" and "\<not> 5 \<le> l"
  then have "l \<in> set [0..<5]" by simp
  moreover have "list_all (\<lambda>l. huf_counts ! l = 0) [0..<5]" by code_simp
  ultimately have "huf_counts ! l = 0" unfolding list_all_iff by blast
  then show False using h range_head [OF l] by (simp add: hit_def)
qed

lemma huf_bit_room:
  assumes "5 * length out + clen < 5 * cap" and "cap \<le> cap'"
  shows "huf_bit cap b (code, clen, out) = huf_bit cap' b (code, clen, out)"
    and "huf_bit cap b (code, clen, out) = Some (c', n', out') \<Longrightarrow> 5 * length out' + n' \<le> Suc (5 * length out + clen)"
  using assms hit_length [of "Suc clen" "push_bit 1 code OR of_bool b"]
  by (auto simp: huf_bit_def hit_def ranges_code HUF_MAX_LEN_def Let_def split: if_splits)

lemma huf_bits_room:
  "5 * length out + clen + length bs \<le> 5 * cap \<Longrightarrow> cap \<le> cap' \<Longrightarrow>
     huf_bits cap bs (code, clen, out) = huf_bits cap' bs (code, clen, out)"
proof (induction bs arbitrary: code clen out)
  case (Cons b bs)
  have r: "5 * length out + clen < 5 * cap" using Cons.prems by simp
  note room = huf_bit_room [OF r Cons.prems(2), of b code]
  show ?case
  proof (cases "huf_bit cap b (code, clen, out)")
    case None
    then show ?thesis using room(1) by simp
  next
    case (Some st)
    obtain c' n' out' where st: "st = (c', n', out')" by (metis surj_pair)
    then have "5 * length out' + n' \<le> Suc (5 * length out + clen)" using room(2) Some by simp
    then have "huf_bits cap bs st = huf_bits cap' bs st" using st Cons.IH [of out' n' c'] Cons.prems by simp
    moreover have "huf_bit cap' b (code, clen, out) = Some st" using room(1) Some by simp
    ultimately show ?thesis using Some by simp
  qed
qed simp

lemma length_out_bits: "length (out_bits bs) = 8 * length bs"
  by (induction bs) (simp_all add: out_bits_def byte_bits_wbits)

text \<open>
  C29: The decoder's buffer suffices. The buffer of \<open>8 n / 5 + 8\<close> bytes that the header
  decoder allocates for \<open>n\<close> Huffman-coded bytes is never the reason for a failure: a larger
  buffer gives the same result on every input.
\<close>

theorem huffman_buffer_suffices:
  assumes "8 * length data div 5 + 8 \<le> cap"
  shows "hpack_huffman_decode data cap = hpack_huffman_decode data (8 * length data div 5 + 8)"
proof -
  have "5 * length ([] :: bytes) + 0 + length (out_bits data) \<le> 5 * (8 * length data div 5 + 8)"
    unfolding length_out_bits by simp
  then have "huf_bits (8 * length data div 5 + 8) (out_bits data) (0, 0, []) = huf_bits cap (out_bits data) (0, 0, [])"
    using assms by (rule huf_bits_room)
  then show ?thesis by (simp add: hpack_huffman_decode_def huf_bytes_bits)
qed

theorem huffman_buffer_suffices_witness:
  "8 * length [241, 227, 199 :: u8] div 5 + 8 \<le> 99 \<and>
     hpack_huffman_decode [241, 227, 199] 99 = hpack_huffman_decode [241, 227, 199] 12"
  using huffman_buffer_suffices [of "[241, 227, 199]" 99] by simp

text \<open>
  The end-of-string code is not rejected. Thirty one-bits, the EOS symbol that RFC 7541
  and the comment in the decoder treat as an error, decode as a zero byte, because the symbol
  table stores symbols cut to eight bits.
\<close>

theorem huffman_eos_accepted: "hpack_huffman_decode [255, 255, 255, 255] 14 = Some [0]"
  by code_simp
end
