(* ===== verification/Leb128.thy ===== *)
theory Leb128
  imports Danos_Prelude
begin

text \<open>
  Little-endian base-128 integers, the variable-length format that HPACK continuation bytes
  and protobuf varints share: seven bits per byte, lowest first, the top bit set on every
  byte but the last.
\<close>

lemma low7: "unat (v AND 0x7F) = unat v mod 128" for v :: "'a::len word"
proof -
  have "v AND 0x7F = take_bit 7 v" by (simp add: take_bit_eq_mask mask_eq_exp_minus_1)
  then show ?thesis by (simp add: unsigned_take_bit_eq take_bit_nat_def)
qed

lemma drop7: "unat (drop_bit 7 v) = unat v div 128" for v :: "'a::len word"
  by (simp only: unat_drop_bit_eq) (simp only: drop_bit_eq_div, simp)

lemma drop7_less: "0x80 \<le> v \<Longrightarrow> unat (drop_bit 7 v) < unat v" for v :: u64
  unfolding drop7 by (simp add: word_le_nat_alt)

function leb128 :: "u64 \<Rightarrow> bytes" where
  "leb128 v = (if v \<ge> 0x80 then (ucast (v AND 0x7F) OR 0x80) # leb128 (drop_bit 7 v) else [ucast v])"
  by pat_completeness auto
termination
  by (relation "measure unat") (use drop7_less in auto)

declare leb128.simps [simp del]

lemma leb128_small: "v < 0x80 \<Longrightarrow> leb128 v = [ucast v]"
  by (simp add: leb128.simps)

lemma leb128_big: "0x80 \<le> v \<Longrightarrow> leb128 v = (ucast (v AND 0x7F) OR 0x80) # leb128 (drop_bit 7 v)"
  by (simp add: leb128.simps)

lemma leb128_nonempty [simp]: "leb128 v \<noteq> []"
  by (cases "v < 0x80") (simp_all add: leb128_small leb128_big not_less)

lemma leb128_length: "unat v < 2 ^ (7 * Suc k) \<Longrightarrow> length (leb128 v) \<le> Suc k"
proof (induction k arbitrary: v)
  case 0
  then show ?case by (simp add: leb128_small word_less_nat_alt)
next
  case (Suc k)
  have "unat (drop_bit 7 v) < 2 ^ (7 * Suc k)"
    using Suc.prems unfolding drop7 by (simp add: power_add less_mult_imp_div_less mult.commute)
  then show ?case using Suc.IH by (cases "v < 0x80") (auto simp: leb128_small leb128_big not_less)
qed

text \<open>The bits of the bytes.\<close>

lemma bit80: "bit (0x80 :: u8) n \<longleftrightarrow> n = 7"
proof -
  have e: "(0x80 :: u8) = 2 ^ 7" by simp
  show ?thesis unfolding e bit_exp_iff by auto
qed

lemma last_byte:
  fixes v :: u64
  assumes "v < 0x80"
  shows "(ucast v :: u8) AND 0x80 = 0" and "ucast ((ucast v :: u8) AND 0x7F) = v"
proof -
  have n: "unat v < 128" using assms by (simp add: word_less_nat_alt)
  then have u: "unat (ucast v :: u8) = unat v" by (simp add: unsigned_ucast_eq take_bit_nat_eq_self)
  have "unat ((ucast v :: u8) AND 0x7F) = unat v" using n unfolding low7 u by simp
  then have "unat (ucast ((ucast v :: u8) AND 0x7F) :: u64) = unat v"
    using n by (simp add: unsigned_ucast_eq take_bit_nat_eq_self)
  then show "ucast ((ucast v :: u8) AND 0x7F) = v" by (simp add: word_unat_eq_iff)
  have dz: "drop_bit 7 v = 0" using n drop7 [of v] by (simp add: word_unat_eq_iff)
  have z: "\<not> bit v (7 + i)" for i using arg_cong [OF dz, of "\<lambda>x. bit x i"] by (simp add: bit_drop_bit_eq)
  show "(ucast v :: u8) AND 0x80 = 0"
  proof (rule bit_word_eqI)
    fix n
    show "bit ((ucast v :: u8) AND 0x80) n = bit 0 n"
      unfolding bit_and_iff bit80 using z [of 0] by (auto simp: bit_simps)
  qed
qed

lemma more_byte:
  "(ucast (v AND 0x7F) OR 0x80 :: u8) AND 0x80 \<noteq> 0"
  "ucast ((ucast (v AND 0x7F) OR 0x80 :: u8) AND 0x7F) = v AND 0x7F" for v :: u64
proof -
  have m: "(0x7F :: u8) = Bit_Operations.mask 7" "(0x7F :: u64) = Bit_Operations.mask 7" by (simp_all add: mask_eq_exp_minus_1)
  have "bit ((ucast (v AND 0x7F) OR 0x80 :: u8) AND 0x80) 7"
    unfolding bit_and_iff bit_or_iff bit80 by simp
  then show "(ucast (v AND 0x7F) OR 0x80 :: u8) AND 0x80 \<noteq> 0" by (metis bit_0_eq bot_apply bot_bool_def)
  show "ucast ((ucast (v AND 0x7F) OR 0x80 :: u8) AND 0x7F) = v AND 0x7F"
  proof (rule bit_word_eqI)
    fix n assume n: "n < LENGTH(64)"
    show "bit (ucast ((ucast (v AND 0x7F) OR 0x80 :: u8) AND 0x7F) :: u64) n = bit (v AND 0x7F) n"
      unfolding bit_ucast_iff bit_and_iff bit_or_iff bit80 m using n by (auto simp: bit_simps)
  qed
qed

lemma split7: "push_bit m (v AND 0x7F) + push_bit (m + 7) (drop_bit 7 v) = push_bit m v" for v :: u64
proof -
  have m: "(0x7F :: u64) = Bit_Operations.mask 7" by (simp add: mask_eq_exp_minus_1)
  have "v AND 0x7F = take_bit 7 v" unfolding m by (simp add: take_bit_eq_mask)
  then have "(v AND 0x7F) + push_bit 7 (drop_bit 7 v) = v"
    using bits_ident [of 7 v] by (simp only: add.commute)
  then show ?thesis by (metis push_bit_add push_bit_push_bit)
qed
end
