(* ===== verification/Hpack.thy ===== *)
theory Hpack
  imports Huffman_Codec Leb128
begin

text \<open>
  The HPACK codec of \<^verbatim>\<open>danos-mgmt/src/gnmi/hpack.c\<close>: the static and the dynamic table,
  integers, strings, the literal encoder and the block decoder. C strings are lists of bytes
  without zero; positions are natural numbers, integers of the format 64-bit words. An encoder
  returns the bytes it wrote, for which the C code returns their number as an \<^verbatim>\<open>int\<close>: the two agree
  for output below 2 GiB. The
  outcomes of memory allocations are part of the table state.
\<close>

subsection \<open>Tables\<close>

definition bytes_of :: "string \<Rightarrow> bytes" where
  "bytes_of s = map (\<lambda>c. of_nat (of_char c)) s"

definition k_static :: "(bytes \<times> bytes) list" where
  "k_static = [
     (bytes_of '':authority'', bytes_of ''''),
     (bytes_of '':method'', bytes_of ''GET''),
     (bytes_of '':method'', bytes_of ''POST''),
     (bytes_of '':path'', bytes_of ''/''),
     (bytes_of '':path'', bytes_of ''/index.html''),
     (bytes_of '':scheme'', bytes_of ''http''),
     (bytes_of '':scheme'', bytes_of ''https''),
     (bytes_of '':status'', bytes_of ''200''),
     (bytes_of '':status'', bytes_of ''204''),
     (bytes_of '':status'', bytes_of ''206''),
     (bytes_of '':status'', bytes_of ''304''),
     (bytes_of '':status'', bytes_of ''400''),
     (bytes_of '':status'', bytes_of ''404''),
     (bytes_of '':status'', bytes_of ''500''),
     (bytes_of ''accept-charset'', bytes_of ''''),
     (bytes_of ''accept-encoding'', bytes_of ''gzip, deflate''),
     (bytes_of ''accept-language'', bytes_of ''''),
     (bytes_of ''accept-ranges'', bytes_of ''''),
     (bytes_of ''accept'', bytes_of ''''),
     (bytes_of ''access-control-allow-origin'', bytes_of ''''),
     (bytes_of ''age'', bytes_of ''''),
     (bytes_of ''allow'', bytes_of ''''),
     (bytes_of ''authorization'', bytes_of ''''),
     (bytes_of ''cache-control'', bytes_of ''''),
     (bytes_of ''content-disposition'', bytes_of ''''),
     (bytes_of ''content-encoding'', bytes_of ''''),
     (bytes_of ''content-language'', bytes_of ''''),
     (bytes_of ''content-length'', bytes_of ''''),
     (bytes_of ''content-location'', bytes_of ''''),
     (bytes_of ''content-range'', bytes_of ''''),
     (bytes_of ''content-type'', bytes_of ''''),
     (bytes_of ''cookie'', bytes_of ''''),
     (bytes_of ''date'', bytes_of ''''),
     (bytes_of ''etag'', bytes_of ''''),
     (bytes_of ''expect'', bytes_of ''''),
     (bytes_of ''expires'', bytes_of ''''),
     (bytes_of ''from'', bytes_of ''''),
     (bytes_of ''host'', bytes_of ''''),
     (bytes_of ''if-match'', bytes_of ''''),
     (bytes_of ''if-modified-since'', bytes_of ''''),
     (bytes_of ''if-none-match'', bytes_of ''''),
     (bytes_of ''if-range'', bytes_of ''''),
     (bytes_of ''if-unmodified-since'', bytes_of ''''),
     (bytes_of ''last-modified'', bytes_of ''''),
     (bytes_of ''link'', bytes_of ''''),
     (bytes_of ''location'', bytes_of ''''),
     (bytes_of ''max-forwards'', bytes_of ''''),
     (bytes_of ''proxy-authenticate'', bytes_of ''''),
     (bytes_of ''proxy-authorization'', bytes_of ''''),
     (bytes_of ''range'', bytes_of ''''),
     (bytes_of ''referer'', bytes_of ''''),
     (bytes_of ''refresh'', bytes_of ''''),
     (bytes_of ''retry-after'', bytes_of ''''),
     (bytes_of ''server'', bytes_of ''''),
     (bytes_of ''set-cookie'', bytes_of ''''),
     (bytes_of ''strict-transport-security'', bytes_of ''''),
     (bytes_of ''transfer-encoding'', bytes_of ''''),
     (bytes_of ''user-agent'', bytes_of ''''),
     (bytes_of ''vary'', bytes_of ''''),
     (bytes_of ''via'', bytes_of ''''),
     (bytes_of ''www-authenticate'', bytes_of '''')]"

definition HPACK_MAX_ENTRIES :: nat where "HPACK_MAX_ENTRIES = 128"

definition HPACK_DEFAULT_TABLE_SIZE :: u64 where "HPACK_DEFAULT_TABLE_SIZE = 4096"

text \<open>The newest entry comes first.\<close>

record hpack_dyn =
  dyn_entries :: "(bytes \<times> bytes) list"
  dyn_size :: u64
  dyn_max :: u64
  hp_mem :: "nat \<Rightarrow> bool"
  hp_next :: nat

definition hp_alloc :: "hpack_dyn \<Rightarrow> bool \<times> hpack_dyn" where
  "hp_alloc t = (hp_mem t (hp_next t), t\<lparr>hp_next := Suc (hp_next t)\<rparr>)"

definition hpack_dyn_init :: "hpack_dyn \<Rightarrow> hpack_dyn" where
  "hpack_dyn_init t = t\<lparr>dyn_entries := [], dyn_size := 0, dyn_max := HPACK_DEFAULT_TABLE_SIZE\<rparr>"

definition hpack_dyn_free :: "hpack_dyn \<Rightarrow> hpack_dyn" where
  "hpack_dyn_free t = t\<lparr>dyn_entries := [], dyn_size := 0, dyn_max := 0\<rparr>"

definition entry_size :: "bytes \<Rightarrow> bytes \<Rightarrow> u64" where
  "entry_size name val = of_nat (length name) + of_nat (length val) + 32"

function dyn_evict :: "hpack_dyn \<Rightarrow> hpack_dyn" where
  "dyn_evict t =
     (if dyn_size t > dyn_max t \<and> dyn_entries t \<noteq> []
      then
        (let e = last (dyn_entries t)
         in dyn_evict (t\<lparr>dyn_size := dyn_size t - entry_size (fst e) (snd e), dyn_entries := butlast (dyn_entries t)\<rparr>))
      else t)"
  by pat_completeness auto
termination
  by (relation "measure (\<lambda>t. length (dyn_entries t))") auto

declare dyn_evict.simps [simp del]

definition hpack_dyn_set_max_size :: "hpack_dyn \<Rightarrow> u64 \<Rightarrow> hpack_dyn" where
  "hpack_dyn_set_max_size t m = dyn_evict (t\<lparr>dyn_max := m\<rparr>)"

definition hpack_dyn_insert :: "hpack_dyn \<Rightarrow> bytes \<Rightarrow> bytes \<Rightarrow> bool \<times> hpack_dyn" where
  "hpack_dyn_insert t name val =
     (if length (dyn_entries t) \<ge> HPACK_MAX_ENTRIES then (False, t)
      else if entry_size name val > dyn_max t
      then (True, (dyn_evict t)\<lparr>dyn_size := 0, dyn_entries := []\<rparr>)
      else
        (let (ok1, t1) = hp_alloc t;
             (ok2, t2) = hp_alloc t1
         in if \<not> ok1 \<or> \<not> ok2 then (False, t2)
            else
              (True, dyn_evict (t2\<lparr>dyn_entries := (name, val) # dyn_entries t2,
                                   dyn_size := dyn_size t2 + entry_size name val\<rparr>))))"

definition hpack_lookup_index :: "hpack_dyn \<Rightarrow> u64 \<Rightarrow> (bytes \<times> bytes) option" where
  "hpack_lookup_index t index =
     (if index = 0 then None
      else if index \<le> of_nat (length k_static) then Some (k_static ! unat (index - 1))
      else
        (let d = index - of_nat (length k_static) - 1
         in if d \<ge> of_nat (length (dyn_entries t)) then None else Some (dyn_entries t ! unat d)))"

subsection \<open>Primitives\<close>

function decode_int_loop :: "bytes \<Rightarrow> nat \<Rightarrow> u64 \<Rightarrow> nat \<Rightarrow> (nat \<times> u64) option" where
  "decode_int_loop data pos v m =
     (if pos \<ge> length data then None
      else
        (let b = data ! pos;
             v' = v + push_bit m (ucast (b AND 0x7F));
             m' = m + 7
         in if b AND 0x80 = 0 then Some (pos + 1, v')
            else if m' > 56 then None
            else decode_int_loop data (pos + 1) v' m'))"
  by pat_completeness auto
termination
  by (relation "measure (\<lambda>(data, pos, v, m). length data - pos)") auto

declare decode_int_loop.simps [simp del]

definition decode_int :: "bytes \<Rightarrow> nat \<Rightarrow> nat \<Rightarrow> (nat \<times> u64) option" where
  "decode_int data pos prefix_bits =
     (if pos \<ge> length data then None
      else
        (let msk = push_bit prefix_bits 1 - 1 :: u8;
             v = ucast (data ! pos AND msk) :: u64
         in if v < ucast msk then Some (pos + 1, v) else decode_int_loop data (pos + 1) v 0))"

function encode_int_loop :: "nat \<Rightarrow> u64 \<Rightarrow> bytes \<Rightarrow> bytes option" where
  "encode_int_loop cap v out =
     (if v \<ge> 0x80
      then
        (if length out + 2 > cap then None
         else encode_int_loop cap (drop_bit 7 v) (out @ [ucast (v AND 0x7F) OR 0x80]))
      else Some (out @ [ucast v]))"
  by pat_completeness auto
termination
  by (relation "measure (\<lambda>(cap, v, out). unat v)") (use drop7_less in auto)

declare encode_int_loop.simps [simp del]

definition hpack_encode_int :: "nat \<Rightarrow> u64 \<Rightarrow> nat \<Rightarrow> u8 \<Rightarrow> bytes option" where
  "hpack_encode_int cap v prefix_bits prefix_pattern =
     (let msk = push_bit prefix_bits 1 - 1 :: u8
      in if v < ucast msk
         then (if cap < 1 then None else Some [ucast (ucast prefix_pattern OR v)])
         else if cap < 2 then None
         else encode_int_loop cap (v - ucast msk) [prefix_pattern OR msk])"

definition hpack_encode_string :: "nat \<Rightarrow> bytes \<Rightarrow> bytes option" where
  "hpack_encode_string cap s =
     (case hpack_encode_int cap (of_nat (length s)) 7 0 of
        None \<Rightarrow> None
      | Some k \<Rightarrow> if cap < length k + length s then None else Some (k @ s))"

definition hpack_encode_literal :: "nat \<Rightarrow> bytes \<Rightarrow> bytes \<Rightarrow> bytes option" where
  "hpack_encode_literal cap name val =
     (if cap < 1 then None
      else
        (case hpack_encode_string (cap - 1) name of
           None \<Rightarrow> None
         | Some a \<Rightarrow>
             (case hpack_encode_string (cap - (1 + length a)) val of
                None \<Rightarrow> None
              | Some b \<Rightarrow> Some (0 # a @ b))))"

subsection \<open>The block decoder\<close>

definition decode_string :: "bytes \<Rightarrow> nat \<Rightarrow> hpack_dyn \<Rightarrow> (nat \<times> bytes) option \<times> hpack_dyn" where
  "decode_string data pos0 t =
     (if pos0 \<ge> length data then (None, t)
      else
        (let huffman = (data ! pos0 AND 0x80 \<noteq> 0)
         in (case decode_int data pos0 7 of
               None \<Rightarrow> (None, t)
             | Some (pos, n) \<Rightarrow>
                 if pos + unat n > length data then (None, t)
                 else if huffman
                 then
                   (let (ok, t1) = hp_alloc t
                    in if \<not> ok then (None, t1)
                       else
                         (case hpack_huffman_decode (take (unat n) (drop pos data)) (8 * unat n div 5 + 8) of
                            None \<Rightarrow> (None, t1)
                          | Some s \<Rightarrow>
                              (let (ok2, t2) = hp_alloc t1
                               in if \<not> ok2 then (None, t2) else (Some (pos + unat n, cstr s), t2))))
                 else
                   (let (ok, t1) = hp_alloc t
                    in if \<not> ok then (None, t1)
                       else (Some (pos + unat n, cstr (take (unat n) (drop pos data))), t1)))))"

text \<open>The name and value of a literal field whose index has a prefix of \<open>pb\<close> bits.\<close>

definition decode_literal :: "bytes \<Rightarrow> nat \<Rightarrow> nat \<Rightarrow> hpack_dyn \<Rightarrow> (nat \<times> bytes \<times> bytes) option \<times> hpack_dyn" where
  "decode_literal data pos0 pb t =
     (case decode_int data pos0 pb of
        None \<Rightarrow> (None, t)
      | Some (pos1, index) \<Rightarrow>
          (let (nm, t1) =
                 (if index = 0 then decode_string data pos1 t
                  else
                    (case hpack_lookup_index t index of
                       None \<Rightarrow> (None, t)
                     | Some (n, v) \<Rightarrow>
                         (let (ok, t1) = hp_alloc t in (if ok then Some (pos1, n) else None, t1))))
           in (case nm of
                 None \<Rightarrow> (None, t1)
               | Some (pos2, name) \<Rightarrow>
                   (case decode_string data pos2 t1 of
                      (None, t2) \<Rightarrow> (None, t2)
                    | (Some (pos3, val), t2) \<Rightarrow> (Some (pos3, name, val), t2)))))"

subsubsection \<open>Progress\<close>

lemma decode_int_loop_pos:
  "decode_int_loop data pos v m = Some (pos', n) \<Longrightarrow> pos < pos' \<and> pos' \<le> length data"
proof (induction data pos v m rule: decode_int_loop.induct)
  case (1 data pos v m)
  note IH = 1 (1) [OF _ refl refl refl]
  show ?case
    using 1 (2) IH unfolding decode_int_loop.simps [of data pos v m] by (auto simp: Let_def split: if_splits)
qed

lemma decode_int_pos: "decode_int data pos pb = Some (pos', n) \<Longrightarrow> pos < pos' \<and> pos' \<le> length data"
  by (auto simp: decode_int_def Let_def split: if_splits dest: decode_int_loop_pos)

lemma decode_string_pos: "decode_string data pos t = (Some (pos', s), t') \<Longrightarrow> pos < pos' \<and> pos' \<le> length data"
  by (auto simp: decode_string_def Let_def split: if_splits option.splits prod.splits dest!: decode_int_pos)

lemma decode_literal_pos: "decode_literal data pos pb t = (Some (pos', n, v), t') \<Longrightarrow> pos < pos' \<and> pos' \<le> length data"
  by (auto simp: decode_literal_def Let_def split: if_splits option.splits prod.splits
      dest!: decode_int_pos decode_string_pos)

function hpack_loop ::
  "bytes \<Rightarrow> nat \<Rightarrow> (bytes \<Rightarrow> bytes \<Rightarrow> 'u \<Rightarrow> bool \<times> 'u) \<Rightarrow> hpack_dyn \<Rightarrow> 'u \<Rightarrow> bool \<times> hpack_dyn \<times> 'u" where
  "hpack_loop data pos cb t u =
     (if pos \<ge> length data then (True, t, u)
      else
        (let b = data ! pos
         in if b AND 0x80 \<noteq> 0
            then
              (case decode_int data pos 7 of
                 None \<Rightarrow> (False, t, u)
               | Some (pos', index) \<Rightarrow>
                   (case hpack_lookup_index t index of
                      None \<Rightarrow> (False, t, u)
                    | Some (name, val) \<Rightarrow>
                        (case cb name val u of
                           (False, u') \<Rightarrow> (False, t, u')
                         | (True, u') \<Rightarrow> hpack_loop data pos' cb t u')))
            else if b AND 0xC0 = 0x40
            then
              (case decode_literal data pos 6 t of
                 (None, t1) \<Rightarrow> (False, t1, u)
               | (Some (pos', name, val), t1) \<Rightarrow>
                   (let t2 = snd (hpack_dyn_insert t1 name val)
                    in (case cb name val u of
                          (False, u') \<Rightarrow> (False, t2, u')
                        | (True, u') \<Rightarrow> hpack_loop data pos' cb t2 u')))
            else if b AND 0xE0 = 0x20
            then
              (case decode_int data pos 5 of
                 None \<Rightarrow> (False, t, u)
               | Some (pos', sz) \<Rightarrow> hpack_loop data pos' cb (hpack_dyn_set_max_size t sz) u)
            else
              (case decode_literal data pos 4 t of
                 (None, t1) \<Rightarrow> (False, t1, u)
               | (Some (pos', name, val), t1) \<Rightarrow>
                   (case cb name val u of
                      (False, u') \<Rightarrow> (False, t1, u')
                    | (True, u') \<Rightarrow> hpack_loop data pos' cb t1 u'))))"
  by pat_completeness auto
termination
  by (relation "measure (\<lambda>(data, pos, cb, t, u). length data - pos)")
    (auto dest!: decode_int_pos decode_literal_pos [OF sym])

declare hpack_loop.simps [simp del]

definition hpack_decode ::
  "hpack_dyn \<Rightarrow> bytes \<Rightarrow> (bytes \<Rightarrow> bytes \<Rightarrow> 'u \<Rightarrow> bool \<times> 'u) \<Rightarrow> 'u \<Rightarrow> bool \<times> hpack_dyn \<times> 'u" where
  "hpack_decode dyn data cb u = hpack_loop data 0 cb dyn u"

subsection \<open>Integers\<close>

lemma encode_int_loop_leb: "encode_int_loop cap v out = Some bs \<Longrightarrow> bs = out @ leb128 v"
proof (induction cap v out rule: encode_int_loop.induct)
  case (1 cap v out)
  then show ?case
    unfolding encode_int_loop.simps [of cap v out]
    by (cases "v \<ge> 0x80") (auto simp: leb128_small leb128_big not_le split: if_splits)
qed

text \<open>Seven bits per step, nine steps at most.\<close>

lemma decode_int_loop_leb:
  "m \<le> 56 \<Longrightarrow> 7 dvd m \<Longrightarrow> unat w < 2 ^ (63 - m) \<Longrightarrow>
     decode_int_loop (pre @ leb128 w @ post) (length pre) v m =
       Some (length pre + length (leb128 w), v + push_bit m w)"
proof (induction w arbitrary: pre v m rule: leb128.induct)
  case (1 w)
  show ?case
  proof (cases "w < 0x80")
    case True
    then show ?thesis
      using last_byte [OF True] by (simp add: decode_int_loop.simps [of _ "length pre"] leb128_small nth_append)
  next
    case False
    then have big: "0x80 \<le> w" by simp
    let ?b = "ucast (w AND 0x7F) OR 0x80 :: u8" and ?w = "drop_bit 7 w"
    have "m \<le> 49"
    proof (rule ccontr)
      assume "\<not> m \<le> 49"
      then have "m = 56" using 1 (2,3) by (auto elim!: dvdE)
      then show False using 1 (4) big by (simp add: word_le_nat_alt)
    qed
    have "7 dvd m + 7" using 1 (3) by simp
    moreover have "unat ?w < 2 ^ (63 - (m + 7))"
    proof -
      have "(2 :: nat) ^ (63 - m) = 2 ^ (63 - (m + 7)) * 128"
        using \<open>m \<le> 49\<close> power_add [of "2 :: nat" "63 - (m + 7)" 7] by simp
      then show ?thesis using 1 (4) unfolding drop7 by (simp add: less_mult_imp_div_less)
    qed
    ultimately have "decode_int_loop ((pre @ [?b]) @ leb128 ?w @ post) (length (pre @ [?b]))
        (v + push_bit m (ucast (?b AND 0x7F))) (m + 7) =
      Some (length (pre @ [?b]) + length (leb128 ?w), v + push_bit m (ucast (?b AND 0x7F)) + push_bit (m + 7) ?w)"
      using \<open>m \<le> 49\<close> by (intro 1 (1) [OF big]) simp_all
    moreover have "decode_int_loop (pre @ leb128 w @ post) (length pre) v m =
        decode_int_loop ((pre @ [?b]) @ leb128 ?w @ post) (length (pre @ [?b]))
          (v + push_bit m (ucast (?b AND 0x7F))) (m + 7)"
      using more_byte(1) [of w] \<open>m \<le> 49\<close>
      by (simp add: decode_int_loop.simps [of _ "length pre"] leb128_big [OF big] nth_append Let_def)
    ultimately show ?thesis
      using more_byte(2) [of w] split7 [of m w] by (simp add: leb128_big [OF big] add.assoc)
  qed
qed

lemma prefix_small:
  fixes v :: u64 and pat :: u8
  assumes "pb \<le> 8" and "v < ucast (push_bit pb 1 - 1 :: u8)" and "pat AND (push_bit pb 1 - 1) = 0"
  shows "ucast ((ucast (ucast pat OR v) :: u8) AND (push_bit pb 1 - 1)) = v"
proof -
  have m: "push_bit pb 1 - 1 = (Bit_Operations.mask pb :: 'a::len word)" for pb
    by (simp add: mask_eq_exp_minus_1 push_bit_eq_mult)
  have pz: "\<not> bit pat i" if "i < pb" for i
  proof -
    have "bit (pat AND Bit_Operations.mask pb) i = bit (0 :: u8) i" using assms(3) unfolding m by simp
    then show ?thesis using that by (auto simp: bit_simps dest: bit_imp_le_length)
  qed
  have "ucast (Bit_Operations.mask pb :: u8) = (Bit_Operations.mask pb :: u64)"
    using assms(1) by (intro bit_word_eqI) (auto simp: bit_simps)
  moreover have "unat (Bit_Operations.mask pb :: u64) = 2 ^ pb - 1"
  proof -
    have "\<forall>pb\<in>set [0..<9]. unat (Bit_Operations.mask pb :: u64) = 2 ^ pb - 1"
      unfolding list_all_iff [symmetric] by code_simp
    then show ?thesis using assms(1) by simp
  qed
  ultimately have "unat v < 2 ^ pb" using assms(2) unfolding m by (simp add: word_less_nat_alt)
  then have "take_bit pb v = v" by (simp add: word_unat_eq_iff unsigned_take_bit_eq take_bit_nat_eq_self)
  then have vz: "\<not> bit v i" if "\<not> i < pb" for i using that by (metis bit_take_bit_iff)
  show ?thesis
  proof (rule bit_word_eqI)
    fix i assume "i < LENGTH(64)"
    then show "bit (ucast ((ucast (ucast pat OR v) :: u8) AND (push_bit pb 1 - 1)) :: u64) i = bit v i"
      using pz [of i] vz [of i] assms(1) unfolding m bit_ucast_iff bit_and_iff bit_or_iff
      by (cases "i < pb") (auto simp: bit_simps)
  qed
qed

lemma prefix_full:
  fixes pat :: u8
  assumes "pat AND (push_bit pb 1 - 1) = 0"
  shows "(pat OR (push_bit pb 1 - 1)) AND (push_bit pb 1 - 1) = (push_bit pb 1 - 1 :: u8)"
  by (rule bit_word_eqI) (auto simp only: bit_and_iff bit_or_iff)

text \<open>
  Integers read back. Every integer below \<open>2\<^sup>6\<^sup>3\<close> that the encoder writes with a prefix of
  one to eight bits, at any place of a block and whatever the pattern in the other bits of
  the first byte, is decoded to the same value, and the position moves just past it.
\<close>

theorem hpack_int_roundtrip:
  assumes "hpack_encode_int cap v pb pat = Some bs" and "unat v < 2 ^ 63" and "pb \<le> 8"
    and "pat AND (push_bit pb 1 - 1) = 0"
  shows "decode_int (pre @ bs @ post) (length pre) pb = Some (length pre + length bs, v)"
proof -
  define msk :: u8 where msk: "msk = push_bit pb 1 - 1"
  show ?thesis
  proof (cases "v < ucast msk")
    case True
    then have "bs = [ucast (ucast pat OR v)]"
      using assms(1) unfolding hpack_encode_int_def msk [symmetric] by (auto simp: Let_def split: if_splits)
    moreover have "ucast ((ucast (ucast pat OR v) :: u8) AND msk) = v"
      using prefix_small [OF assms(3) _ assms(4)] True by (simp only: msk)
    ultimately show ?thesis
      using True unfolding decode_int_def msk [symmetric] by (simp add: nth_append Let_def)
  next
    case False
    then have bs: "bs = (pat OR msk) # leb128 (v - ucast msk)"
      using assms(1) unfolding hpack_encode_int_def msk [symmetric]
      by (auto simp: Let_def split: if_splits dest!: encode_int_loop_leb)
    have f: "(pat OR msk) AND msk = msk" using prefix_full [OF assms(4)] by (simp only: msk)
    have "unat (v - ucast msk) < 2 ^ (63 - 0)" using assms(2) False by (simp add: unat_sub)
    then have "decode_int_loop ((pre @ [pat OR msk]) @ leb128 (v - ucast msk) @ post) (length (pre @ [pat OR msk])) (ucast msk) 0 =
        Some (length (pre @ [pat OR msk]) + length (leb128 (v - ucast msk)), ucast msk + push_bit 0 (v - ucast msk))"
      by (intro decode_int_loop_leb) simp_all
    then show ?thesis
      using f unfolding decode_int_def msk [symmetric] bs by (simp add: nth_append Let_def)
  qed
qed

theorem hpack_int_roundtrip_witness:
  "hpack_encode_int 9 1337 5 0x20 = Some [0x3F, 0x9A, 0x0A] \<and>
     decode_int [1, 0x3F, 0x9A, 0x0A, 2] 1 5 = Some (4, 1337)"
proof -
  have e: "hpack_encode_int 9 1337 5 0x20 = Some [0x3F, 0x9A, 0x0A]" by code_simp
  then show ?thesis using hpack_int_roundtrip [OF e, of "[1]" "[2]"] by simp
qed

subsection \<open>Header blocks\<close>

lemma encode_int_first:
  assumes "hpack_encode_int cap v 7 0 = Some bs"
  shows "bs \<noteq> [] \<and> hd bs AND 0x80 = 0"
proof (cases "v < 0x7F")
  case True
  then have "bs = [ucast v]" using assms by (auto simp: hpack_encode_int_def Let_def split: if_splits)
  moreover have "v < 0x80" using True by (rule less_trans) simp
  ultimately show ?thesis using last_byte(1) [of v] by simp
next
  case False
  then have "bs = 0x7F # leb128 (v - 0x7F)"
    using assms by (auto simp: hpack_encode_int_def Let_def split: if_splits dest!: encode_int_loop_leb)
  then show ?thesis by simp
qed

definition plain :: "bytes \<Rightarrow> bool" where
  "plain s \<longleftrightarrow> 0 \<notin> set s \<and> length s < 2 ^ 63"

lemma string_roundtrip:
  assumes e: "hpack_encode_string cap s = Some bs" and s: "plain s" and mem: "hp_mem t = (\<lambda>_. True)"
  shows "decode_string (pre @ bs @ post) (length pre) t =
    (Some (length pre + length bs, s), t\<lparr>hp_next := Suc (hp_next t)\<rparr>)"
proof -
  obtain k where k: "hpack_encode_int cap (of_nat (length s)) 7 0 = Some k" and bs: "bs = k @ s"
    using e by (auto simp: hpack_encode_string_def split: option.splits if_splits)
  have n: "unat (of_nat (length s) :: u64) = length s" using s by (simp add: plain_def unat_of_nat)
  have "decode_int (pre @ k @ s @ post) (length pre) 7 = Some (length pre + length k, of_nat (length s))"
    using s n by (intro hpack_int_roundtrip [OF k]) (simp_all add: plain_def)
  moreover have "(pre @ k @ s @ post) ! length pre AND 0x80 = 0"
    using encode_int_first [OF k] by (cases k) (simp_all add: nth_append)
  moreover have "length k > 0" using encode_int_first [OF k] by simp
  ultimately show ?thesis
    using n s mem by (simp add: decode_string_def bs hp_alloc_def cstr_id plain_def)
qed

lemma literal_roundtrip:
  assumes e: "hpack_encode_literal cap n v = Some bs" and s: "plain n" "plain v" and mem: "hp_mem t = (\<lambda>_. True)"
  shows "decode_literal (pre @ bs @ post) (length pre) 4 t =
    (Some (length pre + length bs, n, v), t\<lparr>hp_next := Suc (Suc (hp_next t))\<rparr>)"
proof -
  obtain a b c1 c2 where a: "hpack_encode_string c1 n = Some a" and b: "hpack_encode_string c2 v = Some b"
    and bs: "bs = 0 # a @ b" using e by (auto simp: hpack_encode_literal_def split: option.splits if_splits)
  have i: "decode_int (pre @ bs @ post) (length pre) 4 = Some (Suc (length pre), 0)"
    by (simp add: decode_int_def bs nth_append Let_def)
  have "decode_string (pre @ bs @ post) (Suc (length pre)) t =
      (Some (length pre + Suc (length a), n), t\<lparr>hp_next := Suc (hp_next t)\<rparr>)"
    using string_roundtrip [OF a s(1) mem, of "pre @ [0]" "b @ post"] by (simp add: bs)
  moreover have "decode_string (pre @ bs @ post) (length pre + Suc (length a)) (t\<lparr>hp_next := Suc (hp_next t)\<rparr>) =
      (Some (length pre + length bs, v), t\<lparr>hp_next := Suc (Suc (hp_next t))\<rparr>)"
    using string_roundtrip [OF b s(2), of "t\<lparr>hp_next := Suc (hp_next t)\<rparr>" "pre @ 0 # a" post] mem by (simp add: bs)
  ultimately show ?thesis using i by (simp add: decode_literal_def)
qed

lemma encode_literal_zero: "hpack_encode_literal cap n v = Some bs \<Longrightarrow> \<exists>r. bs = 0 # r"
  by (auto simp: hpack_encode_literal_def split: option.splits if_splits)

lemma loop_roundtrip:
  assumes "list_all2 (\<lambda>h b. hpack_encode_literal cap (fst h) (snd h) = Some b) hs bss"
    and "\<forall>h\<in>set hs. plain (fst h) \<and> plain (snd h)" and "hp_mem t = (\<lambda>_. True)" and cb: "\<And>n v u. fst (cb n v u)"
  shows "hpack_loop (pre @ concat bss) (length pre) cb t u =
    (True, t\<lparr>hp_next := hp_next t + 2 * length hs\<rparr>, fold (\<lambda>h u. snd (cb (fst h) (snd h) u)) hs u)"
  using assms(1-3)
proof (induction hs arbitrary: bss pre t u)
  case Nil
  then show ?case by (simp add: hpack_loop.simps)
next
  case (Cons h hs)
  obtain n v where h: "h = (n, v)" by fastforce
  obtain b bss' where bss: "bss = b # bss'" and b: "hpack_encode_literal cap n v = Some b"
    and r: "list_all2 (\<lambda>h b. hpack_encode_literal cap (fst h) (snd h) = Some b) hs bss'"
    using Cons.prems(1) h by (auto simp: list_all2_Cons1)
  obtain r where r0: "b = 0 # r" using encode_literal_zero [OF b] by blast
  let ?t = "t\<lparr>hp_next := Suc (Suc (hp_next t))\<rparr>" and ?data = "pre @ concat bss"
  have l: "decode_literal ?data (length pre) 4 t = (Some (length pre + length b, n, v), ?t)"
    using literal_roundtrip [OF b _ _ Cons.prems(3), of pre "concat bss'"] Cons.prems(2) h by (simp add: bss)
  obtain u' where c: "cb n v u = (True, u')" using cb [of n v u] by (cases "cb n v u") simp
  define data where "data = ?data"
  have "data ! length pre = 0" "\<not> length data \<le> length pre" by (simp_all add: data_def bss r0 nth_append)
  then have "hpack_loop ?data (length pre) cb t u = hpack_loop ?data (length pre + length b) cb ?t u'"
    using l c unfolding data_def [symmetric] by (simp add: hpack_loop.simps [of data "length pre"])
  also have "\<dots> = (True, ?t\<lparr>hp_next := hp_next ?t + 2 * length hs\<rparr>,
      fold (\<lambda>h u. snd (cb (fst h) (snd h) u)) hs u')"
    using Cons.IH [OF r, of ?t "pre @ b"] Cons.prems by (simp add: bss)
  finally show ?case by (simp add: h c)
qed

text \<open>
  C12: Header blocks read back. A block made of any headers the encoder wrote (C strings
  shorter than \<open>2\<^sup>6\<^sup>3\<close>) is decoded completely: the callback gets exactly these headers in
  order, decoding succeeds, and the dynamic table is untouched.
\<close>

theorem hpack_headers_roundtrip:
  assumes "list_all2 (\<lambda>h b. hpack_encode_literal cap (fst h) (snd h) = Some b) hs bss"
    and "\<forall>h\<in>set hs. plain (fst h) \<and> plain (snd h)" and "hp_mem t = (\<lambda>_. True)" and "\<And>n v u. fst (cb n v u)"
  shows "\<exists>k. hpack_decode t (concat bss) cb u =
    (True, t\<lparr>hp_next := k\<rparr>, fold (\<lambda>h u. snd (cb (fst h) (snd h) u)) hs u)"
  using loop_roundtrip [of cap hs bss t cb "[]" u] assms by (auto simp: hpack_decode_def)

theorem hpack_headers_roundtrip_witness:
  "\<exists>bss t k. list_all2 (\<lambda>h b. hpack_encode_literal 20 (fst h) (snd h) = Some b) [([97], [98, 99])] bss \<and>
     hpack_decode t (concat bss) (\<lambda>n v u. (True, u @ [(n, v)])) [] = (True, t\<lparr>hp_next := k\<rparr>, [([97], [98, 99])])"
proof -
  define t where "t = \<lparr>dyn_entries = [], dyn_size = 0, dyn_max = 4096, hp_mem = (\<lambda>_. True), hp_next = 0\<rparr>"
  have "hpack_encode_literal 20 [97] [98, 99] = Some [0, 1, 97, 2, 98, 99]" by code_simp
  then have e: "list_all2 (\<lambda>h b. hpack_encode_literal 20 (fst h) (snd h) = Some b) [([97], [98, 99])] [[0, 1, 97, 2, 98, 99]]"
    by simp
  have p: "\<forall>h\<in>set [([97 :: u8], [98 :: u8, 99])]. plain (fst h) \<and> plain (snd h)" by (simp add: plain_def)
  have m: "hp_mem t = (\<lambda>_. True)" by (simp add: t_def)
  have "\<exists>k. hpack_decode t (concat [[0, 1, 97, 2, 98, 99]]) (\<lambda>n v u. (True, u @ [(n, v)])) [] =
      (True, t\<lparr>hp_next := k\<rparr>, fold (\<lambda>h u. snd (True, u @ [(fst h, snd h)])) [([97], [98, 99])] [])"
    by (rule hpack_headers_roundtrip [OF e p m]) simp
  then obtain k where "hpack_decode t (concat [[0, 1, 97, 2, 98, 99]]) (\<lambda>n v u. (True, u @ [(n, v)])) [] =
      (True, t\<lparr>hp_next := k\<rparr>, [([97], [98, 99])])" by auto
  then show ?thesis using e by (intro exI conjI)
qed

subsection \<open>The dynamic table\<close>

definition esize :: "bytes \<times> bytes \<Rightarrow> nat" where
  "esize e = length (fst e) + length (snd e) + 32"

text \<open>
  The size field is exactly the sum of the entry sizes and within the limit, the table has
  at most 128 entries, and entries are of a size that memory can hold.
\<close>

definition esmall :: "bytes \<times> bytes \<Rightarrow> bool" where
  "esmall e \<longleftrightarrow> length (fst e) < 2 ^ 54 \<and> length (snd e) < 2 ^ 54"

definition dyn_ok :: "hpack_dyn \<Rightarrow> bool" where
  "dyn_ok t \<longleftrightarrow>
     length (dyn_entries t) \<le> HPACK_MAX_ENTRIES \<and> (\<forall>e\<in>set (dyn_entries t). esmall e) \<and>
     unat (dyn_size t) = sum_list (map esize (dyn_entries t)) \<and> dyn_size t \<le> dyn_max t"

lemma entry_size_esize: "esmall e \<Longrightarrow> unat (entry_size (fst e) (snd e)) = esize e"
  by (simp add: entry_size_def esize_def esmall_def unat_word_ariths unat_of_nat)

lemma sum_esize_bound:
  "length es \<le> 129 \<Longrightarrow> \<forall>e\<in>set es. esmall e \<Longrightarrow> sum_list (map esize es) < 2 ^ 64"
proof -
  assume l: "length es \<le> 129" and e: "\<forall>e\<in>set es. esmall e"
  have "sum_list (map esize es) \<le> length es * 2 ^ 56" using e by (induction es) (auto simp: esmall_def esize_def)
  also have "\<dots> \<le> 129 * 2 ^ 56" using l by simp
  finally show ?thesis by simp
qed

lemma evict_ok:
  assumes "length (dyn_entries t) \<le> 129" and "\<forall>e\<in>set (dyn_entries t). esmall e"
    and "unat (dyn_size t) = sum_list (map esize (dyn_entries t))"
  shows "length (dyn_entries (dyn_evict t)) \<le> length (dyn_entries t) \<and>
    (\<forall>e\<in>set (dyn_entries (dyn_evict t)). esmall e) \<and>
    unat (dyn_size (dyn_evict t)) = sum_list (map esize (dyn_entries (dyn_evict t))) \<and>
    dyn_size (dyn_evict t) \<le> dyn_max t \<and> dyn_max (dyn_evict t) = dyn_max t \<and>
    prefix (dyn_entries (dyn_evict t)) (dyn_entries t)"
  using assms
proof (induction t rule: dyn_evict.induct)
  case (1 t)
  show ?case
  proof (cases "dyn_size t > dyn_max t \<and> dyn_entries t \<noteq> []")
    case True
    obtain es e0 where es: "dyn_entries t = es @ [e0]" using True by (cases "dyn_entries t" rule: rev_cases) auto
    let ?t = "t\<lparr>dyn_size := dyn_size t - entry_size (fst e0) (snd e0), dyn_entries := es\<rparr>"
    have e: "esmall e0" using 1 (3) es by simp
    have sz: "unat (dyn_size t) = sum_list (map esize es) + esize e0" using 1 (4) es by simp
    then have "entry_size (fst e0) (snd e0) \<le> dyn_size t" using entry_size_esize [OF e] by (simp add: word_le_nat_alt)
    then have "unat (dyn_size ?t) = sum_list (map esize (dyn_entries ?t))"
      using sz entry_size_esize [OF e] by (simp add: unat_sub)
    moreover have "length (dyn_entries ?t) \<le> 129" "\<forall>e\<in>set (dyn_entries ?t). esmall e"
      using 1 (2,3) es by simp_all
    ultimately have "length (dyn_entries (dyn_evict ?t)) \<le> length (dyn_entries ?t) \<and>
      (\<forall>e\<in>set (dyn_entries (dyn_evict ?t)). esmall e) \<and>
      unat (dyn_size (dyn_evict ?t)) = sum_list (map esize (dyn_entries (dyn_evict ?t))) \<and>
      dyn_size (dyn_evict ?t) \<le> dyn_max ?t \<and> dyn_max (dyn_evict ?t) = dyn_max ?t \<and>
      prefix (dyn_entries (dyn_evict ?t)) (dyn_entries ?t)"
      using 1 (1) [OF True refl] es by simp
    moreover have "dyn_evict t = dyn_evict ?t" using True by (simp add: dyn_evict.simps [of t] Let_def es)
    ultimately show ?thesis using es by (auto intro: prefix_order.trans [of _ es])
  next
    case False
    then have "dyn_evict t = t" unfolding dyn_evict.simps [of t] by (rule if_not_P)
    moreover have "dyn_size t \<le> dyn_max t"
      using False 1 (4) by (cases "dyn_entries t = []") (auto simp: unat_eq_zero not_less)
    ultimately show ?thesis using 1 (2-4) by simp
  qed
qed

lemma insert_ok:
  assumes t: "dyn_ok t" and e: "esmall (n, v)"
  shows "dyn_ok (snd (hpack_dyn_insert t n v))"
proof -
  have ok: "length (dyn_entries t) \<le> 128" "\<forall>e\<in>set (dyn_entries t). esmall e"
    "unat (dyn_size t) = sum_list (map esize (dyn_entries t))"
    using t by (simp_all add: dyn_ok_def HPACK_MAX_ENTRIES_def)
  show ?thesis
  proof (cases "length (dyn_entries t) < 128 \<and> entry_size n v \<le> dyn_max t \<and> hp_mem t (hp_next t) \<and> hp_mem t (Suc (hp_next t))")
    case True
    let ?t = "t\<lparr>hp_next := Suc (Suc (hp_next t)), dyn_entries := (n, v) # dyn_entries t,
      dyn_size := dyn_size t + entry_size n v\<rparr>"
    have i: "snd (hpack_dyn_insert t n v) = dyn_evict ?t"
      using True by (auto simp: hpack_dyn_insert_def hp_alloc_def HPACK_MAX_ENTRIES_def Let_def dest: leD)
    have "sum_list (map esize ((n, v) # dyn_entries t)) < 2 ^ 64"
      using ok(1,2) e by (intro sum_esize_bound) auto
    then have "unat (dyn_size ?t) = sum_list (map esize (dyn_entries ?t))"
      using ok(3) entry_size_esize [OF e] by (simp add: unat_word_ariths)
    then show ?thesis
      using evict_ok [of ?t] ok(1,2) e True unfolding i by (auto simp: dyn_ok_def HPACK_MAX_ENTRIES_def)
  next
    case False
    have "dyn_max (dyn_evict t) = dyn_max t" using evict_ok [OF _ ok(2,3)] ok(1) by simp
    then show ?thesis
      using False t by (auto simp: hpack_dyn_insert_def hp_alloc_def HPACK_MAX_ENTRIES_def not_le not_less Let_def dyn_ok_def)
  qed
qed

lemma set_max_ok: "dyn_ok t \<Longrightarrow> dyn_ok (hpack_dyn_set_max_size t m)"
  using evict_ok [of "t\<lparr>dyn_max := m\<rparr>"] by (auto simp: hpack_dyn_set_max_size_def dyn_ok_def HPACK_MAX_ENTRIES_def)

subsection \<open>Whole blocks keep the table in order\<close>

lemma huf_bit_out: "huf_bit cap b (c, n, out) = Some (c', n', out') \<Longrightarrow> length out \<le> cap \<Longrightarrow> length out' \<le> cap"
  by (auto simp: huf_bit_def Let_def split: if_splits)

lemma huf_bits_out: "huf_bits cap bs (c, n, out) = Some (c', n', out') \<Longrightarrow> length out \<le> cap \<Longrightarrow> length out' \<le> cap"
proof (induction bs arbitrary: c n out)
  case (Cons b bs)
  then obtain c1 n1 o1 where "huf_bit cap b (c, n, out) = Some (c1, n1, o1)" "huf_bits cap bs (c1, n1, o1) = Some (c', n', out')"
    by (auto split: option.splits)
  then show ?case using Cons.IH huf_bit_out Cons.prems(2) by blast
qed simp

lemma huffman_decode_length: "hpack_huffman_decode data cap = Some out \<Longrightarrow> length out \<le> cap"
  by (auto simp: hpack_huffman_decode_def huf_bytes_bits split: option.splits if_splits dest!: huf_bits_out)

lemma decode_string_ok:
  assumes d: "decode_string data pos t = (r, t')"
  shows "(\<exists>k. t' = t\<lparr>hp_next := k\<rparr>) \<and> (\<forall>pos' s. r = Some (pos', s) \<longrightarrow> length s \<le> 2 * length data + 8)"
proof -
  have h: "length (cstr s) \<le> 2 * length data + 8"
    if "hpack_huffman_decode (take n (drop p data)) (8 * n div 5 + 8) = Some s" "p + n \<le> length data" for n p s
    using huffman_decode_length [OF that(1)] length_cstr [of s] that(2) by linarith
  have p: "length (cstr (take n (drop p data))) \<le> 2 * length data + 8" for n p
    using length_cstr [of "take n (drop p data)"] by (auto simp: min_def split: if_splits)
  have t: "\<exists>k. t = t\<lparr>hp_next := k\<rparr>" by (rule exI [of _ "hp_next t"]) simp
  show ?thesis
    using d h p t
    by (auto simp: decode_string_def hp_alloc_def Let_def not_less split: if_splits option.splits prod.splits)
qed

lemma static_small: "e \<in> set k_static \<Longrightarrow> esmall e"
proof -
  have "list_all (\<lambda>e. length (fst e) < 64 \<and> length (snd e) < 64) k_static" by (simp add: k_static_def bytes_of_def)
  then show "e \<in> set k_static \<Longrightarrow> esmall e" by (auto simp: list_all_iff esmall_def)
qed

lemma lookup_small: "dyn_ok t \<Longrightarrow> hpack_lookup_index t i = Some (n, v) \<Longrightarrow> esmall (n, v)"
proof -
  assume ok: "dyn_ok t" and l: "hpack_lookup_index t i = Some (n, v)"
  have k: "length k_static = 61" by (simp add: k_static_def)
  show "esmall (n, v)"
  proof (cases "i \<le> 61")
    case True
    then have i: "i \<noteq> 0" "(n, v) = k_static ! unat (i - 1)" using l by (auto simp: hpack_lookup_index_def k split: if_splits)
    have "unat (i - 1) = unat i - 1" using i(1) by (simp add: unat_minus_one)
    then have "unat (i - 1) < length k_static" using True i(1) by (simp add: k word_le_nat_alt unat_eq_zero [symmetric])
    then show ?thesis using i(2) static_small nth_mem by metis
  next
    case False
    let ?d = "i - 61 - 1"
    have d: "?d < of_nat (length (dyn_entries t))" "(n, v) = dyn_entries t ! unat ?d"
      using l False by (auto simp: hpack_lookup_index_def k Let_def not_le split: if_splits)
    have "unat ?d < length (dyn_entries t)"
      using d(1) ok by (simp add: word_less_nat_alt unat_of_nat dyn_ok_def HPACK_MAX_ENTRIES_def)
    then show ?thesis using d(2) ok nth_mem by (metis dyn_ok_def)
  qed
qed

lemma alloc_dyn_ok: "dyn_ok (t\<lparr>hp_next := k\<rparr>) = dyn_ok t"
  by (simp add: dyn_ok_def)

lemma decode_literal_ok:
  assumes ok: "dyn_ok t" and len: "length data < 2 ^ 52" and d: "decode_literal data pos pb t = (r, t')"
  shows "dyn_ok t' \<and> (\<forall>pos' n v. r = Some (pos', n, v) \<longrightarrow> esmall (n, v))"
proof (cases "decode_int data pos pb")
  case None
  then show ?thesis using ok d by (simp add: decode_literal_def)
next
  case (Some x)
  obtain pos1 index where x: "x = (pos1, index)" by fastforce
  define nm where "nm = (if index = 0 then decode_string data pos1 t
      else (case hpack_lookup_index t index of
              None \<Rightarrow> (None, t)
            | Some (n, v) \<Rightarrow> (let (ok, t1) = hp_alloc t in (if ok then Some (pos1, n) else None, t1))))"
  obtain r1 t1 where n1: "nm = (r1, t1)" by fastforce
  have t1: "dyn_ok t1" "\<And>pos2 n. r1 = Some (pos2, n) \<Longrightarrow> length n < 2 ^ 54"
  proof -
    show "dyn_ok t1"
      using n1 ok decode_string_ok [of data pos1 t r1 t1]
      by (auto simp: nm_def hp_alloc_def alloc_dyn_ok split: if_splits option.splits)
    show "length n < 2 ^ 54" if "r1 = Some (pos2, n)" for pos2 n
      using n1 that decode_string_ok [of data pos1 t r1 t1] lookup_small [OF ok, of index] len
      by (fastforce simp: nm_def hp_alloc_def esmall_def split: if_splits option.splits)
  qed
  show ?thesis
  proof (cases r1)
    case None
    then show ?thesis using d t1 n1 Some x by (simp add: decode_literal_def nm_def)
  next
    case (Some y)
    obtain pos2 n where y: "y = (pos2, n)" by fastforce
    obtain r2 t2 where s2: "decode_string data pos2 t1 = (r2, t2)" by fastforce
    have "dyn_ok t2" "\<And>pos3 v. r2 = Some (pos3, v) \<Longrightarrow> length v < 2 ^ 54"
      using decode_string_ok [OF s2] t1(1) len by (auto simp: alloc_dyn_ok)
    then show ?thesis
      using d t1(2) n1 \<open>decode_int data pos pb = Some x\<close> x Some y s2
      by (auto simp: decode_literal_def nm_def esmall_def split: option.splits)
  qed
qed

lemma loop_ok:
  assumes len: "length data < 2 ^ 52"
  shows "dyn_ok t \<Longrightarrow> dyn_ok (fst (snd (hpack_loop data pos cb t u)))"
proof (induction "length data - pos" arbitrary: pos t u rule: less_induct)
  case less
  have IH: "dyn_ok t' \<Longrightarrow> pos < pos' \<Longrightarrow> pos < length data \<Longrightarrow> dyn_ok (fst (snd (hpack_loop data pos' cb t' u')))" for t' pos' u'
    using less.hyps [of pos'] by simp
  show ?case
  proof (cases "pos < length data")
    case False
    then show ?thesis using less.prems by (simp add: hpack_loop.simps [of data pos])
  next
    case True
    note simps = hpack_loop.simps [of data pos] Let_def
    define b where "b = data ! pos"
    obtain r t1 where l6: "decode_literal data pos 6 t = (r, t1)" by fastforce
    obtain r' t1' where l4: "decode_literal data pos 4 t = (r', t1')" by fastforce
    note ok6 = decode_literal_ok [OF less.prems len l6] and ok4 = decode_literal_ok [OF less.prems len l4]
    consider "b AND 0x80 \<noteq> 0" | "b AND 0x80 = 0" "b AND 0xC0 = 0x40"
      | "b AND 0x80 = 0" "b AND 0xC0 \<noteq> 0x40" "b AND 0xE0 = 0x20"
      | "b AND 0x80 = 0" "b AND 0xC0 \<noteq> 0x40" "b AND 0xE0 \<noteq> 0x20" by blast
    then show ?thesis
    proof cases
      case 1
      then show ?thesis
        using True less.prems IH decode_int_pos [of data pos 7]
        by (simp add: simps b_def not_le split: option.split prod.split bool.split)
    next
      case 2
      then show ?thesis
        using True l6 ok6 IH decode_literal_pos [of data pos 6 t] insert_ok
        by (simp add: simps b_def not_le split: option.split prod.split bool.split)
    next
      case 3
      then show ?thesis
        using True less.prems IH set_max_ok decode_int_pos [of data pos 5]
        by (simp add: simps b_def not_le split: option.split prod.split)
    next
      case 4
      then show ?thesis
        using True l4 ok4 IH decode_literal_pos [of data pos 4 t]
        by (simp add: simps b_def not_le split: option.split prod.split bool.split)
    qed
  qed
qed

text \<open>
  C30: The dynamic table stays in order. Whatever bytes a peer sends (blocks below
  \<open>2\<^sup>5\<^sup>2\<close> bytes), whatever the callback answers and wherever decoding or an allocation fails,
  after the block the table has at most 128 entries, its size field is exactly the sum of
  the entry sizes of RFC 7541, and it does not exceed the limit the peer set.
\<close>

theorem hpack_table_invariant:
  assumes "dyn_ok t" and "length data < 2 ^ 52" and "hpack_decode t data cb u = (ok, t', u')"
  shows "dyn_ok t'"
  using loop_ok [OF assms(2,1), of 0 cb u] assms(3) by (simp add: hpack_decode_def)

theorem hpack_table_invariant_witness:
  "\<exists>t ok t' u'. dyn_ok t \<and> hpack_decode t [0x40, 1, 97, 1, 98] (\<lambda>_ _ u. (True, u)) () = (ok, t', u') \<and> dyn_ok t'"
proof -
  define t where "t = hpack_dyn_init \<lparr>dyn_entries = [], dyn_size = 0, dyn_max = 0, hp_mem = (\<lambda>_. True), hp_next = 0\<rparr>"
  have t: "dyn_ok t" by (simp add: t_def hpack_dyn_init_def dyn_ok_def HPACK_MAX_ENTRIES_def HPACK_DEFAULT_TABLE_SIZE_def)
  obtain ok t' u' where d: "hpack_decode t [0x40, 1, 97, 1, 98] (\<lambda>_ _ u. (True, u)) () = (ok, t', u')" by (metis surj_pair)
  have "dyn_ok t'" by (rule hpack_table_invariant [OF t _ d]) simp
  then show ?thesis using t d by blast
qed

end
