(* ===== verification/Gnmi_Proto.thy ===== *)
theory Gnmi_Proto
  imports Leb128
begin

text \<open>
  The protobuf codec of the gNMI service (\<^verbatim>\<open>danos-mgmt/src/gnmi/gnmi_proto.c\<close>): the message
  types, the bounded writer, the reader and the encoders and decoders of every message.

  A pointer into a message is the list of the bytes of the object from that address to its
  end, so that reading at or beyond the end of the list is a read outside the object.
  Character arrays keep all their bytes.  The field loops
  \<^verbatim>\<open>while ((field = gnmi_pbr_tag(&r, &wire)) != 0)\<close> may fail to end, so they are partial
  functions into \<^typ>\<open>'a option\<close>: \<^term>\<open>None\<close> is a run that does not return.
\<close>

subsection \<open>Limits and message types\<close>

definition GNMI_MAX_ELEMS :: nat where "GNMI_MAX_ELEMS = 8"
definition GNMI_MAX_UPDATES :: nat where "GNMI_MAX_UPDATES = 16"
definition GNMI_MAX_NAME :: nat where "GNMI_MAX_NAME = 64"
definition GNMI_MAX_VAL :: nat where "GNMI_MAX_VAL = 256"

lemmas gnmi_limits = GNMI_MAX_ELEMS_def GNMI_MAX_UPDATES_def GNMI_MAX_NAME_def GNMI_MAX_VAL_def

record gnmi_path_elem =
  pe_name :: bytes
  pe_has_key :: bool
  pe_key_name :: bytes
  pe_key_value :: bytes

record gnmi_path =
  gp_origin :: bytes
  gp_elem_count :: u32
  gp_elems :: "gnmi_path_elem list"

datatype gnmi_val_kind = GNMI_VAL_UNSET | GNMI_VAL_STRING | GNMI_VAL_INT | GNMI_VAL_UINT
  | GNMI_VAL_BOOL | GNMI_VAL_JSON | GNMI_VAL_JSON_IETF | GNMI_VAL_ASCII

text \<open>The numbers of the enumerators; \<open>val_kind\<close> is the cast \<^verbatim>\<open>(gnmi_val_kind_t)field\<close>.\<close>

fun val_field :: "gnmi_val_kind \<Rightarrow> u32" where
  "val_field GNMI_VAL_UNSET = 0"
| "val_field GNMI_VAL_STRING = 1"
| "val_field GNMI_VAL_INT = 2"
| "val_field GNMI_VAL_UINT = 3"
| "val_field GNMI_VAL_BOOL = 4"
| "val_field GNMI_VAL_JSON = 10"
| "val_field GNMI_VAL_JSON_IETF = 11"
| "val_field GNMI_VAL_ASCII = 12"

definition val_kind :: "u32 \<Rightarrow> gnmi_val_kind" where
  "val_kind f = (if f = 1 then GNMI_VAL_STRING else if f = 2 then GNMI_VAL_INT
     else if f = 3 then GNMI_VAL_UINT else if f = 4 then GNMI_VAL_BOOL
     else if f = 10 then GNMI_VAL_JSON else if f = 11 then GNMI_VAL_JSON_IETF
     else if f = 12 then GNMI_VAL_ASCII else GNMI_VAL_UNSET)"

record gnmi_typed_value =
  tv_kind :: gnmi_val_kind
  tv_s :: bytes
  tv_i :: u64
  tv_u :: u64
  tv_b :: bool

record gnmi_update =
  gu_path :: gnmi_path
  gu_val :: gnmi_typed_value

record gnmi_notification =
  gn_timestamp :: u64
  gn_prefix_origin :: bytes
  gn_update_count :: u32
  gn_updates :: "gnmi_update list"

text \<open>The enumerations that the decoders store without a range check stay integers.\<close>

type_synonym gnmi_encoding = u32
type_synonym gnmi_sub_mode = u32
type_synonym gnmi_op = u32

definition GNMI_ENC_JSON :: gnmi_encoding where "GNMI_ENC_JSON = 0"
definition GNMI_SUB_MODE_STREAM :: gnmi_sub_mode where "GNMI_SUB_MODE_STREAM = 0"

record gnmi_get_request =
  gr_prefix :: gnmi_path
  gr_path_count :: u32
  gr_paths :: "gnmi_path list"
  gr_data_type :: u32
  gr_encoding :: gnmi_encoding

record gnmi_set_request =
  sr_prefix :: gnmi_path
  sr_delete_count :: u32
  sr_deletes :: "gnmi_path list"
  sr_update_count :: u32
  sr_updates :: "gnmi_update list"
  sr_replace_count :: u32
  sr_replaces :: "gnmi_update list"

record gnmi_set_response =
  sp_prefix :: gnmi_path
  sp_result_paths :: "gnmi_path list"
  sp_ops :: "gnmi_op list"
  sp_result_count :: u32
  sp_timestamp :: u64

record gnmi_subscribe_list =
  sl_prefix :: gnmi_path
  sl_sub_count :: u32
  sl_subs :: "gnmi_path list"
  sl_mode :: gnmi_sub_mode
  sl_encoding :: gnmi_encoding
  sl_updates_only :: bool

record gnmi_subscribe_request =
  sq_subscribe :: gnmi_subscribe_list
  sq_is_poll :: bool

record gnmi_model_data =
  md_name :: "bytes option"
  md_organization :: "bytes option"
  md_version :: "bytes option"

text \<open>The objects after \<^verbatim>\<open>memset(out, 0, sizeof(*out))\<close>.\<close>

definition zeros :: "nat \<Rightarrow> bytes" where "zeros n = replicate n 0"

definition elem_zero :: gnmi_path_elem where
  "elem_zero = \<lparr>pe_name = zeros GNMI_MAX_NAME, pe_has_key = False,
     pe_key_name = zeros GNMI_MAX_NAME, pe_key_value = zeros GNMI_MAX_NAME\<rparr>"

definition path_zero :: gnmi_path where
  "path_zero = \<lparr>gp_origin = zeros 32, gp_elem_count = 0, gp_elems = replicate GNMI_MAX_ELEMS elem_zero\<rparr>"

definition value_zero :: gnmi_typed_value where
  "value_zero = \<lparr>tv_kind = GNMI_VAL_UNSET, tv_s = zeros GNMI_MAX_VAL, tv_i = 0, tv_u = 0, tv_b = False\<rparr>"

definition update_zero :: gnmi_update where
  "update_zero = \<lparr>gu_path = path_zero, gu_val = value_zero\<rparr>"

definition get_request_zero :: gnmi_get_request where
  "get_request_zero = \<lparr>gr_prefix = path_zero, gr_path_count = 0,
     gr_paths = replicate GNMI_MAX_ELEMS path_zero, gr_data_type = 0, gr_encoding = 0\<rparr>"

definition set_request_zero :: gnmi_set_request where
  "set_request_zero = \<lparr>sr_prefix = path_zero, sr_delete_count = 0,
     sr_deletes = replicate GNMI_MAX_ELEMS path_zero,
     sr_update_count = 0, sr_updates = replicate GNMI_MAX_UPDATES update_zero,
     sr_replace_count = 0, sr_replaces = replicate GNMI_MAX_UPDATES update_zero\<rparr>"

definition subscribe_zero :: gnmi_subscribe_request where
  "subscribe_zero = \<lparr>sq_subscribe = \<lparr>sl_prefix = path_zero, sl_sub_count = 0,
       sl_subs = replicate GNMI_MAX_ELEMS path_zero, sl_mode = 0, sl_encoding = 0, sl_updates_only = False\<rparr>,
     sq_is_poll = False\<rparr>"

subsection \<open>Writer\<close>

record gnmi_pb =
  pb_buf :: bytes
  pb_cap :: u64
  pb_len :: u64
  pb_overflow :: bool

definition gnmi_pb_init :: "bytes \<Rightarrow> u64 \<Rightarrow> gnmi_pb" where
  "gnmi_pb_init buf cap = \<lparr>pb_buf = buf, pb_cap = cap, pb_len = 0, pb_overflow = False\<rparr>"

definition pb_write :: "gnmi_pb \<Rightarrow> bytes \<Rightarrow> gnmi_pb" where
  "pb_write w p = (let n = of_nat (length p) in
     if pb_len w + n > pb_cap w then w\<lparr>pb_overflow := True\<rparr>
     else w\<lparr>pb_buf := mem_put (unat (pb_len w)) p (pb_buf w), pb_len := pb_len w + n\<rparr>)"

function varint_bytes :: "u64 \<Rightarrow> bytes" where
  "varint_bytes v = (if v \<ge> 0x80 then ucast (v OR 0x80) # varint_bytes (drop_bit 7 v) else [ucast v])"
  by pat_completeness auto
termination
  by (relation "measure unat") (use drop7_less in auto)

declare varint_bytes.simps [simp del]

definition gnmi_pb_put_varint :: "gnmi_pb \<Rightarrow> u64 \<Rightarrow> gnmi_pb" where
  "gnmi_pb_put_varint w v = pb_write w (varint_bytes v)"

definition gnmi_pb_put_tag :: "gnmi_pb \<Rightarrow> u32 \<Rightarrow> u32 \<Rightarrow> gnmi_pb" where
  "gnmi_pb_put_tag w field wire = gnmi_pb_put_varint w (push_bit 3 (ucast field) OR ucast wire)"

definition gnmi_pb_put_len_delim :: "gnmi_pb \<Rightarrow> u32 \<Rightarrow> bytes \<Rightarrow> gnmi_pb" where
  "gnmi_pb_put_len_delim w field data =
     pb_write (gnmi_pb_put_varint (gnmi_pb_put_tag w field 2) (of_nat (length data))) data"

definition gnmi_pb_put_string :: "gnmi_pb \<Rightarrow> u32 \<Rightarrow> bytes option \<Rightarrow> gnmi_pb" where
  "gnmi_pb_put_string w field s =
     gnmi_pb_put_len_delim w field (case s of None \<Rightarrow> [] | Some s \<Rightarrow> cstr s)"

definition gnmi_pb_put_uint64 :: "gnmi_pb \<Rightarrow> u32 \<Rightarrow> u64 \<Rightarrow> gnmi_pb" where
  "gnmi_pb_put_uint64 w field v =
     (if v = 0 then w else gnmi_pb_put_varint (gnmi_pb_put_tag w field 0) v)"

definition gnmi_pb_put_bool :: "gnmi_pb \<Rightarrow> u32 \<Rightarrow> bool \<Rightarrow> gnmi_pb" where
  "gnmi_pb_put_bool w field v =
     (if \<not> v then w else gnmi_pb_put_varint (gnmi_pb_put_tag w field 0) 1)"

definition gnmi_pb_put_enum :: "gnmi_pb \<Rightarrow> u32 \<Rightarrow> u32 \<Rightarrow> gnmi_pb" where
  "gnmi_pb_put_enum w field v =
     (if v = 0 then w else gnmi_pb_put_varint (gnmi_pb_put_tag w field 0) (scast v))"

definition gnmi_pb_begin_nested :: "gnmi_pb \<Rightarrow> u32 \<Rightarrow> u64 \<times> gnmi_pb" where
  "gnmi_pb_begin_nested w field =
     (let w1 = gnmi_pb_put_tag w field 2 in (pb_len w1, pb_write w1 [0]))"

definition pb_fix_len :: "gnmi_pb \<Rightarrow> u64 \<Rightarrow> gnmi_pb" where
  "pb_fix_len w saved =
     (let body = pb_len w - saved - 1 in
      if body < 0x80 then w\<lparr>pb_buf := mem_put (unat saved) [ucast body] (pb_buf w)\<rparr>
      else if saved + 1 + body + 1 > pb_cap w then w\<lparr>pb_overflow := True\<rparr>
      else
        let b1 = mem_put (unat (saved + 2)) (bslice (unat (saved + 1)) (unat body) (pb_buf w)) (pb_buf w);
            b2 = mem_put (unat saved) [ucast (body OR 0x80)] b1;
            b3 = mem_put (unat (saved + 1)) [ucast (drop_bit 7 body)] b2
        in w\<lparr>pb_buf := b3, pb_len := pb_len w + 1\<rparr>)"

definition gnmi_pb_end_nested :: "gnmi_pb \<Rightarrow> u64 \<Rightarrow> gnmi_pb" where
  "gnmi_pb_end_nested w saved = pb_fix_len w saved"

subsection \<open>Encoders\<close>

definition encode_path_elem :: "gnmi_path_elem \<Rightarrow> gnmi_pb \<Rightarrow> gnmi_pb" where
  "encode_path_elem e w =
     (let (esaved, w) = gnmi_pb_begin_nested w 3;
          w = gnmi_pb_put_string w 1 (Some (pe_name e));
          w = (if pe_has_key e then
                 let (ksaved, w) = gnmi_pb_begin_nested w 2;
                     w = gnmi_pb_put_string w 1 (Some (pe_key_name e));
                     w = gnmi_pb_put_string w 2 (Some (pe_key_value e))
                 in gnmi_pb_end_nested w ksaved
               else w)
      in gnmi_pb_end_nested w esaved)"

definition gnmi_encode_path :: "gnmi_pb \<Rightarrow> u32 \<Rightarrow> gnmi_path option \<Rightarrow> gnmi_pb" where
  "gnmi_encode_path w field path = (case path of None \<Rightarrow> w | Some path \<Rightarrow>
     let (saved, w) = gnmi_pb_begin_nested w field;
         w = (if gp_origin path ! 0 \<noteq> 0 then gnmi_pb_put_string w 2 (Some (gp_origin path)) else w);
         w = fold (\<lambda>i. encode_path_elem (gp_elems path ! i)) [0..<unat (gp_elem_count path)] w
     in gnmi_pb_end_nested w saved)"

definition gnmi_encode_typed_value :: "gnmi_pb \<Rightarrow> u32 \<Rightarrow> gnmi_typed_value option \<Rightarrow> gnmi_pb" where
  "gnmi_encode_typed_value w field val = (case val of None \<Rightarrow> w | Some val \<Rightarrow>
     if tv_kind val = GNMI_VAL_UNSET then w
     else let (saved, w) = gnmi_pb_begin_nested w field;
              w = (case tv_kind val of
                     GNMI_VAL_INT \<Rightarrow> gnmi_pb_put_varint (gnmi_pb_put_tag w 2 0) (tv_i val)
                   | GNMI_VAL_UINT \<Rightarrow> gnmi_pb_put_uint64 w 3 (tv_u val)
                   | GNMI_VAL_BOOL \<Rightarrow> gnmi_pb_put_varint (gnmi_pb_put_tag w 4 0) (if tv_b val then 1 else 0)
                   | k \<Rightarrow> gnmi_pb_put_string w (val_field k) (Some (tv_s val)))
          in gnmi_pb_end_nested w saved)"

definition encode_update :: "gnmi_pb \<Rightarrow> u32 \<Rightarrow> gnmi_update \<Rightarrow> gnmi_pb" where
  "encode_update w field u =
     (let (saved, w) = gnmi_pb_begin_nested w field;
          w = gnmi_encode_path w 1 (Some (gu_path u));
          w = gnmi_encode_typed_value w 3 (Some (gu_val u))
      in gnmi_pb_end_nested w saved)"

definition gnmi_encode_notification :: "gnmi_pb \<Rightarrow> u32 \<Rightarrow> gnmi_notification \<Rightarrow> gnmi_pb" where
  "gnmi_encode_notification w field n =
     (let (saved, w) = gnmi_pb_begin_nested w field;
          w = gnmi_pb_put_uint64 w 1 (gn_timestamp n);
          w = fold (\<lambda>i w. encode_update w 4 (gn_updates n ! i)) [0..<unat (gn_update_count n)] w
      in gnmi_pb_end_nested w saved)"

definition gnmi_encode_get_response :: "gnmi_pb \<Rightarrow> gnmi_notification list \<Rightarrow> bool \<times> gnmi_pb" where
  "gnmi_encode_get_response w notifs =
     (let w = fold (\<lambda>n w. gnmi_encode_notification w 1 n) notifs w in (\<not> pb_overflow w, w))"

definition encode_update_result :: "gnmi_set_response \<Rightarrow> nat \<Rightarrow> gnmi_pb \<Rightarrow> gnmi_pb" where
  "encode_update_result resp i w =
     (let (saved, w) = gnmi_pb_begin_nested w 2;
          w = gnmi_encode_path w 2 (Some (sp_result_paths resp ! i));
          w = gnmi_pb_put_enum w 4 (sp_ops resp ! i)
      in gnmi_pb_end_nested w saved)"

definition gnmi_encode_set_response :: "gnmi_pb \<Rightarrow> gnmi_set_response \<Rightarrow> bool \<times> gnmi_pb" where
  "gnmi_encode_set_response w resp =
     (let w = (if gp_elem_count (sp_prefix resp) > 0 then gnmi_encode_path w 1 (Some (sp_prefix resp)) else w);
          w = fold (encode_update_result resp) [0..<unat (sp_result_count resp)] w;
          w = gnmi_pb_put_uint64 w 4 (sp_timestamp resp)
      in (\<not> pb_overflow w, w))"

definition encode_model :: "gnmi_model_data \<Rightarrow> gnmi_pb \<Rightarrow> gnmi_pb" where
  "encode_model m w =
     (let (saved, w) = gnmi_pb_begin_nested w 1;
          w = gnmi_pb_put_string w 1 (md_name m);
          w = gnmi_pb_put_string w 2 (md_organization m);
          w = gnmi_pb_put_string w 3 (md_version m)
      in gnmi_pb_end_nested w saved)"

definition gnmi_encode_capabilities_response ::
  "gnmi_pb \<Rightarrow> gnmi_model_data list \<Rightarrow> gnmi_encoding list \<Rightarrow> bytes option \<Rightarrow> bool \<times> gnmi_pb" where
  "gnmi_encode_capabilities_response w models encodings gnmi_version =
     (let w = fold encode_model models w;
          w = fold (\<lambda>e w. gnmi_pb_put_enum w 2 e) encodings w;
          w = gnmi_pb_put_string w 3 gnmi_version
      in (\<not> pb_overflow w, w))"

definition gnmi_encode_subscribe_update :: "gnmi_pb \<Rightarrow> gnmi_notification \<Rightarrow> bool \<times> gnmi_pb" where
  "gnmi_encode_subscribe_update w n =
     (let w = gnmi_encode_notification w 1 n in (\<not> pb_overflow w, w))"

definition gnmi_encode_subscribe_sync :: "gnmi_pb \<Rightarrow> bool \<times> gnmi_pb" where
  "gnmi_encode_subscribe_sync w = (let w = gnmi_pb_put_bool w 3 True in (\<not> pb_overflow w, w))"

subsection \<open>Reader\<close>

record gnmi_pb_reader =
  r_p :: bytes
  r_len :: u64
  r_pos :: u64
  r_err :: bool

definition gnmi_pbr_init :: "bytes \<Rightarrow> u64 \<Rightarrow> gnmi_pb_reader" where
  "gnmi_pbr_init buf len = \<lparr>r_p = buf, r_len = len, r_pos = 0, r_err = False\<rparr>"

text \<open>In the primitives \<^term>\<open>None\<close> is a read outside the object.\<close>

function pbr_varint_loop :: "u64 \<Rightarrow> nat \<Rightarrow> gnmi_pb_reader \<Rightarrow> (u64 \<times> gnmi_pb_reader) option" where
  "pbr_varint_loop v shift r =
     (if shift < 64 then
        if r_pos r \<ge> r_len r then Some (0, r\<lparr>r_err := True\<rparr>)
        else if unat (r_pos r) \<ge> length (r_p r) then None
        else let b = r_p r ! unat (r_pos r);
                 r1 = r\<lparr>r_pos := r_pos r + 1\<rparr>;
                 v1 = v OR push_bit shift (ucast (b AND 0x7F))
             in if b AND 0x80 = 0 then Some (v1, r1) else pbr_varint_loop v1 (shift + 7) r1
      else Some (0, r\<lparr>r_err := True\<rparr>))"
  by pat_completeness auto
termination
  by (relation "measure (\<lambda>(v, shift, r). 64 - shift)") auto

declare pbr_varint_loop.simps [simp del]

definition gnmi_pbr_varint :: "gnmi_pb_reader \<Rightarrow> (u64 \<times> gnmi_pb_reader) option" where
  "gnmi_pbr_varint r = pbr_varint_loop 0 0 r"

text \<open>The wire type is meaningful only with a field number other than 0.\<close>

definition gnmi_pbr_tag :: "gnmi_pb_reader \<Rightarrow> (u32 \<times> u32 \<times> gnmi_pb_reader) option" where
  "gnmi_pbr_tag r =
     (if r_pos r \<ge> r_len r then Some (0, 0, r)
      else case gnmi_pbr_varint r of
        None \<Rightarrow> None
      | Some (t, r1) \<Rightarrow> if r_err r1 then Some (0, 0, r1)
                       else Some (ucast (drop_bit 3 t), ucast (t AND 7), r1))"

text \<open>The result is the returned flag, the data pointer, its length and the reader.\<close>

definition gnmi_pbr_bytes :: "gnmi_pb_reader \<Rightarrow> (bool \<times> bytes \<times> u64 \<times> gnmi_pb_reader) option" where
  "gnmi_pbr_bytes r =
     (case gnmi_pbr_varint r of
        None \<Rightarrow> None
      | Some (n, r1) \<Rightarrow>
          if r_err r1 \<or> r_pos r1 + n > r_len r1 then Some (False, [], 0, r1\<lparr>r_err := True\<rparr>)
          else Some (True, drop (unat (r_pos r1)) (r_p r1), n, r1\<lparr>r_pos := r_pos r1 + n\<rparr>))"

definition gnmi_pbr_skip :: "gnmi_pb_reader \<Rightarrow> u32 \<Rightarrow> gnmi_pb_reader option" where
  "gnmi_pbr_skip r wire =
     map_option (\<lambda>r. if r_pos r > r_len r then r\<lparr>r_err := True\<rparr> else r)
       (if wire = 0 then map_option snd (gnmi_pbr_varint r)
        else if wire = 1 then Some (r\<lparr>r_pos := r_pos r + 8\<rparr>)
        else if wire = 2 then map_option (\<lambda>(ok, d, n, r). r) (gnmi_pbr_bytes r)
        else if wire = 5 then Some (r\<lparr>r_pos := r_pos r + 4\<rparr>)
        else Some (r\<lparr>r_err := True\<rparr>))"

subsection \<open>Decoders\<close>

text \<open>
  What a decoding function does when it returns: it read outside the object, it returned
  false (the callers then discard the output object), or it returned true with its output.
\<close>

datatype 'a rd = Fault | Bad | Ok 'a

definition rd_bind :: "'a rd option \<Rightarrow> ('a \<Rightarrow> 'b rd option) \<Rightarrow> 'b rd option" where
  "rd_bind m f = (case m of
      None \<Rightarrow> None | Some Fault \<Rightarrow> Some Fault | Some Bad \<Rightarrow> Some Bad | Some (Ok x) \<Rightarrow> f x)"

definition fetch :: "'a option \<Rightarrow> 'a rd option" where
  "fetch m = (case m of None \<Rightarrow> Some Fault | Some x \<Rightarrow> Some (Ok x))"

text \<open>\<^verbatim>\<open>if (!gnmi_pbr_bytes(&r, &d, &n)) return false;\<close>\<close>

definition need_bytes :: "gnmi_pb_reader \<Rightarrow> (bytes \<times> u64 \<times> gnmi_pb_reader) rd option" where
  "need_bytes r = rd_bind (fetch (gnmi_pbr_bytes r))
     (\<lambda>(ok, d, n, r). if ok then Some (Ok (d, n, r)) else Some Bad)"

text \<open>\<^verbatim>\<open>while ((field = gnmi_pbr_tag(&r, &wire)) != 0) body\<close>\<close>

partial_function (option) pb_loop ::
  "(u32 \<Rightarrow> u32 \<Rightarrow> gnmi_pb_reader \<Rightarrow> 's \<Rightarrow> (gnmi_pb_reader \<times> 's) rd option) \<Rightarrow>
   gnmi_pb_reader \<Rightarrow> 's \<Rightarrow> (gnmi_pb_reader \<times> 's) rd option" where
  "pb_loop body r s =
     (case gnmi_pbr_tag r of
        None \<Rightarrow> Some Fault
      | Some (field, wire, r1) \<Rightarrow>
          if field = 0 then Some (Ok (r1, s))
          else case body field wire r1 s of
                 None \<Rightarrow> None
               | Some Fault \<Rightarrow> Some Fault
               | Some Bad \<Rightarrow> Some Bad
               | Some (Ok (r2, s2)) \<Rightarrow> pb_loop body r2 s2)"

definition skip_field :: "u32 \<Rightarrow> gnmi_pb_reader \<Rightarrow> 's \<Rightarrow> (gnmi_pb_reader \<times> 's) rd option" where
  "skip_field wire r s = rd_bind (fetch (gnmi_pbr_skip r wire)) (\<lambda>r. Some (Ok (r, s)))"

text \<open>
  \<open>copy_str cap d n arr\<close>: \<^verbatim>\<open>c = n < cap - 1 ? n : cap - 1; memcpy(arr, d, c); arr[c] = 0\<close>.
\<close>

definition copy_str :: "nat \<Rightarrow> bytes \<Rightarrow> u64 \<Rightarrow> bytes \<Rightarrow> bytes rd option" where
  "copy_str cap d n arr =
     (let c = min (unat n) (cap - 1) in
      if c > length d then Some Fault else Some (Ok (mem_put 0 (take c d @ [0]) arr)))"

definition key_entry_field ::
  "u32 \<Rightarrow> u32 \<Rightarrow> gnmi_pb_reader \<Rightarrow> bytes \<times> bytes \<Rightarrow> (gnmi_pb_reader \<times> bytes \<times> bytes) rd option" where
  "key_entry_field kf kw kr = (\<lambda>(kname, kval).
     rd_bind (if kf = 1 \<or> kf = 2 then fetch (gnmi_pbr_bytes kr) else Some (Ok (False, [], 0, kr)))
       (\<lambda>(ok, vd, vn, kr).
         rd_bind
           (if kf = 1 \<and> ok then rd_bind (copy_str GNMI_MAX_NAME vd vn kname) (\<lambda>kname. Some (Ok (kr, kname, kval)))
            else if kf = 2 \<and> ok then rd_bind (copy_str GNMI_MAX_NAME vd vn kval) (\<lambda>kval. Some (Ok (kr, kname, kval)))
            else skip_field kw kr (kname, kval))
           (\<lambda>(kr, kname, kval). if r_err kr then Some Bad else Some (Ok (kr, kname, kval)))))"

text \<open>\<^verbatim>\<open>snprintf(arr, sizeof(arr), "%s", s)\<close> for an array of the size of the source.\<close>

definition print_str :: "bytes \<Rightarrow> bytes \<Rightarrow> bytes" where
  "print_str s arr = mem_put 0 (cstr s @ [0]) arr"

definition path_elem_field ::
  "u32 \<Rightarrow> u32 \<Rightarrow> gnmi_pb_reader \<Rightarrow> gnmi_path_elem \<Rightarrow> (gnmi_pb_reader \<times> gnmi_path_elem) rd option" where
  "path_elem_field ef ew er e =
     (if r_err er then Some Bad
      else if ef = 1 \<and> ew = 2 then
        rd_bind (need_bytes er) (\<lambda>(nd, nn, er).
        rd_bind (copy_str GNMI_MAX_NAME nd nn (pe_name e)) (\<lambda>s. Some (Ok (er, e\<lparr>pe_name := s\<rparr>))))
      else if ef = 2 \<and> ew = 2 then
        rd_bind (need_bytes er) (\<lambda>(kd, kn, er).
        rd_bind (pb_loop key_entry_field (gnmi_pbr_init kd kn) (zeros GNMI_MAX_NAME, zeros GNMI_MAX_NAME))
          (\<lambda>(kr, kname, kval).
             Some (Ok (er, e\<lparr>pe_key_name := print_str kname (pe_key_name e),
                             pe_key_value := print_str kval (pe_key_value e),
                             pe_has_key := (kname ! 0 \<noteq> 0)\<rparr>))))
      else skip_field ew er e)"

definition path_field ::
  "u32 \<Rightarrow> u32 \<Rightarrow> gnmi_pb_reader \<Rightarrow> gnmi_path \<Rightarrow> (gnmi_pb_reader \<times> gnmi_path) rd option" where
  "path_field field wire r out =
     (if r_err r then Some Bad
      else if field = 2 then
        rd_bind (need_bytes r) (\<lambda>(d, n, r).
        rd_bind (copy_str 32 d n (gp_origin out)) (\<lambda>s. Some (Ok (r, out\<lparr>gp_origin := s\<rparr>))))
      else if field = 3 then
        rd_bind (need_bytes r) (\<lambda>(d, n, r).
        if gp_elem_count out \<ge> of_nat GNMI_MAX_ELEMS then Some Bad
        else rd_bind (pb_loop path_elem_field (gnmi_pbr_init d n) elem_zero) (\<lambda>(er, e).
               Some (Ok (r, out\<lparr>gp_elems := (gp_elems out)[unat (gp_elem_count out) := e],
                                gp_elem_count := gp_elem_count out + 1\<rparr>))))
      else skip_field wire r out)"

definition gnmi_decode_path :: "bytes \<Rightarrow> u64 \<Rightarrow> gnmi_path rd option" where
  "gnmi_decode_path data len =
     rd_bind (pb_loop path_field (gnmi_pbr_init data len) path_zero)
       (\<lambda>(r, out). if r_err r then Some Bad else Some (Ok out))"

definition value_field ::
  "u32 \<Rightarrow> u32 \<Rightarrow> gnmi_pb_reader \<Rightarrow> gnmi_typed_value \<Rightarrow> (gnmi_pb_reader \<times> gnmi_typed_value) rd option" where
  "value_field field wire r out =
     (if r_err r then Some Bad
      else rd_bind
        (if field = 1 \<or> field = 10 \<or> field = 11 \<or> field = 12 then
           rd_bind (need_bytes r) (\<lambda>(d, n, r).
           rd_bind (copy_str GNMI_MAX_VAL d n (tv_s out)) (\<lambda>s.
             Some (Ok (r, out\<lparr>tv_s := s, tv_kind := val_kind field\<rparr>))))
         else if field = 2 then
           rd_bind (fetch (gnmi_pbr_varint r)) (\<lambda>(v, r). Some (Ok (r, out\<lparr>tv_i := v, tv_kind := GNMI_VAL_INT\<rparr>)))
         else if field = 3 then
           rd_bind (fetch (gnmi_pbr_varint r)) (\<lambda>(v, r). Some (Ok (r, out\<lparr>tv_u := v, tv_kind := GNMI_VAL_UINT\<rparr>)))
         else if field = 4 then
           rd_bind (fetch (gnmi_pbr_varint r)) (\<lambda>(v, r). Some (Ok (r, out\<lparr>tv_b := (v \<noteq> 0), tv_kind := GNMI_VAL_BOOL\<rparr>)))
         else skip_field wire r out)
        (\<lambda>(r, out). if r_err r then Some Bad else Some (Ok (r, out))))"

definition gnmi_decode_typed_value :: "bytes \<Rightarrow> u64 \<Rightarrow> gnmi_typed_value rd option" where
  "gnmi_decode_typed_value data len =
     rd_bind (pb_loop value_field (gnmi_pbr_init data len) value_zero)
       (\<lambda>(r, out). if tv_kind out \<noteq> GNMI_VAL_UNSET then Some (Ok out) else Some Bad)"

text \<open>\<^verbatim>\<open>if (!gnmi_pbr_bytes(&r, &d, &n)) return false; if (!dec(d, n, &out)) return false;\<close>\<close>

definition nested :: "gnmi_pb_reader \<Rightarrow> (bytes \<Rightarrow> u64 \<Rightarrow> 'a rd option) \<Rightarrow> ('a \<Rightarrow> 's) \<Rightarrow> (gnmi_pb_reader \<times> 's) rd option" where
  "nested r dec k = rd_bind (need_bytes r) (\<lambda>(d, n, r). rd_bind (dec d n) (\<lambda>x. Some (Ok (r, k x))))"

definition update_field ::
  "u32 \<Rightarrow> u32 \<Rightarrow> gnmi_pb_reader \<Rightarrow> gnmi_update \<Rightarrow> (gnmi_pb_reader \<times> gnmi_update) rd option" where
  "update_field field wire r out =
     (if r_err r then Some Bad
      else if field = 1 then nested r gnmi_decode_path (\<lambda>p. out\<lparr>gu_path := p\<rparr>)
      else if field = 3 then nested r gnmi_decode_typed_value (\<lambda>v. out\<lparr>gu_val := v\<rparr>)
      else skip_field wire r out)"

definition decode_update :: "bytes \<Rightarrow> u64 \<Rightarrow> gnmi_update rd option" where
  "decode_update data len =
     rd_bind (pb_loop update_field (gnmi_pbr_init data len) update_zero)
       (\<lambda>(r, out). if r_err r then Some Bad else Some (Ok out))"

text \<open>
  \<open>nested_at r full dec k\<close>: as \<open>nested\<close>, with the test that the array has a free slot
  between reading the bytes and decoding them.
\<close>

definition nested_at ::
  "gnmi_pb_reader \<Rightarrow> bool \<Rightarrow> (bytes \<Rightarrow> u64 \<Rightarrow> 'a rd option) \<Rightarrow> ('a \<Rightarrow> 's) \<Rightarrow> (gnmi_pb_reader \<times> 's) rd option" where
  "nested_at r full dec k =
     rd_bind (need_bytes r) (\<lambda>(d, n, r).
       if full then Some Bad else rd_bind (dec d n) (\<lambda>x. Some (Ok (r, k x))))"

definition get_request_field ::
  "u32 \<Rightarrow> u32 \<Rightarrow> gnmi_pb_reader \<Rightarrow> gnmi_get_request \<Rightarrow> (gnmi_pb_reader \<times> gnmi_get_request) rd option" where
  "get_request_field field wire r out =
     (if r_err r then Some Bad
      else if field = 1 then nested r gnmi_decode_path (\<lambda>p. out\<lparr>gr_prefix := p\<rparr>)
      else if field = 2 then
        nested_at r (gr_path_count out \<ge> of_nat GNMI_MAX_ELEMS) gnmi_decode_path
          (\<lambda>p. out\<lparr>gr_paths := (gr_paths out)[unat (gr_path_count out) := p], gr_path_count := gr_path_count out + 1\<rparr>)
      else if field = 3 then
        rd_bind (fetch (gnmi_pbr_varint r)) (\<lambda>(v, r). Some (Ok (r, out\<lparr>gr_data_type := ucast v\<rparr>)))
      else if field = 5 then
        rd_bind (fetch (gnmi_pbr_varint r)) (\<lambda>(v, r). Some (Ok (r, out\<lparr>gr_encoding := ucast v\<rparr>)))
      else skip_field wire r out)"

definition gnmi_decode_get_request :: "bytes \<Rightarrow> u64 \<Rightarrow> gnmi_get_request rd option" where
  "gnmi_decode_get_request data len =
     rd_bind (pb_loop get_request_field (gnmi_pbr_init data len) (get_request_zero\<lparr>gr_encoding := GNMI_ENC_JSON\<rparr>))
       (\<lambda>(r, out). if \<not> r_err r \<and> gr_path_count out > 0 then Some (Ok out) else Some Bad)"

definition set_request_field ::
  "u32 \<Rightarrow> u32 \<Rightarrow> gnmi_pb_reader \<Rightarrow> gnmi_set_request \<Rightarrow> (gnmi_pb_reader \<times> gnmi_set_request) rd option" where
  "set_request_field field wire r out =
     (if r_err r then Some Bad
      else if field = 1 then nested r gnmi_decode_path (\<lambda>p. out\<lparr>sr_prefix := p\<rparr>)
      else if field = 2 then
        nested_at r (sr_delete_count out \<ge> of_nat GNMI_MAX_ELEMS) gnmi_decode_path
          (\<lambda>p. out\<lparr>sr_deletes := (sr_deletes out)[unat (sr_delete_count out) := p], sr_delete_count := sr_delete_count out + 1\<rparr>)
      else if field = 3 then
        nested_at r (sr_replace_count out \<ge> of_nat GNMI_MAX_UPDATES) decode_update
          (\<lambda>u. out\<lparr>sr_replaces := (sr_replaces out)[unat (sr_replace_count out) := u], sr_replace_count := sr_replace_count out + 1\<rparr>)
      else if field = 4 then
        nested_at r (sr_update_count out \<ge> of_nat GNMI_MAX_UPDATES) decode_update
          (\<lambda>u. out\<lparr>sr_updates := (sr_updates out)[unat (sr_update_count out) := u], sr_update_count := sr_update_count out + 1\<rparr>)
      else skip_field wire r out)"

definition gnmi_decode_set_request :: "bytes \<Rightarrow> u64 \<Rightarrow> gnmi_set_request rd option" where
  "gnmi_decode_set_request data len =
     rd_bind (pb_loop set_request_field (gnmi_pbr_init data len) set_request_zero)
       (\<lambda>(r, out). if r_err r then Some Bad else Some (Ok out))"

text \<open>The three loops of a SubscribeRequest, innermost first.\<close>

definition subscription_field ::
  "u32 \<Rightarrow> u32 \<Rightarrow> gnmi_pb_reader \<Rightarrow> gnmi_path \<Rightarrow> (gnmi_pb_reader \<times> gnmi_path) rd option" where
  "subscription_field sf sw sr sub =
     rd_bind (if sf = 1 then fetch (gnmi_pbr_bytes sr) else Some (Ok (False, [], 0, sr)))
       (\<lambda>(ok, sd, sn, sr).
          if ok then rd_bind (gnmi_decode_path sd sn) (\<lambda>p. Some (Ok (sr, p)))
          else skip_field sw sr sub)"

definition subscription_list_field ::
  "u32 \<Rightarrow> u32 \<Rightarrow> gnmi_pb_reader \<Rightarrow> gnmi_subscribe_list \<Rightarrow> (gnmi_pb_reader \<times> gnmi_subscribe_list) rd option" where
  "subscription_list_field lf lw lr out =
     (if r_err lr then Some Bad
      else if lf = 2 then
        nested_at lr (sl_sub_count out \<ge> of_nat GNMI_MAX_ELEMS)
          (\<lambda>ld ln. pb_loop subscription_field (gnmi_pbr_init ld ln) path_zero)
          (\<lambda>(sr, p). out\<lparr>sl_subs := (sl_subs out)[unat (sl_sub_count out) := p], sl_sub_count := sl_sub_count out + 1\<rparr>)
      else if lf = 5 then
        rd_bind (fetch (gnmi_pbr_varint lr)) (\<lambda>(v, lr). Some (Ok (lr, out\<lparr>sl_mode := ucast v\<rparr>)))
      else if lf = 8 then
        rd_bind (fetch (gnmi_pbr_varint lr)) (\<lambda>(v, lr). Some (Ok (lr, out\<lparr>sl_encoding := ucast v\<rparr>)))
      else if lf = 9 then
        rd_bind (fetch (gnmi_pbr_varint lr)) (\<lambda>(v, lr). Some (Ok (lr, out\<lparr>sl_updates_only := (v \<noteq> 0)\<rparr>)))
      else skip_field lw lr out)"

definition subscribe_request_field ::
  "u32 \<Rightarrow> u32 \<Rightarrow> gnmi_pb_reader \<Rightarrow> gnmi_subscribe_request \<Rightarrow> (gnmi_pb_reader \<times> gnmi_subscribe_request) rd option" where
  "subscribe_request_field field wire r out =
     (if r_err r then Some Bad
      else if field = 1 then
        nested r (\<lambda>d n. pb_loop subscription_list_field (gnmi_pbr_init d n) (sq_subscribe out))
          (\<lambda>(lr, l). out\<lparr>sq_subscribe := l\<rparr>)
      else if field = 3 then skip_field wire r (out\<lparr>sq_is_poll := True\<rparr>)
      else skip_field wire r out)"

definition gnmi_decode_subscribe_request :: "bytes \<Rightarrow> u64 \<Rightarrow> gnmi_subscribe_request rd option" where
  "gnmi_decode_subscribe_request data len =
     rd_bind (pb_loop subscribe_request_field (gnmi_pbr_init data len)
         (subscribe_zero\<lparr>sq_subscribe := (sq_subscribe subscribe_zero)
            \<lparr>sl_mode := GNMI_SUB_MODE_STREAM, sl_encoding := GNMI_ENC_JSON\<rparr>\<rparr>))
       (\<lambda>(r, out). if r_err r then Some Bad else Some (Ok out))"

subsection \<open>Paths in the dotted notation\<close>

text \<open>
  \<^verbatim>\<open>gnmi_path_from_str\<close> on the bytes of a C string; pointers into the string are offsets.
  \<open>index_of c s\<close> is \<^verbatim>\<open>strchr\<close> or \<^verbatim>\<open>memchr\<close>.
\<close>

definition index_of :: "u8 \<Rightarrow> bytes \<Rightarrow> nat option" where
  "index_of c s = (let i = length (takeWhile (\<lambda>b. b \<noteq> c) s) in if i < length s then Some i else None)"

definition chr_slash :: u8 where "chr_slash = 47"
definition chr_open :: u8 where "chr_open = 91"
definition chr_close :: u8 where "chr_close = 93"
definition chr_eq :: u8 where "chr_eq = 61"

text \<open>The end of the segment that starts the string, \<^term>\<open>None\<close> when nothing ends it.\<close>

definition segment_end :: "bytes \<Rightarrow> nat option" where
  "segment_end s =
     (let next_slash = index_of chr_slash s in
      case index_of chr_open s of
        None \<Rightarrow> next_slash
      | Some br0 \<Rightarrow>
          if (case next_slash of None \<Rightarrow> True | Some sl \<Rightarrow> br0 < sl) then
            (case index_of chr_close (drop br0 s) of
               Some c \<Rightarrow> Some (br0 + c + 1)
             | None \<Rightarrow> next_slash)
          else next_slash)"

text \<open>The element of a segment; \<^term>\<open>None\<close> is \<^verbatim>\<open>return false\<close>.\<close>

definition segment_elem :: "bytes \<Rightarrow> gnmi_path_elem option" where
  "segment_elem seg =
     (case index_of chr_open seg of
        Some name_len \<Rightarrow>
          if name_len \<ge> GNMI_MAX_NAME then None
          else let rest = drop name_len seg in
            (case (index_of chr_eq rest, index_of chr_close rest) of
               (Some eq, Some close) \<Rightarrow>
                 if eq > close then None
                 else let kn = eq - 1; vn = close - eq - 1 in
                   if kn \<ge> GNMI_MAX_NAME \<or> vn \<ge> GNMI_MAX_NAME then None
                   else Some (elem_zero\<lparr>pe_name := mem_put 0 (take name_len seg @ [0]) (zeros GNMI_MAX_NAME),
                                pe_key_name := mem_put 0 (bslice 1 kn rest @ [0]) (zeros GNMI_MAX_NAME),
                                pe_key_value := mem_put 0 (bslice (eq + 1) vn rest @ [0]) (zeros GNMI_MAX_NAME),
                                pe_has_key := True\<rparr>)
             | _ \<Rightarrow> None)
      | None \<Rightarrow>
          if length seg \<ge> GNMI_MAX_NAME then None
          else Some (elem_zero\<lparr>pe_name := mem_put 0 (seg @ [0]) (zeros GNMI_MAX_NAME)\<rparr>))"

text \<open>The loop over the segments; the counter \<open>k\<close> is the number of free slots.\<close>

fun segments :: "nat \<Rightarrow> bytes \<Rightarrow> gnmi_path \<Rightarrow> gnmi_path option" where
  "segments 0 s p = Some p"
| "segments (Suc k) s p =
     (if s = [] then Some p
      else let stop = segment_end s;
               n = (case stop of Some e \<Rightarrow> e | None \<Rightarrow> length s)
           in (case segment_elem (take n s) of
                 None \<Rightarrow> None
               | Some e \<Rightarrow>
                   let p = p\<lparr>gp_elems := (gp_elems p)[unat (gp_elem_count p) := e],
                             gp_elem_count := gp_elem_count p + 1\<rparr>
                   in (case stop of
                         None \<Rightarrow> Some p
                       | Some e \<Rightarrow> segments k
                           (if e < length s \<and> s ! e = chr_slash then drop (e + 1) s else drop e s) p)))"

definition gnmi_path_from_str :: "bytes option \<Rightarrow> gnmi_path option" where
  "gnmi_path_from_str dotted =
     (case dotted of
        None \<Rightarrow> None
      | Some d \<Rightarrow>
          (case segments GNMI_MAX_ELEMS (dropWhile (\<lambda>c. c = chr_slash) (cstr d)) path_zero of
             None \<Rightarrow> None
           | Some p \<Rightarrow> if gp_elem_count p > 0 then Some p else None))"

end
