(* ===== verification/Gnmi_Writer.thy ===== *)
theory Gnmi_Writer
  imports Gnmi_Proto
begin

text \<open>
  The writer and the encoders of the gNMI codec: nothing is written outside the buffer, the
  overflow flag is set exactly when the message does not fit, and a message that fits is the
  protobuf encoding of its argument.
\<close>

subsection \<open>Varints\<close>

lemma byte_or80: "ucast (v OR 0x80) = (ucast (v AND 0x7F) OR 0x80 :: u8)" for v :: u64
proof (rule bit_word_eqI)
  fix n assume n: "n < LENGTH(8)"
  have m: "(0x7F :: u64) = Bit_Operations.mask 7" by (simp add: mask_eq_exp_minus_1)
  have b: "bit (0x80 :: u64) n \<longleftrightarrow> n = 7"
  proof -
    have e: "(0x80 :: u64) = 2 ^ 7" by simp
    show ?thesis unfolding e bit_exp_iff by auto
  qed
  show "bit (ucast (v OR 0x80) :: u8) n = bit (ucast (v AND 0x7F) OR 0x80 :: u8) n"
    unfolding bit_ucast_iff bit_or_iff bit_and_iff bit80 b m using n by (auto simp: bit_simps)
qed

lemma varint_leb128: "varint_bytes v = leb128 v"
proof (induction v rule: varint_bytes.induct)
  case (1 v)
  then show ?case
    by (subst varint_bytes.simps, subst leb128.simps) (simp add: byte_or80)
qed

lemma leb128_length_10: "length (leb128 v) \<le> 10"
proof -
  have "unat v < 2 ^ 64" by (rule order.strict_trans2 [OF unsigned_less]) simp
  then have "unat v < 2 ^ (7 * Suc 9)" by simp
  then show ?thesis using leb128_length [of v 9] by simp
qed

subsection \<open>The contract of a write\<close>

definition pb_out :: "gnmi_pb \<Rightarrow> bytes" where
  "pb_out w = take (unat (pb_len w)) (pb_buf w)"

definition pb_ok :: "gnmi_pb \<Rightarrow> bool" where
  "pb_ok w \<longleftrightarrow> length (pb_buf w) = unat (pb_cap w) \<and> pb_len w \<le> pb_cap w \<and> pb_cap w < 2 ^ 62"

text \<open>
  \<open>pb_keeps w w'\<close>: the writer stays within its buffer and never forgets an overflow.
  \<open>emits w w' bs\<close>: moreover it appended exactly \<open>bs\<close>, or set the flag because \<open>bs\<close> does not fit.
\<close>

definition pb_keeps :: "gnmi_pb \<Rightarrow> gnmi_pb \<Rightarrow> bool" where
  "pb_keeps w w' \<longleftrightarrow> pb_ok w' \<and> pb_cap w' = pb_cap w \<and> pb_len w \<le> pb_len w' \<and> (pb_overflow w \<longrightarrow> pb_overflow w')"

definition emits :: "gnmi_pb \<Rightarrow> gnmi_pb \<Rightarrow> bytes \<Rightarrow> bool" where
  "emits w w' bs \<longleftrightarrow> pb_keeps w w' \<and>
     (pb_overflow w' \<longleftrightarrow> pb_overflow w \<or> length (pb_out w) + length bs > unat (pb_cap w)) \<and>
     (\<not> pb_overflow w' \<longrightarrow> pb_out w' = pb_out w @ bs)"

lemma length_pb_out: "pb_ok w \<Longrightarrow> length (pb_out w) = unat (pb_len w)"
  by (simp add: pb_ok_def pb_out_def word_le_nat_alt)

lemma pb_keeps_refl: "pb_ok w \<Longrightarrow> pb_keeps w w"
  by (simp add: pb_keeps_def)

lemma pb_keeps_trans: "pb_keeps w w1 \<Longrightarrow> pb_keeps w1 w2 \<Longrightarrow> pb_keeps w w2"
  by (auto simp: pb_keeps_def)

lemma pb_keeps_ok: "pb_keeps w w' \<Longrightarrow> pb_ok w'"
  by (simp add: pb_keeps_def)

lemma emits_keeps: "emits w w' bs \<Longrightarrow> pb_keeps w w'"
  by (simp add: emits_def)

lemma emits_ok: "emits w w' bs \<Longrightarrow> pb_ok w'"
  by (simp add: emits_def pb_keeps_def)

lemma emits_refl: "pb_ok w \<Longrightarrow> emits w w []"
  using length_pb_out [of w] by (auto simp: emits_def pb_keeps_refl pb_ok_def word_le_nat_alt)

lemma emits_trans: "emits w w1 a \<Longrightarrow> emits w1 w2 b \<Longrightarrow> emits w w2 (a @ b)"
  unfolding emits_def using pb_keeps_trans [of w w1 w2] by (auto simp: pb_keeps_def)

lemma emits_fold:
  assumes "\<And>x w. x \<in> set xs \<Longrightarrow> pb_ok w \<Longrightarrow> emits w (f x w) (g x)" and "pb_ok w"
  shows "emits w (fold f xs w) (concat (map g xs))"
  using assms
proof (induction xs arbitrary: w)
  case Nil
  then show ?case by (simp add: emits_refl)
next
  case (Cons x xs)
  have h: "emits w (f x w) (g x)" using Cons.prems by simp
  have "emits (f x w) (fold f xs (f x w)) (concat (map g xs))"
    using Cons.IH [OF _ emits_ok [OF h]] Cons.prems(1) by simp
  then show ?case using emits_trans [OF h] by simp
qed

lemma pb_keeps_fold:
  assumes "\<And>x w. x \<in> set xs \<Longrightarrow> pb_ok w \<Longrightarrow> pb_keeps w (f x w)" and "pb_ok w"
  shows "pb_keeps w (fold f xs w)"
  using assms
proof (induction xs arbitrary: w)
  case Nil
  then show ?case by (simp add: pb_keeps_refl)
next
  case (Cons x xs)
  have h: "pb_keeps w (f x w)" using Cons.prems by simp
  then show ?case using Cons.IH [OF _ pb_keeps_ok [OF h]] Cons.prems(1) pb_keeps_trans [OF h] by simp
qed

subsection \<open>Primitive writes\<close>

lemma pb_write_emits:
  assumes "pb_ok w" and "length p < 2 ^ 62"
  shows "emits w (pb_write w p) p"
proof -
  have c: "unat (pb_cap w) < 2 ^ 62" and l: "unat (pb_len w) \<le> unat (pb_cap w)"
    and b: "length (pb_buf w) = unat (pb_cap w)"
    using assms(1) by (simp_all add: pb_ok_def word_less_nat_alt word_le_nat_alt)
  have n: "unat (of_nat (length p) :: u64) = length p"
    using assms(2) by (simp add: unat_of_nat)
  have s: "unat (pb_len w + of_nat (length p)) = unat (pb_len w) + length p"
    using c l n assms(2) by (simp add: unat_word_ariths)
  show ?thesis
  proof (cases "pb_len w + of_nat (length p) > pb_cap w")
    case True
    then have "unat (pb_len w) + length p > unat (pb_cap w)" using s by (simp add: word_less_nat_alt)
    then show ?thesis using True assms(1) length_pb_out [OF assms(1)]
      by (simp add: pb_write_def emits_def pb_keeps_def pb_ok_def Let_def)
  next
    case False
    then have f: "unat (pb_len w) + length p \<le> unat (pb_cap w)" using s by (simp add: word_less_nat_alt not_less)
    have le: "pb_len w \<le> pb_len w + of_nat (length p)" using s by (simp add: word_le_nat_alt)
    have o: "take (unat (pb_len w) + length p) (mem_put (unat (pb_len w)) p (pb_buf w)) = pb_out w @ p"
      unfolding pb_out_def by (rule take_mem_put_end) (use l b in simp)
    have "pb_write w p = w\<lparr>pb_buf := mem_put (unat (pb_len w)) p (pb_buf w), pb_len := pb_len w + of_nat (length p)\<rparr>"
      using False by (simp add: pb_write_def Let_def)
    then show ?thesis using f le o s b l False assms(1) length_pb_out [OF assms(1)]
      by (auto simp: emits_def pb_keeps_def pb_ok_def pb_out_def not_less)
  qed
qed

definition tag_bytes :: "u32 \<Rightarrow> u32 \<Rightarrow> bytes" where
  "tag_bytes field wire = leb128 (push_bit 3 (ucast field) OR ucast wire)"

definition delim_bytes :: "u32 \<Rightarrow> bytes \<Rightarrow> bytes" where
  "delim_bytes field d = tag_bytes field 2 @ leb128 (of_nat (length d)) @ d"

definition varint_field_bytes :: "u32 \<Rightarrow> u64 \<Rightarrow> bytes" where
  "varint_field_bytes field v = tag_bytes field 0 @ leb128 v"

lemma put_varint_emits: "pb_ok w \<Longrightarrow> emits w (gnmi_pb_put_varint w v) (leb128 v)"
  unfolding gnmi_pb_put_varint_def varint_leb128
  by (rule pb_write_emits) (use leb128_length_10 [of v] in simp_all)

lemma put_tag_emits: "pb_ok w \<Longrightarrow> emits w (gnmi_pb_put_tag w f k) (tag_bytes f k)"
  unfolding gnmi_pb_put_tag_def tag_bytes_def by (rule put_varint_emits)

lemma put_len_delim_emits:
  assumes "pb_ok w" and "length d < 2 ^ 62"
  shows "emits w (gnmi_pb_put_len_delim w f d) (delim_bytes f d)"
proof -
  note t = put_tag_emits [OF assms(1), of f 2]
  note v = put_varint_emits [OF emits_ok [OF t], of "of_nat (length d)"]
  note p = pb_write_emits [OF emits_ok [OF v] assms(2)]
  show ?thesis using emits_trans [OF emits_trans [OF t v] p]
    by (simp add: gnmi_pb_put_len_delim_def delim_bytes_def)
qed

definition opt_str :: "bytes option \<Rightarrow> bytes" where
  "opt_str s = (case s of None \<Rightarrow> [] | Some s \<Rightarrow> cstr s)"

lemma put_string_emits:
  assumes "pb_ok w" and "length (opt_str s) < 2 ^ 62"
  shows "emits w (gnmi_pb_put_string w f s) (delim_bytes f (opt_str s))"
  using put_len_delim_emits [OF assms] by (simp add: gnmi_pb_put_string_def opt_str_def)

lemma put_field_emits:
  "pb_ok w \<Longrightarrow> emits w (gnmi_pb_put_varint (gnmi_pb_put_tag w f 0) v) (varint_field_bytes f v)"
  using emits_trans [OF put_tag_emits put_varint_emits [OF emits_ok [OF put_tag_emits]]]
  by (simp add: varint_field_bytes_def)

lemma put_uint64_emits:
  "pb_ok w \<Longrightarrow> emits w (gnmi_pb_put_uint64 w f v) (if v = 0 then [] else varint_field_bytes f v)"
  by (simp add: gnmi_pb_put_uint64_def emits_refl put_field_emits)

lemma put_enum_emits:
  "pb_ok w \<Longrightarrow> emits w (gnmi_pb_put_enum w f v) (if v = 0 then [] else varint_field_bytes f (scast v))"
  by (simp add: gnmi_pb_put_enum_def emits_refl put_field_emits)

lemma put_bool_emits:
  "pb_ok w \<Longrightarrow> emits w (gnmi_pb_put_bool w f v) (if v then varint_field_bytes f 1 else [])"
  by (simp add: gnmi_pb_put_bool_def emits_refl put_field_emits)

subsection \<open>Nested messages\<close>

lemma begin_nested_cases:
  assumes w: "pb_ok w" and b: "gnmi_pb_begin_nested w f = (saved, w1)"
  obtains w0 where "emits w w0 (tag_bytes f 2)" and "emits w0 w1 [0]" and "saved = pb_len w0"
    and "pb_len w1 = (if saved = pb_cap w then saved else saved + 1)" and "saved = pb_cap w \<Longrightarrow> pb_overflow w1"
proof -
  define w0 where "w0 = gnmi_pb_put_tag w f 2"
  have e: "emits w w0 (tag_bytes f 2)" unfolding w0_def by (rule put_tag_emits [OF w])
  have bb: "saved = pb_len w0" "w1 = pb_write w0 [0]"
    using b by (simp_all add: gnmi_pb_begin_nested_def w0_def Let_def)
  have o: "pb_ok w0" "pb_cap w0 = pb_cap w" using e by (simp_all add: emits_def pb_keeps_def)
  have z: "emits w0 w1 [0]" unfolding bb by (rule pb_write_emits [OF o(1)]) simp
  have c: "pb_len w0 \<le> pb_cap w" "pb_cap w < 2 ^ 62" using o by (simp_all add: pb_ok_def)
  have u: "unat (pb_len w0 + 1) = unat (pb_len w0) + 1"
    using c by (simp add: unat_word_ariths word_less_nat_alt word_le_nat_alt)
  have "pb_len w0 + 1 > pb_cap w \<longleftrightarrow> pb_len w0 = pb_cap w"
    using c u by (auto simp: word_less_nat_alt word_le_nat_alt word_unat_eq_iff)
  then have "pb_len w1 = (if saved = pb_cap w then saved else saved + 1)" "saved = pb_cap w \<Longrightarrow> pb_overflow w1"
    unfolding bb by (auto simp: pb_write_def Let_def o)
  then show ?thesis using that e z bb(1) by blast
qed

text \<open>The two shapes of the length prefix.\<close>

lemma take_patch:
  assumes "take n buf = a @ [x] @ bs" and "n = length a + 1 + length bs" and "n \<le> length buf"
  shows "take n (mem_put (length a) [y] buf) = a @ [y] @ bs"
proof -
  have "buf = (a @ [x] @ bs) @ drop n buf" using assms(1) by (metis append_take_drop_id)
  then obtain t where t: "buf = a @ [x] @ bs @ t" by auto
  show ?thesis unfolding t mem_put_def using assms(2) by simp
qed

lemma take_shift:
  assumes "take n buf = a @ [x] @ bs" and "n = length a + 1 + length bs" and "n < length buf"
  shows "take (n + 1) (mem_put (length a + 1) [z] (mem_put (length a) [y]
            (mem_put (length a + 2) (bslice (length a + 1) (length bs) buf) buf))) = a @ [y, z] @ bs"
proof -
  have "buf = (a @ [x] @ bs) @ drop n buf" using assms(1) by (metis append_take_drop_id)
  then obtain q t where t: "buf = a @ [x] @ bs @ q # t"
    using assms(3) by (cases "drop n buf") auto
  have b: "bslice (length a + 1) (length bs) buf = bs" unfolding t bslice_def by simp
  have m: "mem_put (length a + 2) bs buf = a @ [x] @ take 1 (bs @ [q]) @ bs @ t"
    unfolding t mem_put_def by (cases bs) (simp_all add: numeral_eq_Suc)
  obtain h where h: "take 1 (bs @ [q]) = [h]" by (cases bs) auto
  show ?thesis unfolding b m h unfolding mem_put_def using assms(2) by simp
qed

lemma leb128_two:
  assumes "128 \<le> n" and "n < 2 ^ 14"
  shows "leb128 (of_nat n) = [ucast (of_nat n OR 0x80 :: u64), ucast (drop_bit 7 (of_nat n :: u64))]"
proof -
  have u: "unat (of_nat n :: u64) = n" using assms by (simp add: unat_of_nat)
  have b: "0x80 \<le> (of_nat n :: u64)" using u assms(1) by (simp add: word_le_nat_alt)
  have s: "drop_bit 7 (of_nat n :: u64) < 0x80"
    unfolding word_less_nat_alt drop7 u using assms(2) by simp
  show ?thesis unfolding leb128_big [OF b] leb128_small [OF s] byte_or80 ..
qed

text \<open>What the length fix does, by the number of bytes behind the reserved one.\<close>

lemma fix_len_cases:
  assumes w: "pb_ok w" and s: "unat saved + 1 + n = unat (pb_len w)"
  shows "n < 128 \<Longrightarrow> pb_fix_len w saved = w\<lparr>pb_buf := mem_put (unat saved) [ucast (of_nat n :: u64)] (pb_buf w)\<rparr>"
    and "128 \<le> n \<Longrightarrow> unat (pb_len w) = unat (pb_cap w) \<Longrightarrow> pb_fix_len w saved = w\<lparr>pb_overflow := True\<rparr>"
    and "128 \<le> n \<Longrightarrow> unat (pb_len w) < unat (pb_cap w) \<Longrightarrow> pb_fix_len w saved =
       w\<lparr>pb_buf := mem_put (unat saved + 1) [ucast (drop_bit 7 (of_nat n :: u64))]
                     (mem_put (unat saved) [ucast (of_nat n OR 0x80 :: u64)]
                       (mem_put (unat saved + 2) (bslice (unat saved + 1) n (pb_buf w)) (pb_buf w))),
         pb_len := pb_len w + 1\<rparr>"
proof -
  have c: "unat (pb_len w) \<le> unat (pb_cap w)" "unat (pb_cap w) < 2 ^ 62"
    using w by (simp_all add: pb_ok_def word_less_nat_alt word_le_nat_alt)
  have un: "unat (of_nat n :: u64) = n" using s c by (simp add: unat_of_nat)
  have u1: "unat (saved + 1) = unat saved + 1" "unat (saved + 2) = unat saved + 2"
    using s c by (simp_all add: unat_word_ariths)
  have "unat (saved + 1 + of_nat n) = unat (pb_len w)"
    using u1 un s c by (simp add: unat_word_ariths)
  then have l: "pb_len w = saved + 1 + of_nat n" by (simp add: word_unat_eq_iff)
  have body: "pb_len w - saved - 1 = of_nat n" unfolding l by simp
  have lt: "(of_nat n :: u64) < 0x80 \<longleftrightarrow> n < 128" unfolding word_less_nat_alt un by simp
  have u2: "unat (pb_len w + 1) = unat (pb_len w) + 1" using c by (simp add: unat_word_ariths)
  have gt: "saved + 1 + of_nat n + 1 > pb_cap w \<longleftrightarrow> unat (pb_len w) = unat (pb_cap w)"
    unfolding l [symmetric] word_less_nat_alt u2 using c by auto
  show "n < 128 \<Longrightarrow> pb_fix_len w saved = w\<lparr>pb_buf := mem_put (unat saved) [ucast (of_nat n :: u64)] (pb_buf w)\<rparr>"
    unfolding pb_fix_len_def body Let_def using lt by simp
  show "128 \<le> n \<Longrightarrow> unat (pb_len w) = unat (pb_cap w) \<Longrightarrow> pb_fix_len w saved = w\<lparr>pb_overflow := True\<rparr>"
    unfolding pb_fix_len_def body Let_def using lt gt by simp
  show "128 \<le> n \<Longrightarrow> unat (pb_len w) < unat (pb_cap w) \<Longrightarrow> pb_fix_len w saved =
       w\<lparr>pb_buf := mem_put (unat saved + 1) [ucast (drop_bit 7 (of_nat n :: u64))]
                     (mem_put (unat saved) [ucast (of_nat n OR 0x80 :: u64)]
                       (mem_put (unat saved + 2) (bslice (unat saved + 1) n (pb_buf w)) (pb_buf w))),
         pb_len := pb_len w + 1\<rparr>"
    unfolding pb_fix_len_def body Let_def using lt gt un u1 by simp
qed

lemma fix_len_full:
  assumes "pb_ok w" and "saved = pb_len w" and "saved = pb_cap w"
  shows "pb_fix_len w saved = w\<lparr>pb_overflow := True\<rparr>"
proof -
  have c: "unat (pb_cap w) < 2 ^ 62" using assms by (simp add: pb_ok_def word_less_nat_alt)
  have "pb_len w - saved - 1 = - 1" using assms by simp
  moreover have "saved + 1 + - 1 + 1 > pb_cap w"
    using assms(3) c by (simp add: word_less_nat_alt unat_word_ariths)
  moreover have "\<not> (- 1 :: u64) < 0x80" by simp
  ultimately show ?thesis unfolding pb_fix_len_def by (simp only: Let_def if_False if_True simp_thms)
qed

lemma fix_len_keeps:
  assumes w: "pb_ok w" and s: "unat saved + 1 \<le> unat (pb_len w)"
  shows "pb_keeps w (pb_fix_len w saved)"
proof -
  obtain n where n: "unat saved + 1 + n = unat (pb_len w)" using le_Suc_ex [OF s] by metis
  have c: "unat (pb_len w) \<le> unat (pb_cap w)" "unat (pb_cap w) < 2 ^ 62" "length (pb_buf w) = unat (pb_cap w)"
    using w by (simp_all add: pb_ok_def word_less_nat_alt word_le_nat_alt)
  have u: "unat (pb_len w + 1) = unat (pb_len w) + 1" using c by (simp add: unat_word_ariths)
  consider "n < 128" | "128 \<le> n" "unat (pb_len w) = unat (pb_cap w)" | "128 \<le> n" "unat (pb_len w) < unat (pb_cap w)"
    using c by linarith
  then show ?thesis
  proof cases
    case 1
    show ?thesis unfolding fix_len_cases(1) [OF w n 1] using w n c
      by (simp add: pb_keeps_def pb_ok_def)
  next
    case 2
    show ?thesis unfolding fix_len_cases(2) [OF w n 2] using w by (simp add: pb_keeps_def pb_ok_def)
  next
    case 3
    have l: "pb_len w \<le> pb_len w + 1" "pb_len w + 1 \<le> pb_cap w"
      using u 3 by (simp_all add: word_le_nat_alt)
    show ?thesis unfolding fix_len_cases(3) [OF w n 3] using w n c 3 l
      by (simp add: pb_keeps_def pb_ok_def)
  qed
qed

lemma fix_len_emits:
  assumes w: "pb_ok w" and s: "unat saved + 1 + length bs = unat (pb_len w)" and l: "length bs < 2 ^ 14"
    and out: "pb_out w = a @ [x] @ bs" and no: "\<not> pb_overflow w"
  shows "pb_overflow (pb_fix_len w saved) \<longleftrightarrow> length a + length (leb128 (of_nat (length bs))) + length bs > unat (pb_cap w)"
    and "\<not> pb_overflow (pb_fix_len w saved) \<Longrightarrow> pb_out (pb_fix_len w saved) = a @ leb128 (of_nat (length bs)) @ bs"
proof -
  define n where "n = length bs"
  have c: "unat (pb_len w) \<le> unat (pb_cap w)" "unat (pb_cap w) < 2 ^ 62" "length (pb_buf w) = unat (pb_cap w)"
    using w by (simp_all add: pb_ok_def word_less_nat_alt word_le_nat_alt)
  have u: "unat (pb_len w + 1) = unat (pb_len w) + 1" using c by (simp add: unat_word_ariths)
  have a: "length a = unat saved" using length_pb_out [OF w] s unfolding out by simp
  have tk: "take (unat (pb_len w)) (pb_buf w) = a @ [x] @ bs" using out by (simp add: pb_out_def)
  have len: "unat (pb_len w) = length a + 1 + length bs" using s a by simp
  note s' = s [folded n_def]
  have "(pb_overflow (pb_fix_len w saved) \<longleftrightarrow> length a + length (leb128 (of_nat n)) + length bs > unat (pb_cap w)) \<and>
        (\<not> pb_overflow (pb_fix_len w saved) \<longrightarrow> pb_out (pb_fix_len w saved) = a @ leb128 (of_nat n) @ bs)"
  proof (cases "n < 128")
    case True
    have "(of_nat n :: u64) < 0x80" using True by (simp add: word_less_nat_alt unat_of_nat)
    then have e: "leb128 (of_nat n) = [ucast (of_nat n :: u64)]" by (rule leb128_small)
    have "take (unat (pb_len w)) (mem_put (length a) [ucast (of_nat n :: u64)] (pb_buf w)) = a @ [ucast (of_nat n :: u64)] @ bs"
      by (rule take_patch [OF tk len]) (use c in simp)
    then show ?thesis unfolding fix_len_cases(1) [OF w s' True] e using no c len
      by (simp add: pb_out_def a)
  next
    case False
    then have b: "128 \<le> n" by simp
    have e: "leb128 (of_nat n) = [ucast (of_nat n OR 0x80 :: u64), ucast (drop_bit 7 (of_nat n :: u64))]"
      by (rule leb128_two) (use b l n_def in simp_all)
    consider "unat (pb_len w) = unat (pb_cap w)" | "unat (pb_len w) < unat (pb_cap w)" using c by linarith
    then show ?thesis
    proof cases
      case 1
      show ?thesis unfolding fix_len_cases(2) [OF w s' b 1] e using 1 len by simp
    next
      case 2
      have "take (unat (pb_len w) + 1) (mem_put (length a + 1) [ucast (drop_bit 7 (of_nat n :: u64))]
              (mem_put (length a) [ucast (of_nat n OR 0x80 :: u64)]
                (mem_put (length a + 2) (bslice (length a + 1) (length bs) (pb_buf w)) (pb_buf w)))) =
            a @ [ucast (of_nat n OR 0x80 :: u64), ucast (drop_bit 7 (of_nat n :: u64))] @ bs"
        by (rule take_shift [OF tk len]) (use c 2 in simp)
      then show ?thesis unfolding fix_len_cases(3) [OF w s' b 2] e using no 2 len
        by (simp add: pb_out_def a u n_def)
    qed
  qed
  then show "pb_overflow (pb_fix_len w saved) \<longleftrightarrow> length a + length (leb128 (of_nat (length bs))) + length bs > unat (pb_cap w)"
    and "\<not> pb_overflow (pb_fix_len w saved) \<Longrightarrow> pb_out (pb_fix_len w saved) = a @ leb128 (of_nat (length bs)) @ bs"
    unfolding n_def by blast+
qed

lemma nested_keeps:
  assumes w: "pb_ok w" and b: "gnmi_pb_begin_nested w f = (saved, w1)" and k: "pb_keeps w1 w2"
  shows "pb_keeps w (gnmi_pb_end_nested w2 saved)"
proof (rule begin_nested_cases [OF w b])
  fix w0
  assume t: "emits w w0 (tag_bytes f 2)" "emits w0 w1 [0]" "saved = pb_len w0"
    and l: "pb_len w1 = (if saved = pb_cap w then saved else saved + 1)"
  have k1: "pb_keeps w w2" using t k emits_keeps pb_keeps_trans by blast
  have o: "pb_ok w2" "pb_cap w2 = pb_cap w" "pb_len w1 \<le> pb_len w2" using k k1 by (simp_all add: pb_keeps_def)
  show ?thesis
  proof (cases "saved = pb_cap w")
    case True
    then have "pb_len w2 = saved" using l o by (simp add: pb_ok_def)
    then have e: "gnmi_pb_end_nested w2 saved = w2\<lparr>pb_overflow := True\<rparr>"
      using fix_len_full [OF o(1)] True o(2) unfolding gnmi_pb_end_nested_def by simp
    show ?thesis unfolding e using k1 by (auto simp: pb_keeps_def pb_ok_def)
  next
    case False
    have s: "saved < pb_cap w" "pb_cap w < 2 ^ 62"
      using False t by (auto simp: emits_def pb_keeps_def pb_ok_def)
    have "unat (saved + 1) = unat saved + 1"
      using s by (simp add: unat_word_ariths word_less_nat_alt)
    then have "unat saved + 1 \<le> unat (pb_len w2)" using False l o by (simp add: word_le_nat_alt)
    then have "pb_keeps w2 (pb_fix_len w2 saved)" by (rule fix_len_keeps [OF o(1)])
    then show ?thesis unfolding gnmi_pb_end_nested_def using k1 pb_keeps_trans by blast
  qed
qed

lemma nested_emits:
  assumes w: "pb_ok w" and b: "gnmi_pb_begin_nested w f = (saved, w1)" and e: "emits w1 w2 bs"
    and l: "length bs < 2 ^ 14"
  shows "emits w (gnmi_pb_end_nested w2 saved) (delim_bytes f bs)"
proof (rule begin_nested_cases [OF w b])
  fix w0
  assume t: "emits w w0 (tag_bytes f 2)" "emits w0 w1 [0]" "saved = pb_len w0"
  have k: "pb_keeps w (gnmi_pb_end_nested w2 saved)" by (rule nested_keeps [OF w b emits_keeps [OF e]])
  have all: "emits w w2 (tag_bytes f 2 @ [0] @ bs)"
    using emits_trans [OF emits_trans [OF t(1,2)] e] by simp
  have ne: "1 \<le> length (leb128 (of_nat (length bs)))" by (simp add: Suc_leI)
  show ?thesis
  proof (cases "pb_overflow w2")
    case True
    have "pb_overflow (gnmi_pb_end_nested w2 saved)"
      using True unfolding gnmi_pb_end_nested_def pb_fix_len_def Let_def by simp
    moreover have "pb_overflow w \<or> unat (pb_cap w) < length (pb_out w) + length (delim_bytes f bs)"
      using all True ne by (auto simp: emits_def delim_bytes_def)
    ultimately show ?thesis using k by (simp add: emits_def)
  next
    case False
    have o: "pb_ok w2" "pb_cap w2 = pb_cap w" "\<not> pb_overflow w" "pb_out w2 = (pb_out w @ tag_bytes f 2) @ [0] @ bs"
      using all False by (auto simp: emits_def pb_keeps_def)
    have "pb_out w0 = pb_out w @ tag_bytes f 2" "pb_ok w0"
      using t(1,2) e False by (auto simp: emits_def pb_keeps_def)
    then have "length (pb_out w @ tag_bytes f 2) = unat saved" using length_pb_out t(3) by metis
    then have s: "unat saved + 1 + length bs = unat (pb_len w2)"
      using length_pb_out [OF o(1)] o(4) by simp
    show ?thesis unfolding emits_def
      using k fix_len_emits [OF o(1) s l o(4) False] o
      by (simp add: gnmi_pb_end_nested_def delim_bytes_def add.assoc)
  qed
qed

lemma begin_nested_ok: "pb_ok w \<Longrightarrow> gnmi_pb_begin_nested w f = (saved, w1) \<Longrightarrow> pb_ok w1"
  by (rule begin_nested_cases) (auto dest: emits_ok)

lemma emits_nestedI:
  assumes "pb_ok w" and "\<And>w. pb_ok w \<Longrightarrow> emits w (body w) bs" and "length bs < 2 ^ 14"
  shows "emits w (case gnmi_pb_begin_nested w f of (saved, w) \<Rightarrow> gnmi_pb_end_nested (body w) saved) (delim_bytes f bs)"
proof -
  obtain saved w1 where b: "gnmi_pb_begin_nested w f = (saved, w1)" by (metis surj_pair)
  show ?thesis unfolding b
    by (simp, rule nested_emits [OF assms(1) b assms(2) [OF begin_nested_ok [OF assms(1) b]] assms(3)])
qed

lemma pb_keeps_nestedI:
  assumes "pb_ok w" and "\<And>w. pb_ok w \<Longrightarrow> pb_keeps w (body w)"
  shows "pb_keeps w (case gnmi_pb_begin_nested w f of (saved, w) \<Rightarrow> gnmi_pb_end_nested (body w) saved)"
proof -
  obtain saved w1 where b: "gnmi_pb_begin_nested w f = (saved, w1)" by (metis surj_pair)
  show ?thesis unfolding b
    by (simp, rule nested_keeps [OF assms(1) b assms(2) [OF begin_nested_ok [OF assms(1) b]]])
qed

subsection \<open>Well-formed objects and their encodings\<close>

text \<open>The arrays have the sizes of their declarations, and the counters stay within them.\<close>

definition elem_arrays :: "gnmi_path_elem \<Rightarrow> bool" where
  "elem_arrays e \<longleftrightarrow> length (pe_name e) = GNMI_MAX_NAME \<and> length (pe_key_name e) = GNMI_MAX_NAME \<and>
     length (pe_key_value e) = GNMI_MAX_NAME"

definition path_arrays :: "gnmi_path \<Rightarrow> bool" where
  "path_arrays p \<longleftrightarrow> length (gp_origin p) = 32 \<and> length (gp_elems p) = GNMI_MAX_ELEMS \<and>
     list_all elem_arrays (gp_elems p) \<and> unat (gp_elem_count p) \<le> GNMI_MAX_ELEMS"

definition value_arrays :: "gnmi_typed_value \<Rightarrow> bool" where
  "value_arrays v \<longleftrightarrow> length (tv_s v) = GNMI_MAX_VAL"

definition update_arrays :: "gnmi_update \<Rightarrow> bool" where
  "update_arrays u \<longleftrightarrow> path_arrays (gu_path u) \<and> value_arrays (gu_val u)"

definition notification_arrays :: "gnmi_notification \<Rightarrow> bool" where
  "notification_arrays n \<longleftrightarrow> length (gn_updates n) = GNMI_MAX_UPDATES \<and> list_all update_arrays (gn_updates n) \<and>
     unat (gn_update_count n) \<le> GNMI_MAX_UPDATES"

text \<open>The protobuf encodings of the message bodies.\<close>

definition key_bytes :: "gnmi_path_elem \<Rightarrow> bytes" where
  "key_bytes e = delim_bytes 1 (cstr (pe_key_name e)) @ delim_bytes 2 (cstr (pe_key_value e))"

definition elem_bytes :: "gnmi_path_elem \<Rightarrow> bytes" where
  "elem_bytes e = delim_bytes 1 (cstr (pe_name e)) @ (if pe_has_key e then delim_bytes 2 (key_bytes e) else [])"

definition path_bytes :: "gnmi_path \<Rightarrow> bytes" where
  "path_bytes p = (if gp_origin p ! 0 \<noteq> 0 then delim_bytes 2 (cstr (gp_origin p)) else []) @
     concat (map (\<lambda>i. delim_bytes 3 (elem_bytes (gp_elems p ! i))) [0..<unat (gp_elem_count p)])"

definition value_bytes :: "gnmi_typed_value \<Rightarrow> bytes" where
  "value_bytes v = (case tv_kind v of
      GNMI_VAL_UNSET \<Rightarrow> []
    | GNMI_VAL_INT \<Rightarrow> varint_field_bytes 2 (tv_i v)
    | GNMI_VAL_UINT \<Rightarrow> (if tv_u v = 0 then [] else varint_field_bytes 3 (tv_u v))
    | GNMI_VAL_BOOL \<Rightarrow> varint_field_bytes 4 (if tv_b v then 1 else 0)
    | k \<Rightarrow> delim_bytes (val_field k) (cstr (tv_s v)))"

definition update_bytes :: "gnmi_update \<Rightarrow> bytes" where
  "update_bytes u = delim_bytes 1 (path_bytes (gu_path u)) @
     (if tv_kind (gu_val u) = GNMI_VAL_UNSET then [] else delim_bytes 3 (value_bytes (gu_val u)))"

definition notification_bytes :: "gnmi_notification \<Rightarrow> bytes" where
  "notification_bytes n = (if gn_timestamp n = 0 then [] else varint_field_bytes 1 (gn_timestamp n)) @
     concat (map (\<lambda>i. delim_bytes 4 (update_bytes (gn_updates n ! i))) [0..<unat (gn_update_count n)])"

lemma length_delim_bytes: "length (delim_bytes f d) \<le> 20 + length d"
  using leb128_length_10 [of "of_nat (length d)"] leb128_length_10 [of "push_bit 3 (ucast f) OR ucast (2 :: u32)"]
  by (simp add: delim_bytes_def tag_bytes_def)

lemma length_varint_field_bytes: "length (varint_field_bytes f v) \<le> 20"
  using leb128_length_10 [of v] leb128_length_10 [of "push_bit 3 (ucast f) OR ucast (0 :: u32)"]
  by (simp add: varint_field_bytes_def tag_bytes_def)

lemma length_concat_le: "(\<And>x. x \<in> set xs \<Longrightarrow> length (f x) \<le> c) \<Longrightarrow> length (concat (map f xs)) \<le> length xs * c"
  by (induction xs) (fastforce simp: add_mono)+

lemma length_key_bytes:
  assumes "elem_arrays e" shows "length (key_bytes e) \<le> 168"
  using assms length_delim_bytes [of 1 "cstr (pe_key_name e)"] length_delim_bytes [of 2 "cstr (pe_key_value e)"]
    length_cstr [of "pe_key_name e"] length_cstr [of "pe_key_value e"]
  by (simp add: key_bytes_def elem_arrays_def gnmi_limits)

lemma length_elem_bytes:
  assumes "elem_arrays e" shows "length (elem_bytes e) \<le> 272"
  using assms length_key_bytes [OF assms] length_delim_bytes [of 1 "cstr (pe_name e)"]
    length_delim_bytes [of 2 "key_bytes e"] length_cstr [of "pe_name e"]
  by (simp add: elem_bytes_def elem_arrays_def gnmi_limits)

lemma path_elem_arrays: "path_arrays p \<Longrightarrow> i < unat (gp_elem_count p) \<Longrightarrow> elem_arrays (gp_elems p ! i)"
  by (simp add: path_arrays_def list_all_length)

lemma length_path_bytes:
  assumes "path_arrays p" shows "length (path_bytes p) \<le> 2388"
proof -
  have "length (delim_bytes 3 (elem_bytes (gp_elems p ! i))) \<le> 292" if "i \<in> set [0..<unat (gp_elem_count p)]" for i
    using length_elem_bytes [OF path_elem_arrays [OF assms, of i]] that
      length_delim_bytes [of 3 "elem_bytes (gp_elems p ! i)"] by simp
  then have "length (concat (map (\<lambda>i. delim_bytes 3 (elem_bytes (gp_elems p ! i))) [0..<unat (gp_elem_count p)])) \<le>
      length [0..<unat (gp_elem_count p)] * 292"
    by (rule length_concat_le)
  moreover have "unat (gp_elem_count p) \<le> 8" using assms by (simp add: path_arrays_def gnmi_limits)
  moreover have "length (delim_bytes 2 (cstr (gp_origin p))) \<le> 52"
    using assms length_delim_bytes [of 2 "cstr (gp_origin p)"] length_cstr [of "gp_origin p"]
    by (simp add: path_arrays_def)
  ultimately show ?thesis unfolding path_bytes_def by (auto split: if_splits)
qed

lemma length_value_bytes:
  assumes "value_arrays v" shows "length (value_bytes v) \<le> 276"
proof -
  have d: "length (delim_bytes f (cstr (tv_s v))) \<le> 276" for f
    using assms length_cstr [of "tv_s v"] length_delim_bytes [of f "cstr (tv_s v)"]
    by (simp add: value_arrays_def gnmi_limits)
  have n: "length (varint_field_bytes f x) \<le> 276" for f x
    using length_varint_field_bytes [of f x] by simp
  show ?thesis unfolding value_bytes_def using d n by (cases "tv_kind v") simp_all
qed

lemma length_update_bytes:
  assumes "update_arrays u" shows "length (update_bytes u) \<le> 2704"
  using assms length_path_bytes [of "gu_path u"] length_value_bytes [of "gu_val u"]
    length_delim_bytes [of 1 "path_bytes (gu_path u)"] length_delim_bytes [of 3 "value_bytes (gu_val u)"]
  by (simp add: update_bytes_def update_arrays_def)

subsection \<open>Encoders\<close>

lemma put_array_emits: "pb_ok w \<Longrightarrow> length s \<le> 1000 \<Longrightarrow> emits w (gnmi_pb_put_string w f (Some s)) (delim_bytes f (cstr s))"
  using put_string_emits [of w "Some s" f] length_cstr [of s] by (simp add: opt_str_def)

lemma encode_path_elem_emits:
  assumes "pb_ok w" and a: "elem_arrays e"
  shows "emits w (encode_path_elem e w) (delim_bytes 3 (elem_bytes e))"
proof -
  have l: "length (pe_name e) \<le> 1000" "length (pe_key_name e) \<le> 1000" "length (pe_key_value e) \<le> 1000"
    using a by (simp_all add: elem_arrays_def gnmi_limits)
  have kb: "emits w (gnmi_pb_put_string (gnmi_pb_put_string w 1 (Some (pe_key_name e))) 2 (Some (pe_key_value e))) (key_bytes e)"
    if o: "pb_ok w" for w
    unfolding key_bytes_def
    by (rule emits_trans [OF put_array_emits [OF o l(2)] put_array_emits [OF emits_ok [OF put_array_emits [OF o l(2)]] l(3)]])
  have k: "emits w (if pe_has_key e then case gnmi_pb_begin_nested w 2 of (ksaved, w) \<Rightarrow>
             gnmi_pb_end_nested (gnmi_pb_put_string (gnmi_pb_put_string w 1 (Some (pe_key_name e))) 2 (Some (pe_key_value e))) ksaved
             else w) (if pe_has_key e then delim_bytes 2 (key_bytes e) else [])" if o: "pb_ok w" for w
  proof (cases "pe_has_key e")
    case True
    then show ?thesis using emits_nestedI [OF o kb, of 2] length_key_bytes [OF a] by simp
  next
    case False
    then show ?thesis using o by (simp add: emits_refl)
  qed
  show ?thesis unfolding encode_path_elem_def Let_def
  proof (rule emits_nestedI [OF assms(1)])
    fix w assume o: "pb_ok w"
    note n = put_array_emits [OF o l(1), of 1]
    show "emits w (if pe_has_key e then case gnmi_pb_begin_nested (gnmi_pb_put_string w 1 (Some (pe_name e))) 2 of (ksaved, w) \<Rightarrow>
             gnmi_pb_end_nested (gnmi_pb_put_string (gnmi_pb_put_string w 1 (Some (pe_key_name e))) 2 (Some (pe_key_value e))) ksaved
             else gnmi_pb_put_string w 1 (Some (pe_name e))) (elem_bytes e)"
      unfolding elem_bytes_def by (rule emits_trans [OF n k [OF emits_ok [OF n]]])
  qed (use length_elem_bytes [OF a] in simp)
qed

lemma encode_path_emits:
  assumes "pb_ok w" and a: "path_arrays p"
  shows "emits w (gnmi_encode_path w f (Some p)) (delim_bytes f (path_bytes p))"
proof -
  have fl: "emits w (fold (\<lambda>i. encode_path_elem (gp_elems p ! i)) [0..<unat (gp_elem_count p)] w)
       (concat (map (\<lambda>i. delim_bytes 3 (elem_bytes (gp_elems p ! i))) [0..<unat (gp_elem_count p)]))" if "pb_ok w" for w
    by (rule emits_fold [OF _ that]) (simp add: encode_path_elem_emits path_elem_arrays [OF a])
  have o: "emits w (if gp_origin p ! 0 \<noteq> 0 then gnmi_pb_put_string w 2 (Some (gp_origin p)) else w)
       (if gp_origin p ! 0 \<noteq> 0 then delim_bytes 2 (cstr (gp_origin p)) else [])" if "pb_ok w" for w
    using that a by (simp add: emits_refl put_array_emits path_arrays_def)
  have b: "emits w (fold (\<lambda>i. encode_path_elem (gp_elems p ! i)) [0..<unat (gp_elem_count p)]
       (if gp_origin p ! 0 \<noteq> 0 then gnmi_pb_put_string w 2 (Some (gp_origin p)) else w)) (path_bytes p)" if "pb_ok w" for w
    unfolding path_bytes_def by (rule emits_trans [OF o [OF that] fl [OF emits_ok [OF o [OF that]]]])
  show ?thesis unfolding gnmi_encode_path_def Let_def option.case
    by (rule emits_nestedI [OF assms(1) b]) (use length_path_bytes [OF a] in simp_all)
qed

lemma encode_typed_value_emits:
  assumes "pb_ok w" and a: "value_arrays v"
  shows "emits w (gnmi_encode_typed_value w f (Some v))
           (if tv_kind v = GNMI_VAL_UNSET then [] else delim_bytes f (value_bytes v))"
proof (cases "tv_kind v = GNMI_VAL_UNSET")
  case True
  then show ?thesis using assms(1) by (simp add: gnmi_encode_typed_value_def emits_refl)
next
  case False
  have s: "length (tv_s v) \<le> 1000" using a by (simp add: value_arrays_def gnmi_limits)
  have b: "emits w (case tv_kind v of
                     GNMI_VAL_INT \<Rightarrow> gnmi_pb_put_varint (gnmi_pb_put_tag w 2 0) (tv_i v)
                   | GNMI_VAL_UINT \<Rightarrow> gnmi_pb_put_uint64 w 3 (tv_u v)
                   | GNMI_VAL_BOOL \<Rightarrow> gnmi_pb_put_varint (gnmi_pb_put_tag w 4 0) (if tv_b v then 1 else 0)
                   | k \<Rightarrow> gnmi_pb_put_string w (val_field k) (Some (tv_s v))) (value_bytes v)" if "pb_ok w" for w
    using False s that put_uint64_emits [OF that, of 3 "tv_u v"] unfolding value_bytes_def
    by (cases "tv_kind v") (simp_all add: put_field_emits put_array_emits)
  show ?thesis unfolding gnmi_encode_typed_value_def Let_def option.case if_not_P [OF False]
    by (rule emits_nestedI [OF assms(1) b]) (use length_value_bytes [OF a] in simp_all)
qed

lemma encode_update_emits:
  assumes "pb_ok w" and a: "update_arrays u"
  shows "emits w (encode_update w f u) (delim_bytes f (update_bytes u))"
  unfolding encode_update_def Let_def
proof (rule emits_nestedI [OF assms(1)])
  fix w assume o: "pb_ok w"
  have p: "path_arrays (gu_path u)" "value_arrays (gu_val u)" using a by (simp_all add: update_arrays_def)
  note e = encode_path_emits [OF o p(1), of 1]
  show "emits w (gnmi_encode_typed_value (gnmi_encode_path w 1 (Some (gu_path u))) 3 (Some (gu_val u))) (update_bytes u)"
    unfolding update_bytes_def by (rule emits_trans [OF e encode_typed_value_emits [OF emits_ok [OF e] p(2)]])
qed (use length_update_bytes [OF a] in simp)

lemma notification_body_emits:
  assumes w: "pb_ok w" and a: "notification_arrays n"
  shows "emits w (fold (\<lambda>i w. encode_update w 4 (gn_updates n ! i)) [0..<unat (gn_update_count n)]
           (gnmi_pb_put_uint64 w 1 (gn_timestamp n))) (notification_bytes n)"
proof -
  have u: "update_arrays (gn_updates n ! i)" if "i < unat (gn_update_count n)" for i
    using a that by (simp add: notification_arrays_def list_all_length)
  have f: "emits w (fold (\<lambda>i w. encode_update w 4 (gn_updates n ! i)) [0..<unat (gn_update_count n)] w)
       (concat (map (\<lambda>i. delim_bytes 4 (update_bytes (gn_updates n ! i))) [0..<unat (gn_update_count n)]))"
    if "pb_ok w" for w
    by (rule emits_fold [OF _ that]) (simp add: encode_update_emits u)
  note p = put_uint64_emits [OF w, of 1 "gn_timestamp n"]
  show ?thesis unfolding notification_bytes_def by (rule emits_trans [OF p f [OF emits_ok [OF p]]])
qed

lemma encode_notification_emits:
  assumes "pb_ok w" and "notification_arrays n" and "length (notification_bytes n) < 2 ^ 14"
  shows "emits w (gnmi_encode_notification w f n) (delim_bytes f (notification_bytes n))"
  unfolding gnmi_encode_notification_def Let_def
  by (rule emits_nestedI [OF assms(1) notification_body_emits [OF _ assms(2)] assms(3)])

lemma encode_notification_keeps:
  assumes "pb_ok w" and "notification_arrays n"
  shows "pb_keeps w (gnmi_encode_notification w f n)"
  unfolding gnmi_encode_notification_def Let_def
  by (rule pb_keeps_nestedI [OF assms(1) emits_keeps [OF notification_body_emits [OF _ assms(2)]]])

definition set_response_arrays :: "gnmi_set_response \<Rightarrow> bool" where
  "set_response_arrays r \<longleftrightarrow> path_arrays (sp_prefix r) \<and> length (sp_result_paths r) = GNMI_MAX_UPDATES \<and>
     list_all path_arrays (sp_result_paths r) \<and> length (sp_ops r) = GNMI_MAX_UPDATES \<and>
     unat (sp_result_count r) \<le> GNMI_MAX_UPDATES"

text \<open>C strings are shorter than half the address space.\<close>

definition model_strings :: "gnmi_model_data \<Rightarrow> bool" where
  "model_strings m \<longleftrightarrow> (\<forall>s \<in> {md_name m, md_organization m, md_version m}. length (opt_str s) < 2 ^ 62)"

lemma get_response_keeps:
  assumes "pb_ok w" and "list_all notification_arrays ns"
  shows "pb_keeps w (snd (gnmi_encode_get_response w ns))"
  unfolding gnmi_encode_get_response_def Let_def snd_conv
  by (rule pb_keeps_fold [OF _ assms(1)]) (use assms(2) in \<open>simp add: encode_notification_keeps list_all_iff\<close>)

lemma update_result_keeps:
  assumes "pb_ok w" and a: "set_response_arrays r" and i: "i < unat (sp_result_count r)"
  shows "pb_keeps w (encode_update_result r i w)"
  unfolding encode_update_result_def Let_def
proof (rule pb_keeps_nestedI [OF assms(1)])
  fix w assume o: "pb_ok w"
  have p: "path_arrays (sp_result_paths r ! i)" using a i by (simp add: set_response_arrays_def list_all_length)
  note e = encode_path_emits [OF o p, of 2]
  show "pb_keeps w (gnmi_pb_put_enum (gnmi_encode_path w 2 (Some (sp_result_paths r ! i))) 4 (sp_ops r ! i))"
    by (rule pb_keeps_trans [OF emits_keeps [OF e] emits_keeps [OF put_enum_emits [OF emits_ok [OF e]]]])
qed

lemma set_response_keeps:
  assumes "pb_ok w" and a: "set_response_arrays r"
  shows "pb_keeps w (snd (gnmi_encode_set_response w r))"
proof -
  define w1 where "w1 = (if gp_elem_count (sp_prefix r) > 0 then gnmi_encode_path w 1 (Some (sp_prefix r)) else w)"
  have k1: "pb_keeps w w1" unfolding w1_def
    using assms encode_path_emits [THEN emits_keeps] by (simp add: pb_keeps_refl set_response_arrays_def)
  have k2: "pb_keeps w1 (fold (encode_update_result r) [0..<unat (sp_result_count r)] w1)"
    by (rule pb_keeps_fold [OF _ pb_keeps_ok [OF k1]]) (simp add: update_result_keeps a)
  note k3 = emits_keeps [OF put_uint64_emits [OF pb_keeps_ok [OF k2], of 4 "sp_timestamp r"]]
  show ?thesis unfolding gnmi_encode_set_response_def Let_def snd_conv w1_def [symmetric]
    by (rule pb_keeps_trans [OF pb_keeps_trans [OF k1 k2] k3])
qed

lemma put_string_keeps: "pb_ok w \<Longrightarrow> length (opt_str s) < 2 ^ 62 \<Longrightarrow> pb_keeps w (gnmi_pb_put_string w f s)"
  by (rule emits_keeps [OF put_string_emits])

lemma encode_model_keeps:
  assumes "pb_ok w" and "model_strings m"
  shows "pb_keeps w (encode_model m w)"
  unfolding encode_model_def Let_def
proof (rule pb_keeps_nestedI [OF assms(1)])
  fix w assume o: "pb_ok w"
  have s: "length (opt_str (md_name m)) < 2 ^ 62" "length (opt_str (md_organization m)) < 2 ^ 62"
    "length (opt_str (md_version m)) < 2 ^ 62" using assms(2) by (simp_all add: model_strings_def)
  note a = put_string_keeps [OF o s(1), of 1]
  note b = put_string_keeps [OF pb_keeps_ok [OF a] s(2), of 2]
  note c = put_string_keeps [OF pb_keeps_ok [OF b] s(3), of 3]
  show "pb_keeps w (gnmi_pb_put_string (gnmi_pb_put_string (gnmi_pb_put_string w 1 (md_name m)) 2 (md_organization m)) 3 (md_version m))"
    by (rule pb_keeps_trans [OF pb_keeps_trans [OF a b] c])
qed

lemma capabilities_keeps:
  assumes "pb_ok w" and "list_all model_strings ms" and v: "length (opt_str v) < 2 ^ 62"
  shows "pb_keeps w (snd (gnmi_encode_capabilities_response w ms es v))"
proof -
  have a: "pb_keeps w (fold encode_model ms w)"
    by (rule pb_keeps_fold [OF _ assms(1)]) (use assms(2) in \<open>simp add: encode_model_keeps list_all_iff\<close>)
  have b: "pb_keeps (fold encode_model ms w) (fold (\<lambda>e w. gnmi_pb_put_enum w 2 e) es (fold encode_model ms w))"
    by (rule pb_keeps_fold [OF _ pb_keeps_ok [OF a]]) (rule emits_keeps [OF put_enum_emits])
  show ?thesis unfolding gnmi_encode_capabilities_response_def Let_def snd_conv
    by (rule pb_keeps_trans [OF pb_keeps_trans [OF a b] put_string_keeps [OF pb_keeps_ok [OF b] v]])
qed

lemma init_ok: "length buf = unat cap \<Longrightarrow> cap < 2 ^ 62 \<Longrightarrow> pb_ok (gnmi_pb_init buf cap)"
  by (simp add: pb_ok_def gnmi_pb_init_def)

subsection \<open>Properties\<close>

text \<open>
  C31: Writing a gNMI response never leaves the buffer.  For every capacity and every content of
  the objects, also when the message does not fit and the encoder goes on after an overflow
  (the reserved length byte may then be missing), no encoder stores outside the buffer, and
  the length it reports stays within it.
\<close>

theorem gnmi_encoders_stay_in_buffer:
  assumes "length buf = unat cap" and "cap < 2 ^ 62" and w: "w = gnmi_pb_init buf cap"
    and "list_all notification_arrays ns" and "notification_arrays n" and "set_response_arrays sr"
    and "list_all model_strings ms" and "length (opt_str ver) < 2 ^ 62"
    and r: "r \<in> {gnmi_encode_get_response w ns, gnmi_encode_subscribe_update w n, gnmi_encode_subscribe_sync w,
               gnmi_encode_set_response w sr, gnmi_encode_capabilities_response w ms es ver}"
  shows "length (pb_buf (snd r)) = unat cap \<and> pb_len (snd r) \<le> cap"
proof -
  have o: "pb_ok w" "pb_cap w = cap" using init_ok [OF assms(1,2)] w by (simp_all add: gnmi_pb_init_def)
  have "pb_keeps w (snd (gnmi_encode_subscribe_update w n))" "pb_keeps w (snd (gnmi_encode_subscribe_sync w))"
    using encode_notification_keeps [OF o(1) assms(5)] emits_keeps [OF put_bool_emits [OF o(1)]]
    by (simp_all add: gnmi_encode_subscribe_update_def gnmi_encode_subscribe_sync_def Let_def)
  then have "pb_keeps w (snd r)"
    using r get_response_keeps [OF o(1) assms(4)] set_response_keeps [OF o(1) assms(6)]
      capabilities_keeps [OF o(1) assms(7,8), of es] by blast
  then show ?thesis using o(2) by (auto simp: pb_keeps_def pb_ok_def)
qed

definition sample_notification :: "u64 \<Rightarrow> gnmi_notification" where
  "sample_notification t = \<lparr>gn_timestamp = t, gn_prefix_origin = zeros 32, gn_update_count = 1,
     gn_updates = replicate GNMI_MAX_UPDATES update_zero\<rparr>"

lemma zero_arrays: "elem_arrays elem_zero" "path_arrays path_zero" "value_arrays value_zero" "update_arrays update_zero"
  by (simp_all add: elem_arrays_def path_arrays_def value_arrays_def update_arrays_def elem_zero_def path_zero_def
      value_zero_def update_zero_def zeros_def list_all_iff)

lemma sample_notification_arrays: "notification_arrays (sample_notification t)"
  by (simp add: notification_arrays_def sample_notification_def list_all_iff zero_arrays gnmi_limits)

definition sample_set_response :: gnmi_set_response where
  "sample_set_response = \<lparr>sp_prefix = path_zero, sp_result_paths = replicate GNMI_MAX_UPDATES path_zero,
     sp_ops = replicate GNMI_MAX_UPDATES 1, sp_result_count = 2, sp_timestamp = 7\<rparr>"

lemma sample_set_response_arrays: "set_response_arrays sample_set_response"
  by (simp add: set_response_arrays_def sample_set_response_def list_all_iff zero_arrays gnmi_limits)

theorem gnmi_encoders_stay_in_buffer_witness:
  "length (pb_buf (snd (gnmi_encode_set_response (gnmi_pb_init [0, 0, 0] 3) sample_set_response))) = unat (3 :: u64) \<and>
   pb_len (snd (gnmi_encode_set_response (gnmi_pb_init [0, 0, 0] 3) sample_set_response)) \<le> 3"
  by (rule gnmi_encoders_stay_in_buffer [of "[0, 0, 0]" 3 _ "[]" "sample_notification 0" sample_set_response "[]" None, OF _ _ refl])
     (simp_all add: sample_notification_arrays sample_set_response_arrays opt_str_def)

end
