(* ===== verification/Gnmi_Reader.thy ===== *)
theory Gnmi_Reader
  imports Gnmi_Writer
begin

text \<open>
  The reader and the decoders of the gNMI codec: which messages every decoder returns on,
  without reading outside the message, a message on which none returns, and the round trip
  of the encoders and the decoders.
\<close>

subsection \<open>Messages without long varints\<close>

text \<open>
  A length that is large enough to make \<^verbatim>\<open>r->pos + n\<close> wrap needs a varint of ten bytes, that
  is, nine consecutive bytes with the continuation bit.
\<close>

fun short_varints :: "bytes \<Rightarrow> bool" where
  "short_varints [] = True"
| "short_varints (b # bs) =
     (\<not> (9 \<le> length (b # bs) \<and> (\<forall>x \<in> set (take 9 (b # bs)). x AND 0x80 \<noteq> 0)) \<and> short_varints bs)"

lemma short_varints_drop: "short_varints bs \<Longrightarrow> short_varints (drop n bs)"
proof (induction n arbitrary: bs)
  case (Suc n)
  then show ?case by (cases bs) auto
qed simp

lemma short_varints_take: "short_varints bs \<Longrightarrow> short_varints (take n bs)"
proof (induction bs arbitrary: n)
  case (Cons b bs)
  show ?case
  proof (cases n)
    case (Suc m)
    have "take 9 (b # take m bs) = take 9 (b # bs)" if "9 \<le> length (b # take m bs)"
    proof -
      have "9 \<le> Suc m" using that by simp
      then show ?thesis using take_take [of 9 "Suc m" "b # bs"] by (simp add: min_def)
    qed
    then show ?thesis using Cons Suc by auto
  qed simp
qed simp

lemma short_varints_nth:
  assumes "short_varints bs" and "i + 9 \<le> length bs"
  shows "\<exists>j < 9. bs ! (i + j) AND 0x80 = 0"
proof -
  have s: "short_varints (drop i bs)" using assms(1) by (rule short_varints_drop)
  obtain b t where d: "drop i bs = b # t" using assms(2) by (cases "drop i bs") auto
  have l: "9 \<le> length (b # t)" using assms(2) d [symmetric] by simp
  then obtain x where x: "x \<in> set (take 9 (b # t))" "x AND 0x80 = 0" using s unfolding d by auto
  obtain j where j: "j < 9" "take 9 (b # t) ! j = x"
    using x(1) l unfolding in_set_conv_nth by auto
  have "bs ! (i + j) = x" using j assms(2) unfolding d [symmetric] by simp
  then show ?thesis using j x by blast
qed

subsection \<open>Reading primitives on such messages\<close>

text \<open>
  \<open>rd_ok r\<close>: the reader is on a message that lies in its object and has no long varint.  The
  position may pass the end by the width of a skipped fixed field.
\<close>

definition rd_ok :: "gnmi_pb_reader \<Rightarrow> bool" where
  "rd_ok r \<longleftrightarrow> unat (r_len r) < 2 ^ 62 \<and> unat (r_len r) \<le> length (r_p r) \<and>
     short_varints (take (unat (r_len r)) (r_p r)) \<and> unat (r_pos r) \<le> unat (r_len r) + 8"

text \<open>\<open>rd_on r r'\<close>: the same message, no earlier position.\<close>

definition rd_on :: "gnmi_pb_reader \<Rightarrow> gnmi_pb_reader \<Rightarrow> bool" where
  "rd_on r r' \<longleftrightarrow> r_p r' = r_p r \<and> r_len r' = r_len r \<and> unat (r_pos r) \<le> unat (r_pos r')"

lemma rd_on_refl [simp]: "rd_on r r"
  by (simp add: rd_on_def)

lemma rd_on_trans: "rd_on r r1 \<Longrightarrow> rd_on r1 r2 \<Longrightarrow> rd_on r r2"
  by (simp add: rd_on_def)

lemma rd_on_ok: "rd_ok r \<Longrightarrow> rd_on r r' \<Longrightarrow> unat (r_pos r') \<le> unat (r_len r) + 8 \<Longrightarrow> rd_ok r'"
  by (simp add: rd_ok_def rd_on_def)

lemma pos_step: "rd_ok r \<Longrightarrow> r_pos r < r_len r \<Longrightarrow> unat (r_pos r + 1) = unat (r_pos r) + 1"
  by (simp add: rd_ok_def unat_word_ariths word_less_nat_alt)

lemma varint_bound:
  fixes v :: u64 and b :: u8
  assumes "unat v < 2 ^ s" and "s \<le> 56"
  shows "unat (v OR push_bit s (ucast (b AND 0x7F))) < 2 ^ (s + 7)"
proof -
  have z: "\<not> bit v n" if "s \<le> n" for n
  proof -
    have "take_bit s v = v" using assms by (simp add: word_unat_eq_iff unsigned_take_bit_eq take_bit_nat_eq_self)
    then show ?thesis using that by (metis bit_take_bit_iff not_less)
  qed
  have m: "(0x7F :: u8) = Bit_Operations.mask 7" by (simp add: mask_eq_exp_minus_1)
  define x where "x = v OR push_bit s (ucast (b AND 0x7F))"
  have "take_bit (s + 7) x = x" unfolding x_def
    by (rule bit_word_eqI) (auto simp: bit_simps m z)
  then have "unat x = take_bit (s + 7) (unat x)"
    using unsigned_take_bit_eq [of "s + 7" x] by simp
  then show ?thesis using take_bit_nat_less_exp [of "s + 7" "unat x"] unfolding x_def by linarith
qed

text \<open>
  The varint loop after \<open>k\<close> bytes: it returns within the message, an error consumes nothing
  beyond it, and a value is smaller than \<open>2^63\<close>.
\<close>

lemma varint_loop_ok:
  assumes "rd_ok r" and "unat (r_pos r) \<le> unat (r_len r)" and "k \<le> unat (r_pos r)" and "k \<le> 9"
    and "\<forall>j < k. r_p r ! (unat (r_pos r) - k + j) AND 0x80 \<noteq> 0" and "unat v < 2 ^ (7 * k)"
  shows "\<exists>x r'. pbr_varint_loop v (7 * k) r = Some (x, r') \<and> rd_on r r' \<and> unat (r_pos r') \<le> unat (r_len r) \<and>
     (\<not> r_err r' \<longrightarrow> \<not> r_err r \<and> unat (r_pos r) < unat (r_pos r') \<and> unat x < 2 ^ 63)"
  using assms
proof (induction "9 - k" arbitrary: k v r)
  case 0
  then have k: "k = 9" by simp
  have l: "unat (r_len r) \<le> length (r_p r)" "short_varints (take (unat (r_len r)) (r_p r))"
    using 0 by (simp_all add: rd_ok_def)
  have "\<exists>j < 9. take (unat (r_len r)) (r_p r) ! (unat (r_pos r) - 9 + j) AND 0x80 = 0"
    by (rule short_varints_nth [OF l(2)]) (use 0 k l in simp)
  then obtain j where j: "j < 9" "take (unat (r_len r)) (r_p r) ! (unat (r_pos r) - 9 + j) AND 0x80 = 0" by blast
  have "r_p r ! (unat (r_pos r) - 9 + j) AND 0x80 = 0" using j 0 k by simp
  then show ?case using 0 k j by blast
next
  case (Suc n)
  then have k: "k < 9" "n = 9 - Suc k" by simp_all
  show ?case
  proof (cases "r_pos r \<ge> r_len r")
    case True
    then show ?thesis using k Suc.prems by (subst pbr_varint_loop.simps) (simp add: rd_on_def)
  next
    case False
    then have lt: "r_pos r < r_len r" by simp
    define b where "b = r_p r ! unat (r_pos r)"
    define v1 where "v1 = v OR push_bit (7 * k) (ucast (b AND 0x7F))"
    define r1 where "r1 = r\<lparr>r_pos := r_pos r + 1\<rparr>"
    have u: "unat (r_pos r + 1) = unat (r_pos r) + 1" by (rule pos_step [OF Suc.prems(1) lt])
    have ltn: "unat (r_pos r) < unat (r_len r)" using lt by (simp add: word_less_nat_alt)
    have on: "rd_on r r1" by (simp add: rd_on_def r1_def u)
    have ok1: "rd_ok r1" by (rule rd_on_ok [OF Suc.prems(1) on]) (use ltn in \<open>simp add: r1_def u\<close>)
    have eq: "pbr_varint_loop v (7 * k) r = (if b AND 0x80 = 0 then Some (v1, r1) else pbr_varint_loop v1 (7 * Suc k) r1)"
      using k False ltn Suc.prems(1)
      by (subst pbr_varint_loop.simps) (simp add: b_def v1_def r1_def Let_def rd_ok_def add.commute)
    have v1: "unat v1 < 2 ^ (7 * Suc k)"
      unfolding v1_def using varint_bound [OF Suc.prems(6), of b] k by (simp add: add.commute)
    show ?thesis
    proof (cases "b AND 0x80 = 0")
      case True
      have "(2 :: nat) ^ (7 * Suc k) \<le> 2 ^ 63" by (rule power_increasing) (use k in simp_all)
      then show ?thesis unfolding eq using True on v1 ltn by (auto simp: r1_def u rd_on_def)
    next
      case False
      have c: "\<forall>j < Suc k. r_p r1 ! (unat (r_pos r1) - Suc k + j) AND 0x80 \<noteq> 0"
        using Suc.prems(3,5) False by (auto simp: less_Suc_eq r1_def u b_def)
      have "\<exists>x r'. pbr_varint_loop v1 (7 * Suc k) r1 = Some (x, r') \<and> rd_on r1 r' \<and> unat (r_pos r') \<le> unat (r_len r1) \<and>
         (\<not> r_err r' \<longrightarrow> \<not> r_err r1 \<and> unat (r_pos r1) < unat (r_pos r') \<and> unat x < 2 ^ 63)"
        by (rule Suc.hyps(1) [OF k(2) ok1 _ _ _ c v1]) (use k ltn Suc.prems(3) in \<open>simp_all add: r1_def u\<close>)
      then show ?thesis unfolding eq using False on by (auto simp: rd_on_def r1_def u)
    qed
  qed
qed

lemma varint_ok:
  assumes "rd_ok r" and "unat (r_pos r) \<le> unat (r_len r)"
  obtains x r' where "gnmi_pbr_varint r = Some (x, r')" and "rd_on r r'" and "unat (r_pos r') \<le> unat (r_len r)"
    and "\<not> r_err r' \<Longrightarrow> \<not> r_err r \<and> unat (r_pos r) < unat (r_pos r') \<and> unat x < 2 ^ 63"
  using varint_loop_ok [of r 0 0] assms unfolding gnmi_pbr_varint_def by auto

definition rd_in :: "gnmi_pb_reader \<Rightarrow> bool" where
  "rd_in r \<longleftrightarrow> rd_ok r \<and> unat (r_pos r) \<le> unat (r_len r)"

lemma rd_in_on: "rd_in r \<Longrightarrow> rd_on r r' \<Longrightarrow> unat (r_pos r') \<le> unat (r_len r) \<Longrightarrow> rd_in r'"
  by (simp add: rd_in_def rd_ok_def rd_on_def)

lemma tag_ok:
  assumes "rd_ok r"
  obtains f w r' where "gnmi_pbr_tag r = Some (f, w, r')" and "rd_ok r'" and "rd_on r r'"
    and "f \<noteq> 0 \<Longrightarrow> rd_in r' \<and> unat (r_pos r) < unat (r_pos r')"
proof (cases "r_pos r \<ge> r_len r")
  case True
  then have "gnmi_pbr_tag r = Some (0, 0, r)" by (simp add: gnmi_pbr_tag_def)
  then show ?thesis using that assms by simp
next
  case False
  then have "unat (r_pos r) \<le> unat (r_len r)" by (simp add: word_le_nat_alt)
  then obtain x r1 where x: "gnmi_pbr_varint r = Some (x, r1)" "rd_on r r1" "unat (r_pos r1) \<le> unat (r_len r)"
      "\<not> r_err r1 \<Longrightarrow> \<not> r_err r \<and> unat (r_pos r) < unat (r_pos r1) \<and> unat x < 2 ^ 63"
    using varint_ok [OF assms] by metis
  have i: "rd_in r1" using x assms by (simp add: rd_in_def rd_ok_def rd_on_def)
  show ?thesis
  proof (cases "r_err r1")
    case True
    then have "gnmi_pbr_tag r = Some (0, 0, r1)" using False x(1) by (simp add: gnmi_pbr_tag_def)
    then show ?thesis using that x(2) i by (simp add: rd_in_def)
  next
    case no: False
    then have "gnmi_pbr_tag r = Some (ucast (drop_bit 3 x), ucast (x AND 7), r1)"
      using False x(1) by (simp add: gnmi_pbr_tag_def)
    then show ?thesis using that x(2,4) i no by (simp add: rd_in_def)
  qed
qed

lemma bytes_ok:
  assumes "rd_in r"
  obtains ok d n r' where "gnmi_pbr_bytes r = Some (ok, d, n, r')" and "rd_in r'" and "rd_on r r'"
    and "ok \<Longrightarrow> rd_ok (gnmi_pbr_init d n)"
proof -
  obtain x r1 where x: "gnmi_pbr_varint r = Some (x, r1)" "rd_on r r1" "unat (r_pos r1) \<le> unat (r_len r)"
      "\<not> r_err r1 \<Longrightarrow> \<not> r_err r \<and> unat (r_pos r) < unat (r_pos r1) \<and> unat x < 2 ^ 63"
    using varint_ok [of r] assms unfolding rd_in_def by metis
  have i: "rd_in r1" by (rule rd_in_on [OF assms x(2,3)])
  have l: "unat (r_len r1) < 2 ^ 62" "unat (r_len r1) \<le> length (r_p r1)"
      "short_varints (take (unat (r_len r1)) (r_p r1))" "unat (r_pos r1) \<le> unat (r_len r1)"
    using i by (simp_all add: rd_in_def rd_ok_def)
  show ?thesis
  proof (cases "r_err r1 \<or> r_pos r1 + x > r_len r1")
    case True
    have "rd_in (r1\<lparr>r_err := True\<rparr>)" "rd_on r (r1\<lparr>r_err := True\<rparr>)"
      using i x(2) by (simp_all add: rd_in_def rd_ok_def rd_on_def)
    moreover have "gnmi_pbr_bytes r = Some (False, [], 0, r1\<lparr>r_err := True\<rparr>)"
      using True x(1) by (simp add: gnmi_pbr_bytes_def)
    ultimately show ?thesis using that by blast
  next
    case False
    then have "unat x < 2 ^ 63" using x(4) by blast
    then have u: "unat (r_pos r1 + x) = unat (r_pos r1) + unat x"
      using l by (simp add: unat_word_ariths)
    then have le: "unat (r_pos r1) + unat x \<le> unat (r_len r1)" using False by (simp add: word_less_nat_alt not_less)
    define r2 where "r2 = r1\<lparr>r_pos := r_pos r1 + x\<rparr>"
    have on: "rd_on r r2" "rd_in r2"
      using x(2) u le i by (simp_all add: r2_def rd_on_def rd_in_def rd_ok_def)
    have t: "take (unat x) (drop (unat (r_pos r1)) (r_p r1)) =
        take (unat x) (drop (unat (r_pos r1)) (take (unat (r_len r1)) (r_p r1)))"
      using le by (simp add: drop_take min_def)
    have "rd_ok (gnmi_pbr_init (drop (unat (r_pos r1)) (r_p r1)) x)"
      unfolding rd_ok_def gnmi_pbr_init_def using l le
      by (simp add: t short_varints_take short_varints_drop)
    moreover have "gnmi_pbr_bytes r = Some (True, drop (unat (r_pos r1)) (r_p r1), x, r2)"
      using False x(1) by (simp add: gnmi_pbr_bytes_def r2_def)
    ultimately show ?thesis using that on by blast
  qed
qed

lemma rd_ok_err: "rd_ok (r\<lparr>r_err := e\<rparr>) = rd_ok r" "rd_on r' (r\<lparr>r_err := e\<rparr>) = rd_on r' r"
  by (simp_all add: rd_ok_def rd_on_def)

lemma skip_ok:
  assumes "rd_in r"
  obtains r' where "gnmi_pbr_skip r wire = Some r'" and "rd_ok r'" and "rd_on r r'"
proof -
  have fixed: "rd_ok (r\<lparr>r_pos := r_pos r + k\<rparr>)" "rd_on r (r\<lparr>r_pos := r_pos r + k\<rparr>)" if "k = 4 \<or> k = 8" for k
  proof -
    have "unat (r_pos r + k) = unat (r_pos r) + unat k" "unat k \<le> 8"
      using that assms by (auto simp: rd_in_def rd_ok_def unat_word_ariths)
    then show "rd_ok (r\<lparr>r_pos := r_pos r + k\<rparr>)" "rd_on r (r\<lparr>r_pos := r_pos r + k\<rparr>)"
      using assms by (simp_all add: rd_in_def rd_ok_def rd_on_def)
  qed
  obtain x r1 where v: "gnmi_pbr_varint r = Some (x, r1)" "rd_on r r1" "unat (r_pos r1) \<le> unat (r_len r)"
    using varint_ok [of r] assms unfolding rd_in_def by metis
  have v1: "rd_ok r1" using rd_in_on [OF assms v(2,3)] by (simp add: rd_in_def)
  obtain ok d n r2 where b: "gnmi_pbr_bytes r = Some (ok, d, n, r2)" "rd_in r2" "rd_on r r2"
    using bytes_ok [OF assms] by metis
  have b2: "rd_ok r2" using b(2) by (simp add: rd_in_def)
  have r0: "rd_ok r" using assms by (simp add: rd_in_def)
  have fin: "\<exists>r'. map_option (\<lambda>r. if r_pos r > r_len r then r\<lparr>r_err := True\<rparr> else r) (Some q) = Some r' \<and> rd_ok r' \<and> rd_on r r'"
    if "rd_ok q" "rd_on r q" for q
    using that by (auto simp: rd_ok_err)
  have "\<exists>r'. gnmi_pbr_skip r wire = Some r' \<and> rd_ok r' \<and> rd_on r r'"
  proof -
    consider "wire = 0" | "wire = 1" | "wire = 2" | "wire = 5" | "wire \<notin> {0, 1, 2, 5}" by auto
    then show ?thesis
    proof cases
      case 1
      then show ?thesis unfolding gnmi_pbr_skip_def using fin [OF v1 v(2)] v(1) by simp
    next
      case 2
      then show ?thesis unfolding gnmi_pbr_skip_def using fin [OF fixed [of 8]] by simp
    next
      case 3
      then show ?thesis unfolding gnmi_pbr_skip_def using fin [OF b2 b(3)] b(1) by simp
    next
      case 4
      then show ?thesis unfolding gnmi_pbr_skip_def using fin [OF fixed [of 4]] by simp
    next
      case 5
      then show ?thesis unfolding gnmi_pbr_skip_def using fin [of "r\<lparr>r_err := True\<rparr>"] r0 by (simp add: rd_ok_err)
    qed
  qed
  then show ?thesis using that by blast
qed

subsection \<open>Decoders that return\<close>

text \<open>\<open>returns m Q\<close>: \<open>m\<close> returns without a read outside the object, and its output satisfies \<open>Q\<close>.\<close>

definition returns :: "'a rd option \<Rightarrow> ('a \<Rightarrow> bool) \<Rightarrow> bool" where
  "returns m Q \<longleftrightarrow> (\<exists>x. m = Some x \<and> x \<noteq> Fault \<and> (\<forall>y. x = Ok y \<longrightarrow> Q y))"

named_theorems returns_intro \<open>introduction rules for decoders that return\<close>

lemma returns_Ok [returns_intro]: "Q y \<Longrightarrow> returns (Some (Ok y)) Q"
  by (simp add: returns_def)

lemma returns_Bad [returns_intro]: "returns (Some Bad) Q"
  by (simp add: returns_def)

lemma returns_if [returns_intro]: "(c \<Longrightarrow> returns a Q) \<Longrightarrow> (\<not> c \<Longrightarrow> returns b Q) \<Longrightarrow> returns (if c then a else b) Q"
  by simp

lemma returns_bind:
  assumes "returns m P" and "\<And>y. P y \<Longrightarrow> returns (f y) Q"
  shows "returns (rd_bind m f) Q"
proof -
  obtain x where "m = Some x" "x \<noteq> Fault" "\<forall>y. x = Ok y \<longrightarrow> P y" using assms(1) unfolding returns_def by blast
  then show ?thesis using assms(2) by (cases x) (auto simp: rd_bind_def returns_def)
qed

lemma returns_mono: "returns m P \<Longrightarrow> (\<And>y. P y \<Longrightarrow> Q y) \<Longrightarrow> returns m Q"
  unfolding returns_def by blast

definition onward :: "gnmi_pb_reader \<Rightarrow> gnmi_pb_reader \<times> 's \<Rightarrow> bool" where
  "onward r = (\<lambda>(r', s). rd_ok r' \<and> rd_on r r')"

definition progressive :: "(u32 \<Rightarrow> u32 \<Rightarrow> gnmi_pb_reader \<Rightarrow> 's \<Rightarrow> (gnmi_pb_reader \<times> 's) rd option) \<Rightarrow> bool" where
  "progressive body \<longleftrightarrow> (\<forall>f w r s. rd_in r \<longrightarrow> returns (body f w r s) (onward r))"

lemma returns_fetch_varint:
  assumes "rd_in r"
  shows "returns (fetch (gnmi_pbr_varint r)) (\<lambda>(v, r'). rd_in r' \<and> rd_on r r')"
proof -
  obtain x r1 where v: "gnmi_pbr_varint r = Some (x, r1)" "rd_on r r1" "unat (r_pos r1) \<le> unat (r_len r)"
    using varint_ok [of r] assms unfolding rd_in_def by metis
  then show ?thesis using rd_in_on [OF assms v(2,3)] by (simp add: fetch_def returns_def)
qed

lemma returns_fetch_bytes:
  assumes "rd_in r"
  shows "returns (fetch (gnmi_pbr_bytes r)) (\<lambda>(ok, d, n, r'). (ok \<longrightarrow> rd_ok (gnmi_pbr_init d n)) \<and> rd_in r' \<and> rd_on r r')"
proof -
  obtain ok d n r' where "gnmi_pbr_bytes r = Some (ok, d, n, r')" "rd_in r'" "rd_on r r'"
    "ok \<Longrightarrow> rd_ok (gnmi_pbr_init d n)" using bytes_ok [OF assms] by metis
  then show ?thesis by (simp add: fetch_def returns_def)
qed

lemma returns_need_bytes:
  assumes "rd_in r"
  shows "returns (need_bytes r) (\<lambda>(d, n, r'). rd_ok (gnmi_pbr_init d n) \<and> rd_in r' \<and> rd_on r r')"
  unfolding need_bytes_def
  by (rule returns_bind [OF returns_fetch_bytes [OF assms]]) (auto simp: returns_def)

lemma returns_skip_field:
  assumes "rd_in r"
  shows "returns (skip_field w r s) (onward r)"
proof -
  obtain r' where "gnmi_pbr_skip r w = Some r'" "rd_ok r'" "rd_on r r'" using skip_ok [OF assms] by metis
  then show ?thesis by (simp add: skip_field_def fetch_def rd_bind_def returns_def onward_def)
qed

lemma returns_copy_str: "rd_ok (gnmi_pbr_init d n) \<Longrightarrow> returns (copy_str c d n a) (\<lambda>s. True)"
  by (auto simp: copy_str_def Let_def returns_def rd_ok_def gnmi_pbr_init_def)

text \<open>The measure of the loop is the number of bytes left.\<close>

lemma returns_pb_loop:
  assumes p: "progressive body" and "rd_ok r"
  shows "returns (pb_loop body r s) (\<lambda>(r', s'). rd_ok r')"
  using assms(2)
proof (induction "unat (r_len r) + 9 - unat (r_pos r)" arbitrary: r s rule: less_induct)
  case less
  obtain f w r1 where t: "gnmi_pbr_tag r = Some (f, w, r1)" "rd_ok r1" "rd_on r r1"
    "f \<noteq> 0 \<Longrightarrow> rd_in r1 \<and> unat (r_pos r) < unat (r_pos r1)" using tag_ok [OF less.prems] by metis
  show ?case
  proof (cases "f = 0")
    case True
    then show ?thesis using t(1,2) by (subst pb_loop.simps) (simp add: returns_def)
  next
    case False
    then have i: "rd_in r1" "unat (r_pos r) < unat (r_pos r1)" using t(4) by simp_all
    obtain x where x: "body f w r1 s = Some x" "x \<noteq> Fault" "\<forall>y. x = Ok y \<longrightarrow> onward r1 y"
      using p i(1) unfolding progressive_def returns_def by blast
    show ?thesis
    proof (cases x)
      case Bad
      then show ?thesis using t(1) False x(1) by (subst pb_loop.simps) (simp add: returns_def)
    next
      case (Ok y)
      obtain r2 s2 where y: "y = (r2, s2)" by (metis surj_pair)
      have r2: "rd_ok r2" "rd_on r1 r2" using x(3) Ok y by (simp_all add: onward_def)
      have m: "r_len r2 = r_len r" "unat (r_pos r) < unat (r_pos r2)" "unat (r_pos r2) \<le> unat (r_len r) + 8"
        using r2 i t(3) less.prems by (auto simp: rd_on_def rd_ok_def)
      have "unat (r_len r2) + 9 - unat (r_pos r2) < unat (r_len r) + 9 - unat (r_pos r)"
        unfolding m(1) using m(2,3) by linarith
      then have "returns (pb_loop body r2 s2) (\<lambda>(r', s'). rd_ok r')" using less.hyps r2(1) by blast
      then show ?thesis using t(1) False x(1) Ok y by (subst pb_loop.simps) simp
    qed (use x(2) in simp)
  qed
qed

lemma onward_in: "rd_on r r1 \<Longrightarrow> rd_in r1 \<Longrightarrow> onward r (r1, s)"
  by (simp add: onward_def rd_in_def)

lemma onward_on: "rd_on r r1 \<Longrightarrow> onward r1 y \<Longrightarrow> onward r y"
  by (auto simp: onward_def dest: rd_on_trans)

lemma returns_skip_on: "rd_in r1 \<Longrightarrow> rd_on r r1 \<Longrightarrow> returns (skip_field w r1 s) (onward r)"
  by (rule returns_mono [OF returns_skip_field]) (auto intro: onward_on)

text \<open>Reading a nested message, and storing a varint.\<close>

lemma returns_nested_at:
  assumes "rd_in r" and "\<And>d n. rd_ok (gnmi_pbr_init d n) \<Longrightarrow> returns (dec d n) (\<lambda>x. True)"
  shows "returns (nested_at r full dec k) (onward r)"
  unfolding nested_at_def
  by (rule returns_bind [OF returns_need_bytes [OF assms(1)]])
     (auto intro!: returns_if returns_Bad returns_bind [OF assms(2)] returns_Ok onward_in)

lemma nested_nested_at: "nested r dec k = nested_at r False dec k"
  by (simp add: nested_def nested_at_def)

lemma returns_nested:
  assumes "rd_in r" and "\<And>d n. rd_ok (gnmi_pbr_init d n) \<Longrightarrow> returns (dec d n) (\<lambda>x. True)"
  shows "returns (nested r dec k) (onward r)"
  unfolding nested_nested_at by (rule returns_nested_at [OF assms])

lemma returns_set_varint:
  assumes "rd_in r"
  shows "returns (rd_bind (fetch (gnmi_pbr_varint r)) (\<lambda>(v, r). Some (Ok (r, k v)))) (onward r)"
  by (rule returns_bind [OF returns_fetch_varint [OF assms]]) (auto intro!: returns_Ok onward_in)

lemma returns_set_str:
  assumes "rd_in r"
  shows "returns (rd_bind (need_bytes r) (\<lambda>(d, n, r). rd_bind (copy_str c d n a) (\<lambda>s. Some (Ok (r, k s))))) (onward r)"
  by (rule returns_bind [OF returns_need_bytes [OF assms]])
     (auto intro!: returns_bind [OF returns_copy_str] returns_Ok onward_in)

lemma returns_finish:
  assumes "progressive body" and "rd_ok (gnmi_pbr_init d n)" and "\<And>r s. returns (k (r, s)) (\<lambda>x. True)"
  shows "returns (rd_bind (pb_loop body (gnmi_pbr_init d n) z) k) (\<lambda>x. True)"
  by (rule returns_bind [OF returns_pb_loop [OF assms(1,2)]]) (use assms(3) in auto)

lemma progressiveI: "(\<And>f w r s. rd_in r \<Longrightarrow> returns (body f w r s) (onward r)) \<Longrightarrow> progressive body"
  by (simp add: progressive_def)

lemmas returns_fields = returns_if returns_Bad returns_skip_field returns_set_varint returns_set_str
  returns_nested returns_nested_at

lemma key_entry_progressive: "progressive key_entry_field"
proof (rule progressiveI)
  fix f w :: u32 and r and s :: "bytes \<times> bytes" assume i: "rd_in r"
  obtain kname kval where s: "s = (kname, kval)" by (metis surj_pair)
  have b: "returns (if f = 1 \<or> f = 2 then fetch (gnmi_pbr_bytes r) else Some (Ok (False, [], 0, r)))
     (\<lambda>(ok, d, n, r'). (ok \<longrightarrow> rd_ok (gnmi_pbr_init d n)) \<and> rd_in r' \<and> rd_on r r')"
    using i by (auto intro!: returns_if returns_fetch_bytes returns_Ok)
  show "returns (key_entry_field f w r s) (onward r)"
    unfolding key_entry_field_def s prod.case
  proof (rule returns_bind [OF b])
    fix y assume "case y of (ok, d, n, r') \<Rightarrow> (ok \<longrightarrow> rd_ok (gnmi_pbr_init d n)) \<and> rd_in r' \<and> rd_on r r'"
    then obtain ok d n r1 where y: "y = (ok, d, n, r1)" "ok \<longrightarrow> rd_ok (gnmi_pbr_init d n)" "rd_in r1" "rd_on r r1"
      by (cases y) auto
    have "returns (if f = 1 \<and> ok then rd_bind (copy_str GNMI_MAX_NAME d n kname) (\<lambda>kname. Some (Ok (r1, kname, kval)))
            else if f = 2 \<and> ok then rd_bind (copy_str GNMI_MAX_NAME d n kval) (\<lambda>kval. Some (Ok (r1, kname, kval)))
            else skip_field w r1 (kname, kval)) (onward r1)"
      using y by (auto intro!: returns_if returns_bind [OF returns_copy_str] returns_Ok returns_skip_field onward_in)
    then show "returns (case y of (ok, vd, vn, kr) \<Rightarrow> rd_bind
           (if f = 1 \<and> ok then rd_bind (copy_str GNMI_MAX_NAME vd vn kname) (\<lambda>kname. Some (Ok (kr, kname, kval)))
            else if f = 2 \<and> ok then rd_bind (copy_str GNMI_MAX_NAME vd vn kval) (\<lambda>kval. Some (Ok (kr, kname, kval)))
            else skip_field w kr (kname, kval))
           (\<lambda>(kr, kname, kval). if r_err kr then Some Bad else Some (Ok (kr, kname, kval)))) (onward r)"
      unfolding y(1) prod.case
      by (rule returns_bind) (use onward_on [OF y(4)] in \<open>auto intro!: returns_if returns_Bad returns_Ok\<close>)
  qed
qed

lemma path_elem_progressive: "progressive path_elem_field"
proof (rule progressiveI)
  fix f w :: u32 and r and s :: gnmi_path_elem assume i: "rd_in r"
  show "returns (path_elem_field f w r s) (onward r)"
    unfolding path_elem_field_def
  proof (intro returns_if returns_Bad returns_set_str [OF i] returns_skip_field [OF i])
    show "returns (rd_bind (need_bytes r) (\<lambda>(kd, kn, er).
        rd_bind (pb_loop key_entry_field (gnmi_pbr_init kd kn) (zeros GNMI_MAX_NAME, zeros GNMI_MAX_NAME))
          (\<lambda>(kr, kname, kval).
             Some (Ok (er, s\<lparr>pe_key_name := print_str kname (pe_key_name s),
                             pe_key_value := print_str kval (pe_key_value s),
                             pe_has_key := (kname ! 0 \<noteq> 0)\<rparr>))))) (onward r)"
      by (rule returns_bind [OF returns_need_bytes [OF i]])
         (auto intro!: returns_bind [OF returns_pb_loop [OF key_entry_progressive]] returns_Ok onward_in)
  qed
qed

lemma path_progressive: "progressive path_field"
proof (rule progressiveI)
  fix f w :: u32 and r and s :: gnmi_path assume i: "rd_in r"
  show "returns (path_field f w r s) (onward r)"
    unfolding path_field_def
  proof (intro returns_if returns_Bad returns_set_str [OF i] returns_skip_field [OF i])
    show "returns (rd_bind (need_bytes r) (\<lambda>(d, n, r).
        if gp_elem_count s \<ge> of_nat GNMI_MAX_ELEMS then Some Bad
        else rd_bind (pb_loop path_elem_field (gnmi_pbr_init d n) elem_zero) (\<lambda>(er, e).
               Some (Ok (r, s\<lparr>gp_elems := (gp_elems s)[unat (gp_elem_count s) := e],
                                gp_elem_count := gp_elem_count s + 1\<rparr>))))) (onward r)"
      by (rule returns_bind [OF returns_need_bytes [OF i]])
         (auto intro!: returns_if returns_Bad returns_bind [OF returns_pb_loop [OF path_elem_progressive]] returns_Ok onward_in)
  qed
qed

lemma returns_decode_path: "rd_ok (gnmi_pbr_init d n) \<Longrightarrow> returns (gnmi_decode_path d n) (\<lambda>x. True)"
  unfolding gnmi_decode_path_def by (rule returns_finish [OF path_progressive]) (auto simp: returns_def)

lemma value_progressive: "progressive value_field"
proof (rule progressiveI)
  fix f w :: u32 and r and s :: gnmi_typed_value assume i: "rd_in r"
  show "returns (value_field f w r s) (onward r)"
    unfolding value_field_def
  proof (intro returns_if returns_Bad)
    show "returns (rd_bind
        (if f = 1 \<or> f = 10 \<or> f = 11 \<or> f = 12 then
           rd_bind (need_bytes r) (\<lambda>(d, n, r).
           rd_bind (copy_str GNMI_MAX_VAL d n (tv_s s)) (\<lambda>v.
             Some (Ok (r, s\<lparr>tv_s := v, tv_kind := val_kind f\<rparr>))))
         else if f = 2 then
           rd_bind (fetch (gnmi_pbr_varint r)) (\<lambda>(v, r). Some (Ok (r, s\<lparr>tv_i := v, tv_kind := GNMI_VAL_INT\<rparr>)))
         else if f = 3 then
           rd_bind (fetch (gnmi_pbr_varint r)) (\<lambda>(v, r). Some (Ok (r, s\<lparr>tv_u := v, tv_kind := GNMI_VAL_UINT\<rparr>)))
         else if f = 4 then
           rd_bind (fetch (gnmi_pbr_varint r)) (\<lambda>(v, r). Some (Ok (r, s\<lparr>tv_b := (v \<noteq> 0), tv_kind := GNMI_VAL_BOOL\<rparr>)))
         else skip_field w r s)
        (\<lambda>(r, out). if r_err r then Some Bad else Some (Ok (r, out)))) (onward r)"
      by (rule returns_bind [where P = "onward r"])
         (auto intro!: returns_if returns_Bad returns_set_str [OF i] returns_set_varint [OF i] returns_skip_field [OF i] returns_Ok)
  qed
qed

lemma returns_decode_typed_value: "rd_ok (gnmi_pbr_init d n) \<Longrightarrow> returns (gnmi_decode_typed_value d n) (\<lambda>x. True)"
  unfolding gnmi_decode_typed_value_def by (rule returns_finish [OF value_progressive]) (auto simp: returns_def)

lemma update_progressive: "progressive update_field"
  by (rule progressiveI, unfold update_field_def)
     (intro returns_fields returns_decode_path returns_decode_typed_value)

lemma returns_decode_update: "rd_ok (gnmi_pbr_init d n) \<Longrightarrow> returns (decode_update d n) (\<lambda>x. True)"
  unfolding decode_update_def by (rule returns_finish [OF update_progressive]) (auto simp: returns_def)

lemma get_request_progressive: "progressive get_request_field"
  by (rule progressiveI, unfold get_request_field_def)
     (intro returns_fields returns_decode_path)

lemma returns_decode_get_request: "rd_ok (gnmi_pbr_init d n) \<Longrightarrow> returns (gnmi_decode_get_request d n) (\<lambda>x. True)"
  unfolding gnmi_decode_get_request_def by (rule returns_finish [OF get_request_progressive]) (auto simp: returns_def)

lemma set_request_progressive: "progressive set_request_field"
  by (rule progressiveI, unfold set_request_field_def)
     (intro returns_fields returns_decode_path returns_decode_update)

lemma returns_decode_set_request: "rd_ok (gnmi_pbr_init d n) \<Longrightarrow> returns (gnmi_decode_set_request d n) (\<lambda>x. True)"
  unfolding gnmi_decode_set_request_def by (rule returns_finish [OF set_request_progressive]) (auto simp: returns_def)

lemma subscription_progressive: "progressive subscription_field"
proof (rule progressiveI)
  fix f w :: u32 and r and s :: gnmi_path assume i: "rd_in r"
  have b: "returns (if f = 1 then fetch (gnmi_pbr_bytes r) else Some (Ok (False, [], 0, r)))
     (\<lambda>(ok, d, n, r'). (ok \<longrightarrow> rd_ok (gnmi_pbr_init d n)) \<and> rd_in r' \<and> rd_on r r')"
    using i by (auto intro!: returns_if returns_fetch_bytes returns_Ok)
  show "returns (subscription_field f w r s) (onward r)"
    unfolding subscription_field_def
    by (rule returns_bind [OF b])
       (auto intro!: returns_if returns_bind [OF returns_decode_path] returns_Ok onward_in
          returns_skip_on)
qed

lemma subscription_list_progressive: "progressive subscription_list_field"
  by (rule progressiveI, unfold subscription_list_field_def)
     (intro returns_fields returns_mono [OF returns_pb_loop [OF subscription_progressive]] TrueI)

lemma subscribe_request_progressive: "progressive subscribe_request_field"
  by (rule progressiveI, unfold subscribe_request_field_def)
     (intro returns_fields returns_mono [OF returns_pb_loop [OF subscription_list_progressive]] TrueI)

lemma returns_decode_subscribe_request:
  "rd_ok (gnmi_pbr_init d n) \<Longrightarrow> returns (gnmi_decode_subscribe_request d n) (\<lambda>x. True)"
  unfolding gnmi_decode_subscribe_request_def by (rule returns_finish [OF subscribe_request_progressive]) (auto simp: returns_def)

subsection \<open>A message that is never decoded\<close>

text \<open>A loop that comes back to its own state does not return.\<close>

lemma pb_loop_stuck:
  assumes t: "gnmi_pbr_tag q = Some (f, w, q1)" and f: "f \<noteq> 0" and b: "bd f w q1 z = Some (Ok (q, z))"
  shows "pb_loop bd q z = None"
proof -
  have False if y: "pb_loop bd q z = Some y" for y
  proof -
    have "\<not> (bd = bd \<and> q = q \<and> z = z)"
    proof (rule pb_loop.raw_induct [where P = "\<lambda>bd' q' z' y. \<not> (bd' = bd \<and> q' = q \<and> z' = z)", OF _ y])
      fix lp body r s res
      assume IH: "\<And>r s b y. lp r s b = Some y \<Longrightarrow> \<not> (r = bd \<and> s = q \<and> b = z)"
        and step: "(case gnmi_pbr_tag r of None \<Rightarrow> Some Fault
          | Some (field, wire, r1) \<Rightarrow>
              if field = 0 then Some (Ok (r1, s))
              else case body field wire r1 s of None \<Rightarrow> None
                   | Some Fault \<Rightarrow> Some Fault | Some Bad \<Rightarrow> Some Bad
                   | Some (Ok (r2, s2)) \<Rightarrow> lp body r2 s2) = Some res"
      show "\<not> (body = bd \<and> r = q \<and> s = z)"
      proof (rule notI, elim conjE)
        assume e: "body = bd" "r = q" "s = z"
        have "lp bd q z = Some res" using step unfolding e t using f b by simp
        then show False using IH by blast
      qed
    qed
    then show False by simp
  qed
  then show ?thesis by (cases "pb_loop bd q z") auto
qed

text \<open>Field 7, length-delimited, with the length \<open>2^64 - 11\<close>.\<close>

definition hang_msg :: bytes where
  "hang_msg = [0x3A, 0xF5, 0xFF, 0xFF, 0xFF, 0xFF, 0xFF, 0xFF, 0xFF, 0xFF, 0x01]"

lemma hang_tag: "gnmi_pbr_tag (gnmi_pbr_init hang_msg 11) = Some (7, 2, (gnmi_pbr_init hang_msg 11)\<lparr>r_pos := 1\<rparr>)"
  by code_simp

lemma hang_skip: "skip_field 2 ((gnmi_pbr_init hang_msg 11)\<lparr>r_pos := 1\<rparr>) s = Some (Ok (gnmi_pbr_init hang_msg 11, s))"
proof -
  have "gnmi_pbr_skip ((gnmi_pbr_init hang_msg 11)\<lparr>r_pos := 1\<rparr>) 2 = Some (gnmi_pbr_init hang_msg 11)"
    by code_simp
  then show ?thesis by (simp add: skip_field_def fetch_def rd_bind_def)
qed

lemma hang_loop:
  assumes "\<And>r. \<not> r_err r \<Longrightarrow> bd 7 2 r z = skip_field 2 r z"
  shows "pb_loop bd (gnmi_pbr_init hang_msg 11) z = None"
proof (rule pb_loop_stuck [OF hang_tag])
  have "\<not> r_err ((gnmi_pbr_init hang_msg 11)\<lparr>r_pos := 1\<rparr>)" by (simp add: gnmi_pbr_init_def)
  then show "bd 7 2 ((gnmi_pbr_init hang_msg 11)\<lparr>r_pos := 1\<rparr>) z = Some (Ok (gnmi_pbr_init hang_msg 11, z))"
    using assms hang_skip by metis
qed simp

text \<open>
  There is an eleven-byte message on which no decoder of the gNMI service ever returns: the
  length of an unknown field makes \<^verbatim>\<open>r->pos + n\<close> wrap to the start of the message, the bounds
  check accepts it, and the field loop reads the same field again for ever.
\<close>

lemma gnmi_decoders_hang:
  "gnmi_decode_get_request hang_msg 11 = None \<and> gnmi_decode_set_request hang_msg 11 = None \<and>
   gnmi_decode_subscribe_request hang_msg 11 = None \<and> gnmi_decode_path hang_msg 11 = None"
proof -
  have "pb_loop get_request_field (gnmi_pbr_init hang_msg 11) s = None" for s
    by (rule hang_loop) (simp add: get_request_field_def)
  moreover have "pb_loop set_request_field (gnmi_pbr_init hang_msg 11) s = None" for s
    by (rule hang_loop) (simp add: set_request_field_def)
  moreover have "pb_loop subscribe_request_field (gnmi_pbr_init hang_msg 11) s = None" for s
    by (rule hang_loop) (simp add: subscribe_request_field_def)
  moreover have "pb_loop path_field (gnmi_pbr_init hang_msg 11) s = None" for s
    by (rule hang_loop) (simp add: path_field_def)
  ultimately show ?thesis
    by (simp add: gnmi_decode_get_request_def gnmi_decode_set_request_def gnmi_decode_subscribe_request_def
        gnmi_decode_path_def rd_bind_def)
qed

text \<open>
  C13: The decoders of Get, Set and Subscribe requests terminate and read only the message: on every
  message of fewer than \<open>2^62\<close> bytes in which no nine consecutive bytes carry the continuation
  bit, each of them returns, and no access is outside the message, whatever the other bytes
  are.
\<close>

theorem gnmi_decoders_return:
  assumes "unat len \<le> length buf" and "len < 2 ^ 62" and "short_varints (take (unat len) buf)"
  shows "(\<exists>x. gnmi_decode_get_request buf len = Some x \<and> x \<noteq> Fault) \<and>
     (\<exists>x. gnmi_decode_set_request buf len = Some x \<and> x \<noteq> Fault) \<and>
     (\<exists>x. gnmi_decode_subscribe_request buf len = Some x \<and> x \<noteq> Fault)"
proof -
  have "rd_ok (gnmi_pbr_init buf len)"
    using assms by (simp add: rd_ok_def gnmi_pbr_init_def word_less_nat_alt)
  then show ?thesis
    using returns_decode_get_request returns_decode_set_request returns_decode_subscribe_request
    unfolding returns_def by blast
qed

theorem gnmi_decoders_return_witness:
  "(\<exists>x. gnmi_decode_get_request [0x12, 0x80, 0x80, 7, 0xFF] 5 = Some x \<and> x \<noteq> Fault) \<and>
   (\<exists>x. gnmi_decode_set_request [0x12, 0x80, 0x80, 7, 0xFF] 5 = Some x \<and> x \<noteq> Fault) \<and>
   (\<exists>x. gnmi_decode_subscribe_request [0x12, 0x80, 0x80, 7, 0xFF] 5 = Some x \<and> x \<noteq> Fault)"
  by (rule gnmi_decoders_return) simp_all

end
