(* ===== verification/Gnmi_Roundtrip.thy ===== *)
theory Gnmi_Roundtrip
  imports Gnmi_Reader
begin

text \<open>
  The decoders read back what the encoders wrote.  Character arrays come back as their string
  padded with zeros, and the members that the kind of a value does not use come back as zero.
\<close>

subsection \<open>A reader in front of given bytes\<close>

definition rd_at :: "gnmi_pb_reader \<Rightarrow> bytes \<Rightarrow> bool" where
  "rd_at r bs \<longleftrightarrow> \<not> r_err r \<and> unat (r_len r) < 2 ^ 62 \<and> unat (r_len r) \<le> length (r_p r) \<and>
     unat (r_pos r) + length bs = unat (r_len r) \<and> take (length bs) (drop (unat (r_pos r)) (r_p r)) = bs"

lemma rd_at_Cons:
  assumes "rd_at r (b # bs)"
  shows "r_pos r < r_len r" and "unat (r_pos r) < length (r_p r)" and "r_p r ! unat (r_pos r) = b"
    and "rd_at (r\<lparr>r_pos := r_pos r + 1\<rparr>) bs"
proof -
  have a: "unat (r_pos r) + Suc (length bs) = unat (r_len r)" "unat (r_len r) < 2 ^ 62" "unat (r_len r) \<le> length (r_p r)"
    "take (Suc (length bs)) (drop (unat (r_pos r)) (r_p r)) = b # bs" "\<not> r_err r"
    using assms by (simp_all add: rd_at_def)
  show "r_pos r < r_len r" "unat (r_pos r) < length (r_p r)" using a by (simp_all add: word_less_nat_alt)
  have d: "drop (unat (r_pos r)) (r_p r) = b # bs @ drop (Suc (length bs)) (drop (unat (r_pos r)) (r_p r))"
    using a(4) by (metis append_Cons append_take_drop_id)
  then show "r_p r ! unat (r_pos r) = b" using a by (metis nth_via_drop)
  have u: "unat (r_pos r + 1) = Suc (unat (r_pos r))" using a by (simp add: unat_word_ariths)
  have "drop (Suc (unat (r_pos r))) (r_p r) = tl (drop (unat (r_pos r)) (r_p r))" by (simp add: drop_Suc tl_drop)
  then have "take (length bs) (drop (Suc (unat (r_pos r))) (r_p r)) = bs" by (subst (asm) d) simp
  then show "rd_at (r\<lparr>r_pos := r_pos r + 1\<rparr>) bs" using a by (simp add: rd_at_def u)
qed

lemma rd_at_append:
  assumes "rd_at r (d @ rest)"
  shows "unat (r_pos r + of_nat (length d)) = unat (r_pos r) + length d"
    and "rd_at (r\<lparr>r_pos := r_pos r + of_nat (length d)\<rparr>) rest"
    and "rd_at (gnmi_pbr_init (drop (unat (r_pos r)) (r_p r)) (of_nat (length d))) d"
    and "r_pos r + of_nat (length d) \<le> r_len r"
proof -
  have a: "unat (r_pos r) + (length d + length rest) = unat (r_len r)" "unat (r_len r) < 2 ^ 62" "unat (r_len r) \<le> length (r_p r)"
    "take (length d + length rest) (drop (unat (r_pos r)) (r_p r)) = d @ rest" "\<not> r_err r"
    using assms by (simp_all add: rd_at_def)
  have n: "unat (of_nat (length d) :: u64) = length d" using a by (simp add: unat_of_nat)
  show u: "unat (r_pos r + of_nat (length d)) = unat (r_pos r) + length d"
    using a n by (simp add: unat_word_ariths)
  have "take (length rest) (drop (length d) (drop (unat (r_pos r)) (r_p r))) =
      drop (length d) (take (length d + length rest) (drop (unat (r_pos r)) (r_p r)))"
    by (simp add: take_drop ac_simps)
  then have t: "take (length rest) (drop (unat (r_pos r) + length d) (r_p r)) = rest"
    unfolding a(4) by (simp add: add.commute)
  show "rd_at (r\<lparr>r_pos := r_pos r + of_nat (length d)\<rparr>) rest"
    using a t by (simp add: rd_at_def u)
  have "take (length d) (drop (unat (r_pos r)) (r_p r)) = take (length d) (take (length d + length rest) (drop (unat (r_pos r)) (r_p r)))"
    by (simp add: min_def)
  then have "take (length d) (drop (unat (r_pos r)) (r_p r)) = d" unfolding a(4) by simp
  then show "rd_at (gnmi_pbr_init (drop (unat (r_pos r)) (r_p r)) (of_nat (length d))) d"
    using a n by (simp add: rd_at_def gnmi_pbr_init_def)
  show "r_pos r + of_nat (length d) \<le> r_len r" using u a by (simp add: word_le_nat_alt)
qed

lemma or_split7:
  "push_bit m (x AND 0x7F) OR push_bit (m + 7) (drop_bit 7 x) = push_bit m x" for x :: u64
proof (rule bit_word_eqI)
  fix n
  have z: "(0x7F :: u64) = Bit_Operations.mask 7" by (simp add: mask_eq_exp_minus_1)
  show "bit (push_bit m (x AND 0x7F) OR push_bit (m + 7) (drop_bit 7 x)) n = bit (push_bit m x) n" if "n < LENGTH(64)"
  proof -
    have "bit (push_bit m (x AND 0x7F)) n \<longleftrightarrow> m \<le> n \<and> n - m < 7 \<and> bit x (n - m)"
      using that unfolding z by (auto simp: bit_simps)
    moreover have "bit (push_bit (m + 7) (drop_bit 7 x)) n \<longleftrightarrow> m + 7 \<le> n \<and> bit x (n - m)"
      using that by (auto simp: bit_simps)
    moreover have "bit (push_bit m x) n \<longleftrightarrow> m \<le> n \<and> bit x (n - m)"
      using that by (auto simp: bit_simps)
    ultimately show ?thesis unfolding bit_or_iff by auto
  qed
qed

lemma varint_loop_at:
  assumes "rd_at r (leb128 x @ rest)" and "unat x < 2 ^ (64 - 7 * k)" and "k \<le> 9"
  shows "\<exists>r'. pbr_varint_loop a (7 * k) r = Some (a OR push_bit (7 * k) x, r') \<and> rd_at r' rest"
  using assms
proof (induction x arbitrary: a k r rule: leb128.induct)
  case (1 x)
  show ?case
  proof (cases "x \<ge> 0x80")
    case True
    define y :: u8 where "y = ucast (x AND 0x7F) OR 0x80"
    have y: "y AND 0x80 \<noteq> 0" "ucast (y AND 0x7F) = x AND 0x7F" unfolding y_def by (rule more_byte)+
    have b: "rd_at r (y # leb128 (drop_bit 7 x) @ rest)"
      using 1(2) unfolding leb128_big [OF True] y_def by simp
    note c = rd_at_Cons [OF b]
    have k: "k < 9"
    proof (rule ccontr)
      assume "\<not> k < 9"
      then have "k = 9" using 1(4) by simp
      then have "unat x < 2" using 1(3) by simp
      then show False using True by (simp add: word_le_nat_alt)
    qed
    have e: "64 - 7 * k = 64 - 7 * Suc k + 7" using k by simp
    have "unat x < 2 ^ (64 - 7 * Suc k + 7)" using 1(3) e by metis
    then have d: "unat (drop_bit 7 x) < 2 ^ (64 - 7 * Suc k)"
      unfolding drop7 by (simp only: power_add) (simp add: less_mult_imp_div_less)
    obtain r' where r': "pbr_varint_loop (a OR push_bit (7 * k) (x AND 0x7F)) (7 * Suc k) (r\<lparr>r_pos := r_pos r + 1\<rparr>) =
        Some ((a OR push_bit (7 * k) (x AND 0x7F)) OR push_bit (7 * Suc k) (drop_bit 7 x), r')" "rd_at r' rest"
      using 1(1) [OF True c(4) d] k by fastforce
    have "pbr_varint_loop a (7 * k) r = pbr_varint_loop (a OR push_bit (7 * k) (x AND 0x7F)) (7 * Suc k) (r\<lparr>r_pos := r_pos r + 1\<rparr>)"
      using k c(2) c(1) [folded not_le] by (subst pbr_varint_loop.simps) (simp add: c(3) y Let_def add.commute)
    moreover have "(a OR push_bit (7 * k) (x AND 0x7F)) OR push_bit (7 * Suc k) (drop_bit 7 x) = a OR push_bit (7 * k) x"
      using or_split7 [of "7 * k" x] by (simp add: or.assoc add.commute)
    ultimately show ?thesis using r' by metis
  next
    case False
    then have s: "x < 0x80" by simp
    define y :: u8 where "y = ucast x"
    have y: "y AND 0x80 = 0" "ucast (y AND 0x7F) = x" unfolding y_def by (rule last_byte [OF s])+
    have b: "rd_at r (y # rest)" using 1(2) unfolding leb128_small [OF s] y_def by simp
    note c = rd_at_Cons [OF b]
    have "pbr_varint_loop a (7 * k) r = Some (a OR push_bit (7 * k) x, r\<lparr>r_pos := r_pos r + 1\<rparr>)"
      using 1(4) c(2) c(1) [folded not_le] by (subst pbr_varint_loop.simps) (simp add: c(3) y Let_def)
    then show ?thesis using c(4) by blast
  qed
qed

lemma varint_at: "rd_at r (leb128 x @ rest) \<Longrightarrow> \<exists>r'. gnmi_pbr_varint r = Some (x, r') \<and> rd_at r' rest"
  using varint_loop_at [of r x rest 0 0] order.strict_trans2 [OF unsigned_less, of "2 ^ 64" x]
  unfolding gnmi_pbr_varint_def by simp

lemma tag_parts:
  fixes f w :: u32
  assumes "w < 8"
  shows "ucast (drop_bit 3 (push_bit 3 (ucast f) OR ucast w :: u64)) = f"
    and "ucast ((push_bit 3 (ucast f) OR ucast w :: u64) AND 7) = w"
proof -
  have "unat w < 2 ^ 3" using assms by (simp add: word_less_nat_alt)
  then have t: "take_bit 3 w = w"
    by (simp add: word_unat_eq_iff unsigned_take_bit_eq take_bit_nat_eq_self)
  have z: "\<not> bit w n" if "3 \<le> n" for n using t that by (metis bit_take_bit_iff not_less)
  have m: "(7 :: u64) = Bit_Operations.mask 3" by (simp add: mask_eq_exp_minus_1)
  show "ucast (drop_bit 3 (push_bit 3 (ucast f) OR ucast w :: u64)) = f"
    by (rule bit_word_eqI) (auto simp: bit_simps z)
  show "ucast ((push_bit 3 (ucast f) OR ucast w :: u64) AND 7) = w"
    unfolding m by (rule bit_word_eqI) (auto simp: bit_simps, meson not_le z)
qed

lemma rd_at_nonempty: "rd_at r bs \<Longrightarrow> bs \<noteq> [] \<Longrightarrow> r_pos r < r_len r"
  by (cases bs) (auto dest: rd_at_Cons(1))

lemma tag_at:
  assumes "rd_at r (tag_bytes f w @ rest)" and "w < 8"
  shows "\<exists>r'. gnmi_pbr_tag r = Some (f, w, r') \<and> rd_at r' rest"
proof -
  obtain r' where r': "gnmi_pbr_varint r = Some (push_bit 3 (ucast f) OR ucast w, r')" "rd_at r' rest"
    using varint_at assms(1) unfolding tag_bytes_def by blast
  have "\<not> r_len r \<le> r_pos r" using rd_at_nonempty [OF assms(1)] by (simp add: tag_bytes_def not_le)
  then have "gnmi_pbr_tag r = Some (f, w, r')"
    using r' tag_parts [OF assms(2), of f] by (simp add: gnmi_pbr_tag_def rd_at_def)
  then show ?thesis using r' by blast
qed

lemma bytes_at:
  assumes "rd_at r (leb128 (of_nat (length d)) @ d @ rest)"
  shows "\<exists>p r'. gnmi_pbr_bytes r = Some (True, p, of_nat (length d), r') \<and> rd_at r' rest \<and>
     rd_at (gnmi_pbr_init p (of_nat (length d))) d"
proof -
  obtain r1 where r1: "gnmi_pbr_varint r = Some (of_nat (length d), r1)" "rd_at r1 (d @ rest)"
    using varint_at [OF assms] by blast
  note a = rd_at_append [OF r1(2)]
  have "gnmi_pbr_bytes r = Some (True, drop (unat (r_pos r1)) (r_p r1), of_nat (length d), r1\<lparr>r_pos := r_pos r1 + of_nat (length d)\<rparr>)"
    using r1 a(4) by (simp add: gnmi_pbr_bytes_def rd_at_def not_less)
  then show ?thesis using a(2,3) by blast
qed

lemma need_bytes_eq:
  "gnmi_pbr_bytes r = Some (True, p, n, r1) \<Longrightarrow> need_bytes r = Some (Ok (p, n, r1))"
  by (simp add: need_bytes_def fetch_def rd_bind_def)

subsection \<open>Strings in arrays\<close>

definition pad :: "nat \<Rightarrow> bytes \<Rightarrow> bytes" where
  "pad n s = s @ zeros (n - length s)"

lemma mem_put_pad: "length s < n \<Longrightarrow> mem_put 0 (s @ [0]) (zeros n) = pad n s"
proof -
  assume "length s < n"
  then obtain k where k: "n = length s + Suc k" using less_imp_Suc_add by auto
  show ?thesis unfolding k by (simp add: mem_put_def pad_def zeros_def)
qed

lemma pad_nil: "pad n [] = zeros n"
  by (simp add: pad_def)

lemma cstr_pad: "0 \<notin> set s \<Longrightarrow> length s < n \<Longrightarrow> cstr (pad n s) = s"
proof -
  assume a: "0 \<notin> set s" "length s < n"
  obtain k where k: "n = length s + Suc k" using less_imp_Suc_add [OF a(2)] by auto
  show ?thesis unfolding k pad_def zeros_def using cstr_stop [OF a(1)] by simp
qed

lemma pad_hd: "0 \<notin> set s \<Longrightarrow> length s < n \<Longrightarrow> (pad n s ! 0 \<noteq> 0) = (s \<noteq> [])"
  by (cases s) (auto simp: pad_def zeros_def)

lemma copy_str_at:
  assumes "rd_at (gnmi_pbr_init p (of_nat (length d))) d" and "length d < c"
  shows "copy_str c p (of_nat (length d)) (zeros c) = Some (Ok (pad c d))"
proof -
  have u: "unat (of_nat (length d) :: u64) = length d" "length d \<le> length p" "take (length d) p = d"
    using assms(1) by (auto simp: rd_at_def gnmi_pbr_init_def)
  have m: "min (length d) (c - 1) = length d" using assms(2) by simp
  show ?thesis unfolding copy_str_def u(1) m Let_def using u(2,3) mem_put_pad [OF assms(2)] by simp
qed

subsection \<open>Field loops over known fields\<close>

text \<open>\<open>decodes body bs s s'\<close>: on the bytes \<open>bs\<close> the loop takes \<open>s\<close> to \<open>s'\<close> and ends without an error.\<close>

definition decodes ::
  "(u32 \<Rightarrow> u32 \<Rightarrow> gnmi_pb_reader \<Rightarrow> 's \<Rightarrow> (gnmi_pb_reader \<times> 's) rd option) \<Rightarrow> bytes \<Rightarrow> 's \<Rightarrow> 's \<Rightarrow> bool" where
  "decodes body bs s s' \<longleftrightarrow> (\<forall>r. rd_at r bs \<longrightarrow> (\<exists>r'. pb_loop body r s = Some (Ok (r', s')) \<and> \<not> r_err r'))"

lemma decodes_nil: "decodes body [] s s"
  unfolding decodes_def
proof (intro allI impI)
  fix r assume "rd_at r []"
  then have "r_len r = r_pos r" "\<not> r_err r" by (simp_all add: rd_at_def word_unat_eq_iff)
  then show "\<exists>r'. pb_loop body r s = Some (Ok (r', s)) \<and> \<not> r_err r'"
    by (subst pb_loop.simps) (simp add: gnmi_pbr_tag_def)
qed

lemma decodes_field:
  assumes "f \<noteq> 0" and "w < 8"
    and b: "\<And>r. rd_at r (v @ rest) \<Longrightarrow> \<exists>r'. body f w r s = Some (Ok (r', s1)) \<and> rd_at r' rest"
    and d: "decodes body rest s1 s'"
  shows "decodes body (tag_bytes f w @ v @ rest) s s'"
  unfolding decodes_def
proof (intro allI impI)
  fix r assume "rd_at r (tag_bytes f w @ v @ rest)"
  then obtain r1 where r1: "gnmi_pbr_tag r = Some (f, w, r1)" "rd_at r1 (v @ rest)" using tag_at assms(2) by blast
  obtain r2 where r2: "body f w r1 s = Some (Ok (r2, s1))" "rd_at r2 rest" using b [OF r1(2)] by blast
  have "pb_loop body r s = pb_loop body r2 s1" using r1(1) r2(1) assms(1) by (subst pb_loop.simps) simp
  then show "\<exists>r'. pb_loop body r s = Some (Ok (r', s')) \<and> \<not> r_err r'" using d r2(2) unfolding decodes_def by simp
qed

lemma decodes_delim:
  assumes "f \<noteq> 0"
    and b: "\<And>r p r1. \<not> r_err r \<Longrightarrow> \<not> r_err r1 \<Longrightarrow> gnmi_pbr_bytes r = Some (True, p, of_nat (length d), r1) \<Longrightarrow>
              rd_at (gnmi_pbr_init p (of_nat (length d))) d \<Longrightarrow> body f 2 r s = Some (Ok (r1, s1))"
    and d: "decodes body rest s1 s'"
  shows "decodes body (delim_bytes f d @ rest) s s'"
proof -
  have h: "\<exists>r'. body f 2 r s = Some (Ok (r', s1)) \<and> rd_at r' rest"
    if r: "rd_at r ((leb128 (of_nat (length d)) @ d) @ rest)" for r
  proof -
    obtain p r1 where "gnmi_pbr_bytes r = Some (True, p, of_nat (length d), r1)" "rd_at r1 rest"
        "rd_at (gnmi_pbr_init p (of_nat (length d))) d"
      using bytes_at r unfolding append_assoc by blast
    then show ?thesis using b [of r] r by (auto simp: rd_at_def)
  qed
  show ?thesis
    using decodes_field [where v = "leb128 (of_nat (length d)) @ d" and w = 2, OF assms(1) _ h d]
    by (simp add: delim_bytes_def)
qed

lemma decodes_varint:
  assumes "f \<noteq> 0"
    and b: "\<And>r r1. \<not> r_err r \<Longrightarrow> \<not> r_err r1 \<Longrightarrow> gnmi_pbr_varint r = Some (v, r1) \<Longrightarrow> body f 0 r s = Some (Ok (r1, s1))"
    and d: "decodes body rest s1 s'"
  shows "decodes body (varint_field_bytes f v @ rest) s s'"
proof -
  have h: "\<exists>r'. body f 0 r s = Some (Ok (r', s1)) \<and> rd_at r' rest" if r: "rd_at r (leb128 v @ rest)" for r
    using varint_at [OF r] b [of r] r by (auto simp: rd_at_def)
  show ?thesis
    using decodes_field [where v = "leb128 v" and w = 0, OF assms(1) _ h d] by (simp add: varint_field_bytes_def)
qed

lemma decodes_use:
  assumes "decodes body d s s'" and "rd_at (gnmi_pbr_init p n) d"
  obtains r where "pb_loop body (gnmi_pbr_init p n) s = Some (Ok (r, s'))" and "\<not> r_err r"
  using assms unfolding decodes_def by blast

subsection \<open>Canonical objects\<close>

text \<open>The strings are terminated within their arrays.\<close>

definition elem_strings :: "gnmi_path_elem \<Rightarrow> bool" where
  "elem_strings e \<longleftrightarrow> length (cstr (pe_name e)) < GNMI_MAX_NAME \<and> length (cstr (pe_key_name e)) < GNMI_MAX_NAME \<and>
     length (cstr (pe_key_value e)) < GNMI_MAX_NAME"

definition update_strings :: "gnmi_update \<Rightarrow> bool" where
  "update_strings u \<longleftrightarrow> length (cstr (gp_origin (gu_path u))) < 32 \<and> list_all elem_strings (gp_elems (gu_path u)) \<and>
     length (cstr (tv_s (gu_val u))) < GNMI_MAX_VAL"

definition canon_elem :: "gnmi_path_elem \<Rightarrow> gnmi_path_elem" where
  "canon_elem e = \<lparr>pe_name = pad GNMI_MAX_NAME (cstr (pe_name e)),
     pe_has_key = (pe_has_key e \<and> cstr (pe_key_name e) \<noteq> []),
     pe_key_name = (if pe_has_key e then pad GNMI_MAX_NAME (cstr (pe_key_name e)) else zeros GNMI_MAX_NAME),
     pe_key_value = (if pe_has_key e then pad GNMI_MAX_NAME (cstr (pe_key_value e)) else zeros GNMI_MAX_NAME)\<rparr>"

definition canon_path :: "gnmi_path \<Rightarrow> gnmi_path" where
  "canon_path p = \<lparr>gp_origin = pad 32 (cstr (gp_origin p)), gp_elem_count = gp_elem_count p,
     gp_elems = map canon_elem (take (unat (gp_elem_count p)) (gp_elems p)) @
       replicate (GNMI_MAX_ELEMS - unat (gp_elem_count p)) elem_zero\<rparr>"

definition canon_value :: "gnmi_typed_value \<Rightarrow> gnmi_typed_value" where
  "canon_value v = (case tv_kind v of
      GNMI_VAL_UNSET \<Rightarrow> value_zero
    | GNMI_VAL_INT \<Rightarrow> value_zero\<lparr>tv_i := tv_i v, tv_kind := GNMI_VAL_INT\<rparr>
    | GNMI_VAL_UINT \<Rightarrow> value_zero\<lparr>tv_u := tv_u v, tv_kind := GNMI_VAL_UINT\<rparr>
    | GNMI_VAL_BOOL \<Rightarrow> value_zero\<lparr>tv_b := tv_b v, tv_kind := GNMI_VAL_BOOL\<rparr>
    | k \<Rightarrow> value_zero\<lparr>tv_s := pad GNMI_MAX_VAL (cstr (tv_s v)), tv_kind := k\<rparr>)"

definition canon_update :: "gnmi_update \<Rightarrow> gnmi_update" where
  "canon_update u = \<lparr>gu_path = canon_path (gu_path u), gu_val = canon_value (gu_val u)\<rparr>"

subsection \<open>Path elements and paths\<close>

lemma key_decodes:
  assumes "elem_strings e"
  shows "decodes key_entry_field (key_bytes e) (zeros GNMI_MAX_NAME, zeros GNMI_MAX_NAME)
     (pad GNMI_MAX_NAME (cstr (pe_key_name e)), pad GNMI_MAX_NAME (cstr (pe_key_value e)))"
proof -
  have l: "length (cstr (pe_key_name e)) < GNMI_MAX_NAME" "length (cstr (pe_key_value e)) < GNMI_MAX_NAME"
    using assms by (simp_all add: elem_strings_def)
  have v: "decodes key_entry_field (delim_bytes 2 (cstr (pe_key_value e)) @ [])
      (pad GNMI_MAX_NAME (cstr (pe_key_name e)), zeros GNMI_MAX_NAME)
      (pad GNMI_MAX_NAME (cstr (pe_key_name e)), pad GNMI_MAX_NAME (cstr (pe_key_value e)))"
    by (rule decodes_delim [OF _ _ decodes_nil])
       (simp_all add: key_entry_field_def fetch_def rd_bind_def copy_str_at [OF _ l(2)])
  show ?thesis unfolding key_bytes_def
    by (rule decodes_delim [OF _ _ v [unfolded append_Nil2]])
       (simp_all add: key_entry_field_def fetch_def rd_bind_def copy_str_at [OF _ l(1)])
qed

lemma elem_decodes:
  assumes "elem_strings e"
  shows "decodes path_elem_field (elem_bytes e) elem_zero (canon_elem e)"
proof -
  have l: "length (cstr (pe_name e)) < GNMI_MAX_NAME" "length (cstr (pe_key_name e)) < GNMI_MAX_NAME"
      "length (cstr (pe_key_value e)) < GNMI_MAX_NAME"
    using assms by (simp_all add: elem_strings_def)
  define e1 where "e1 = elem_zero\<lparr>pe_name := pad GNMI_MAX_NAME (cstr (pe_name e))\<rparr>"
  have k: "decodes path_elem_field (if pe_has_key e then delim_bytes 2 (key_bytes e) else []) e1 (canon_elem e)"
  proof (cases "pe_has_key e")
    case True
    have "decodes path_elem_field (delim_bytes 2 (key_bytes e) @ []) e1 (canon_elem e)"
    proof (rule decodes_delim [OF _ _ decodes_nil])
      fix r p r1
      assume a: "\<not> r_err r" "gnmi_pbr_bytes r = Some (True, p, of_nat (length (key_bytes e)), r1)"
        and b: "rd_at (gnmi_pbr_init p (of_nat (length (key_bytes e)))) (key_bytes e)"
      obtain kr where "pb_loop key_entry_field (gnmi_pbr_init p (of_nat (length (key_bytes e)))) (zeros GNMI_MAX_NAME, zeros GNMI_MAX_NAME) =
          Some (Ok (kr, pad GNMI_MAX_NAME (cstr (pe_key_name e)), pad GNMI_MAX_NAME (cstr (pe_key_value e))))"
        using decodes_use [OF key_decodes [OF assms] b] by metis
      then show "path_elem_field 2 2 r e1 = Some (Ok (r1, canon_elem e))"
        using True l a by (simp add: path_elem_field_def need_bytes_eq rd_bind_def print_str_def e1_def elem_zero_def
            canon_elem_def cstr_pad pad_hd mem_put_pad)
    qed simp
    then show ?thesis using True by simp
  next
    case False
    then have "canon_elem e = e1" by (simp add: canon_elem_def e1_def elem_zero_def)
    then show ?thesis using False by (simp add: decodes_nil)
  qed
  show ?thesis unfolding elem_bytes_def
    by (rule decodes_delim [OF _ _ k])
       (simp_all add: path_elem_field_def need_bytes_eq rd_bind_def e1_def elem_zero_def copy_str_at [OF _ l(1)])
qed

text \<open>The path after \<open>k\<close> of its elements.\<close>

definition path_upto :: "gnmi_path \<Rightarrow> nat \<Rightarrow> gnmi_path" where
  "path_upto p k = \<lparr>gp_origin = pad 32 (cstr (gp_origin p)), gp_elem_count = of_nat k,
     gp_elems = map canon_elem (take k (gp_elems p)) @ replicate (GNMI_MAX_ELEMS - k) elem_zero\<rparr>"

lemma path_upto_step:
  assumes "k < GNMI_MAX_ELEMS" and "length (gp_elems p) = GNMI_MAX_ELEMS"
  shows "(path_upto p k)\<lparr>gp_elems := (gp_elems (path_upto p k))[unat (gp_elem_count (path_upto p k)) := canon_elem (gp_elems p ! k)],
     gp_elem_count := gp_elem_count (path_upto p k) + 1\<rparr> = path_upto p (Suc k)"
proof -
  have u: "unat (of_nat k :: u32) = k" using assms(1) by (simp add: unat_of_nat gnmi_limits)
  have r: "replicate (GNMI_MAX_ELEMS - k) elem_zero = elem_zero # replicate (GNMI_MAX_ELEMS - Suc k) elem_zero"
    using assms(1) by (metis Suc_diff_Suc replicate_Suc)
  have t: "take (Suc k) (gp_elems p) = take k (gp_elems p) @ [gp_elems p ! k]"
    using assms by (simp add: take_Suc_conv_app_nth)
  have l: "length (map canon_elem (take k (gp_elems p))) = k" using assms by simp
  have "(map canon_elem (take k (gp_elems p)) @ elem_zero # replicate (GNMI_MAX_ELEMS - Suc k) elem_zero)[k := canon_elem (gp_elems p ! k)] =
      map canon_elem (take k (gp_elems p)) @ canon_elem (gp_elems p ! k) # replicate (GNMI_MAX_ELEMS - Suc k) elem_zero"
    using l by (metis list_update_length)
  then show ?thesis by (simp add: path_upto_def u r t add.commute)
qed

lemma elems_decode:
  assumes a: "path_arrays p" and s: "list_all elem_strings (gp_elems p)" and "k \<le> unat (gp_elem_count p)"
  shows "decodes path_field (concat (map (\<lambda>i. delim_bytes 3 (elem_bytes (gp_elems p ! i))) [k..<unat (gp_elem_count p)]))
     (path_upto p k) (path_upto p (unat (gp_elem_count p)))"
  using assms(3)
proof (induction "unat (gp_elem_count p) - k" arbitrary: k)
  case 0
  then show ?case by (simp add: decodes_nil)
next
  case (Suc n)
  have k: "k < unat (gp_elem_count p)" using Suc by simp
  have c: "unat (gp_elem_count p) \<le> GNMI_MAX_ELEMS" "length (gp_elems p) = GNMI_MAX_ELEMS"
    using a by (simp_all add: path_arrays_def)
  have e: "elem_strings (gp_elems p ! k)" using s k c by (simp add: list_all_length)
  have IH: "decodes path_field (concat (map (\<lambda>i. delim_bytes 3 (elem_bytes (gp_elems p ! i))) [Suc k..<unat (gp_elem_count p)]))
     (path_upto p (Suc k)) (path_upto p (unat (gp_elem_count p)))"
    by (rule Suc.hyps(1)) (use Suc.hyps(2) k in simp_all)
  have up: "[k..<unat (gp_elem_count p)] = k # [Suc k..<unat (gp_elem_count p)]" using k by (simp add: upt_conv_Cons)
  have lt: "\<not> of_nat GNMI_MAX_ELEMS \<le> gp_elem_count (path_upto p k)"
  proof -
    have "k < 8" using k c by (simp add: gnmi_limits)
    then have "unat (of_nat k :: u32) = k" by (simp add: unat_of_nat)
    then show ?thesis using \<open>k < 8\<close> by (simp add: path_upto_def word_le_nat_alt gnmi_limits)
  qed
  have "decodes path_field (delim_bytes 3 (elem_bytes (gp_elems p ! k)) @
      concat (map (\<lambda>i. delim_bytes 3 (elem_bytes (gp_elems p ! i))) [Suc k..<unat (gp_elem_count p)]))
     (path_upto p k) (path_upto p (unat (gp_elem_count p)))"
  proof (rule decodes_delim [OF _ _ IH])
    fix r q r1
    assume h: "\<not> r_err r" "gnmi_pbr_bytes r = Some (True, q, of_nat (length (elem_bytes (gp_elems p ! k))), r1)"
      and b: "rd_at (gnmi_pbr_init q (of_nat (length (elem_bytes (gp_elems p ! k))))) (elem_bytes (gp_elems p ! k))"
    obtain er where er: "pb_loop path_elem_field (gnmi_pbr_init q (of_nat (length (elem_bytes (gp_elems p ! k))))) elem_zero =
        Some (Ok (er, canon_elem (gp_elems p ! k)))"
      using decodes_use [OF elem_decodes [OF e] b] by metis
    have "path_field 3 2 r (path_upto p k) = Some (Ok (r1,
        (path_upto p k)\<lparr>gp_elems := (gp_elems (path_upto p k))[unat (gp_elem_count (path_upto p k)) := canon_elem (gp_elems p ! k)],
          gp_elem_count := gp_elem_count (path_upto p k) + 1\<rparr>))"
      using h lt er by (simp add: path_field_def need_bytes_eq rd_bind_def)
    then show "path_field 3 2 r (path_upto p k) = Some (Ok (r1, path_upto p (Suc k)))"
      using path_upto_step [of k p] k c by simp
  qed simp
  then show ?case unfolding up by simp
qed

lemma path_decodes:
  assumes a: "path_arrays p" and s: "list_all elem_strings (gp_elems p)" and o: "length (cstr (gp_origin p)) < 32"
  shows "decodes path_field (path_bytes p) path_zero (canon_path p)"
proof -
  have e: "decodes path_field (concat (map (\<lambda>i. delim_bytes 3 (elem_bytes (gp_elems p ! i))) [0..<unat (gp_elem_count p)]))
     (path_upto p 0) (canon_path p)"
    using elems_decode [OF a s, of 0] by (simp add: canon_path_def path_upto_def)
  show ?thesis
  proof (cases "gp_origin p ! 0 = 0")
    case True
    have "cstr (gp_origin p) = []" using True a by (cases "gp_origin p") (simp_all add: cstr_def path_arrays_def)
    then have "path_upto p 0 = path_zero" by (simp add: path_upto_def path_zero_def pad_nil)
    then show ?thesis using e True by (simp add: path_bytes_def)
  next
    case False
    have "path_zero\<lparr>gp_origin := pad 32 (cstr (gp_origin p))\<rparr> = path_upto p 0"
      by (simp add: path_upto_def path_zero_def)
    then have "decodes path_field (delim_bytes 2 (cstr (gp_origin p)) @
        concat (map (\<lambda>i. delim_bytes 3 (elem_bytes (gp_elems p ! i))) [0..<unat (gp_elem_count p)])) path_zero (canon_path p)"
      by (intro decodes_delim [OF _ _ e])
         (simp_all add: path_field_def need_bytes_eq rd_bind_def path_zero_def copy_str_at [OF _ o])
    then show ?thesis using False by (simp add: path_bytes_def)
  qed
qed

lemma decode_path_at:
  assumes "path_arrays p" and "list_all elem_strings (gp_elems p)" and "length (cstr (gp_origin p)) < 32"
    and "rd_at (gnmi_pbr_init q n) (path_bytes p)"
  shows "gnmi_decode_path q n = Some (Ok (canon_path p))"
  by (rule decodes_use [OF path_decodes [OF assms(1-3)] assms(4)]) (simp add: gnmi_decode_path_def rd_bind_def)

subsection \<open>Values, updates and requests\<close>

lemma value_decodes:
  assumes k: "tv_kind v \<noteq> GNMI_VAL_UNSET" and u: "\<not> (tv_kind v = GNMI_VAL_UINT \<and> tv_u v = 0)"
    and l: "length (cstr (tv_s v)) < GNMI_MAX_VAL"
  shows "decodes value_field (value_bytes v) value_zero (canon_value v)"
proof -
  have str: "decodes value_field (delim_bytes (val_field c) (cstr (tv_s v)) @ []) value_zero
      (value_zero\<lparr>tv_s := pad GNMI_MAX_VAL (cstr (tv_s v)), tv_kind := c\<rparr>)"
    if "c \<in> {GNMI_VAL_STRING, GNMI_VAL_JSON, GNMI_VAL_JSON_IETF, GNMI_VAL_ASCII}" for c
    by (rule decodes_delim [OF _ _ decodes_nil])
       (use that in \<open>auto simp: value_field_def need_bytes_eq rd_bind_def value_zero_def val_kind_def copy_str_at [OF _ l]\<close>)
  have int: "decodes value_field (varint_field_bytes 2 x @ []) value_zero (value_zero\<lparr>tv_i := x, tv_kind := GNMI_VAL_INT\<rparr>)" for x
    by (rule decodes_varint [OF _ _ decodes_nil]) (simp_all add: value_field_def fetch_def rd_bind_def)
  have uint: "decodes value_field (varint_field_bytes 3 x @ []) value_zero (value_zero\<lparr>tv_u := x, tv_kind := GNMI_VAL_UINT\<rparr>)" for x
    by (rule decodes_varint [OF _ _ decodes_nil]) (simp_all add: value_field_def fetch_def rd_bind_def)
  have bool: "decodes value_field (varint_field_bytes 4 x @ []) value_zero (value_zero\<lparr>tv_b := (x \<noteq> 0), tv_kind := GNMI_VAL_BOOL\<rparr>)" for x
    by (rule decodes_varint [OF _ _ decodes_nil]) (simp_all add: value_field_def fetch_def rd_bind_def)
  show ?thesis
    using k u int bool [of 0] bool [of 1] uint
      str [of GNMI_VAL_STRING] str [of GNMI_VAL_JSON] str [of GNMI_VAL_JSON_IETF] str [of GNMI_VAL_ASCII]
    by (cases "tv_kind v") (auto simp: value_bytes_def canon_value_def)
qed

lemma decode_typed_value_at:
  assumes "tv_kind v \<noteq> GNMI_VAL_UNSET" and "\<not> (tv_kind v = GNMI_VAL_UINT \<and> tv_u v = 0)"
    and "length (cstr (tv_s v)) < GNMI_MAX_VAL" and "rd_at (gnmi_pbr_init q n) (value_bytes v)"
  shows "gnmi_decode_typed_value q n = Some (Ok (canon_value v))"
proof (rule decodes_use [OF value_decodes [OF assms(1-3)] assms(4)])
  fix r assume "pb_loop value_field (gnmi_pbr_init q n) value_zero = Some (Ok (r, canon_value v))"
  moreover have "tv_kind (canon_value v) \<noteq> GNMI_VAL_UNSET"
    using assms(1) by (cases "tv_kind v") (simp_all add: canon_value_def)
  ultimately show ?thesis by (simp add: gnmi_decode_typed_value_def rd_bind_def)
qed

lemma update_decodes:
  assumes a: "update_arrays u" and s: "update_strings u"
    and z: "\<not> (tv_kind (gu_val u) = GNMI_VAL_UINT \<and> tv_u (gu_val u) = 0)"
  shows "decodes update_field (update_bytes u) update_zero (canon_update u)"
proof -
  define u1 where "u1 = update_zero\<lparr>gu_path := canon_path (gu_path u)\<rparr>"
  have v: "decodes update_field (if tv_kind (gu_val u) = GNMI_VAL_UNSET then [] else delim_bytes 3 (value_bytes (gu_val u))) u1 (canon_update u)"
  proof (cases "tv_kind (gu_val u) = GNMI_VAL_UNSET")
    case True
    then have "canon_update u = u1" by (simp add: canon_update_def u1_def update_zero_def canon_value_def)
    then show ?thesis using True by (simp add: decodes_nil)
  next
    case False
    have l: "length (cstr (tv_s (gu_val u))) < GNMI_MAX_VAL" using s by (simp add: update_strings_def)
    have "decodes update_field (delim_bytes 3 (value_bytes (gu_val u)) @ []) u1 (canon_update u)"
      by (rule decodes_delim [OF _ _ decodes_nil])
         (simp_all add: update_field_def nested_def need_bytes_eq rd_bind_def decode_typed_value_at [OF False z l]
           u1_def canon_update_def)
    then show ?thesis using False by simp
  qed
  have p: "path_arrays (gu_path u)" "list_all elem_strings (gp_elems (gu_path u))" "length (cstr (gp_origin (gu_path u))) < 32"
    using a s by (simp_all add: update_arrays_def update_strings_def)
  show ?thesis unfolding update_bytes_def
    by (rule decodes_delim [OF _ _ v])
       (simp_all add: update_field_def nested_def need_bytes_eq rd_bind_def decode_path_at [OF p] u1_def)
qed

lemma decode_update_at:
  assumes "update_arrays u" and "update_strings u" and "\<not> (tv_kind (gu_val u) = GNMI_VAL_UINT \<and> tv_u (gu_val u) = 0)"
    and "rd_at (gnmi_pbr_init q n) (update_bytes u)"
  shows "decode_update q n = Some (Ok (canon_update u))"
  by (rule decodes_use [OF update_decodes [OF assms(1-3)] assms(4)]) (simp add: decode_update_def rd_bind_def)

text \<open>The requests after \<open>k\<close> of their updates.\<close>

definition set_upto :: "gnmi_update list \<Rightarrow> nat \<Rightarrow> gnmi_set_request" where
  "set_upto us k = set_request_zero\<lparr>sr_update_count := of_nat k,
     sr_updates := map canon_update (take k us) @ replicate (GNMI_MAX_UPDATES - k) update_zero\<rparr>"

lemma set_upto_step:
  assumes "k < length us" and "length us \<le> GNMI_MAX_UPDATES"
  shows "(set_upto us k)\<lparr>sr_updates := (sr_updates (set_upto us k))[unat (sr_update_count (set_upto us k)) := canon_update (us ! k)],
     sr_update_count := sr_update_count (set_upto us k) + 1\<rparr> = set_upto us (Suc k)"
proof -
  have u: "unat (of_nat k :: u32) = k" using assms by (simp add: unat_of_nat gnmi_limits)
  have r: "replicate (GNMI_MAX_UPDATES - k) update_zero = update_zero # replicate (GNMI_MAX_UPDATES - Suc k) update_zero"
    using assms by (metis Suc_diff_Suc order_less_le_trans replicate_Suc)
  have t: "take (Suc k) us = take k us @ [us ! k]" using assms by (simp add: take_Suc_conv_app_nth)
  have l: "length (map canon_update (take k us)) = k" using assms by simp
  have "(map canon_update (take k us) @ update_zero # replicate (GNMI_MAX_UPDATES - Suc k) update_zero)[k := canon_update (us ! k)] =
      map canon_update (take k us) @ canon_update (us ! k) # replicate (GNMI_MAX_UPDATES - Suc k) update_zero"
    using l by (metis list_update_length)
  then show ?thesis by (simp add: set_upto_def u r t add.commute)
qed

definition round_ok :: "gnmi_update \<Rightarrow> bool" where
  "round_ok u \<longleftrightarrow> update_arrays u \<and> update_strings u \<and> \<not> (tv_kind (gu_val u) = GNMI_VAL_UINT \<and> tv_u (gu_val u) = 0)"

lemma set_updates_decode:
  assumes "list_all round_ok us" and "length us \<le> GNMI_MAX_UPDATES" and "k \<le> length us"
  shows "decodes set_request_field (concat (map (\<lambda>u. delim_bytes 4 (update_bytes u)) (drop k us))) (set_upto us k) (set_upto us (length us))"
  using assms(3)
proof (induction "length us - k" arbitrary: k)
  case 0
  then show ?case by (simp add: decodes_nil)
next
  case (Suc n)
  have k: "k < length us" using Suc by simp
  have u: "round_ok (us ! k)" using assms(1) k by (simp add: list_all_length)
  have IH: "decodes set_request_field (concat (map (\<lambda>u. delim_bytes 4 (update_bytes u)) (drop (Suc k) us))) (set_upto us (Suc k)) (set_upto us (length us))"
    by (rule Suc.hyps(1)) (use Suc.hyps(2) k in simp_all)
  have lt: "\<not> of_nat GNMI_MAX_UPDATES \<le> sr_update_count (set_upto us k)"
  proof -
    have "k < 16" using k assms(2) by (simp add: gnmi_limits)
    then have "unat (of_nat k :: u32) = k" by (simp add: unat_of_nat)
    then show ?thesis using \<open>k < 16\<close> by (simp add: set_upto_def word_le_nat_alt gnmi_limits)
  qed
  have "decodes set_request_field (delim_bytes 4 (update_bytes (us ! k)) @ concat (map (\<lambda>u. delim_bytes 4 (update_bytes u)) (drop (Suc k) us)))
      (set_upto us k) (set_upto us (length us))"
  proof (rule decodes_delim [OF _ _ IH])
    fix r q r1
    assume h: "\<not> r_err r" "gnmi_pbr_bytes r = Some (True, q, of_nat (length (update_bytes (us ! k))), r1)"
      and b: "rd_at (gnmi_pbr_init q (of_nat (length (update_bytes (us ! k))))) (update_bytes (us ! k))"
    have d: "decode_update q (of_nat (length (update_bytes (us ! k)))) = Some (Ok (canon_update (us ! k)))"
      using decode_update_at b u unfolding round_ok_def by blast
    have "set_request_field 4 2 r (set_upto us k) = Some (Ok (r1,
        (set_upto us k)\<lparr>sr_updates := (sr_updates (set_upto us k))[unat (sr_update_count (set_upto us k)) := canon_update (us ! k)],
          sr_update_count := sr_update_count (set_upto us k) + 1\<rparr>))"
      using h lt d by (simp add: set_request_field_def nested_at_def need_bytes_eq rd_bind_def)
    then show "set_request_field 4 2 r (set_upto us k) = Some (Ok (r1, set_upto us (Suc k)))"
      using set_upto_step [OF k assms(2)] by simp
  qed simp
  moreover have "drop k us = us ! k # drop (Suc k) us" using k by (simp add: Cons_nth_drop_Suc)
  ultimately show ?case by simp
qed

subsection \<open>Properties\<close>

text \<open>
  C11: What the encoder writes is what the decoder reads.  If up to sixteen updates with
  arbitrary paths, keys and values are encoded one after the other as the fields of a
  SetRequest into a buffer that is large enough, then no overflow is reported and decoding
  the produced bytes returns the same updates in the same order and in canonical form: every
  string padded by zeros, and zeros where the message carries nothing, such as the key of an
  element without one.  There are two exceptions.  An unsigned value of 0, which the encoder
  leaves out, is excluded here.  A key with an empty name, as \<^verbatim>\<open>gnmi_path_from_str\<close> makes of
  \<^verbatim>\<open>[=v]\<close>, is encoded with its value but read back as an element that has no key, because the
  decoder takes an element to have a key when the name is not empty.
\<close>

theorem gnmi_set_roundtrip:
  assumes "list_all round_ok us" and "length us \<le> GNMI_MAX_UPDATES"
    and "length buf = unat cap" and "cap < 2 ^ 62"
    and fits: "length (concat (map (\<lambda>u. delim_bytes 4 (update_bytes u)) us)) \<le> unat cap"
    and w: "w = fold (\<lambda>u w. encode_update w 4 u) us (gnmi_pb_init buf cap)"
  shows "\<not> pb_overflow w \<and>
     gnmi_decode_set_request (pb_buf w) (pb_len w) =
       Some (Ok (set_request_zero\<lparr>sr_update_count := of_nat (length us),
         sr_updates := map canon_update us @ replicate (GNMI_MAX_UPDATES - length us) update_zero\<rparr>))"
proof -
  define bs where "bs = concat (map (\<lambda>u. delim_bytes 4 (update_bytes u)) us)"
  have e: "emits (gnmi_pb_init buf cap) w bs" unfolding w bs_def
    by (rule emits_fold [OF _ init_ok [OF assms(3,4)]])
       (use assms(1) in \<open>simp add: encode_update_emits list_all_iff round_ok_def\<close>)
  have no: "\<not> pb_overflow w" "pb_out w = bs" "pb_ok w"
    using e fits [folded bs_def] by (auto simp: emits_def pb_keeps_def pb_out_def gnmi_pb_init_def)
  have "unat (pb_len w) = length bs" using length_pb_out [OF no(3)] no(2) by simp
  then have "rd_at (gnmi_pbr_init (pb_buf w) (pb_len w)) bs"
    using no(2,3) by (simp add: rd_at_def gnmi_pbr_init_def pb_out_def pb_ok_def word_less_nat_alt word_le_nat_alt)
  moreover have "decodes set_request_field bs (set_upto us 0) (set_upto us (length us))"
    using set_updates_decode [OF assms(1,2), of 0] by (simp add: bs_def)
  moreover have "set_upto us 0 = set_request_zero"
    by (simp add: set_upto_def set_request_zero_def)
  ultimately obtain r where "pb_loop set_request_field (gnmi_pbr_init (pb_buf w) (pb_len w)) set_request_zero =
      Some (Ok (r, set_upto us (length us)))" "\<not> r_err r"
    using decodes_use by metis
  then show ?thesis using no(1) by (simp add: gnmi_decode_set_request_def rd_bind_def set_upto_def)
qed

definition sample_update :: gnmi_update where
  "sample_update = \<lparr>gu_path = path_zero\<lparr>gp_elem_count := 1,
       gp_elems := elem_zero\<lparr>pe_name := pad GNMI_MAX_NAME [105, 102], pe_has_key := True,
         pe_key_name := pad GNMI_MAX_NAME [110], pe_key_value := pad GNMI_MAX_NAME [101, 48]\<rparr> # replicate 7 elem_zero\<rparr>,
     gu_val = value_zero\<lparr>tv_kind := GNMI_VAL_UINT, tv_u := 9000\<rparr>\<rparr>"

lemma sample_update_ok: "round_ok sample_update"
  by (simp add: round_ok_def sample_update_def update_arrays_def path_arrays_def elem_arrays_def value_arrays_def
      update_strings_def elem_strings_def path_zero_def elem_zero_def value_zero_def zeros_def pad_def gnmi_limits
      cstr_def list_all_iff)

theorem gnmi_set_roundtrip_witness:
  "gnmi_decode_set_request (pb_buf (encode_update (gnmi_pb_init (zeros 4096) 4096) 4 sample_update))
      (pb_len (encode_update (gnmi_pb_init (zeros 4096) 4096) 4 sample_update)) =
     Some (Ok (set_request_zero\<lparr>sr_update_count := 1,
       sr_updates := canon_update sample_update # replicate 15 update_zero\<rparr>))"
proof -
  have "length (concat (map (\<lambda>u. delim_bytes 4 (update_bytes u)) [sample_update])) \<le> unat (4096 :: u64)"
    using sample_update_ok length_update_bytes [of sample_update] length_delim_bytes [of 4 "update_bytes sample_update"]
    by (simp add: round_ok_def)
  from gnmi_set_roundtrip [OF _ _ _ _ this refl, of "zeros 4096"] sample_update_ok
  show ?thesis by (simp add: gnmi_limits zeros_def)
qed

text \<open>An unsigned value of 0 is encoded as an empty message, which the decoder refuses.\<close>

lemma uint_zero_refused:
  assumes "tv_kind v = GNMI_VAL_UINT" and "tv_u v = 0"
  shows "value_bytes v = [] \<and> gnmi_decode_typed_value d 0 = Some Bad"
proof -
  have "pb_loop value_field (gnmi_pbr_init d 0) value_zero = Some (Ok (gnmi_pbr_init d 0, value_zero))"
    by (subst pb_loop.simps) (simp add: gnmi_pbr_tag_def gnmi_pbr_init_def)
  then show ?thesis using assms
    by (simp add: value_bytes_def gnmi_decode_typed_value_def rd_bind_def value_zero_def)
qed

text \<open>The JSON encoding, whose number is 0, does not appear in a CapabilityResponse.\<close>

lemma json_encoding_omitted:
  "gnmi_encode_capabilities_response w ms (GNMI_ENC_JSON # es) ver = gnmi_encode_capabilities_response w ms es ver"
  by (simp add: gnmi_encode_capabilities_response_def gnmi_pb_put_enum_def GNMI_ENC_JSON_def)

text \<open>The length prefix of a body of \<open>2^14\<close> bytes or more has lost its high bits.\<close>

lemma fix_len_truncates:
  assumes "pb_ok w" and "unat saved + 1 + 16384 = unat (pb_len w)" and "unat (pb_len w) < unat (pb_cap w)"
  shows "bslice (unat saved) 2 (pb_buf (pb_fix_len w saved)) = [0x80, 0x80]"
proof -
  have l: "unat saved + 16385 < length (pb_buf w)" using assms by (simp add: pb_ok_def)
  have b: "length (bslice (unat saved + 1) 16384 (pb_buf w)) = 16384" using l by simp
  have v: "(ucast (of_nat 16384 OR 0x80 :: u64) :: u8) = 0x80" "(ucast (drop_bit 7 (of_nat 16384 :: u64)) :: u8) = 0x80"
    by simp_all
  show ?thesis unfolding fix_len_cases(3) [OF assms(1,2) _ assms(3), simplified] v
    using l by (simp add: mem_put_def bslice_def)
qed
end
