(* ===== verification/Gnmi_Wellformed.thy ===== *)
theory Gnmi_Wellformed
  imports Gnmi_Roundtrip
begin

text \<open>
  The objects that the decoders and the path parser of the gNMI codec fill: whatever the bytes
  of the message are, the arrays keep their sizes, the counters stay within the arrays and
  the strings are terminated, so that the objects can be encoded again.
\<close>

subsection \<open>Well-formed objects\<close>

definition wf_str :: "nat \<Rightarrow> bytes \<Rightarrow> bool" where
  "wf_str n a \<longleftrightarrow> length a = n \<and> length (cstr a) < n"

definition wf_elem :: "gnmi_path_elem \<Rightarrow> bool" where
  "wf_elem e \<longleftrightarrow> wf_str GNMI_MAX_NAME (pe_name e) \<and> wf_str GNMI_MAX_NAME (pe_key_name e) \<and> wf_str GNMI_MAX_NAME (pe_key_value e)"

definition wf_path :: "gnmi_path \<Rightarrow> bool" where
  "wf_path p \<longleftrightarrow> wf_str 32 (gp_origin p) \<and> length (gp_elems p) = GNMI_MAX_ELEMS \<and> list_all wf_elem (gp_elems p) \<and>
     unat (gp_elem_count p) \<le> GNMI_MAX_ELEMS"

definition wf_value :: "gnmi_typed_value \<Rightarrow> bool" where
  "wf_value v \<longleftrightarrow> wf_str GNMI_MAX_VAL (tv_s v)"

definition wf_update :: "gnmi_update \<Rightarrow> bool" where
  "wf_update u \<longleftrightarrow> wf_path (gu_path u) \<and> wf_value (gu_val u)"

definition wf_array :: "nat \<Rightarrow> ('a \<Rightarrow> bool) \<Rightarrow> u32 \<Rightarrow> 'a list \<Rightarrow> bool" where
  "wf_array n P c xs \<longleftrightarrow> length xs = n \<and> list_all P xs \<and> unat c \<le> n"

definition wf_get_request :: "gnmi_get_request \<Rightarrow> bool" where
  "wf_get_request q \<longleftrightarrow> wf_path (gr_prefix q) \<and> wf_array GNMI_MAX_ELEMS wf_path (gr_path_count q) (gr_paths q)"

definition wf_set_request :: "gnmi_set_request \<Rightarrow> bool" where
  "wf_set_request q \<longleftrightarrow> wf_path (sr_prefix q) \<and>
     wf_array GNMI_MAX_ELEMS wf_path (sr_delete_count q) (sr_deletes q) \<and>
     wf_array GNMI_MAX_UPDATES wf_update (sr_update_count q) (sr_updates q) \<and>
     wf_array GNMI_MAX_UPDATES wf_update (sr_replace_count q) (sr_replaces q)"

definition wf_subscribe_list :: "gnmi_subscribe_list \<Rightarrow> bool" where
  "wf_subscribe_list q \<longleftrightarrow> wf_path (sl_prefix q) \<and> wf_array GNMI_MAX_ELEMS wf_path (sl_sub_count q) (sl_subs q)"

subsection \<open>Stores into arrays\<close>

lemma wf_str_zeros: "0 < n \<Longrightarrow> wf_str n (zeros n)"
  by (cases n) (simp_all add: wf_str_def zeros_def cstr_def)

lemma length_cstr_zero: "length (cstr (d @ 0 # t)) \<le> length d"
  by (induction d) (auto simp: cstr_def)

lemma wf_str_put: "length a = n \<Longrightarrow> length d < n \<Longrightarrow> wf_str n (mem_put 0 (d @ [0]) a)"
proof -
  assume a: "length a = n" "length d < n"
  have e: "mem_put 0 (d @ [0]) a = d @ 0 # drop (Suc (length d)) a" by (simp add: mem_put_def)
  have "length (cstr (d @ 0 # drop (Suc (length d)) a)) < n"
    using length_cstr_zero [of d "drop (Suc (length d)) a"] a(2) by linarith
  then show ?thesis unfolding wf_str_def e using a by simp
qed

lemma copy_str_wf:
  assumes "copy_str n d m a = Some (Ok a')" and "length a = n" and "0 < n"
  shows "wf_str n a'"
proof -
  define c where "c = min (unat m) (n - 1)"
  have "a' = mem_put 0 (take c d @ [0]) a" "length (take c d) < n"
    using assms by (auto simp: copy_str_def Let_def c_def split: if_splits)
  then show ?thesis using wf_str_put assms(2) by simp
qed

lemma wf_array_append:
  assumes "wf_array n P c xs" and "\<not> of_nat n \<le> c" and "n < 2 ^ 32" and "P x"
  shows "wf_array n P (c + 1) (xs[unat c := x])"
proof -
  have "unat (of_nat n :: u32) = n" using assms(3) by (simp add: unat_of_nat)
  then have c: "unat c < n" using assms(2) by (simp add: word_le_nat_alt)
  then have "unat (c + 1) = unat c + 1" using assms(3) by (simp add: unat_word_ariths)
  then show ?thesis using assms(1,4) c
    by (auto simp: wf_array_def list_all_length nth_list_update)
qed

lemma wf_zero: "wf_elem elem_zero" "wf_path path_zero" "wf_value value_zero" "wf_update update_zero"
  by (simp_all add: wf_elem_def wf_path_def wf_value_def wf_update_def elem_zero_def path_zero_def value_zero_def
      update_zero_def wf_str_zeros gnmi_limits list_all_iff)

subsection \<open>Loops that preserve an invariant\<close>

definition preserves :: "('s \<Rightarrow> bool) \<Rightarrow> (u32 \<Rightarrow> u32 \<Rightarrow> gnmi_pb_reader \<Rightarrow> 's \<Rightarrow> (gnmi_pb_reader \<times> 's) rd option) \<Rightarrow> bool" where
  "preserves I body \<longleftrightarrow> (\<forall>f w r s r' s'. I s \<longrightarrow> body f w r s = Some (Ok (r', s')) \<longrightarrow> I s')"

lemma pb_loop_preserves:
  assumes p: "preserves I bd" and y: "pb_loop bd q z = Some (Ok (q', z'))" and z: "I z"
  shows "I z'"
proof -
  have "bd = bd \<longrightarrow> I z \<longrightarrow> (\<forall>u v. Ok (q', z') = Ok (u, v) \<longrightarrow> I v)"
  proof (rule pb_loop.raw_induct [where P = "\<lambda>bd' q z y. bd' = bd \<longrightarrow> I z \<longrightarrow> (\<forall>u v. y = Ok (u, v) \<longrightarrow> I v)", OF _ y])
    fix lp body r s res
    assume IH: "\<And>r s b y. lp r s b = Some y \<Longrightarrow> r = bd \<longrightarrow> I b \<longrightarrow> (\<forall>u v. y = Ok (u, v) \<longrightarrow> I v)"
      and step: "(case gnmi_pbr_tag r of None \<Rightarrow> Some Fault
          | Some (field, wire, r1) \<Rightarrow>
              if field = 0 then Some (Ok (r1, s))
              else case body field wire r1 s of None \<Rightarrow> None
                   | Some Fault \<Rightarrow> Some Fault | Some Bad \<Rightarrow> Some Bad
                   | Some (Ok (r2, s2)) \<Rightarrow> lp body r2 s2) = Some res"
    show "body = bd \<longrightarrow> I s \<longrightarrow> (\<forall>u v. res = Ok (u, v) \<longrightarrow> I v)"
    proof (intro impI)
      assume e: "body = bd" and s: "I s"
      consider "gnmi_pbr_tag r = None" | r1 w where "gnmi_pbr_tag r = Some (0, w, r1)"
        | f w r1 where "gnmi_pbr_tag r = Some (f, w, r1)" "f \<noteq> 0"
        by (metis option.exhaust surj_pair)
      then show "\<forall>u v. res = Ok (u, v) \<longrightarrow> I v"
      proof cases
        case 3
        show ?thesis
        proof (cases "\<exists>r2 s2. bd f w r1 s = Some (Ok (r2, s2))")
          case True
          then obtain r2 s2 where b: "bd f w r1 s = Some (Ok (r2, s2))" by blast
          have "I s2" using p s b unfolding preserves_def by blast
          moreover have "lp bd r2 s2 = Some res" using step 3 b unfolding e by simp
          ultimately show ?thesis using IH by blast
        next
          case False
          then show ?thesis using step 3 unfolding e by (auto split: option.splits rd.splits prod.splits)
        qed
      qed (use step s in auto)
    qed
  qed
  then show ?thesis using z by blast
qed

lemma rd_bind_Ok [simp]: "rd_bind m f = Some (Ok y) \<longleftrightarrow> (\<exists>x. m = Some (Ok x) \<and> f x = Some (Ok y))"
  by (auto simp: rd_bind_def split: option.splits rd.splits)

lemma fetch_Ok [simp]: "fetch m = Some (Ok x) \<longleftrightarrow> m = Some x"
  by (auto simp: fetch_def split: option.splits)

lemma skip_field_Ok: "skip_field w r s = Some (Ok (r', s')) \<Longrightarrow> s' = s"
  by (auto simp: skip_field_def)

lemma preservesI: "(\<And>f w r s r' s'. I s \<Longrightarrow> body f w r s = Some (Ok (r', s')) \<Longrightarrow> I s') \<Longrightarrow> preserves I body"
  unfolding preserves_def by blast

lemma key_entry_preserves:
  "preserves (\<lambda>(k, v). wf_str GNMI_MAX_NAME k \<and> wf_str GNMI_MAX_NAME v) key_entry_field"
proof (rule preservesI)
  fix f w :: u32 and r r' and s s' :: "bytes \<times> bytes"
  assume s: "case s of (k, v) \<Rightarrow> wf_str GNMI_MAX_NAME k \<and> wf_str GNMI_MAX_NAME v"
    and b: "key_entry_field f w r s = Some (Ok (r', s'))"
  obtain k v where kv: "s = (k, v)" by (metis surj_pair)
  have l: "length k = GNMI_MAX_NAME" "length v = GNMI_MAX_NAME" "0 < GNMI_MAX_NAME"
    using s kv by (simp_all add: wf_str_def gnmi_limits)
  show "case s' of (k, v) \<Rightarrow> wf_str GNMI_MAX_NAME k \<and> wf_str GNMI_MAX_NAME v"
    using s b l unfolding kv key_entry_field_def
    by (auto split: if_splits prod.splits dest!: skip_field_Ok dest: copy_str_wf)
qed

lemma wf_str_print:
  "wf_str n s \<Longrightarrow> length a = n \<Longrightarrow> wf_str n (print_str s a)"
  unfolding print_str_def by (rule wf_str_put) (auto simp: wf_str_def)

lemma path_elem_preserves: "preserves wf_elem path_elem_field"
proof (rule preservesI)
  fix f w :: u32 and r r' and e e' :: gnmi_path_elem
  assume e: "wf_elem e" and b: "path_elem_field f w r e = Some (Ok (r', e'))"
  have l: "length (pe_name e) = GNMI_MAX_NAME" "length (pe_key_name e) = GNMI_MAX_NAME"
      "length (pe_key_value e) = GNMI_MAX_NAME" "0 < GNMI_MAX_NAME"
    using e by (simp_all add: wf_elem_def wf_str_def gnmi_limits)
  have k: "wf_str GNMI_MAX_NAME kn \<and> wf_str GNMI_MAX_NAME kv"
    if "pb_loop key_entry_field q (zeros GNMI_MAX_NAME, zeros GNMI_MAX_NAME) = Some (Ok (q', kn, kv))" for q q' kn kv
    using pb_loop_preserves [OF key_entry_preserves that] by (simp add: wf_str_zeros gnmi_limits)
  consider "f = 1 \<and> w = 2" | "f = 2 \<and> w = 2" | "skip_field w r e = Some (Ok (r', e'))"
    using b unfolding path_elem_field_def by (auto split: if_splits)
  then show "wf_elem e'"
  proof cases
    case 1
    then show ?thesis using b e l unfolding path_elem_field_def
      by (auto simp: wf_elem_def split: if_splits prod.splits dest: copy_str_wf)
  next
    case 2
    then show ?thesis using b e l unfolding path_elem_field_def
      by (auto simp: wf_elem_def wf_str_print split: if_splits prod.splits dest!: k)
  next
    case 3
    show ?thesis using e skip_field_Ok [OF 3] by simp
  qed
qed

lemma wf_path_array: "wf_path p \<longleftrightarrow> wf_str 32 (gp_origin p) \<and> wf_array GNMI_MAX_ELEMS wf_elem (gp_elem_count p) (gp_elems p)"
  by (auto simp: wf_path_def wf_array_def)

lemma path_preserves: "preserves wf_path path_field"
proof (rule preservesI)
  fix f w :: u32 and r r' and p p' :: gnmi_path
  assume p: "wf_path p" and b: "path_field f w r p = Some (Ok (r', p'))"
  have o: "length (gp_origin p) = 32" "wf_array GNMI_MAX_ELEMS wf_elem (gp_elem_count p) (gp_elems p)"
    using p by (simp_all add: wf_path_array wf_str_def)
  have e: "wf_elem e" if "pb_loop path_elem_field q elem_zero = Some (Ok (q', e))" for q q' e
    using pb_loop_preserves [OF path_elem_preserves that] wf_zero by simp
  consider "f = 2" | "f = 3" | "skip_field w r p = Some (Ok (r', p'))"
    using b unfolding path_field_def by (auto split: if_splits)
  then show "wf_path p'"
  proof cases
    case 1
    then show ?thesis using b p o unfolding path_field_def
      by (auto simp: wf_path_array split: if_splits prod.splits dest: copy_str_wf)
  next
    case 2
    then show ?thesis using b p o unfolding path_field_def
      by (auto simp: wf_path_array wf_array_append gnmi_limits split: if_splits prod.splits dest!: e)
  next
    case 3
    show ?thesis using p skip_field_Ok [OF 3] by simp
  qed
qed

lemma decode_path_wf: "gnmi_decode_path d n = Some (Ok p) \<Longrightarrow> wf_path p"
  unfolding gnmi_decode_path_def
  by (auto split: if_splits prod.splits dest!: pb_loop_preserves [OF path_preserves] simp: wf_zero)

lemma value_preserves: "preserves wf_value value_field"
proof (rule preservesI)
  fix f w :: u32 and r r' and v v' :: gnmi_typed_value
  assume v: "wf_value v" and b: "value_field f w r v = Some (Ok (r', v'))"
  have l: "length (tv_s v) = GNMI_MAX_VAL" "0 < GNMI_MAX_VAL" using v by (simp_all add: wf_value_def wf_str_def gnmi_limits)
  show "wf_value v'"
    using b v l unfolding value_field_def
    by (auto simp: wf_value_def split: if_splits prod.splits dest!: skip_field_Ok dest: copy_str_wf)
qed

lemma decode_typed_value_wf: "gnmi_decode_typed_value d n = Some (Ok v) \<Longrightarrow> wf_value v"
  unfolding gnmi_decode_typed_value_def
  by (auto split: if_splits prod.splits dest!: pb_loop_preserves [OF value_preserves] simp: wf_zero)

lemma nested_Ok:
  "nested r dec k = Some (Ok (r', s')) \<Longrightarrow> \<exists>d n x. dec d n = Some (Ok x) \<and> s' = k x"
  by (auto simp: nested_def split: prod.splits)

lemma nested_at_Ok:
  "nested_at r full dec k = Some (Ok (r', s')) \<Longrightarrow> \<not> full \<and> (\<exists>d n x. dec d n = Some (Ok x) \<and> s' = k x)"
  by (auto simp: nested_at_def split: prod.splits if_splits)

lemma update_preserves: "preserves wf_update update_field"
  by (rule preservesI)
     (auto simp: update_field_def wf_update_def split: if_splits
        dest!: nested_Ok skip_field_Ok decode_path_wf decode_typed_value_wf)

lemma decode_update_wf: "decode_update d n = Some (Ok u) \<Longrightarrow> wf_update u"
  unfolding decode_update_def
  by (auto split: if_splits prod.splits dest!: pb_loop_preserves [OF update_preserves] simp: wf_zero)

lemma get_request_preserves: "preserves wf_get_request get_request_field"
  by (rule preservesI)
     (auto simp: get_request_field_def wf_get_request_def wf_array_append gnmi_limits split: if_splits prod.splits
        dest!: nested_Ok nested_at_Ok skip_field_Ok decode_path_wf)

lemma set_request_preserves: "preserves wf_set_request set_request_field"
  by (rule preservesI)
     (auto simp: set_request_field_def wf_set_request_def wf_array_append gnmi_limits split: if_splits prod.splits
        dest!: nested_Ok nested_at_Ok skip_field_Ok decode_path_wf decode_update_wf)

lemma subscription_preserves: "preserves wf_path subscription_field"
  by (rule preservesI)
     (auto simp: subscription_field_def split: if_splits prod.splits dest!: skip_field_Ok decode_path_wf)

lemma subscription_list_preserves: "preserves wf_subscribe_list subscription_list_field"
  by (rule preservesI)
     (auto simp: subscription_list_field_def wf_subscribe_list_def wf_array_append wf_zero gnmi_limits
        split: if_splits prod.splits dest!: nested_at_Ok skip_field_Ok pb_loop_preserves [OF subscription_preserves])

lemma subscribe_request_preserves: "preserves (\<lambda>q. wf_subscribe_list (sq_subscribe q)) subscribe_request_field"
  by (rule preservesI)
     (auto simp: subscribe_request_field_def split: if_splits prod.splits
        dest!: nested_Ok skip_field_Ok pb_loop_preserves [OF subscription_list_preserves])

subsection \<open>The path parser\<close>

lemma segment_elem_wf: "segment_elem seg = Some e \<Longrightarrow> wf_elem e"
proof -
  assume s: "segment_elem seg = Some e"
  have n: "0 < GNMI_MAX_NAME" "length (zeros GNMI_MAX_NAME) = GNMI_MAX_NAME" by (simp_all add: gnmi_limits zeros_def)
  show ?thesis
    using s n unfolding segment_elem_def wf_elem_def elem_zero_def
    by (auto simp: Let_def wf_str_zeros intro!: wf_str_put split: option.splits if_splits)
qed

lemma segments_wf:
  assumes "segments k s p = Some p'" and "wf_path p" and "unat (gp_elem_count p) + k \<le> GNMI_MAX_ELEMS"
  shows "wf_path p'"
  using assms
proof (induction k arbitrary: s p)
  case (Suc k)
  show ?case
  proof (cases "s = []")
    case True
    then show ?thesis using Suc.prems by simp
  next
    case False
    define n where "n = (case segment_end s of Some e \<Rightarrow> e | None \<Rightarrow> length s)"
    obtain e where e: "segment_elem (take n s) = Some e"
      using Suc.prems(1) False by (auto simp: n_def Let_def split: option.splits)
    define q where "q = p\<lparr>gp_elems := (gp_elems p)[unat (gp_elem_count p) := e], gp_elem_count := gp_elem_count p + 1\<rparr>"
    have c: "unat (gp_elem_count p) < 8" using Suc.prems(3) by (simp add: gnmi_limits)
    then have u: "unat (gp_elem_count p + 1) = unat (gp_elem_count p) + 1" by (simp add: unat_word_ariths)
    have q: "wf_path q"
      using Suc.prems(2) c segment_elem_wf [OF e]
      by (auto simp: wf_path_array q_def gnmi_limits word_le_nat_alt intro!: wf_array_append)
    show ?thesis
    proof (cases "segment_end s")
      case None
      then have "p' = q" using Suc.prems(1) False e by (simp add: n_def q_def)
      then show ?thesis using q by simp
    next
      case (Some x)
      have n: "n = x" by (simp add: n_def Some)
      have r: "segments k (if x < length s \<and> s ! x = chr_slash then drop (x + 1) s else drop x s) q = Some p'"
        using Suc.prems(1) False e unfolding segments.simps Some n by (simp add: q_def Let_def cong: if_cong)
      show ?thesis by (rule Suc.IH [OF r q]) (use Suc.prems(3) u in \<open>simp add: q_def\<close>)
    qed
  qed
qed simp

lemma path_from_str_wf: "gnmi_path_from_str d = Some p \<Longrightarrow> wf_path p \<and> 0 < gp_elem_count p"
proof -
  assume "gnmi_path_from_str d = Some p"
  then obtain s where s: "segments GNMI_MAX_ELEMS s path_zero = Some p" "0 < gp_elem_count p"
    by (auto simp: gnmi_path_from_str_def split: option.splits if_splits)
  have "wf_path p" by (rule segments_wf [OF s(1) wf_zero(2)]) (simp add: path_zero_def)
  then show ?thesis using s(2) by simp
qed

subsection \<open>Properties\<close>

text \<open>
  C14: Whatever bytes arrive, an accepted request is a well-formed object: the decoders of Get, Set
  and Subscribe requests and the path parser never store outside the arrays of the object
  they fill, never let a counter pass the size of its array, and terminate every string
  within its array.
\<close>

theorem gnmi_decoded_wellformed:
  "(gnmi_decode_get_request d n = Some (Ok g) \<longrightarrow> wf_get_request g \<and> 0 < gr_path_count g) \<and>
   (gnmi_decode_set_request d n = Some (Ok s) \<longrightarrow> wf_set_request s) \<and>
   (gnmi_decode_subscribe_request d n = Some (Ok q) \<longrightarrow> wf_subscribe_list (sq_subscribe q)) \<and>
   (gnmi_path_from_str str = Some p \<longrightarrow> wf_path p \<and> 0 < gp_elem_count p)"
proof (intro conjI impI)
  assume a: "gnmi_decode_get_request d n = Some (Ok g)"
  have z: "wf_get_request (get_request_zero\<lparr>gr_encoding := GNMI_ENC_JSON\<rparr>)"
    by (simp add: wf_get_request_def wf_array_def get_request_zero_def wf_zero list_all_iff)
  show "wf_get_request g"
    using a z unfolding gnmi_decode_get_request_def
    by (auto split: if_splits prod.splits dest!: pb_loop_preserves [OF get_request_preserves])
  show "0 < gr_path_count g" using a by (auto simp: gnmi_decode_get_request_def split: if_splits prod.splits)
next
  assume a: "gnmi_decode_set_request d n = Some (Ok s)"
  have z: "wf_set_request set_request_zero"
    by (simp add: wf_set_request_def wf_array_def set_request_zero_def wf_zero list_all_iff)
  show "wf_set_request s"
    using a z unfolding gnmi_decode_set_request_def
    by (auto split: if_splits prod.splits dest!: pb_loop_preserves [OF set_request_preserves])
next
  assume a: "gnmi_decode_subscribe_request d n = Some (Ok q)"
  have z: "wf_subscribe_list (sq_subscribe (subscribe_zero\<lparr>sq_subscribe := (sq_subscribe subscribe_zero)
            \<lparr>sl_mode := GNMI_SUB_MODE_STREAM, sl_encoding := GNMI_ENC_JSON\<rparr>\<rparr>))"
    by (simp add: wf_subscribe_list_def wf_array_def subscribe_zero_def wf_zero list_all_iff)
  show "wf_subscribe_list (sq_subscribe q)"
    using a z unfolding gnmi_decode_subscribe_request_def
    by (auto split: if_splits prod.splits dest!: pb_loop_preserves [OF subscribe_request_preserves])
qed (use path_from_str_wf in blast)+

text \<open>The path \<^verbatim>\<open>/if/r[p=1/2]\<close>, whose key value contains a slash.\<close>

definition sample_str :: bytes where
  "sample_str = [47, 105, 102, 47, 114, 91, 112, 61, 49, 47, 50, 93]"

lemma sample_str_path:
  "map_option (\<lambda>p. (gp_elem_count p, map (\<lambda>e. (cstr (pe_name e), pe_has_key e, cstr (pe_key_name e), cstr (pe_key_value e))) (take 2 (gp_elems p))))
     (gnmi_path_from_str (Some sample_str)) = Some (2, [([105, 102], False, [], []), ([114], True, [112], [49, 47, 50])])"
  by code_simp

lemma empty_set_request: "gnmi_decode_set_request [] 0 = Some (Ok set_request_zero)"
  unfolding gnmi_decode_set_request_def
  by (subst pb_loop.simps) (simp add: gnmi_pbr_tag_def gnmi_pbr_init_def)

theorem gnmi_decoded_wellformed_witness:
  "\<exists>p. gnmi_path_from_str (Some sample_str) = Some p \<and> wf_path p \<and> wf_set_request set_request_zero"
proof -
  obtain p where p: "gnmi_path_from_str (Some sample_str) = Some p" using sample_str_path by auto
  show ?thesis
    using gnmi_decoded_wellformed [of "[]" 0 undefined set_request_zero undefined "Some sample_str" p] p empty_set_request
    by blast
qed

end
