(* ===== verification/Zapi.thy ===== *)
theory Zapi
  imports Danos_Prelude
begin

text \<open>
  The ZAPI wire format between FRR and the FIB adapter (\<^verbatim>\<open>danos-fib/src/zapi\<close>): message
  headers of both dialects, the serialiser, the payload decoder and encoder and the decoder
  of FRR route messages.  A payload pointer with its size is the list of its bytes; buffers
  are the lists of their bytes, so \<^verbatim>\<open>buf_size\<close> is the length of the list.  A negative result
  is \<^term>\<open>Inl\<close>, or \<^term>\<open>None\<close> where the only one is -1.  Positions are natural numbers, since a
  position never exceeds the size of a buffer in memory, and the output pointers of the field
  decoders, which their callers never pass as NULL, are results.
\<close>

subsection \<open>Network byte order\<close>

definition be_bytes :: "nat \<Rightarrow> 'a::len word \<Rightarrow> bytes" where
  "be_bytes n w = rev (le_bytes n w)"

definition be_word :: "bytes \<Rightarrow> 'a::len word" where
  "be_word bs = le_word (rev bs)"

lemma length_be_bytes [simp]: "length (be_bytes n w) = n"
  by (simp add: be_bytes_def)

lemma be_word_be_bytes:
  "be_word (be_bytes 1 (a :: u8)) = a" "be_word (be_bytes 2 (b :: u16)) = b"
  "be_word (be_bytes 4 (c :: u32)) = c" "be_word (be_bytes 8 (d :: u64)) = d"
  by (simp_all add: be_word_def be_bytes_def le_word_le_bytes)

subsection \<open>Messages\<close>

definition ZAPI_HEADER_MARKER :: u16 where "ZAPI_HEADER_MARKER = 0xFFFF"
definition ZAPI_VERSION :: u8 where "ZAPI_VERSION = 6"
definition ZAPI_HEADER_SIZE :: nat where "ZAPI_HEADER_SIZE = 9"
definition FRR_ZAPI_HEADER_SIZE :: nat where "FRR_ZAPI_HEADER_SIZE = 10"
definition FRR_ZAPI_MARKER :: u8 where "FRR_ZAPI_MARKER = 254"
definition ZAPI_FRR_MAX_NEXTHOPS :: nat where "ZAPI_FRR_MAX_NEXTHOPS = 64"

lemmas zapi_consts = ZAPI_HEADER_MARKER_def ZAPI_VERSION_def ZAPI_HEADER_SIZE_def
  FRR_ZAPI_HEADER_SIZE_def FRR_ZAPI_MARKER_def ZAPI_FRR_MAX_NEXTHOPS_def

record zapi_header =
  zh_length :: u32
  zh_marker :: u16
  zh_version :: u8
  zh_command :: u16

record zapi_message =
  zm_header :: zapi_header
  zm_payload :: bytes
  zm_vrf_id :: u32

definition zapi_parse :: "bytes option \<Rightarrow> int + zapi_message" where
  "zapi_parse buf = (case buf of None \<Rightarrow> Inl (- 1) | Some b \<Rightarrow>
     if length b < ZAPI_HEADER_SIZE then Inl (- 2)
     else let len = be_word (bslice 0 4 b) in
       if unat len < ZAPI_HEADER_SIZE then Inl (- 3)
       else if unat len > length b then Inl (- 4)
       else let marker = be_word (bslice 4 2 b) in
         if marker \<noteq> ZAPI_HEADER_MARKER then Inl (- 5)
         else if b ! 6 \<noteq> ZAPI_VERSION then Inl (- 6)
         else Inr \<lparr>zm_header = \<lparr>zh_length = len, zh_marker = marker, zh_version = b ! 6,
                      zh_command = be_word (bslice 7 2 b)\<rparr>,
                   zm_payload = bslice ZAPI_HEADER_SIZE (unat len - ZAPI_HEADER_SIZE) b,
                   zm_vrf_id = 0\<rparr>)"

definition zapi_parse_frr :: "bytes option \<Rightarrow> int + zapi_message" where
  "zapi_parse_frr buf = (case buf of None \<Rightarrow> Inl (- 1) | Some b \<Rightarrow>
     if length b < FRR_ZAPI_HEADER_SIZE then Inl (- 1)
     else let len = be_word (bslice 0 2 b) :: u16 in
       if unat len < FRR_ZAPI_HEADER_SIZE \<or> unat len > length b then Inl (- 2)
       else if b ! 2 \<noteq> FRR_ZAPI_MARKER \<or> b ! 3 \<noteq> ZAPI_VERSION then Inl (- 3)
       else Inr \<lparr>zm_header = \<lparr>zh_length = ucast len, zh_marker = ucast (b ! 2), zh_version = b ! 3,
                    zh_command = be_word (bslice 8 2 b)\<rparr>,
                 zm_payload = bslice FRR_ZAPI_HEADER_SIZE (unat len - FRR_ZAPI_HEADER_SIZE) b,
                 zm_vrf_id = be_word (bslice 4 4 b)\<rparr>)"

text \<open>The result of the serialiser and the buffer after the call.\<close>

definition zapi_serialize :: "zapi_message option \<Rightarrow> bytes option \<Rightarrow> int \<times> bytes option" where
  "zapi_serialize msg buf = (case (msg, buf) of
     (Some m, Some b) \<Rightarrow>
       (let total = of_nat ZAPI_HEADER_SIZE + of_nat (length (zm_payload m)) :: u32 in
        if unat total > length b then (- 2, buf)
        else let b = mem_put 0 (be_bytes 4 total) b;
                 b = mem_put 4 (be_bytes 2 ZAPI_HEADER_MARKER) b;
                 b = mem_put 6 [ZAPI_VERSION] b;
                 b = mem_put 7 (be_bytes 2 (zh_command (zm_header m))) b;
                 b = (if zm_payload m \<noteq> [] then mem_put ZAPI_HEADER_SIZE (zm_payload m) b else b)
             in (sint total, Some b))
   | _ \<Rightarrow> (- 1, buf))"

subsection \<open>Payload decoder\<close>

record zapi_decoder =
  zd_data :: bytes
  zd_pos :: nat

definition zapi_decoder_init :: "bytes \<Rightarrow> zapi_decoder" where
  "zapi_decoder_init data = \<lparr>zd_data = data, zd_pos = 0\<rparr>"

definition zapi_decode_bytes :: "zapi_decoder \<Rightarrow> nat \<Rightarrow> (bytes \<times> zapi_decoder) option" where
  "zapi_decode_bytes d n =
     (if zd_pos d + n > length (zd_data d) then None
      else Some (bslice (zd_pos d) n (zd_data d), d\<lparr>zd_pos := zd_pos d + n\<rparr>))"

definition zapi_decode_u8 :: "zapi_decoder \<Rightarrow> (u8 \<times> zapi_decoder) option" where
  "zapi_decode_u8 d =
     (if zd_pos d + 1 > length (zd_data d) then None
      else Some (zd_data d ! zd_pos d, d\<lparr>zd_pos := zd_pos d + 1\<rparr>))"

definition zapi_decode_u16 :: "zapi_decoder \<Rightarrow> (u16 \<times> zapi_decoder) option" where
  "zapi_decode_u16 d =
     (if zd_pos d + 2 > length (zd_data d) then None
      else Some (be_word (bslice (zd_pos d) 2 (zd_data d)), d\<lparr>zd_pos := zd_pos d + 2\<rparr>))"

definition zapi_decode_u32 :: "zapi_decoder \<Rightarrow> (u32 \<times> zapi_decoder) option" where
  "zapi_decode_u32 d =
     (if zd_pos d + 4 > length (zd_data d) then None
      else Some (be_word (bslice (zd_pos d) 4 (zd_data d)), d\<lparr>zd_pos := zd_pos d + 4\<rparr>))"

definition zapi_decode_u64 :: "zapi_decoder \<Rightarrow> (u64 \<times> zapi_decoder) option" where
  "zapi_decode_u64 d =
     (if zd_pos d + 8 > length (zd_data d) then None
      else let hi = be_word (bslice (zd_pos d) 4 (zd_data d)) :: u32;
               lo = be_word (bslice (zd_pos d + 4) 4 (zd_data d)) :: u32
           in Some (push_bit 32 (ucast hi) OR ucast lo, d\<lparr>zd_pos := zd_pos d + 8\<rparr>))"

definition zapi_decode_in_addr :: "zapi_decoder \<Rightarrow> (bytes \<times> zapi_decoder) option" where
  "zapi_decode_in_addr d = zapi_decode_bytes d 4"

definition zapi_decode_in6_addr :: "zapi_decoder \<Rightarrow> (bytes \<times> zapi_decoder) option" where
  "zapi_decode_in6_addr d = zapi_decode_bytes d 16"

subsection \<open>Payload encoder\<close>

record zapi_encoder =
  ze_data :: bytes
  ze_pos :: nat

definition zapi_encoder_init :: "bytes \<Rightarrow> zapi_encoder" where
  "zapi_encoder_init data = \<lparr>ze_data = data, ze_pos = 0\<rparr>"

definition zapi_encode_bytes :: "zapi_encoder \<Rightarrow> bytes \<Rightarrow> zapi_encoder option" where
  "zapi_encode_bytes e src =
     (if ze_pos e + length src > length (ze_data e) then None
      else Some (e\<lparr>ze_data := mem_put (ze_pos e) src (ze_data e), ze_pos := ze_pos e + length src\<rparr>))"

definition zapi_encode_u8 :: "zapi_encoder \<Rightarrow> u8 \<Rightarrow> zapi_encoder option" where
  "zapi_encode_u8 e v =
     (if ze_pos e + 1 > length (ze_data e) then None
      else Some (e\<lparr>ze_data := mem_put (ze_pos e) [v] (ze_data e), ze_pos := ze_pos e + 1\<rparr>))"

definition zapi_encode_u16 :: "zapi_encoder \<Rightarrow> u16 \<Rightarrow> zapi_encoder option" where
  "zapi_encode_u16 e v =
     (if ze_pos e + 2 > length (ze_data e) then None
      else Some (e\<lparr>ze_data := mem_put (ze_pos e) (be_bytes 2 v) (ze_data e), ze_pos := ze_pos e + 2\<rparr>))"

definition zapi_encode_u32 :: "zapi_encoder \<Rightarrow> u32 \<Rightarrow> zapi_encoder option" where
  "zapi_encode_u32 e v =
     (if ze_pos e + 4 > length (ze_data e) then None
      else Some (e\<lparr>ze_data := mem_put (ze_pos e) (be_bytes 4 v) (ze_data e), ze_pos := ze_pos e + 4\<rparr>))"

definition zapi_encode_u64 :: "zapi_encoder \<Rightarrow> u64 \<Rightarrow> zapi_encoder option" where
  "zapi_encode_u64 e v =
     (if ze_pos e + 8 > length (ze_data e) then None
      else let hi = be_bytes 4 (ucast (drop_bit 32 v) :: u32);
               lo = be_bytes 4 (ucast (v AND 0xFFFFFFFF) :: u32)
           in Some (e\<lparr>ze_data := mem_put (ze_pos e + 4) lo (mem_put (ze_pos e) hi (ze_data e)), ze_pos := ze_pos e + 8\<rparr>))"

subsection \<open>FRR route messages\<close>

record zapi_frr_nexthop =
  fn_type :: u8
  fn_flags :: u8
  fn_family :: u8
  fn_ifindex :: u32
  fn_gateway :: bytes
  fn_has_gateway :: bool

text \<open>Of the array of next hops the list keeps the first \<^verbatim>\<open>nexthop_count\<close> entries.\<close>

record zapi_frr_route =
  fr_type :: u8
  fr_instance :: u16
  fr_flags :: u32
  fr_message :: u32
  fr_safi :: u8
  fr_family :: u8
  fr_prefix_len :: u8
  fr_prefix :: bytes
  fr_nhg_id :: u32
  fr_nexthop_count :: u16
  fr_nexthops :: "zapi_frr_nexthop list"

definition AF_INET :: u8 where "AF_INET = 2"
definition AF_INET6 :: u8 where "AF_INET6 = 10"

definition ZAPI_FRR_MESSAGE_NEXTHOP :: u32 where "ZAPI_FRR_MESSAGE_NEXTHOP = 0x01"
definition ZAPI_FRR_MESSAGE_NHG :: u32 where "ZAPI_FRR_MESSAGE_NHG = 0x80"

text \<open>\<^verbatim>\<open>if (m != 0) return e;\<close> and the rest of the function.\<close>

definition need :: "'a option \<Rightarrow> 'e \<Rightarrow> ('a \<Rightarrow> 'e + 'b) \<Rightarrow> 'e + 'b" where
  "need m e k = (case m of None \<Rightarrow> Inl e | Some x \<Rightarrow> k x)"

definition frr_nexthop :: "u8 \<Rightarrow> zapi_decoder \<Rightarrow> int + zapi_frr_nexthop \<times> zapi_decoder" where
  "frr_nexthop family d =
     need (zapi_decode_u32 d) (- 6) (\<lambda>(nh_vrf, d).
     need (zapi_decode_u8 d) (- 6) (\<lambda>(ty, d).
     need (zapi_decode_u8 d) (- 6) (\<lambda>(flags, d).
     let nh = \<lparr>fn_type = ty, fn_flags = flags, fn_family = family, fn_ifindex = 0,
               fn_gateway = replicate 16 0, fn_has_gateway = False\<rparr>;
         r = (if ty = 1 then
                need (zapi_decode_u32 d) (- 8) (\<lambda>(i, d). Inr (nh\<lparr>fn_ifindex := i\<rparr>, d))
              else if ty = 2 \<or> ty = 3 then
                need (zapi_decode_bytes d (if family = AF_INET then 4 else 16)) (- 7) (\<lambda>(g, d).
                  let nh = nh\<lparr>fn_gateway := mem_put 0 g (fn_gateway nh), fn_has_gateway := True\<rparr> in
                  if ty = 3 then need (zapi_decode_u32 d) (- 8) (\<lambda>(i, d). Inr (nh\<lparr>fn_ifindex := i\<rparr>, d))
                  else Inr (nh, d))
              else Inr (nh, d))
     in case r of
          Inl e \<Rightarrow> Inl e
        | Inr (nh, d) \<Rightarrow>
            if flags AND 0x04 \<noteq> 0 then need (zapi_decode_u64 d) (- 9) (\<lambda>(weight, d). Inr (nh, d))
            else Inr (nh, d))))"

fun frr_nexthops :: "nat \<Rightarrow> u8 \<Rightarrow> zapi_decoder \<Rightarrow> int + zapi_frr_nexthop list" where
  "frr_nexthops 0 family d = Inr []"
| "frr_nexthops (Suc n) family d =
     (case frr_nexthop family d of
        Inl e \<Rightarrow> Inl e
      | Inr (nh, d) \<Rightarrow> (case frr_nexthops n family d of Inl e \<Rightarrow> Inl e | Inr nhs \<Rightarrow> Inr (nh # nhs)))"

text \<open>What follows the prefix: the next-hop group id and the next hops, as the message flags say.\<close>

definition frr_route_tail :: "zapi_frr_route \<Rightarrow> zapi_decoder \<Rightarrow> int + zapi_frr_route" where
  "frr_route_tail out d =
     need (if fr_message out AND ZAPI_FRR_MESSAGE_NHG \<noteq> 0 then zapi_decode_u32 d else Some (0, d)) (- 4) (\<lambda>(nhg, d).
     let out = out\<lparr>fr_nhg_id := nhg\<rparr> in
     if fr_message out AND ZAPI_FRR_MESSAGE_NEXTHOP \<noteq> 0 then
       need (zapi_decode_u16 d) (- 5) (\<lambda>(count, d).
       if unat count > ZAPI_FRR_MAX_NEXTHOPS then Inl (- 5)
       else case frr_nexthops (unat count) (fr_family out) d of
              Inl e \<Rightarrow> Inl e
            | Inr nhs \<Rightarrow> Inr (out\<lparr>fr_nexthop_count := count, fr_nexthops := nhs\<rparr>))
     else Inr out)"

definition zapi_decode_frr_route :: "zapi_message option \<Rightarrow> int + zapi_frr_route" where
  "zapi_decode_frr_route msg = need msg (- 1) (\<lambda>m.
     if zh_version (zm_header m) \<noteq> ZAPI_VERSION then Inl (- 1)
     else
     need (zapi_decode_u8 (zapi_decoder_init (zm_payload m))) (- 2) (\<lambda>(ty, d).
     need (zapi_decode_u16 d) (- 2) (\<lambda>(inst, d).
     need (zapi_decode_u32 d) (- 2) (\<lambda>(flags, d).
     need (zapi_decode_u32 d) (- 2) (\<lambda>(message, d).
     need (zapi_decode_u8 d) (- 2) (\<lambda>(safi, d).
     need (zapi_decode_u8 d) (- 2) (\<lambda>(family, d).
     need (zapi_decode_u8 d) (- 2) (\<lambda>(plen, d).
     let n = (if family = AF_INET6 then 16 else if family = AF_INET then 4 else 0 :: nat) in
     if n = 0 \<or> family = AF_INET \<and> plen > 32 \<or> family = AF_INET6 \<and> plen > 128 then Inl (- 3)
     else need (zapi_decode_bytes d ((unat plen + 7) div 8)) (- 3) (\<lambda>(pfx, d).
     frr_route_tail
       \<lparr>fr_type = ty, fr_instance = inst, fr_flags = flags, fr_message = message, fr_safi = safi,
        fr_family = family, fr_prefix_len = plen, fr_prefix = mem_put 0 pfx (replicate 16 0), fr_nhg_id = 0,
        fr_nexthop_count = 0, fr_nexthops = []\<rparr> d)))))))))"

subsection \<open>What a decoded FRR route looks like\<close>

lemma need_Inr: "need m e k = Inr y \<longleftrightarrow> (\<exists>x. m = Some x \<and> k x = Inr y)"
  by (cases m) (simp_all add: need_def)

lemma case_sum_Inr: "(case x of Inl e \<Rightarrow> Inl e | Inr y \<Rightarrow> f y) = Inr z \<longleftrightarrow> (\<exists>y. x = Inr y \<and> f y = Inr z)"
  by (cases x) simp_all

lemma zapi_decode_bytes_length: "zapi_decode_bytes d n = Some (bs, d') \<Longrightarrow> length bs = n"
  by (auto simp: zapi_decode_bytes_def split: if_splits)

lemma frr_nexthop_wf: "frr_nexthop family d = Inr (nh, d') \<Longrightarrow> length (fn_gateway nh) = 16"
  by (auto simp: frr_nexthop_def need_Inr Let_def split: if_splits sum.splits dest!: zapi_decode_bytes_length)

lemma frr_nexthops_wf:
  "frr_nexthops n family d = Inr nhs \<Longrightarrow> length nhs = n \<and> (\<forall>nh \<in> set nhs. length (fn_gateway nh) = 16)"
proof (induction n arbitrary: d nhs)
  case (Suc n)
  then show ?case by (fastforce split: sum.splits prod.splits dest: frr_nexthop_wf)
qed simp

definition frr_wf :: "zapi_frr_route \<Rightarrow> bool" where
  "frr_wf r \<longleftrightarrow> length (fr_nexthops r) = unat (fr_nexthop_count r) \<and> unat (fr_nexthop_count r) \<le> ZAPI_FRR_MAX_NEXTHOPS \<and>
     length (fr_prefix r) = 16 \<and> (\<forall>nh \<in> set (fr_nexthops r). length (fn_gateway nh) = 16)"

lemma length_prefix:
  assumes "zapi_decode_bytes d ((unat (p :: u8) + 7) div 8) = Some (bs, d')" and "p \<le> 128"
  shows "length (mem_put 0 bs (replicate 16 0)) = 16"
proof -
  have "unat p \<le> 128" using assms(2) by (simp add: word_le_nat_alt)
  then have "length bs \<le> 16" using zapi_decode_bytes_length [OF assms(1)] by simp
  then show ?thesis by simp
qed

lemma frr_tail_wf:
  assumes "frr_route_tail out d = Inr r" and "length (fr_prefix out) = 16" and "fr_nexthop_count out = 0" and "fr_nexthops out = []"
  shows "frr_wf r"
  using assms
  by (auto simp: frr_route_tail_def need_Inr case_sum_Inr Let_def frr_wf_def split: if_splits dest: frr_nexthops_wf)

lemma frr_parts_wf:
  assumes p: "zapi_decode_bytes d ((unat (plen :: u8) + 7) div 8) = Some (pfx, d')" and l: "plen \<le> 32 \<or> plen \<le> 128"
    and t: "frr_route_tail out d' = Inr r" and o: "fr_prefix out = mem_put 0 pfx (replicate 16 0)"
    and "fr_nexthop_count out = 0" and "fr_nexthops out = []"
  shows "frr_wf r"
proof -
  have "plen \<le> 128" using l by (auto simp: word_le_nat_alt)
  then show ?thesis using frr_tail_wf [OF t] length_prefix [OF p] assms by simp
qed

lemma frr_decode_wf:
  assumes "zapi_decode_frr_route msg = Inr r"
  shows "frr_wf r"
  using assms unfolding zapi_decode_frr_route_def
  by (clarsimp simp: need_Inr Let_def not_less AF_INET_def AF_INET6_def split: if_splits)
     (rule frr_parts_wf, assumption, simp, assumption, simp, simp, simp)+

subsection \<open>Properties\<close>

lemma bslice_mem_put_same: "off + length d \<le> length b \<Longrightarrow> n = length d \<Longrightarrow> bslice off n (mem_put off d b) = d"
  by (simp add: mem_put_def bslice_def)

lemma bslice_mem_put_before: "off + n \<le> o' \<Longrightarrow> o' \<le> length b \<Longrightarrow> bslice off n (mem_put o' d b) = bslice off n b"
  by (simp add: mem_put_def bslice_def drop_take min_absorb1)

lemma nth_mem_put_before: "i < o' \<Longrightarrow> o' \<le> length b \<Longrightarrow> mem_put o' d b ! i = b ! i"
  by (simp add: mem_put_def nth_append)

lemma nth_mem_put_one: "i < length b \<Longrightarrow> mem_put i [x] b ! i = x"
  by (simp add: mem_put_def nth_append)

text \<open>
  C34: A serialised ZAPI message parses back: when the message fits the buffer, the serialiser
  returns its length, leaves the rest of the buffer alone, and the parser returns the
  command and the payload.
\<close>

theorem zapi_serialize_parse:
  assumes fit: "ZAPI_HEADER_SIZE + length (zm_payload m) \<le> length b" and small: "length b < 2 ^ 31"
    and s: "zapi_serialize (Some m) (Some b) = (n, Some b')"
  shows "n = int (ZAPI_HEADER_SIZE + length (zm_payload m)) \<and> length b' = length b \<and>
    drop (ZAPI_HEADER_SIZE + length (zm_payload m)) b' = drop (ZAPI_HEADER_SIZE + length (zm_payload m)) b \<and>
    zapi_parse (Some b') = Inr \<lparr>zm_header = \<lparr>zh_length = of_nat (ZAPI_HEADER_SIZE + length (zm_payload m)),
         zh_marker = ZAPI_HEADER_MARKER, zh_version = ZAPI_VERSION, zh_command = zh_command (zm_header m)\<rparr>,
       zm_payload = zm_payload m, zm_vrf_id = 0\<rparr>"
proof -
  define p where "p = zm_payload m"
  define total where "total = (of_nat ZAPI_HEADER_SIZE + of_nat (length p) :: u32)"
  have l: "9 + length p \<le> length b" "length b < 2 ^ 31" using fit small by (simp_all add: p_def zapi_consts)
  have t: "total = of_nat (9 + length p)" by (simp add: total_def zapi_consts)
  have u: "unat total = 9 + length p" unfolding t using l by (simp only: unat_of_nat) simp
  have si: "sint total = int (9 + length p)"
  proof -
    have "uint total = int (9 + length p)" using u by (metis uint_nat)
    then show ?thesis using l by (simp add: sint_uint signed_take_bit_int_eq_self)
  qed
  define b4 where "b4 = mem_put 7 (be_bytes 2 (zh_command (zm_header m))) (mem_put 6 [ZAPI_VERSION]
      (mem_put 4 (be_bytes 2 ZAPI_HEADER_MARKER) (mem_put 0 (be_bytes 4 total) b)))"
  have l4: "length b4 = length b" using l by (simp add: b4_def)
  have "zapi_serialize (Some m) (Some b) = (sint total, Some (if p \<noteq> [] then mem_put 9 p b4 else b4))"
  proof -
    have "\<not> unat total > length b" using u l by simp
    then show ?thesis
      unfolding zapi_serialize_def prod.case option.case p_def [symmetric] total_def [symmetric] Let_def b4_def
      by (simp add: ZAPI_HEADER_SIZE_def)
  qed
  then have b': "b' = (if p \<noteq> [] then mem_put 9 p b4 else b4)" "n = sint total" using s by simp_all
  have e: "b' = mem_put 9 p b4" using b' by (simp add: mem_put_def)
  have l': "length b' = length b" using e l l4 by simp
  have h: "bslice 0 4 b' = be_bytes 4 total" "bslice 4 2 b' = be_bytes 2 ZAPI_HEADER_MARKER" "b' ! 6 = ZAPI_VERSION"
      "bslice 7 2 b' = be_bytes 2 (zh_command (zm_header m))" "bslice 9 (length p) b' = p"
    using l l4 unfolding e
    by (simp_all add: bslice_mem_put_before bslice_mem_put_same nth_mem_put_before nth_mem_put_one b4_def)
  have d4: "drop 9 b4 = drop 9 b" using l by (simp add: b4_def mem_put_def drop_take)
  have d: "drop (9 + length p) b' = drop (9 + length p) b"
  proof -
    have "drop (9 + length p) b' = drop (length p) (drop 9 b4)" using l l4 unfolding e by (simp add: mem_put_def add.commute)
    then show ?thesis unfolding d4 by (simp add: add.commute)
  qed
  have "zapi_parse (Some b') = Inr \<lparr>zm_header = \<lparr>zh_length = total, zh_marker = ZAPI_HEADER_MARKER,
       zh_version = ZAPI_VERSION, zh_command = zh_command (zm_header m)\<rparr>, zm_payload = p, zm_vrf_id = 0\<rparr>"
    using l l' u h by (simp add: zapi_parse_def be_word_be_bytes Let_def zapi_consts)
  then show ?thesis using b'(2) si l' d t by (simp add: p_def zapi_consts)
qed

definition sample_zapi :: zapi_message where
  "sample_zapi = \<lparr>zm_header = \<lparr>zh_length = 0, zh_marker = 0, zh_version = 0, zh_command = 25\<rparr>,
     zm_payload = [0, 0, 0, 7], zm_vrf_id = 0\<rparr>"

theorem zapi_serialize_parse_witness:
  "zapi_parse (snd (zapi_serialize (Some sample_zapi) (Some (replicate 20 0)))) =
     Inr \<lparr>zm_header = \<lparr>zh_length = 13, zh_marker = 0xFFFF, zh_version = 6, zh_command = 25\<rparr>,
       zm_payload = [0, 0, 0, 7], zm_vrf_id = 0\<rparr>"
proof -
  obtain n b' where s: "zapi_serialize (Some sample_zapi) (Some (replicate 20 0)) = (n, Some b')"
    by (simp add: zapi_serialize_def sample_zapi_def Let_def zapi_consts)
  show ?thesis
    using zapi_serialize_parse [OF _ _ s] unfolding s by (simp add: sample_zapi_def zapi_consts)
qed

end
