(* ===== verification/Dpa_Structs.thy ===== *)
theory Dpa_Structs
  imports Dpa_Types
begin

text \<open>
  The object structs of \<^verbatim>\<open>danos/dpa.h\<close>, one record per struct with the fields in
  declaration order, and for each its object representation: \<open>enc\<close> lists the fields with
  the ABI's padding in between, \<open>dec\<close> is the C code's view of a blob through a struct
  pointer (a read at each field's offset), \<open>wf\<close> fixes the lengths of the embedded arrays.
  Every struct is an instance of \<open>struct_codec\<close>.
\<close>

lemma bslice_Cons_0 [codec_simps]: "bslice 0 (Suc 0) (x # xs) = [x]"
  by (simp add: bslice_def)

lemma bslice_Cons_pos [codec_simps]: "0 < off \<Longrightarrow> bslice off n (x # xs) = bslice (off - 1) n xs"
  by (cases off) (simp_all add: bslice_def)

subsection \<open>IP address (\<^verbatim>\<open>danos_ip_addr_t\<close>, 20 bytes)\<close>

record danos_ip_addr =
  af :: u32
  addr :: bytes

definition wf_ip_addr :: "danos_ip_addr \<Rightarrow> bool" where
  "wf_ip_addr x \<longleftrightarrow> length (addr x) = 16"

definition enc_ip_addr :: "danos_ip_addr \<Rightarrow> bytes" where
  "enc_ip_addr x =
     le32 (af x) @
     addr x"

definition dec_ip_addr :: "bytes \<Rightarrow> danos_ip_addr" where
  "dec_ip_addr bs =
     \<lparr>af = rd32 0 bs,
      addr = bslice 4 16 bs\<rparr>"

lemma length_enc_ip_addr [simp, codec_simps]: "wf_ip_addr x \<Longrightarrow> length (enc_ip_addr x) = 20"
  by (simp add: enc_ip_addr_def wf_ip_addr_def)

lemma dec_enc_ip_addr [simp, codec_simps]: "wf_ip_addr x \<Longrightarrow> dec_ip_addr (enc_ip_addr x) = x"
  by (cases x) (simp add: enc_ip_addr_def dec_ip_addr_def wf_ip_addr_def codec_simps)

interpretation ip_addr_codec: struct_codec enc_ip_addr dec_ip_addr 20 wf_ip_addr
  by unfold_locales simp_all

subsection \<open>IP prefix (\<^verbatim>\<open>danos_ip_prefix_t\<close>, 24 bytes)\<close>

record danos_ip_prefix =
  pfx_addr :: danos_ip_addr
  prefix_len :: u8

definition wf_ip_prefix :: "danos_ip_prefix \<Rightarrow> bool" where
  "wf_ip_prefix x \<longleftrightarrow> wf_ip_addr (pfx_addr x)"

definition enc_ip_prefix :: "danos_ip_prefix \<Rightarrow> bytes" where
  "enc_ip_prefix x =
     enc_ip_addr (pfx_addr x) @
     [prefix_len x] @
     [0, 0, 0]"

definition dec_ip_prefix :: "bytes \<Rightarrow> danos_ip_prefix" where
  "dec_ip_prefix bs =
     \<lparr>pfx_addr = dec_ip_addr (bslice 0 20 bs),
      prefix_len = rd8 20 bs\<rparr>"

lemma length_enc_ip_prefix [simp, codec_simps]: "wf_ip_prefix x \<Longrightarrow> length (enc_ip_prefix x) = 24"
  by (simp add: enc_ip_prefix_def wf_ip_prefix_def)

lemma dec_enc_ip_prefix [simp, codec_simps]: "wf_ip_prefix x \<Longrightarrow> dec_ip_prefix (enc_ip_prefix x) = x"
  by (cases x) (simp add: enc_ip_prefix_def dec_ip_prefix_def wf_ip_prefix_def codec_simps)

interpretation ip_prefix_codec: struct_codec enc_ip_prefix dec_ip_prefix 24 wf_ip_prefix
  by unfold_locales simp_all

subsection \<open>Interface (\<^verbatim>\<open>danos_iface_t\<close>, 144 bytes)\<close>

record danos_iface =
  if_ifindex :: u32
  if_name :: bytes
  if_type :: u32
  mtu :: u16
  mac :: bytes
  if_admin_up :: bool
  link_up :: bool
  parent_ifindex :: u32
  outer_vlan :: u32
  inner_vlan :: u32
  ipv4_address :: danos_ip_prefix
  ipv6_address :: danos_ip_prefix

definition wf_iface :: "danos_iface \<Rightarrow> bool" where
  "wf_iface x \<longleftrightarrow> length (if_name x) = 64 \<and> length (mac x) = 6 \<and> wf_ip_prefix (ipv4_address x) \<and> wf_ip_prefix (ipv6_address x)"

definition enc_iface :: "danos_iface \<Rightarrow> bytes" where
  "enc_iface x =
     le32 (if_ifindex x) @
     if_name x @
     le32 (if_type x) @
     le16 (mtu x) @
     mac x @
     [of_bool (if_admin_up x)] @
     [of_bool (link_up x)] @
     [0, 0] @
     le32 (parent_ifindex x) @
     le32 (outer_vlan x) @
     le32 (inner_vlan x) @
     enc_ip_prefix (ipv4_address x) @
     enc_ip_prefix (ipv6_address x)"

definition dec_iface :: "bytes \<Rightarrow> danos_iface" where
  "dec_iface bs =
     \<lparr>if_ifindex = rd32 0 bs,
      if_name = bslice 4 64 bs,
      if_type = rd32 68 bs,
      mtu = rd16 72 bs,
      mac = bslice 74 6 bs,
      if_admin_up = (rd8 80 bs \<noteq> 0),
      link_up = (rd8 81 bs \<noteq> 0),
      parent_ifindex = rd32 84 bs,
      outer_vlan = rd32 88 bs,
      inner_vlan = rd32 92 bs,
      ipv4_address = dec_ip_prefix (bslice 96 24 bs),
      ipv6_address = dec_ip_prefix (bslice 120 24 bs)\<rparr>"

lemma length_enc_iface [simp, codec_simps]: "wf_iface x \<Longrightarrow> length (enc_iface x) = 144"
  by (simp add: enc_iface_def wf_iface_def)

lemma dec_enc_iface [simp, codec_simps]: "wf_iface x \<Longrightarrow> dec_iface (enc_iface x) = x"
  by (cases x) (simp add: enc_iface_def dec_iface_def wf_iface_def codec_simps)

interpretation iface_codec: struct_codec enc_iface dec_iface 144 wf_iface
  by unfold_locales simp_all

subsection \<open>VRF (\<^verbatim>\<open>danos_vrf_t\<close>, 72 bytes)\<close>

record danos_vrf =
  vrf_id :: u32
  vrf_name :: bytes
  ipv4_active :: bool
  ipv6_active :: bool

definition wf_vrf :: "danos_vrf \<Rightarrow> bool" where
  "wf_vrf x \<longleftrightarrow> length (vrf_name x) = 64"

definition enc_vrf :: "danos_vrf \<Rightarrow> bytes" where
  "enc_vrf x =
     le32 (vrf_id x) @
     vrf_name x @
     [of_bool (ipv4_active x)] @
     [of_bool (ipv6_active x)] @
     [0, 0]"

definition dec_vrf :: "bytes \<Rightarrow> danos_vrf" where
  "dec_vrf bs =
     \<lparr>vrf_id = rd32 0 bs,
      vrf_name = bslice 4 64 bs,
      ipv4_active = (rd8 68 bs \<noteq> 0),
      ipv6_active = (rd8 69 bs \<noteq> 0)\<rparr>"

lemma length_enc_vrf [simp, codec_simps]: "wf_vrf x \<Longrightarrow> length (enc_vrf x) = 72"
  by (simp add: enc_vrf_def wf_vrf_def)

lemma dec_enc_vrf [simp, codec_simps]: "wf_vrf x \<Longrightarrow> dec_vrf (enc_vrf x) = x"
  by (cases x) (simp add: enc_vrf_def dec_vrf_def wf_vrf_def codec_simps)

interpretation vrf_codec: struct_codec enc_vrf dec_vrf 72 wf_vrf
  by unfold_locales simp_all

subsection \<open>NextHop (\<^verbatim>\<open>danos_nexthop_t\<close>, 56 bytes)\<close>

record danos_nexthop =
  nh_id :: u64
  gateway :: danos_ip_addr
  nh_ifindex :: u32
  nh_weight :: u32
  nh_flags :: u32
  label_count :: u8
  nh_labels :: "u32 list"

definition wf_nexthop :: "danos_nexthop \<Rightarrow> bool" where
  "wf_nexthop x \<longleftrightarrow> wf_ip_addr (gateway x) \<and> length (nh_labels x) = 3"

definition enc_nexthop :: "danos_nexthop \<Rightarrow> bytes" where
  "enc_nexthop x =
     le64 (nh_id x) @
     enc_ip_addr (gateway x) @
     le32 (nh_ifindex x) @
     le32 (nh_weight x) @
     le32 (nh_flags x) @
     [label_count x] @
     [0, 0, 0] @
     le_words 4 (nh_labels x)"

definition dec_nexthop :: "bytes \<Rightarrow> danos_nexthop" where
  "dec_nexthop bs =
     \<lparr>nh_id = rd64 0 bs,
      gateway = dec_ip_addr (bslice 8 20 bs),
      nh_ifindex = rd32 28 bs,
      nh_weight = rd32 32 bs,
      nh_flags = rd32 36 bs,
      label_count = rd8 40 bs,
      nh_labels = rd_words 4 3 (bslice 44 12 bs)\<rparr>"

lemma length_enc_nexthop [simp, codec_simps]: "wf_nexthop x \<Longrightarrow> length (enc_nexthop x) = 56"
  by (simp add: enc_nexthop_def wf_nexthop_def)

lemma dec_enc_nexthop [simp, codec_simps]: "wf_nexthop x \<Longrightarrow> dec_nexthop (enc_nexthop x) = x"
  by (cases x) (simp add: enc_nexthop_def dec_nexthop_def wf_nexthop_def codec_simps)

interpretation nexthop_codec: struct_codec enc_nexthop dec_nexthop 56 wf_nexthop
  by unfold_locales simp_all

subsection \<open>NextHop group (\<^verbatim>\<open>danos_nhgroup_t\<close>, 536 bytes)\<close>

record danos_nhgroup =
  grp_id :: u64
  nh_count :: u32
  nh_ids :: "u64 list"
  grp_flags :: u32

definition wf_nhgroup :: "danos_nhgroup \<Rightarrow> bool" where
  "wf_nhgroup x \<longleftrightarrow> length (nh_ids x) = 64"

definition enc_nhgroup :: "danos_nhgroup \<Rightarrow> bytes" where
  "enc_nhgroup x =
     le64 (grp_id x) @
     le32 (nh_count x) @
     [0, 0, 0, 0] @
     le_words 8 (nh_ids x) @
     le32 (grp_flags x) @
     [0, 0, 0, 0]"

definition dec_nhgroup :: "bytes \<Rightarrow> danos_nhgroup" where
  "dec_nhgroup bs =
     \<lparr>grp_id = rd64 0 bs,
      nh_count = rd32 8 bs,
      nh_ids = rd_words 8 64 (bslice 16 512 bs),
      grp_flags = rd32 528 bs\<rparr>"

lemma length_enc_nhgroup [simp, codec_simps]: "wf_nhgroup x \<Longrightarrow> length (enc_nhgroup x) = 536"
  by (simp add: enc_nhgroup_def wf_nhgroup_def)

lemma dec_enc_nhgroup [simp, codec_simps]: "wf_nhgroup x \<Longrightarrow> dec_nhgroup (enc_nhgroup x) = x"
  by (cases x) (simp add: enc_nhgroup_def dec_nhgroup_def wf_nhgroup_def codec_simps)

interpretation nhgroup_codec: struct_codec enc_nhgroup dec_nhgroup 536 wf_nhgroup
  by unfold_locales simp_all

subsection \<open>Route (\<^verbatim>\<open>danos_route_t\<close>, 56 bytes)\<close>

record danos_route =
  rt_vrf_id :: u32
  rt_prefix :: danos_ip_prefix
  protocol :: u32
  admin_distance :: u32
  rt_metric :: u32
  nhgroup_id :: u64
  rt_flags :: u32

definition wf_route :: "danos_route \<Rightarrow> bool" where
  "wf_route x \<longleftrightarrow> wf_ip_prefix (rt_prefix x)"

definition enc_route :: "danos_route \<Rightarrow> bytes" where
  "enc_route x =
     le32 (rt_vrf_id x) @
     enc_ip_prefix (rt_prefix x) @
     le32 (protocol x) @
     le32 (admin_distance x) @
     le32 (rt_metric x) @
     le64 (nhgroup_id x) @
     le32 (rt_flags x) @
     [0, 0, 0, 0]"

definition dec_route :: "bytes \<Rightarrow> danos_route" where
  "dec_route bs =
     \<lparr>rt_vrf_id = rd32 0 bs,
      rt_prefix = dec_ip_prefix (bslice 4 24 bs),
      protocol = rd32 28 bs,
      admin_distance = rd32 32 bs,
      rt_metric = rd32 36 bs,
      nhgroup_id = rd64 40 bs,
      rt_flags = rd32 48 bs\<rparr>"

lemma length_enc_route [simp, codec_simps]: "wf_route x \<Longrightarrow> length (enc_route x) = 56"
  by (simp add: enc_route_def wf_route_def)

lemma dec_enc_route [simp, codec_simps]: "wf_route x \<Longrightarrow> dec_route (enc_route x) = x"
  by (cases x) (simp add: enc_route_def dec_route_def wf_route_def codec_simps)

interpretation route_codec: struct_codec enc_route dec_route 56 wf_route
  by unfold_locales simp_all

subsection \<open>ACL match (\<^verbatim>\<open>danos_acl_match_t\<close>, 84 bytes)\<close>

record danos_acl_match =
  fields_mask :: u32
  ether_type :: u16
  src_mac :: bytes
  dst_mac :: bytes
  acl_vlan_id :: u32
  src_ip :: danos_ip_prefix
  dst_ip :: danos_ip_prefix
  l4_proto :: u8
  l4_src_port_start :: u16
  l4_src_port_end :: u16
  l4_dst_port_start :: u16
  l4_dst_port_end :: u16
  acl_dscp :: u8

definition wf_acl_match :: "danos_acl_match \<Rightarrow> bool" where
  "wf_acl_match x \<longleftrightarrow> length (src_mac x) = 6 \<and> length (dst_mac x) = 6 \<and> wf_ip_prefix (src_ip x) \<and> wf_ip_prefix (dst_ip x)"

definition enc_acl_match :: "danos_acl_match \<Rightarrow> bytes" where
  "enc_acl_match x =
     le32 (fields_mask x) @
     le16 (ether_type x) @
     src_mac x @
     dst_mac x @
     [0, 0] @
     le32 (acl_vlan_id x) @
     enc_ip_prefix (src_ip x) @
     enc_ip_prefix (dst_ip x) @
     [l4_proto x] @
     [0] @
     le16 (l4_src_port_start x) @
     le16 (l4_src_port_end x) @
     le16 (l4_dst_port_start x) @
     le16 (l4_dst_port_end x) @
     [acl_dscp x] @
     [0]"

definition dec_acl_match :: "bytes \<Rightarrow> danos_acl_match" where
  "dec_acl_match bs =
     \<lparr>fields_mask = rd32 0 bs,
      ether_type = rd16 4 bs,
      src_mac = bslice 6 6 bs,
      dst_mac = bslice 12 6 bs,
      acl_vlan_id = rd32 20 bs,
      src_ip = dec_ip_prefix (bslice 24 24 bs),
      dst_ip = dec_ip_prefix (bslice 48 24 bs),
      l4_proto = rd8 72 bs,
      l4_src_port_start = rd16 74 bs,
      l4_src_port_end = rd16 76 bs,
      l4_dst_port_start = rd16 78 bs,
      l4_dst_port_end = rd16 80 bs,
      acl_dscp = rd8 82 bs\<rparr>"

lemma length_enc_acl_match [simp, codec_simps]: "wf_acl_match x \<Longrightarrow> length (enc_acl_match x) = 84"
  by (simp add: enc_acl_match_def wf_acl_match_def)

lemma dec_enc_acl_match [simp, codec_simps]: "wf_acl_match x \<Longrightarrow> dec_acl_match (enc_acl_match x) = x"
  by (cases x) (simp add: enc_acl_match_def dec_acl_match_def wf_acl_match_def codec_simps)

interpretation acl_match_codec: struct_codec enc_acl_match dec_acl_match 84 wf_acl_match
  by unfold_locales simp_all

subsection \<open>ACL action (\<^verbatim>\<open>danos_acl_action_params_t\<close>, 16 bytes)\<close>

record danos_acl_action_params =
  acl_action :: u32
  redirect_ifindex :: u32
  police_rate_kbps :: u32
  set_dscp :: u8

definition wf_acl_action_params :: "danos_acl_action_params \<Rightarrow> bool" where
  "wf_acl_action_params x \<longleftrightarrow> True"

definition enc_acl_action_params :: "danos_acl_action_params \<Rightarrow> bytes" where
  "enc_acl_action_params x =
     le32 (acl_action x) @
     le32 (redirect_ifindex x) @
     le32 (police_rate_kbps x) @
     [set_dscp x] @
     [0, 0, 0]"

definition dec_acl_action_params :: "bytes \<Rightarrow> danos_acl_action_params" where
  "dec_acl_action_params bs =
     \<lparr>acl_action = rd32 0 bs,
      redirect_ifindex = rd32 4 bs,
      police_rate_kbps = rd32 8 bs,
      set_dscp = rd8 12 bs\<rparr>"

lemma length_enc_acl_action_params [simp, codec_simps]: "wf_acl_action_params x \<Longrightarrow> length (enc_acl_action_params x) = 16"
  by (simp add: enc_acl_action_params_def wf_acl_action_params_def)

lemma dec_enc_acl_action_params [simp, codec_simps]: "wf_acl_action_params x \<Longrightarrow> dec_acl_action_params (enc_acl_action_params x) = x"
  by (cases x) (simp add: enc_acl_action_params_def dec_acl_action_params_def wf_acl_action_params_def codec_simps)

interpretation acl_action_params_codec: struct_codec enc_acl_action_params dec_acl_action_params 16 wf_acl_action_params
  by unfold_locales simp_all

subsection \<open>ACL rule (\<^verbatim>\<open>danos_acl_rule_t\<close>, 112 bytes)\<close>

record danos_acl_rule =
  rule_id :: u64
  rule_priority :: u32
  rule_match :: danos_acl_match
  rule_act :: danos_acl_action_params

definition wf_acl_rule :: "danos_acl_rule \<Rightarrow> bool" where
  "wf_acl_rule x \<longleftrightarrow> wf_acl_match (rule_match x) \<and> wf_acl_action_params (rule_act x)"

definition enc_acl_rule :: "danos_acl_rule \<Rightarrow> bytes" where
  "enc_acl_rule x =
     le64 (rule_id x) @
     le32 (rule_priority x) @
     enc_acl_match (rule_match x) @
     enc_acl_action_params (rule_act x)"

definition dec_acl_rule :: "bytes \<Rightarrow> danos_acl_rule" where
  "dec_acl_rule bs =
     \<lparr>rule_id = rd64 0 bs,
      rule_priority = rd32 8 bs,
      rule_match = dec_acl_match (bslice 12 84 bs),
      rule_act = dec_acl_action_params (bslice 96 16 bs)\<rparr>"

lemma length_enc_acl_rule [simp, codec_simps]: "wf_acl_rule x \<Longrightarrow> length (enc_acl_rule x) = 112"
  by (simp add: enc_acl_rule_def wf_acl_rule_def)

lemma dec_enc_acl_rule [simp, codec_simps]: "wf_acl_rule x \<Longrightarrow> dec_acl_rule (enc_acl_rule x) = x"
  by (cases x) (simp add: enc_acl_rule_def dec_acl_rule_def wf_acl_rule_def codec_simps)

interpretation acl_rule_codec: struct_codec enc_acl_rule dec_acl_rule 112 wf_acl_rule
  by unfold_locales simp_all

subsection \<open>ACL table (\<^verbatim>\<open>danos_acl_table_t\<close>, 80 bytes)\<close>

record danos_acl_table =
  table_id :: u64
  tbl_name :: bytes
  bind_ifindex :: u32
  tbl_ingress :: bool

definition wf_acl_table :: "danos_acl_table \<Rightarrow> bool" where
  "wf_acl_table x \<longleftrightarrow> length (tbl_name x) = 64"

definition enc_acl_table :: "danos_acl_table \<Rightarrow> bytes" where
  "enc_acl_table x =
     le64 (table_id x) @
     tbl_name x @
     le32 (bind_ifindex x) @
     [of_bool (tbl_ingress x)] @
     [0, 0, 0]"

definition dec_acl_table :: "bytes \<Rightarrow> danos_acl_table" where
  "dec_acl_table bs =
     \<lparr>table_id = rd64 0 bs,
      tbl_name = bslice 8 64 bs,
      bind_ifindex = rd32 72 bs,
      tbl_ingress = (rd8 76 bs \<noteq> 0)\<rparr>"

lemma length_enc_acl_table [simp, codec_simps]: "wf_acl_table x \<Longrightarrow> length (enc_acl_table x) = 80"
  by (simp add: enc_acl_table_def wf_acl_table_def)

lemma dec_enc_acl_table [simp, codec_simps]: "wf_acl_table x \<Longrightarrow> dec_acl_table (enc_acl_table x) = x"
  by (cases x) (simp add: enc_acl_table_def dec_acl_table_def wf_acl_table_def codec_simps)

interpretation acl_table_codec: struct_codec enc_acl_table dec_acl_table 80 wf_acl_table
  by unfold_locales simp_all

subsection \<open>QoS policy (\<^verbatim>\<open>danos_qos_policy_t\<close>, 112 bytes)\<close>

record danos_qos_policy =
  policy_id :: u64
  qos_name :: bytes
  cir_bps :: u64
  cb_bytes :: u64
  pir_bps :: u64
  pb_bytes :: u64
  conform_dscp :: u8
  exceed_dscp :: u8
  violate_dscp :: u8

definition wf_qos_policy :: "danos_qos_policy \<Rightarrow> bool" where
  "wf_qos_policy x \<longleftrightarrow> length (qos_name x) = 64"

definition enc_qos_policy :: "danos_qos_policy \<Rightarrow> bytes" where
  "enc_qos_policy x =
     le64 (policy_id x) @
     qos_name x @
     le64 (cir_bps x) @
     le64 (cb_bytes x) @
     le64 (pir_bps x) @
     le64 (pb_bytes x) @
     [conform_dscp x] @
     [exceed_dscp x] @
     [violate_dscp x] @
     [0, 0, 0, 0, 0]"

definition dec_qos_policy :: "bytes \<Rightarrow> danos_qos_policy" where
  "dec_qos_policy bs =
     \<lparr>policy_id = rd64 0 bs,
      qos_name = bslice 8 64 bs,
      cir_bps = rd64 72 bs,
      cb_bytes = rd64 80 bs,
      pir_bps = rd64 88 bs,
      pb_bytes = rd64 96 bs,
      conform_dscp = rd8 104 bs,
      exceed_dscp = rd8 105 bs,
      violate_dscp = rd8 106 bs\<rparr>"

lemma length_enc_qos_policy [simp, codec_simps]: "wf_qos_policy x \<Longrightarrow> length (enc_qos_policy x) = 112"
  by (simp add: enc_qos_policy_def wf_qos_policy_def)

lemma dec_enc_qos_policy [simp, codec_simps]: "wf_qos_policy x \<Longrightarrow> dec_qos_policy (enc_qos_policy x) = x"
  by (cases x) (simp add: enc_qos_policy_def dec_qos_policy_def wf_qos_policy_def codec_simps)

interpretation qos_policy_codec: struct_codec enc_qos_policy dec_qos_policy 112 wf_qos_policy
  by unfold_locales simp_all

subsection \<open>QoS binding (\<^verbatim>\<open>danos_qos_bind_rec_t\<close>, 16 bytes)\<close>

record danos_qos_bind_rec =
  bind_policy_id :: u64
  bind_rec_ifindex :: u32
  bind_ingress :: bool

definition wf_qos_bind_rec :: "danos_qos_bind_rec \<Rightarrow> bool" where
  "wf_qos_bind_rec x \<longleftrightarrow> True"

definition enc_qos_bind_rec :: "danos_qos_bind_rec \<Rightarrow> bytes" where
  "enc_qos_bind_rec x =
     le64 (bind_policy_id x) @
     le32 (bind_rec_ifindex x) @
     [of_bool (bind_ingress x)] @
     [0, 0, 0]"

definition dec_qos_bind_rec :: "bytes \<Rightarrow> danos_qos_bind_rec" where
  "dec_qos_bind_rec bs =
     \<lparr>bind_policy_id = rd64 0 bs,
      bind_rec_ifindex = rd32 8 bs,
      bind_ingress = (rd8 12 bs \<noteq> 0)\<rparr>"

lemma length_enc_qos_bind_rec [simp, codec_simps]: "wf_qos_bind_rec x \<Longrightarrow> length (enc_qos_bind_rec x) = 16"
  by (simp add: enc_qos_bind_rec_def wf_qos_bind_rec_def)

lemma dec_enc_qos_bind_rec [simp, codec_simps]: "wf_qos_bind_rec x \<Longrightarrow> dec_qos_bind_rec (enc_qos_bind_rec x) = x"
  by (cases x) (simp add: enc_qos_bind_rec_def dec_qos_bind_rec_def wf_qos_bind_rec_def codec_simps)

interpretation qos_bind_rec_codec: struct_codec enc_qos_bind_rec dec_qos_bind_rec 16 wf_qos_bind_rec
  by unfold_locales simp_all

subsection \<open>MPLS LSP (\<^verbatim>\<open>danos_mpls_lsp_t\<close>, 32 bytes)\<close>

record danos_mpls_lsp =
  in_label :: u32
  lsp_type :: u32
  lsp_nhgroup_id :: u64
  php :: bool
  push_label_count :: u8
  push_labels :: "u32 list"

definition wf_mpls_lsp :: "danos_mpls_lsp \<Rightarrow> bool" where
  "wf_mpls_lsp x \<longleftrightarrow> length (push_labels x) = 3"

definition enc_mpls_lsp :: "danos_mpls_lsp \<Rightarrow> bytes" where
  "enc_mpls_lsp x =
     le32 (in_label x) @
     le32 (lsp_type x) @
     le64 (lsp_nhgroup_id x) @
     [of_bool (php x)] @
     [push_label_count x] @
     [0, 0] @
     le_words 4 (push_labels x)"

definition dec_mpls_lsp :: "bytes \<Rightarrow> danos_mpls_lsp" where
  "dec_mpls_lsp bs =
     \<lparr>in_label = rd32 0 bs,
      lsp_type = rd32 4 bs,
      lsp_nhgroup_id = rd64 8 bs,
      php = (rd8 16 bs \<noteq> 0),
      push_label_count = rd8 17 bs,
      push_labels = rd_words 4 3 (bslice 20 12 bs)\<rparr>"

lemma length_enc_mpls_lsp [simp, codec_simps]: "wf_mpls_lsp x \<Longrightarrow> length (enc_mpls_lsp x) = 32"
  by (simp add: enc_mpls_lsp_def wf_mpls_lsp_def)

lemma dec_enc_mpls_lsp [simp, codec_simps]: "wf_mpls_lsp x \<Longrightarrow> dec_mpls_lsp (enc_mpls_lsp x) = x"
  by (cases x) (simp add: enc_mpls_lsp_def dec_mpls_lsp_def wf_mpls_lsp_def codec_simps)

interpretation mpls_lsp_codec: struct_codec enc_mpls_lsp dec_mpls_lsp 32 wf_mpls_lsp
  by unfold_locales simp_all

subsection \<open>Tunnel (\<^verbatim>\<open>danos_tunnel_t\<close>, 64 bytes)\<close>

record danos_tunnel =
  tun_id :: u64
  tun_type :: u32
  tun_ifindex :: u32
  tun_src :: danos_ip_addr
  tun_dst :: danos_ip_addr
  tun_vni :: u32
  gre_key :: u32

definition wf_tunnel :: "danos_tunnel \<Rightarrow> bool" where
  "wf_tunnel x \<longleftrightarrow> wf_ip_addr (tun_src x) \<and> wf_ip_addr (tun_dst x)"

definition enc_tunnel :: "danos_tunnel \<Rightarrow> bytes" where
  "enc_tunnel x =
     le64 (tun_id x) @
     le32 (tun_type x) @
     le32 (tun_ifindex x) @
     enc_ip_addr (tun_src x) @
     enc_ip_addr (tun_dst x) @
     le32 (tun_vni x) @
     le32 (gre_key x)"

definition dec_tunnel :: "bytes \<Rightarrow> danos_tunnel" where
  "dec_tunnel bs =
     \<lparr>tun_id = rd64 0 bs,
      tun_type = rd32 8 bs,
      tun_ifindex = rd32 12 bs,
      tun_src = dec_ip_addr (bslice 16 20 bs),
      tun_dst = dec_ip_addr (bslice 36 20 bs),
      tun_vni = rd32 56 bs,
      gre_key = rd32 60 bs\<rparr>"

lemma length_enc_tunnel [simp, codec_simps]: "wf_tunnel x \<Longrightarrow> length (enc_tunnel x) = 64"
  by (simp add: enc_tunnel_def wf_tunnel_def)

lemma dec_enc_tunnel [simp, codec_simps]: "wf_tunnel x \<Longrightarrow> dec_tunnel (enc_tunnel x) = x"
  by (cases x) (simp add: enc_tunnel_def dec_tunnel_def wf_tunnel_def codec_simps)

interpretation tunnel_codec: struct_codec enc_tunnel dec_tunnel 64 wf_tunnel
  by unfold_locales simp_all

subsection \<open>EVPN instance (\<^verbatim>\<open>danos_evpn_evi_t\<close>, 72 bytes)\<close>

record danos_evpn_evi =
  evi :: u32
  rd :: danos_ip_addr
  rt_import :: danos_ip_addr
  rt_export :: danos_ip_addr
  evpn_vni :: u32
  irb :: bool

definition wf_evpn_evi :: "danos_evpn_evi \<Rightarrow> bool" where
  "wf_evpn_evi x \<longleftrightarrow> wf_ip_addr (rd x) \<and> wf_ip_addr (rt_import x) \<and> wf_ip_addr (rt_export x)"

definition enc_evpn_evi :: "danos_evpn_evi \<Rightarrow> bytes" where
  "enc_evpn_evi x =
     le32 (evi x) @
     enc_ip_addr (rd x) @
     enc_ip_addr (rt_import x) @
     enc_ip_addr (rt_export x) @
     le32 (evpn_vni x) @
     [of_bool (irb x)] @
     [0, 0, 0]"

definition dec_evpn_evi :: "bytes \<Rightarrow> danos_evpn_evi" where
  "dec_evpn_evi bs =
     \<lparr>evi = rd32 0 bs,
      rd = dec_ip_addr (bslice 4 20 bs),
      rt_import = dec_ip_addr (bslice 24 20 bs),
      rt_export = dec_ip_addr (bslice 44 20 bs),
      evpn_vni = rd32 64 bs,
      irb = (rd8 68 bs \<noteq> 0)\<rparr>"

lemma length_enc_evpn_evi [simp, codec_simps]: "wf_evpn_evi x \<Longrightarrow> length (enc_evpn_evi x) = 72"
  by (simp add: enc_evpn_evi_def wf_evpn_evi_def)

lemma dec_enc_evpn_evi [simp, codec_simps]: "wf_evpn_evi x \<Longrightarrow> dec_evpn_evi (enc_evpn_evi x) = x"
  by (cases x) (simp add: enc_evpn_evi_def dec_evpn_evi_def wf_evpn_evi_def codec_simps)

interpretation evpn_evi_codec: struct_codec enc_evpn_evi dec_evpn_evi 72 wf_evpn_evi
  by unfold_locales simp_all

subsection \<open>Multicast route (\<^verbatim>\<open>danos_mroute_t\<close>, 320 bytes)\<close>

record danos_mroute =
  mr_vrf_id :: u32
  mr_source :: danos_ip_addr
  mr_group :: danos_ip_addr
  incoming_if :: u64
  oif_count :: u32
  oif_list :: "u32 list"

definition wf_mroute :: "danos_mroute \<Rightarrow> bool" where
  "wf_mroute x \<longleftrightarrow> wf_ip_addr (mr_source x) \<and> wf_ip_addr (mr_group x) \<and> length (oif_list x) = 64"

definition enc_mroute :: "danos_mroute \<Rightarrow> bytes" where
  "enc_mroute x =
     le32 (mr_vrf_id x) @
     enc_ip_addr (mr_source x) @
     enc_ip_addr (mr_group x) @
     [0, 0, 0, 0] @
     le64 (incoming_if x) @
     le32 (oif_count x) @
     le_words 4 (oif_list x) @
     [0, 0, 0, 0]"

definition dec_mroute :: "bytes \<Rightarrow> danos_mroute" where
  "dec_mroute bs =
     \<lparr>mr_vrf_id = rd32 0 bs,
      mr_source = dec_ip_addr (bslice 4 20 bs),
      mr_group = dec_ip_addr (bslice 24 20 bs),
      incoming_if = rd64 48 bs,
      oif_count = rd32 56 bs,
      oif_list = rd_words 4 64 (bslice 60 256 bs)\<rparr>"

lemma length_enc_mroute [simp, codec_simps]: "wf_mroute x \<Longrightarrow> length (enc_mroute x) = 320"
  by (simp add: enc_mroute_def wf_mroute_def)

lemma dec_enc_mroute [simp, codec_simps]: "wf_mroute x \<Longrightarrow> dec_mroute (enc_mroute x) = x"
  by (cases x) (simp add: enc_mroute_def dec_mroute_def wf_mroute_def codec_simps)

interpretation mroute_codec: struct_codec enc_mroute dec_mroute 320 wf_mroute
  by unfold_locales simp_all

subsection \<open>BFD session (\<^verbatim>\<open>danos_bfd_t\<close>, 48 bytes)\<close>

record danos_bfd =
  bfd_id :: u64
  bfd_remote :: danos_ip_addr
  bfd_ifindex :: u32
  desired_tx_ms :: u32
  required_rx_ms :: u32
  detect_mult :: u32
  bfd_admin_up :: bool
  session_up :: bool

definition wf_bfd :: "danos_bfd \<Rightarrow> bool" where
  "wf_bfd x \<longleftrightarrow> wf_ip_addr (bfd_remote x)"

definition enc_bfd :: "danos_bfd \<Rightarrow> bytes" where
  "enc_bfd x =
     le64 (bfd_id x) @
     enc_ip_addr (bfd_remote x) @
     le32 (bfd_ifindex x) @
     le32 (desired_tx_ms x) @
     le32 (required_rx_ms x) @
     le32 (detect_mult x) @
     [of_bool (bfd_admin_up x)] @
     [of_bool (session_up x)] @
     [0, 0]"

definition dec_bfd :: "bytes \<Rightarrow> danos_bfd" where
  "dec_bfd bs =
     \<lparr>bfd_id = rd64 0 bs,
      bfd_remote = dec_ip_addr (bslice 8 20 bs),
      bfd_ifindex = rd32 28 bs,
      desired_tx_ms = rd32 32 bs,
      required_rx_ms = rd32 36 bs,
      detect_mult = rd32 40 bs,
      bfd_admin_up = (rd8 44 bs \<noteq> 0),
      session_up = (rd8 45 bs \<noteq> 0)\<rparr>"

lemma length_enc_bfd [simp, codec_simps]: "wf_bfd x \<Longrightarrow> length (enc_bfd x) = 48"
  by (simp add: enc_bfd_def wf_bfd_def)

lemma dec_enc_bfd [simp, codec_simps]: "wf_bfd x \<Longrightarrow> dec_bfd (enc_bfd x) = x"
  by (cases x) (simp add: enc_bfd_def dec_bfd_def wf_bfd_def codec_simps)

interpretation bfd_codec: struct_codec enc_bfd dec_bfd 48 wf_bfd
  by unfold_locales simp_all

end
