(* ===== verification/Object_Registry.thy ===== *)
theory Object_Registry
  imports Dpa_Structs
begin

text \<open>
  The object store of \<^verbatim>\<open>danos-core/src/object/object_registry.c\<close>: a hash table of chains
  keyed by (type, oid). This theory has the table itself and the operations that only read
  it; the mutating API functions, which also run the persistence, dirty-flag and event
  hooks, are in \<open>Core_State\<close> and use the chain operations defined here. The store is
  shown to be a finite map from keys to blobs: \<open>store_map\<close> abstracts a table to a map and
  \<open>kv_store\<close> is the interface its clients rely on.
\<close>

subsection \<open>Data\<close>

record object_entry =
  ent_type :: danos_obj_type
  ent_id :: u64
  ent_data :: bytes

record object_store =
  buckets :: "object_entry list list"
  obj_count :: u64

definition ent_key :: "object_entry \<Rightarrow> obj_key" where
  "ent_key e = (ent_type e, ent_id e)"

definition danos_obj_hash :: "danos_obj_type \<Rightarrow> u64 \<Rightarrow> nat \<Rightarrow> nat" where
  "danos_obj_hash type oid bucket_count =
     unat ((ucast (obj_type_code type) :: u64) * 2654435761 + oid) mod bucket_count"

definition DEFAULT_BUCKET_COUNT :: nat where "DEFAULT_BUCKET_COUNT = 1024"

definition object_store_new :: "nat \<Rightarrow> object_store" where
  "object_store_new bucket_count =
     \<lparr>buckets = replicate (if bucket_count = 0 then DEFAULT_BUCKET_COUNT else bucket_count) [],
      obj_count = 0\<rparr>"

subsection \<open>Chains\<close>

definition find_entry :: "object_store \<Rightarrow> danos_obj_type \<Rightarrow> u64 \<Rightarrow> object_entry option" where
  "find_entry s type oid =
     find (\<lambda>e. ent_type e = type \<and> ent_id e = oid)
       (buckets s ! danos_obj_hash type oid (length (buckets s)))"

definition object_link :: "object_store \<Rightarrow> object_entry \<Rightarrow> object_store" where
  "object_link s e =
     (let h = danos_obj_hash (ent_type e) (ent_id e) (length (buckets s))
      in s\<lparr>buckets := (buckets s)[h := e # buckets s ! h], obj_count := obj_count s + 1\<rparr>)"

fun chain_set :: "object_entry list \<Rightarrow> obj_key \<Rightarrow> bytes \<Rightarrow> object_entry list" where
  "chain_set [] k d = []"
| "chain_set (e # es) k d =
     (if ent_key e = k then e\<lparr>ent_data := d\<rparr> # es else e # chain_set es k d)"

definition object_set_data :: "object_store \<Rightarrow> danos_obj_type \<Rightarrow> u64 \<Rightarrow> bytes \<Rightarrow> object_store" where
  "object_set_data s type oid d =
     (let h = danos_obj_hash type oid (length (buckets s))
      in s\<lparr>buckets := (buckets s)[h := chain_set (buckets s ! h) (type, oid) d]\<rparr>)"

fun chain_unlink :: "object_entry list \<Rightarrow> obj_key \<Rightarrow> object_entry list" where
  "chain_unlink [] k = []"
| "chain_unlink (e # es) k = (if ent_key e = k then es else e # chain_unlink es k)"

definition object_unlink :: "object_store \<Rightarrow> danos_obj_type \<Rightarrow> u64 \<Rightarrow> object_store" where
  "object_unlink s type oid =
     (let h = danos_obj_hash type oid (length (buckets s))
      in s\<lparr>buckets := (buckets s)[h := chain_unlink (buckets s ! h) (type, oid)],
           obj_count := obj_count s - 1\<rparr>)"

subsection \<open>Operations that only read\<close>

text \<open>
  \<^verbatim>\<open>danos_object_read\<close>: the store (or NULL), the key, whether \<^verbatim>\<open>out\<close> is a buffer, and
  the value of \<^verbatim>\<open>*out_size\<close> (or a NULL pointer). The result is the status, the bytes
  copied to the buffer and the new \<^verbatim>\<open>*out_size\<close>.
\<close>

definition danos_object_read ::
  "object_store option \<Rightarrow> danos_obj_type \<Rightarrow> u64 \<Rightarrow> bool \<Rightarrow> nat option
     \<Rightarrow> danos_status \<times> bytes option \<times> nat option" where
  "danos_object_read so type oid has_out out_size =
     (case (so, out_size) of
        (Some s, Some n) \<Rightarrow>
          (case find_entry s type oid of
             None \<Rightarrow> (ERR_NOT_FOUND, None, Some n)
           | Some e \<Rightarrow>
               (if \<not> has_out then (ERR_INVALID_ARG, None, Some (length (ent_data e)))
                else if n < length (ent_data e) then (ERR_INVALID_ARG, None, Some (length (ent_data e)))
                else (DANOS_OK, Some (ent_data e), Some (length (ent_data e)))))
      | _ \<Rightarrow> (ERR_INVALID_ARG, None, out_size))"

definition entries :: "object_store \<Rightarrow> object_entry list" where
  "entries s = concat (buckets s)"

fun count_chain :: "object_entry list \<Rightarrow> danos_obj_type \<Rightarrow> u64 \<Rightarrow> u64" where
  "count_chain [] type cnt = cnt"
| "count_chain (e # es) type cnt =
     count_chain es type (if ent_type e = type then cnt + 1 else cnt)"

definition danos_object_count :: "object_store option \<Rightarrow> danos_obj_type \<Rightarrow> u64" where
  "danos_object_count so type =
     (case so of None \<Rightarrow> 0
      | Some s \<Rightarrow> fold (\<lambda>b cnt. count_chain b type cnt) (buckets s) 0)"

text \<open>The walk hands the entries to the callback bucket by bucket, each chain from its head.\<close>

definition danos_object_iterate ::
  "object_store option \<Rightarrow> (object_entry \<Rightarrow> 'u \<Rightarrow> 'u) \<Rightarrow> 'u \<Rightarrow> 'u" where
  "danos_object_iterate so cb user =
     (case so of None \<Rightarrow> user
      | Some s \<Rightarrow> fold (\<lambda>b u. fold cb b u) (buckets s) user)"

subsection \<open>The invariant of a table\<close>

definition store_wf :: "object_store \<Rightarrow> bool" where
  "store_wf s \<longleftrightarrow>
     buckets s \<noteq> [] \<and>
     (\<forall>h < length (buckets s). \<forall>e \<in> set (buckets s ! h).
        danos_obj_hash (ent_type e) (ent_id e) (length (buckets s)) = h) \<and>
     (\<forall>b \<in> set (buckets s). distinct (map ent_key b)) \<and>
     obj_count s = of_nat (length (entries s)) \<and>
     (\<forall>e \<in> set (entries s). ent_data e \<noteq> [])"

definition store_map :: "object_store \<Rightarrow> obj_key \<Rightarrow> bytes option" where
  "store_map s k = map_option ent_data (find_entry s (fst k) (snd k))"

subsection \<open>Lemmas on chains and buckets\<close>

lemma ent_key_eq: "(ent_type e = t \<and> ent_id e = i) = (ent_key e = (t, i))"
  by (auto simp: ent_key_def)

lemma hash_lt [simp]: "0 < n \<Longrightarrow> danos_obj_hash t i n < n"
  by (simp add: danos_obj_hash_def)

lemma find_chain_set:
  "find (\<lambda>e. ent_key e = k') (chain_set b k d) =
     (if k' = k then map_option (\<lambda>e. e\<lparr>ent_data := d\<rparr>) (find (\<lambda>e. ent_key e = k) b)
      else find (\<lambda>e. ent_key e = k') b)"
  by (induction b) (auto simp: ent_key_def)

lemma find_chain_unlink:
  "distinct (map ent_key b) \<Longrightarrow>
   find (\<lambda>e. ent_key e = k') (chain_unlink b k) =
     (if k' = k then None else find (\<lambda>e. ent_key e = k') b)"
proof (induction b)
  case Nil
  then show ?case by simp
next
  case (Cons e b)
  then have "\<forall>x \<in> set b. ent_key x \<noteq> ent_key e" by (force simp: image_iff)
  then have "find (\<lambda>x. ent_key x = ent_key e) b = None"
    by (simp add: find_None_iff)
  with Cons show ?case by (cases "ent_key e = k") auto
qed

lemma find_distinct_key:
  "distinct (map f b) \<Longrightarrow> e \<in> set b \<Longrightarrow> find (\<lambda>x. f x = f e) b = Some e"
  by (induction b) (auto simp: image_iff)

lemma map_key_chain_set [simp]: "map ent_key (chain_set b k d) = map ent_key b"
  by (induction b) (auto simp: ent_key_def)

lemma set_chain_unlink: "set (chain_unlink b k) \<subseteq> set b"
  by (induction b) auto

lemma distinct_chain_unlink:
  "distinct (map ent_key b) \<Longrightarrow> distinct (map ent_key (chain_unlink b k))"
proof (induction b)
  case Nil
  then show ?case by simp
next
  case (Cons e b)
  then show ?case using set_chain_unlink [of b k] by (auto simp: image_iff)
qed

lemma length_chain_set [simp]: "length (chain_set b k d) = length b"
  by (induction b) auto

lemma length_chain_unlink:
  "k \<in> ent_key ` set b \<Longrightarrow> Suc (length (chain_unlink b k)) = length b"
  by (induction b) auto

lemma set_chain_set:
  "e \<in> set (chain_set b k d) \<Longrightarrow> \<exists>e' \<in> set b. ent_key e = ent_key e' \<and> (ent_data e = d \<or> e = e')"
  by (induction b) (auto simp: ent_key_def split: if_splits)

lemma find_entry_alt:
  "find_entry s t i =
     find (\<lambda>e. ent_key e = (t, i)) (buckets s ! danos_obj_hash t i (length (buckets s)))"
  by (simp add: find_entry_def ent_key_eq)

lemma find_entry_SomeD:
  "find_entry s t i = Some e \<Longrightarrow>
     ent_key e = (t, i) \<and> e \<in> set (buckets s ! danos_obj_hash t i (length (buckets s)))"
  by (auto simp: find_entry_alt find_Some_iff)

lemma find_entry_None:
  "find_entry s t i = None \<longleftrightarrow>
     (t, i) \<notin> ent_key ` set (buckets s ! danos_obj_hash t i (length (buckets s)))"
  by (auto simp: find_entry_alt find_None_iff image_iff)

lemma length_concat_update:
  "h < length xs \<Longrightarrow>
     length (concat (xs[h := b])) + length (xs ! h) = length (concat xs) + length b"
proof (induction xs arbitrary: h)
  case Nil
  then show ?case by simp
next
  case (Cons x xs)
  then show ?case by (cases h) auto
qed

lemma set_concat_update:
  "set (concat (xs[h := b])) \<subseteq> set (concat xs) \<union> set b"
  using set_update_subset_insert [of xs h b] by auto

subsection \<open>The invariant is kept\<close>

lemma store_wf_new [store_simps]: "store_wf (object_store_new n)"
  by (auto simp: store_wf_def object_store_new_def entries_def DEFAULT_BUCKET_COUNT_def)

lemma store_wf_buckets_pos: "store_wf s \<Longrightarrow> 0 < length (buckets s)"
  by (simp add: store_wf_def)

lemma nth_update_mem:
  "b \<in> set (xs[h := c]) \<Longrightarrow> b = c \<or> b \<in> set xs"
  using set_update_subset_insert [of xs h c] by blast

lemma store_wf_bucket:
  assumes wf: "store_wf s" and h: "h < length (buckets s)"
    and hash: "\<forall>e \<in> set b. danos_obj_hash (ent_type e) (ent_id e) (length (buckets s)) = h"
    and dist: "distinct (map ent_key b)"
    and data: "\<forall>e \<in> set b. ent_data e \<noteq> []"
    and cnt: "c = of_nat (length (concat ((buckets s)[h := b])))"
  shows "store_wf (s\<lparr>buckets := (buckets s)[h := b], obj_count := c\<rparr>)"
  unfolding store_wf_def
proof (intro conjI)
  let ?s = "s\<lparr>buckets := (buckets s)[h := b], obj_count := c\<rparr>"
  show "buckets ?s \<noteq> []" using wf by (simp add: store_wf_def)
  show "\<forall>h<length (buckets ?s). \<forall>e\<in>set (buckets ?s ! h).
      danos_obj_hash (ent_type e) (ent_id e) (length (buckets ?s)) = h"
    using wf hash h by (auto simp: store_wf_def nth_list_update split: if_splits)
  show "\<forall>b\<in>set (buckets ?s). distinct (map ent_key b)"
    using wf dist by (auto simp: store_wf_def dest!: nth_update_mem)
  show "obj_count ?s = of_nat (length (entries ?s))"
    using cnt by (simp add: entries_def)
  show "\<forall>e\<in>set (entries ?s). ent_data e \<noteq> []"
    using wf data set_concat_update [of "buckets s" h b] by (auto simp: store_wf_def entries_def)
qed

lemma store_wf_chain:
  assumes "store_wf s" and "h < length (buckets s)"
  shows "\<forall>e \<in> set (buckets s ! h). danos_obj_hash (ent_type e) (ent_id e) (length (buckets s)) = h"
    and "distinct (map ent_key (buckets s ! h))"
    and "\<forall>e \<in> set (buckets s ! h). ent_data e \<noteq> []"
  using assms nth_mem [OF assms(2)] by (auto simp: store_wf_def entries_def)

lemma object_link_wf [store_simps]:
  assumes wf: "store_wf s" and new: "find_entry s (ent_type e) (ent_id e) = None"
    and d: "ent_data e \<noteq> []"
  shows "store_wf (object_link s e)"
proof -
  let ?h = "danos_obj_hash (ent_type e) (ent_id e) (length (buckets s))"
  have h: "?h < length (buckets s)" using store_wf_buckets_pos [OF wf] by simp
  have "length (concat ((buckets s)[?h := e # buckets s ! ?h])) = Suc (length (concat (buckets s)))"
    using length_concat_update [OF h, of "e # buckets s ! ?h"] by simp
  then have cnt: "obj_count s + 1 = of_nat (length (concat ((buckets s)[?h := e # buckets s ! ?h])))"
    using wf by (simp add: store_wf_def entries_def)
  show ?thesis
    unfolding object_link_def Let_def
    by (rule store_wf_bucket [OF wf h _ _ _ cnt])
      (use store_wf_chain [OF wf h] new d in \<open>auto simp: find_entry_None ent_key_def\<close>)
qed

lemma object_set_data_wf [store_simps]:
  assumes wf: "store_wf s" and d: "d \<noteq> []"
  shows "store_wf (object_set_data s t i d)"
proof -
  let ?h = "danos_obj_hash t i (length (buckets s))"
  let ?b = "chain_set (buckets s ! ?h) (t, i) d"
  have h: "?h < length (buckets s)" using store_wf_buckets_pos [OF wf] by simp
  have cnt: "obj_count s = of_nat (length (concat ((buckets s)[?h := ?b])))"
    using length_concat_update [OF h, of ?b] wf by (simp add: store_wf_def entries_def)
  have "store_wf (s\<lparr>buckets := (buckets s)[?h := ?b], obj_count := obj_count s\<rparr>)"
    by (rule store_wf_bucket [OF wf h _ _ _ cnt])
      (use store_wf_chain [OF wf h] d in \<open>auto simp: ent_key_def dest!: set_chain_set\<close>)
  then show ?thesis by (simp add: object_set_data_def Let_def)
qed

lemma object_unlink_wf [store_simps]:
  assumes wf: "store_wf s" and e: "find_entry s t i = Some e"
  shows "store_wf (object_unlink s t i)"
proof -
  let ?h = "danos_obj_hash t i (length (buckets s))"
  let ?b = "chain_unlink (buckets s ! ?h) (t, i)"
  have h: "?h < length (buckets s)" using store_wf_buckets_pos [OF wf] by simp
  have "(t, i) \<in> ent_key ` set (buckets s ! ?h)"
    using e by (metis find_entry_None option.distinct(1))
  then have "Suc (length (concat ((buckets s)[?h := ?b]))) = length (concat (buckets s))"
    using length_concat_update [OF h, of ?b] length_chain_unlink [of "(t, i)" "buckets s ! ?h"]
    by linarith
  then have cnt: "obj_count s - 1 = of_nat (length (concat ((buckets s)[?h := ?b])))"
    using wf unfolding store_wf_def entries_def by (metis add_diff_cancel_left' of_nat_Suc)
  show ?thesis
    unfolding object_unlink_def Let_def
    by (rule store_wf_bucket [OF wf h _ _ _ cnt])
      (use store_wf_chain [OF wf h] set_chain_unlink [of "buckets s ! ?h" "(t, i)"]
        distinct_chain_unlink in \<open>auto\<close>)
qed

subsection \<open>The table is a map\<close>

lemma store_map_new [store_simps]: "store_map (object_store_new n) = Map.empty"
  by (rule ext) (simp add: store_map_def find_entry_def object_store_new_def
      DEFAULT_BUCKET_COUNT_def hash_lt)

lemma buckets_update_find:
  assumes "h < length (buckets s)" and "danos_obj_hash t i (length (buckets s)) \<noteq> h"
  shows "find_entry (s\<lparr>buckets := (buckets s)[h := b], obj_count := c\<rparr>) t i = find_entry s t i"
  using assms by (simp add: find_entry_def)

lemma store_map_link [store_simps]:
  assumes "store_wf s"
  shows "store_map (object_link s e) = (store_map s)(ent_key e \<mapsto> ent_data e)"
proof (rule ext)
  fix k :: obj_key
  obtain t i where k: "k = (t, i)" by (cases k)
  let ?n = "length (buckets s)"
  let ?h = "danos_obj_hash (ent_type e) (ent_id e) ?n"
  have h: "?h < ?n" using store_wf_buckets_pos [OF assms] by simp
  show "store_map (object_link s e) k = ((store_map s)(ent_key e \<mapsto> ent_data e)) k"
  proof (cases "danos_obj_hash t i ?n = ?h")
    case True
    have "find_entry (object_link s e) t i = (if ent_key e = k then Some e else find_entry s t i)"
      using h True by (simp add: find_entry_alt object_link_def Let_def k)
    then show ?thesis by (simp add: k store_map_def)
  next
    case False
    then have "ent_key e \<noteq> k" by (auto simp: k ent_key_def)
    with False h show ?thesis
      by (simp add: k store_map_def object_link_def Let_def buckets_update_find)
  qed
qed

lemma store_map_set_data [store_simps]:
  assumes "store_wf s"
  shows "store_map (object_set_data s t i d) =
    (if store_map s (t, i) = None then store_map s else (store_map s)((t, i) \<mapsto> d))"
proof (rule ext)
  fix k :: obj_key
  obtain t' i' where k: "k = (t', i')" by (cases k)
  let ?n = "length (buckets s)"
  let ?h = "danos_obj_hash t i ?n"
  have h: "?h < ?n" using store_wf_buckets_pos [OF assms] by simp
  show "store_map (object_set_data s t i d) k =
    (if store_map s (t, i) = None then store_map s else (store_map s)((t, i) \<mapsto> d)) k"
  proof (cases "danos_obj_hash t' i' ?n = ?h")
    case True
    then show ?thesis
      using h by (auto simp: k store_map_def find_entry_alt object_set_data_def Let_def find_chain_set)
  next
    case False
    then have "k \<noteq> (t, i)" by (auto simp: k)
    with False h show ?thesis
      by (auto simp: k store_map_def object_set_data_def Let_def find_entry_def)
  qed
qed

lemma store_map_unlink [store_simps]:
  assumes "store_wf s"
  shows "store_map (object_unlink s t i) = (store_map s)((t, i) := None)"
proof (rule ext)
  fix k :: obj_key
  obtain t' i' where k: "k = (t', i')" by (cases k)
  let ?n = "length (buckets s)"
  let ?h = "danos_obj_hash t i ?n"
  have h: "?h < ?n" using store_wf_buckets_pos [OF assms] by simp
  show "store_map (object_unlink s t i) k = ((store_map s)((t, i) := None)) k"
  proof (cases "danos_obj_hash t' i' ?n = ?h")
    case True
    then show ?thesis
      using h store_wf_chain(2) [OF assms h]
      by (auto simp: k store_map_def find_entry_alt object_unlink_def Let_def find_chain_unlink)
  next
    case False
    then have "k \<noteq> (t, i)" by (auto simp: k)
    with False h show ?thesis
      by (auto simp: k store_map_def object_unlink_def Let_def buckets_update_find)
  qed
qed

subsection \<open>Entries and the map\<close>

lemma find_entry_iff:
  assumes wf: "store_wf s"
  shows "find_entry s t i = Some e \<longleftrightarrow> e \<in> set (entries s) \<and> ent_key e = (t, i)"
proof
  assume "find_entry s t i = Some e"
  then show "e \<in> set (entries s) \<and> ent_key e = (t, i)"
    using find_entry_SomeD [of s t i e] hash_lt [OF store_wf_buckets_pos [OF wf], of t i]
    by (auto simp: entries_def intro: nth_mem)
next
  assume a: "e \<in> set (entries s) \<and> ent_key e = (t, i)"
  then obtain b where "b \<in> set (buckets s)" and "e \<in> set b"
    by (auto simp: entries_def)
  then obtain h where h: "h < length (buckets s)" and eb: "e \<in> set (buckets s ! h)"
    by (metis in_set_conv_nth)
  have h': "h = danos_obj_hash t i (length (buckets s))"
    using store_wf_chain(1) [OF wf h] eb a by (auto simp: ent_key_def)
  have "find (\<lambda>x. ent_key x = ent_key e) (buckets s ! h) = Some e"
    using store_wf_chain(2) [OF wf h] eb by (rule find_distinct_key)
  then show "find_entry s t i = Some e"
    using a h' by (simp add: find_entry_alt)
qed

lemma store_map_iff:
  "store_wf s \<Longrightarrow>
     store_map s k = Some d \<longleftrightarrow> (\<exists>e \<in> set (entries s). ent_key e = k \<and> ent_data e = d)"
  by (cases k) (auto simp: store_map_def find_entry_iff)

lemma dom_store_map: "store_wf s \<Longrightarrow> dom (store_map s) = ent_key ` set (entries s)"
  by (auto simp: dom_def store_map_iff image_iff) metis+

lemma store_map_nonempty: "store_wf s \<Longrightarrow> store_map s k = Some d \<Longrightarrow> d \<noteq> []"
  by (auto simp: store_map_iff store_wf_def)

lemma distinct_concat_keys:
  assumes "\<forall>h < length bs. \<forall>e \<in> set (bs ! h). danos_obj_hash (ent_type e) (ent_id e) n = h + off"
    and "\<forall>b \<in> set bs. distinct (map ent_key b)"
  shows "distinct (map ent_key (concat bs))"
  using assms
proof (induction bs arbitrary: off)
  case Nil
  then show ?case by simp
next
  case (Cons b bs)
  have tail: "\<forall>h < length bs. \<forall>e \<in> set (bs ! h). danos_obj_hash (ent_type e) (ent_id e) n = h + Suc off"
    using Cons.prems(1) by auto
  have late: "danos_obj_hash (ent_type e) (ent_id e) n \<noteq> off" if e: "e \<in> set (concat bs)" for e
  proof -
    obtain c where "c \<in> set bs" "e \<in> set c" using e by auto
    then obtain h where "h < length bs" "e \<in> set (bs ! h)" by (metis in_set_conv_nth)
    then show ?thesis using tail by auto
  qed
  have head: "\<forall>e \<in> set b. danos_obj_hash (ent_type e) (ent_id e) n = off"
    using Cons.prems(1) [rule_format, of 0] by simp
  have "ent_key ` set b \<inter> ent_key ` set (concat bs) = {}"
  proof (rule equals0I)
    fix k assume "k \<in> ent_key ` set b \<inter> ent_key ` set (concat bs)"
    then obtain e e' where "e \<in> set b" "e' \<in> set (concat bs)" "ent_key e = ent_key e'" by blast
    with late [of e'] head show False by (auto simp: ent_key_def)
  qed
  with Cons.IH [OF tail] Cons.prems(2) show ?case by simp
qed

lemma distinct_keys: "store_wf s \<Longrightarrow> distinct (map ent_key (entries s))"
  unfolding entries_def
  by (rule distinct_concat_keys [of _ "length (buckets s)" 0]) (auto simp: store_wf_def)

lemma find_entry_store_map:
  "(find_entry s t i = None) = (store_map s (t, i) = None)"
  by (simp add: store_map_def)

lemma bucket_of_entry:
  "store_wf s \<Longrightarrow> e \<in> set (entries s) \<Longrightarrow> find_entry s (ent_type e) (ent_id e) = Some e"
  by (simp add: find_entry_iff ent_key_def)

lemma danos_object_read_ok:
  assumes "store_map s (t, i) = Some d" and "length d \<le> n"
  shows "danos_object_read (Some s) t i True (Some n) = (DANOS_OK, Some d, Some (length d))"
  using assms by (auto simp: danos_object_read_def store_map_def)

lemma danos_object_read_status:
  "fst (danos_object_read (Some s) t i True (Some n)) = DANOS_OK \<longleftrightarrow>
     (\<exists>d. store_map s (t, i) = Some d \<and> length d \<le> n)"
  by (auto simp: danos_object_read_def store_map_def split: option.split)

lemma danos_object_read_cases:
  "danos_object_read (Some s) t i True (Some n) =
     (case store_map s (t, i) of
        None \<Rightarrow> (ERR_NOT_FOUND, None, Some n)
      | Some d \<Rightarrow>
          if length d \<le> n then (DANOS_OK, Some d, Some (length d))
          else (ERR_INVALID_ARG, None, Some (length d)))"
  by (auto simp: danos_object_read_def store_map_def split: option.split)

lemma danos_object_iterate_entries:
  "danos_object_iterate (Some s) cb u = fold cb (entries s) u"
proof -
  have "fold (\<lambda>b u. fold cb b u) bs u = fold cb (concat bs) u" for bs :: "object_entry list list" and u
    by (induction bs arbitrary: u) simp_all
  then show ?thesis by (simp add: danos_object_iterate_def entries_def)
qed

lemma count_chain_eq:
  "count_chain b t c = c + of_nat (length (filter (\<lambda>e. ent_type e = t) b))"
  by (induction b arbitrary: c) (auto simp: add.assoc)

lemma danos_object_count_entries:
  "danos_object_count (Some s) t = of_nat (length (filter (\<lambda>e. ent_type e = t) (entries s)))"
proof -
  have "fold (\<lambda>b c. count_chain b t c) bs c =
      c + of_nat (length (filter (\<lambda>e. ent_type e = t) (concat bs)))" for bs c
    by (induction bs arbitrary: c) (simp_all add: count_chain_eq add.assoc)
  then show ?thesis by (simp add: danos_object_count_def entries_def)
qed

subsection \<open>The interface its clients use\<close>

text \<open>
  A key-value store with separate operations for a new key, a present key and a removal,
  as the C API has them. \<open>good\<close> is the condition the store puts on values.
\<close>

locale kv_store =
  fixes lookup :: "'s \<Rightarrow> 'k \<Rightarrow> 'v option"
    and add_new :: "'s \<Rightarrow> 'k \<Rightarrow> 'v \<Rightarrow> 's"
    and overwrite :: "'s \<Rightarrow> 'k \<Rightarrow> 'v \<Rightarrow> 's"
    and remove :: "'s \<Rightarrow> 'k \<Rightarrow> 's"
    and inv :: "'s \<Rightarrow> bool"
    and good :: "'v \<Rightarrow> bool"
  assumes lookup_add_new:
      "inv s \<Longrightarrow> lookup s k = None \<Longrightarrow> good v \<Longrightarrow> lookup (add_new s k v) = (lookup s)(k \<mapsto> v)"
    and lookup_overwrite:
      "inv s \<Longrightarrow> lookup s k \<noteq> None \<Longrightarrow> good v \<Longrightarrow> lookup (overwrite s k v) = (lookup s)(k \<mapsto> v)"
    and lookup_remove:
      "inv s \<Longrightarrow> lookup s k \<noteq> None \<Longrightarrow> lookup (remove s k) = (lookup s)(k := None)"
    and inv_add_new: "inv s \<Longrightarrow> lookup s k = None \<Longrightarrow> good v \<Longrightarrow> inv (add_new s k v)"
    and inv_overwrite: "inv s \<Longrightarrow> lookup s k \<noteq> None \<Longrightarrow> good v \<Longrightarrow> inv (overwrite s k v)"
    and inv_remove: "inv s \<Longrightarrow> lookup s k \<noteq> None \<Longrightarrow> inv (remove s k)"
begin

text \<open>Create, or update when the key is there: what every write-through client does.\<close>

lemma upsert:
  fixes s :: 's and k :: 'k and v :: 'v
  assumes "inv s" and "good v"
  defines "s' \<equiv> if lookup s k = None then add_new s k v else overwrite s k v"
  shows "inv s'" and "lookup s' = (lookup s)(k \<mapsto> v)"
  using assms by (auto simp: lookup_add_new lookup_overwrite inv_add_new inv_overwrite)

text \<open>Delete, or nothing when the key is absent.\<close>

lemma discard:
  fixes s :: 's and k :: 'k
  assumes "inv s"
  defines "s' \<equiv> if lookup s k = None then s else remove s k"
  shows "inv s'" and "lookup s' = (lookup s)(k := None)"
  using assms by (auto simp: lookup_remove inv_remove)

end

definition mk_entry :: "obj_key \<Rightarrow> bytes \<Rightarrow> object_entry" where
  "mk_entry k d = \<lparr>ent_type = fst k, ent_id = snd k, ent_data = d\<rparr>"

lemma mk_entry_simps [simp]:
  "ent_type (mk_entry k d) = fst k" "ent_id (mk_entry k d) = snd k"
  "ent_data (mk_entry k d) = d" "ent_key (mk_entry k d) = k"
  by (simp_all add: mk_entry_def ent_key_def)

interpretation obj: kv_store store_map
  "\<lambda>s k d. object_link s (mk_entry k d)"
  "\<lambda>s k d. object_set_data s (fst k) (snd k) d"
  "\<lambda>s k. object_unlink s (fst k) (snd k)"
  store_wf "\<lambda>d. d \<noteq> []"
proof
  fix s :: object_store and k :: obj_key and d :: bytes
  assume wf: "store_wf s"
  { assume new: "store_map s k = None" and d: "d \<noteq> []"
    show "store_map (object_link s (mk_entry k d)) = (store_map s)(k \<mapsto> d)"
      using wf by (simp add: store_simps)
    show "store_wf (object_link s (mk_entry k d))"
      using wf new d by (intro object_link_wf) (simp_all add: find_entry_store_map) }
  { assume old: "store_map s k \<noteq> None" and d: "d \<noteq> []"
    show "store_map (object_set_data s (fst k) (snd k) d) = (store_map s)(k \<mapsto> d)"
      using wf old by (auto simp: store_map_set_data)
    show "store_wf (object_set_data s (fst k) (snd k) d)"
      using wf d by (rule object_set_data_wf) }
  { assume old: "store_map s k \<noteq> None"
    show "store_map (object_unlink s (fst k) (snd k)) = (store_map s)(k := None)"
      using wf by (simp add: store_map_unlink)
    from old obtain e where "find_entry s (fst k) (snd k) = Some e"
      by (auto simp: store_map_def)
    with wf show "store_wf (object_unlink s (fst k) (snd k))"
      by (rule object_unlink_wf) }
qed

end
