(* ===== verification/Wal.thy ===== *)
theory Wal
  imports Dpa_Structs
begin

text \<open>
  The write-ahead log of \<^verbatim>\<open>danos-core/src/wal/wal.c\<close>: the record format, the checksum,
  appending, checkpointing and replay. The file system is a parameter of the model: a map
  from paths to contents, the number of bytes the device still accepts (a full disk makes
  \<^verbatim>\<open>fwrite\<close> short), which paths can be opened and whether \<^verbatim>\<open>fsync\<close> succeeds.
  \<^verbatim>\<open>fwrite\<close> writes through: the stream buffer between an append and the sync that always
  follows it is not modelled; what a crash in between can leave, a cut record, is the
  subject of the torn-tail lemmas. The allocation that replay makes for each payload
  succeeds or fails as the parameter \<open>al\<close> says.
\<close>

subsection \<open>Checksum\<close>

definition crc_bit :: "u32 \<Rightarrow> u32" where
  "crc_bit c = drop_bit 1 c XOR (0xEDB88320 AND - (c AND 1))"

definition crc_byte :: "u8 \<Rightarrow> u32 \<Rightarrow> u32" where
  "crc_byte b c = (crc_bit ^^ 8) (c XOR ucast b)"

definition crc32_calc :: "bytes \<Rightarrow> u32" where
  "crc32_calc data = NOT (fold crc_byte data 0xFFFFFFFF)"

subsection \<open>Records\<close>

datatype wal_op = WAL_OP_CREATE | WAL_OP_UPDATE | WAL_OP_DELETE | WAL_OP_COMMIT | WAL_OP_ABORT

fun wal_op_code :: "wal_op \<Rightarrow> u8" where
  "wal_op_code WAL_OP_CREATE = 1"
| "wal_op_code WAL_OP_UPDATE = 2"
| "wal_op_code WAL_OP_DELETE = 3"
| "wal_op_code WAL_OP_COMMIT = 4"
| "wal_op_code WAL_OP_ABORT = 5"

record wal_record =
  wr_magic :: u32
  wr_tx_id :: u64
  wr_op_type :: u8
  wr_obj_type :: u16
  wr_obj_id :: u32
  wr_data_len :: u32
  wr_data :: "bytes option"

definition WAL_MAGIC :: u32 where "WAL_MAGIC = 0x444E4F53"
definition WAL_HEADER_SIZE :: nat where "WAL_HEADER_SIZE = 23"
definition WAL_MAX_DATA :: nat where "WAL_MAX_DATA = 1024 * 1024"

definition wal_header :: "wal_record \<Rightarrow> bytes" where
  "wal_header r =
     le32 WAL_MAGIC @ le64 (wr_tx_id r) @ [wr_op_type r] @ le16 (wr_obj_type r) @
     le32 (wr_obj_id r) @ le32 (wr_data_len r)"

definition wal_payload :: "wal_record \<Rightarrow> bytes" where
  "wal_payload r =
     (case wr_data r of
        Some d \<Rightarrow> if 0 < wr_data_len r then take (unat (wr_data_len r)) d else []
      | None \<Rightarrow> [])"

definition wal_crc :: "bytes \<Rightarrow> bytes \<Rightarrow> u32" where
  "wal_crc header payload =
     (if payload \<noteq> [] then crc32_calc payload XOR crc32_calc header else crc32_calc header)"

definition wal_record_bytes :: "wal_record \<Rightarrow> bytes" where
  "wal_record_bytes r =
     wal_header r @ wal_payload r @ le32 (wal_crc (wal_header r) (wal_payload r))"

subsection \<open>The file system and the context\<close>

record fsys =
  files :: "string \<Rightarrow> bytes option"
  room :: "nat option"
  openable :: "string \<Rightarrow> bool"
  fsync_ok :: bool

definition fwrite :: "fsys \<Rightarrow> string \<Rightarrow> bytes \<Rightarrow> nat \<times> fsys" where
  "fwrite fs p data =
     (let n = (case room fs of None \<Rightarrow> length data | Some r \<Rightarrow> min r (length data));
          old = (case files fs p of None \<Rightarrow> [] | Some c \<Rightarrow> c)
      in (n, fs\<lparr>files := (files fs)(p \<mapsto> old @ take n data),
              room := map_option (\<lambda>r. r - n) (room fs)\<rparr>))"

definition fopen_append :: "fsys \<Rightarrow> string \<Rightarrow> fsys option" where
  "fopen_append fs p =
     (if openable fs p
      then Some (fs\<lparr>files := (files fs)(p \<mapsto> (case files fs p of None \<Rightarrow> [] | Some c \<Rightarrow> c))\<rparr>)
      else None)"

record wal_ctx =
  wal_fp :: "string option"
  wal_path :: string
  wal_enabled :: bool
  records_written :: u64
  bytes_written :: u64

definition wal_ctx_zero :: wal_ctx where
  "wal_ctx_zero =
     \<lparr>wal_fp = None, wal_path = [], wal_enabled = False, records_written = 0, bytes_written = 0\<rparr>"

definition danos_wal_init :: "fsys \<Rightarrow> string option \<Rightarrow> int \<times> fsys \<times> wal_ctx" where
  "danos_wal_init fs path =
     (case path of None \<Rightarrow> (-1, fs, wal_ctx_zero)
      | Some p \<Rightarrow>
          (let ctx = wal_ctx_zero\<lparr>wal_path := take 255 p\<rparr>
           in case fopen_append fs p of
                None \<Rightarrow> (-1, fs, ctx)
              | Some fs' \<Rightarrow> (0, fs', ctx\<lparr>wal_fp := Some p, wal_enabled := True\<rparr>)))"

definition danos_wal_close :: "wal_ctx \<Rightarrow> wal_ctx" where
  "danos_wal_close ctx = ctx\<lparr>wal_fp := None, wal_enabled := False\<rparr>"

definition danos_wal_append :: "fsys \<Rightarrow> wal_ctx \<Rightarrow> wal_record \<Rightarrow> int \<times> fsys \<times> wal_ctx" where
  "danos_wal_append fs ctx r =
     (case wal_fp ctx of
        Some p \<Rightarrow>
          (if \<not> wal_enabled ctx then (-1, fs, ctx)
           else
             (let header = wal_header r;
                  payload = wal_payload r;
                  crc = wal_crc header payload;
                  (n1, fs1) = fwrite fs p header;
                  (n2, fs2) = fwrite fs1 p payload;
                  (n3, fs3) = fwrite fs2 p (le32 crc);
                  written = n1 + n2 + n3
              in if written \<noteq> unat (of_nat WAL_HEADER_SIZE + wr_data_len r + 4)
                 then (-1, fs3, ctx)
                 else (0, fs3, ctx\<lparr>records_written := records_written ctx + 1,
                                 bytes_written := bytes_written ctx + of_nat written\<rparr>)))
      | None \<Rightarrow> (-1, fs, ctx))"

definition wal_marker :: "wal_op \<Rightarrow> u64 \<Rightarrow> wal_record" where
  "wal_marker op tx =
     \<lparr>wr_magic = WAL_MAGIC, wr_tx_id = tx, wr_op_type = wal_op_code op, wr_obj_type = 0,
      wr_obj_id = 0, wr_data_len = 0, wr_data = None\<rparr>"

definition danos_wal_append_commit :: "fsys \<Rightarrow> wal_ctx \<Rightarrow> u64 \<Rightarrow> int \<times> fsys \<times> wal_ctx" where
  "danos_wal_append_commit fs ctx tx = danos_wal_append fs ctx (wal_marker WAL_OP_COMMIT tx)"

definition danos_wal_append_abort :: "fsys \<Rightarrow> wal_ctx \<Rightarrow> u64 \<Rightarrow> int \<times> fsys \<times> wal_ctx" where
  "danos_wal_append_abort fs ctx tx = danos_wal_append fs ctx (wal_marker WAL_OP_ABORT tx)"

definition danos_wal_sync :: "fsys \<Rightarrow> wal_ctx \<Rightarrow> int" where
  "danos_wal_sync fs ctx = (if wal_fp ctx = None \<or> \<not> fsync_ok fs then -1 else 0)"

definition danos_wal_checkpoint :: "fsys \<Rightarrow> wal_ctx \<Rightarrow> int \<times> fsys \<times> wal_ctx" where
  "danos_wal_checkpoint fs ctx =
     (if wal_fp ctx = None then (-1, fs, ctx)
      else
        (let p = wal_path ctx;
             fs1 = (if openable fs p then fs\<lparr>files := (files fs)(p \<mapsto> [])\<rparr> else fs)
         in case fopen_append fs1 p of
              None \<Rightarrow> (-1, fs1, ctx\<lparr>wal_fp := None\<rparr>)
            | Some fs2 \<Rightarrow> (0, fs2, ctx\<lparr>wal_fp := Some p\<rparr>)))"

subsection \<open>Replay\<close>

text \<open>One turn of the replay loop: the record read and the rest of the file, or stop.\<close>

definition wal_next :: "bool \<Rightarrow> bytes \<Rightarrow> (wal_record \<times> bytes) option" where
  "wal_next malloc_ok bs =
     (if length bs < WAL_HEADER_SIZE then None
      else
        (let header = take WAL_HEADER_SIZE bs;
             magic = rd32 0 header;
             data_len = rd32 19 header;
             rest = drop WAL_HEADER_SIZE bs
         in if magic \<noteq> WAL_MAGIC then None
            else if unat data_len > WAL_MAX_DATA then None
            else if 0 < data_len \<and> (\<not> malloc_ok \<or> length rest < unat data_len) then None
            else
              (let data = take (unat data_len) rest;
                   rest' = drop (unat data_len) rest
               in if length rest' < 4 then None
                  else if wal_crc header data \<noteq> rd32 0 (take 4 rest') then None
                  else Some
                    (\<lparr>wr_magic = magic, wr_tx_id = rd64 4 header, wr_op_type = rd8 12 header,
                      wr_obj_type = rd16 13 header, wr_obj_id = rd32 15 header,
                      wr_data_len = data_len,
                      wr_data = (if 0 < data_len then Some data else None)\<rparr>,
                     drop 4 rest'))))"

lemma wal_next_shorter: "wal_next m bs = Some (r, rest) \<Longrightarrow> length rest < length bs"
  by (auto simp: wal_next_def Let_def WAL_HEADER_SIZE_def split: if_splits)

function wal_scan :: "(nat \<Rightarrow> bool) \<Rightarrow> nat \<Rightarrow> bytes \<Rightarrow> wal_record list" where
  "wal_scan al i bs =
     (case wal_next (al i) bs of None \<Rightarrow> [] | Some (r, rest) \<Rightarrow> r # wal_scan al (Suc i) rest)"
  by pat_completeness auto
termination
  by (relation "measure (\<lambda>(al, i, bs). length bs)") (auto dest: wal_next_shorter)

declare wal_scan.simps [simp del]

text \<open>
  What the callback returns is ignored. The result counts the records; it is a C \<^verbatim>\<open>int\<close>, so the
  count stands for the returned value as long as the log has fewer than \<open>2\<^sup>3\<^sup>1\<close> records, which
  take more than 50 GB.
\<close>

definition danos_wal_replay ::
  "(nat \<Rightarrow> bool) \<Rightarrow> fsys \<Rightarrow> string option \<Rightarrow> (wal_record \<Rightarrow> 'u \<Rightarrow> 'u) option \<Rightarrow> 'u \<Rightarrow> int \<times> 'u" where
  "danos_wal_replay al fs path callback user =
     (case (path, callback) of
        (Some p, Some cb) \<Rightarrow>
          (case (if openable fs p then files fs p else None) of
             None \<Rightarrow> (0, user)
           | Some bs \<Rightarrow>
               (let rs = wal_scan al 0 bs in (int (length rs), fold cb rs user)))
      | _ \<Rightarrow> (- 1, user))"

definition danos_wal_get_stats :: "wal_ctx \<Rightarrow> u64 \<times> u64" where
  "danos_wal_get_stats ctx = (records_written ctx, bytes_written ctx)"

subsection \<open>The checksum tells apart data that differ in one byte\<close>

lemma neg_and_one: "- (c AND 1) = (if bit c 0 then - 1 else (0 :: u32))"
  by (simp add: and_one_eq bit_0 mod_2_eq_odd)

lemma bit_crc_bit:
  "bit (crc_bit c) k \<longleftrightarrow> (bit c (Suc k) \<noteq> (bit (0xEDB88320 :: u32) k \<and> bit c 0))"
  by (auto simp: crc_bit_def neg_and_one bit_simps bit_drop_bit_eq)

lemma crc_bit_inj: "crc_bit a = crc_bit b \<Longrightarrow> a = b"
proof (rule bit_word_eqI)
  fix k :: nat
  assume eq: "crc_bit a = crc_bit b" and k: "k < LENGTH(32)"
  have *: "bit a (Suc m) \<noteq> (bit (0xEDB88320 :: u32) m \<and> bit a 0) \<longleftrightarrow>
      bit b (Suc m) \<noteq> (bit (0xEDB88320 :: u32) m \<and> bit b 0)" for m
    using eq by (simp only: bit_crc_bit [symmetric])
  have top: "\<not> bit c (Suc 31)" for c :: u32
    by (auto dest: bit_imp_le_length)
  have "bit (0xEDB88320 :: u32) 31" by simp
  then have low: "bit a 0 = bit b 0"
    using * [of 31] top by auto
  show "bit a k = bit b k"
  proof (cases k)
    case 0
    then show ?thesis using low by simp
  next
    case (Suc m)
    then show ?thesis using * [of m] low by auto
  qed
qed

lemma crc_bit_pow_inj: "(crc_bit ^^ n) a = (crc_bit ^^ n) b \<Longrightarrow> a = b"
  by (induction n) (auto dest: crc_bit_inj)

lemma xor_right_cancel: "(a XOR c = b XOR c) = (a = b)" for a b c :: "'a::len word"
  by (auto simp: bit_eq_iff bit_xor_iff)

lemma xor_left_cancel: "(c XOR a = c XOR b) = (a = b)" for a b c :: "'a::len word"
  by (auto simp: bit_eq_iff bit_xor_iff)

lemma crc_byte_inj_state: "crc_byte x a = crc_byte x b \<Longrightarrow> a = b"
  unfolding crc_byte_def by (drule crc_bit_pow_inj) (simp add: xor_right_cancel)

lemma ucast_u8_u32_inj: "(ucast x :: u32) = ucast y \<Longrightarrow> (x :: u8) = y"
proof (rule bit_word_eqI)
  fix n :: nat
  assume eq: "(ucast x :: u32) = ucast y" and n: "n < LENGTH(8)"
  have "bit (ucast x :: u32) n = bit (ucast y :: u32) n" using eq by simp
  then show "bit x n = bit y n" using n by (simp add: bit_simps)
qed

lemma crc_byte_inj_byte: "crc_byte x a = crc_byte y a \<Longrightarrow> x = y"
  unfolding crc_byte_def
  by (drule crc_bit_pow_inj) (simp add: xor_left_cancel ucast_u8_u32_inj)

lemma fold_crc_inj: "fold crc_byte ds a = fold crc_byte ds b \<Longrightarrow> a = b"
  by (induction ds arbitrary: a b) (auto dest: crc_byte_inj_state)

lemma crc32_one_byte:
  assumes "x \<noteq> y"
  shows "crc32_calc (pre @ x # post) \<noteq> crc32_calc (pre @ y # post)"
proof
  assume "crc32_calc (pre @ x # post) = crc32_calc (pre @ y # post)"
  then have "fold crc_byte post (crc_byte x (fold crc_byte pre 0xFFFFFFFF)) =
      fold crc_byte post (crc_byte y (fold crc_byte pre 0xFFFFFFFF))"
    by (simp add: crc32_calc_def)
  then have "x = y" by (auto dest!: fold_crc_inj crc_byte_inj_byte)
  with assms show False by simp
qed

lemma crc32_update:
  assumes "i < length ds" and "ds ! i \<noteq> b"
  shows "crc32_calc (ds[i := b]) \<noteq> crc32_calc ds"
proof -
  have "ds = take i ds @ ds ! i # drop (Suc i) ds"
    using assms(1) by (rule id_take_nth_drop)
  moreover have "ds[i := b] = take i ds @ b # drop (Suc i) ds"
    using assms(1) by (rule upd_conv_take_nth_drop)
  ultimately show ?thesis
    using crc32_one_byte [of b "ds ! i"] assms(2) by metis
qed

subsection \<open>One record\<close>

lemma length_wal_header [simp]: "length (wal_header r) = 23"
  by (simp add: wal_header_def)

text \<open>A record as \<^verbatim>\<open>danos_persist_log_op\<close> and the marker functions build it.\<close>

definition wal_record_wf :: "wal_record \<Rightarrow> bool" where
  "wal_record_wf r \<longleftrightarrow>
     wr_magic r = WAL_MAGIC \<and> unat (wr_data_len r) \<le> WAL_MAX_DATA \<and>
     (case wr_data r of None \<Rightarrow> wr_data_len r = 0
      | Some d \<Rightarrow> 0 < wr_data_len r \<and> length d = unat (wr_data_len r))"

lemma wal_payload_wf:
  "wal_record_wf r \<Longrightarrow> length (wal_payload r) = unat (wr_data_len r)"
  "wal_record_wf r \<Longrightarrow> (if 0 < wr_data_len r then Some (wal_payload r) else None) = wr_data r"
  by (auto simp: wal_record_wf_def wal_payload_def split: option.splits)

lemma rd_wal_header:
  "rd32 0 (wal_header r) = WAL_MAGIC" "rd64 4 (wal_header r) = wr_tx_id r"
  "rd8 12 (wal_header r) = wr_op_type r" "rd16 13 (wal_header r) = wr_obj_type r"
  "rd32 15 (wal_header r) = wr_obj_id r" "rd32 19 (wal_header r) = wr_data_len r"
  by (simp_all add: wal_header_def codec_simps)

lemma rd32_le32 [simp]: "rd32 0 (le32 w) = w"
  by (simp add: codec_simps)

text \<open>What the loop body does on any buffer that starts with a 23-byte header.\<close>

lemma wal_next_header:
  assumes "length h = 23"
  shows "wal_next m (h @ rest) =
    (let n = rd32 19 h; data = take (unat n) rest; rest' = drop (unat n) rest
     in if rd32 0 h \<noteq> WAL_MAGIC \<or> unat n > WAL_MAX_DATA \<or>
           0 < n \<and> (\<not> m \<or> length rest < unat n) \<or> length rest' < 4 \<or>
           wal_crc h data \<noteq> rd32 0 (take 4 rest')
        then None
        else Some (\<lparr>wr_magic = rd32 0 h, wr_tx_id = rd64 4 h, wr_op_type = rd8 12 h,
                    wr_obj_type = rd16 13 h, wr_obj_id = rd32 15 h, wr_data_len = n,
                    wr_data = (if 0 < n then Some data else None)\<rparr>, drop 4 rest'))"
  using assms by (simp add: wal_next_def Let_def WAL_HEADER_SIZE_def)

lemma wal_record_rebuild:
  assumes "wal_record_wf r"
  shows "\<lparr>wr_magic = WAL_MAGIC, wr_tx_id = wr_tx_id r, wr_op_type = wr_op_type r,
          wr_obj_type = wr_obj_type r, wr_obj_id = wr_obj_id r, wr_data_len = wr_data_len r,
          wr_data = (if 0 < wr_data_len r then Some (wal_payload r) else None)\<rparr> = r"
  unfolding wal_payload_wf(2) [OF assms] using assms by (cases r) (simp add: wal_record_wf_def)

lemma wal_next_record:
  assumes wf: "wal_record_wf r"
  shows "wal_next True (wal_record_bytes r @ rest) = Some (r, rest)"
proof -
  let ?p = "wal_payload r"
  let ?c = "le32 (wal_crc (wal_header r) ?p)"
  have "wal_next True (wal_header r @ (?p @ ?c @ rest)) = Some (r, rest)"
    using wf wal_payload_wf(1) [OF wf]
    by (subst wal_next_header)
      (simp_all add: Let_def rd_wal_header wal_record_rebuild [OF wf] wal_record_wf_def
        cong: if_cong split del: if_split)
  then show ?thesis by (simp add: wal_record_bytes_def)
qed

subsection \<open>Whole logs\<close>

lemma wal_scan_records:
  "list_all wal_record_wf rs \<Longrightarrow>
     wal_scan (\<lambda>_. True) i (concat (map wal_record_bytes rs) @ tail) =
       rs @ wal_scan (\<lambda>_. True) (i + length rs) tail"
proof (induction rs arbitrary: i)
  case Nil
  then show ?case by simp
next
  case (Cons r rs)
  then show ?case
    using wal_next_record [of r "concat (map wal_record_bytes rs) @ tail"]
    by (subst wal_scan.simps) simp
qed

lemma wal_scan_stop: "wal_next (al i) bs = None \<Longrightarrow> wal_scan al i bs = []"
  by (subst wal_scan.simps) simp

lemma wal_next_short: "length bs < 23 \<Longrightarrow> wal_next m bs = None"
  by (simp add: wal_next_def WAL_HEADER_SIZE_def)

lemma length_wal_record_bytes:
  "wal_record_wf r \<Longrightarrow> length (wal_record_bytes r) = 27 + unat (wr_data_len r)"
  by (simp add: wal_record_bytes_def wal_payload_wf)

lemma wal_next_short_tail:
  assumes "length t < 4 + unat (wr_data_len r)"
  shows "wal_next m (wal_header r @ t) = None"
proof -
  have "length (drop (unat (wr_data_len r)) t) < 4"
    using assms by simp
  then show ?thesis by (subst wal_next_header) (simp_all add: Let_def rd_wal_header)
qed

text \<open>A proper prefix of a record is never taken for a record.\<close>

lemma wal_next_torn:
  assumes wf: "wal_record_wf r" and n: "n < length (wal_record_bytes r)"
  shows "wal_next m (take n (wal_record_bytes r)) = None"
proof (cases "n < 23")
  case True
  then show ?thesis by (intro wal_next_short) simp
next
  case False
  let ?tail = "wal_payload r @ le32 (wal_crc (wal_header r) (wal_payload r))"
  have split: "take n (wal_record_bytes r) = wal_header r @ take (n - 23) ?tail"
    using False by (simp add: wal_record_bytes_def)
  have "length (take (n - 23) ?tail) < 4 + unat (wr_data_len r)"
    using n False length_wal_record_bytes [OF wf] by simp
  then show ?thesis
    unfolding split by (rule wal_next_short_tail)
qed

text \<open>
  A record in which one byte was changed is refused, wherever the change is outside the
  length field (bytes 19 to 22): the magic no longer matches, or the checksum of the header
  or of the payload changes, or the stored checksum does.
\<close>

lemma bslice_update_outside:
  "i < off \<or> off + n \<le> i \<Longrightarrow> bslice off n (xs[i := v]) = bslice off n xs"
  by (rule nth_equalityI) (auto simp: bslice_def nth_list_update)

lemma wal_crc_payload_change:
  assumes "i < length p" and "p ! i \<noteq> b"
  shows "wal_crc h (p[i := b]) \<noteq> wal_crc h p"
  using crc32_update [OF assms] assms(1) by (auto simp: wal_crc_def xor_right_cancel)

lemma wal_crc_header_change:
  assumes "i < length h" and "h ! i \<noteq> b"
  shows "wal_crc (h[i := b]) p \<noteq> wal_crc h p"
  using crc32_update [OF assms] by (auto simp: wal_crc_def xor_left_cancel)

lemma wal_next_corrupt_header:
  assumes wf: "wal_record_wf r" and i: "i < 19" and b: "wal_header r ! i \<noteq> b"
  shows "wal_next m ((wal_header r)[i := b] @ wal_payload r @
     le32 (wal_crc (wal_header r) (wal_payload r)) @ post) = None"
proof -
  have "rd32 19 ((wal_header r)[i := b]) = wr_data_len r"
    using i rd_wal_header(6) [of r] by (simp add: rd32_def bslice_update_outside)
  then show ?thesis
    using wal_crc_header_change [of i "wal_header r" b "wal_payload r"] i b wal_payload_wf(1) [OF wf]
    by (subst wal_next_header) (simp_all add: Let_def)
qed

lemma wal_next_corrupt_payload:
  assumes wf: "wal_record_wf r" and i: "i < length (wal_payload r)" and b: "wal_payload r ! i \<noteq> b"
  shows "wal_next m (wal_header r @ (wal_payload r)[i := b] @
     le32 (wal_crc (wal_header r) (wal_payload r)) @ post) = None"
  using wal_crc_payload_change [OF i b] wal_payload_wf(1) [OF wf]
  by (subst wal_next_header) (simp_all add: Let_def rd_wal_header)

lemma wal_next_corrupt_crc:
  assumes wf: "wal_record_wf r" and c: "length c = 4" "c \<noteq> le32 (wal_crc (wal_header r) (wal_payload r))"
  shows "wal_next m (wal_header r @ wal_payload r @ c @ post) = None"
proof -
  have "rd32 0 c \<noteq> wal_crc (wal_header r) (wal_payload r)"
    using c le_bytes_le_word [of c 4, where 'a = 32] by (simp add: rd32_def bslice_all) metis
  then show ?thesis
    using wal_payload_wf(1) [OF wf] c
    by (subst wal_next_header) (simp_all add: Let_def rd_wal_header)
qed

lemma wal_next_corrupt:
  assumes wf: "wal_record_wf r" and i: "i < length (wal_record_bytes r)"
    and out: "i < 19 \<or> 23 \<le> i" and b: "wal_record_bytes r ! i \<noteq> b"
  shows "wal_next m ((wal_record_bytes r)[i := b] @ post) = None"
proof -
  let ?h = "wal_header r" and ?p = "wal_payload r"
  let ?c = "le32 (wal_crc ?h ?p)"
  consider (header) "i < 19" | (payload) "23 \<le> i" "i < 23 + length ?p"
    | (crc) "23 + length ?p \<le> i"
    using out by linarith
  then show ?thesis
  proof cases
    case header
    then have "?h ! i \<noteq> b" using b by (simp add: wal_record_bytes_def nth_append)
    with wf header show ?thesis
      using wal_next_corrupt_header [of r i b m post]
      by (simp add: wal_record_bytes_def list_update_append)
  next
    case payload
    then have "i - 23 < length ?p" by linarith
    moreover from this have "?p ! (i - 23) \<noteq> b"
      using b payload by (simp add: wal_record_bytes_def nth_append)
    ultimately have "i - 23 < length ?p" and "?p ! (i - 23) \<noteq> b" .
    with wf payload show ?thesis
      using wal_next_corrupt_payload [of r "i - 23" b m post]
      by (simp add: wal_record_bytes_def list_update_append)
  next
    case crc
    then obtain j where j: "i = 23 + length ?p + j"
      using le_Suc_ex by blast
    have "j < 4" using i by (simp add: wal_record_bytes_def j)
    moreover have "?c ! j \<noteq> b"
      using b by (simp add: wal_record_bytes_def nth_append j)
    ultimately have "?c[j := b] \<noteq> ?c"
      by (metis length_le_bytes nth_list_update_eq)
    with wf show ?thesis
      using wal_next_corrupt_crc [of r "?c[j := b]" m post]
      by (simp add: wal_record_bytes_def list_update_append j)
  qed
qed

subsection \<open>Appending\<close>

lemma fwrite_unlimited:
  "room fs = None \<Longrightarrow> fwrite fs p d =
     (length d, fs\<lparr>files := (files fs)(p \<mapsto> (case files fs p of None \<Rightarrow> [] | Some c \<Rightarrow> c) @ d)\<rparr>)"
  by (cases fs) (simp add: fwrite_def Let_def)

lemma danos_wal_append_ok:
  assumes wf: "wal_record_wf r" and p: "wal_fp ctx = Some p" "wal_enabled ctx"
    and fs: "room fs = None" "files fs p = Some old"
  shows "danos_wal_append fs ctx r =
    (0, fs\<lparr>files := (files fs)(p \<mapsto> old @ wal_record_bytes r)\<rparr>,
     ctx\<lparr>records_written := records_written ctx + 1,
         bytes_written := bytes_written ctx + of_nat (length (wal_record_bytes r))\<rparr>)"
proof -
  let ?n = "unat (wr_data_len r)"
  have n: "?n \<le> 1048576" using wf by (simp add: wal_record_wf_def WAL_MAX_DATA_def)
  have sum: "unat (of_nat WAL_HEADER_SIZE + wr_data_len r + 4) = 27 + ?n"
    using n by (simp add: WAL_HEADER_SIZE_def unat_word_ariths)
  show ?thesis
    using p fs sum wal_payload_wf(1) [OF wf]
    by (simp add: danos_wal_append_def Let_def fwrite_unlimited wal_record_bytes_def)
qed

subsection \<open>Properties\<close>

definition wal_append_all :: "wal_record list \<Rightarrow> fsys \<times> wal_ctx \<Rightarrow> fsys \<times> wal_ctx" where
  "wal_append_all rs u = fold (\<lambda>r (fs, ctx). snd (danos_wal_append fs ctx r)) rs u"

lemma wal_append_all_ok:
  assumes "list_all wal_record_wf rs" and "wal_fp ctx = Some p" and "wal_enabled ctx"
    and "room fs = None" and "files fs p = Some old"
  shows "\<exists>ctx'. wal_append_all rs (fs, ctx) =
    (fs\<lparr>files := (files fs)(p \<mapsto> old @ concat (map wal_record_bytes rs))\<rparr>, ctx')"
  using assms
proof (induction rs arbitrary: fs ctx old)
  case Nil
  then show ?case by (cases fs) (auto simp: wal_append_all_def)
next
  case (Cons r rs)
  have r: "wal_record_wf r" and rs: "list_all wal_record_wf rs" using Cons.prems by auto
  let ?fs = "fs\<lparr>files := (files fs)(p \<mapsto> old @ wal_record_bytes r)\<rparr>"
  have "\<exists>ctx'. wal_append_all rs (?fs, ctx\<lparr>records_written := records_written ctx + 1,
      bytes_written := bytes_written ctx + of_nat (length (wal_record_bytes r))\<rparr>) =
    (?fs\<lparr>files := (files ?fs)(p \<mapsto> (old @ wal_record_bytes r) @ concat (map wal_record_bytes rs))\<rparr>, ctx')"
    by (rule Cons.IH) (use rs Cons.prems in simp_all)
  then show ?case
    using danos_wal_append_ok [OF r Cons.prems(2-5)] by (simp add: wal_append_all_def fun_upd_def cong: if_cong)
qed

lemma wal_init_ok:
  assumes "openable fs p" and "files fs p = None" and "length p \<le> 255"
  shows "danos_wal_init fs (Some p) =
    (0, fs\<lparr>files := (files fs)(p \<mapsto> [])\<rparr>,
     \<lparr>wal_fp = Some p, wal_path = p, wal_enabled = True, records_written = 0, bytes_written = 0\<rparr>)"
  using assms by (simp add: danos_wal_init_def fopen_append_def wal_ctx_zero_def)

text \<open>
  C5: Write-ahead log round trip. On a fresh log of a disk with room, appending any list of
  records that respect the format (payload of at most 1 MiB) and then replaying the file by
  its recorded path calls the callback on exactly these records, in order, and returns their
  number.
\<close>

theorem wal_replay_roundtrip:
  assumes "list_all wal_record_wf rs" and "room fs = None" and "openable fs p"
    and "files fs p = None" and "length p \<le> 255"
    and "danos_wal_init fs (Some p) = (rc, fs0, ctx0)"
    and "wal_append_all rs (fs0, ctx0) = (fs1, ctx1)"
  shows "rc = 0 \<and> danos_wal_replay (\<lambda>_. True) fs1 (Some (wal_path ctx0)) (Some cb) u = (int (length rs), fold cb rs u)"
proof -
  have init: "rc = 0" "fs0 = fs\<lparr>files := (files fs)(p \<mapsto> [])\<rparr>" "wal_fp ctx0 = Some p"
    "wal_path ctx0 = p" "wal_enabled ctx0"
    using assms(6) wal_init_ok [OF assms(3-5)] by auto
  obtain ctx' where "wal_append_all rs (fs0, ctx0) =
      (fs0\<lparr>files := (files fs0)(p \<mapsto> [] @ concat (map wal_record_bytes rs))\<rparr>, ctx')"
    using wal_append_all_ok [OF assms(1) init(3) init(5), of fs0 "[]"] assms(2) init(2) by auto
  then have fs1: "files fs1 p = Some (concat (map wal_record_bytes rs))" "openable fs1 p"
    using assms(3,7) init(2) by auto
  have "wal_scan (\<lambda>_. True) 0 (concat (map wal_record_bytes rs)) = rs"
    using wal_scan_records [OF assms(1), of 0 "[]"] by (simp add: wal_scan_stop wal_next_short)
  with fs1 init show ?thesis by (simp add: danos_wal_replay_def)
qed

definition sample_fs :: fsys where
  "sample_fs = \<lparr>files = Map.empty, room = None, openable = (\<lambda>_. True), fsync_ok = True\<rparr>"

definition sample_record :: wal_record where
  "sample_record = \<lparr>wr_magic = WAL_MAGIC, wr_tx_id = 1, wr_op_type = 1, wr_obj_type = 2,
     wr_obj_id = 7, wr_data_len = 2, wr_data = Some [10, 20]\<rparr>"

lemma sample_record_wf: "wal_record_wf sample_record"
  by (simp add: sample_record_def wal_record_wf_def WAL_MAX_DATA_def)

theorem wal_replay_roundtrip_witness:
  "case danos_wal_init sample_fs (Some ''w'') of (rc, fs0, ctx0) \<Rightarrow>
     (case wal_append_all [sample_record, wal_marker WAL_OP_COMMIT 1] (fs0, ctx0) of (fs1, ctx1) \<Rightarrow>
        rc = 0 \<and> danos_wal_replay (\<lambda>_. True) fs1 (Some (wal_path ctx0)) (Some (#)) [] =
          (2, [wal_marker WAL_OP_COMMIT 1, sample_record]))"
proof -
  have "list_all wal_record_wf [sample_record, wal_marker WAL_OP_COMMIT 1]"
    using sample_record_wf by (simp add: wal_record_wf_def wal_marker_def)
  then show ?thesis
    using wal_replay_roundtrip [of "[sample_record, wal_marker WAL_OP_COMMIT 1]" sample_fs "''w''"
        _ _ _ _ _ "(#)" "[]"]
    by (simp add: sample_fs_def split: prod.splits)
qed

text \<open>
  C9: Crash safety of the log. Whatever prefix of the record being written had reached the
  disk at a crash, replay delivers every record before it and nothing of the torn record.
\<close>

theorem wal_torn_tail_dropped:
  assumes "list_all wal_record_wf rs" and "wal_record_wf r" and "n < length (wal_record_bytes r)"
    and "openable fs p"
    and "files fs p = Some (concat (map wal_record_bytes rs) @ take n (wal_record_bytes r))"
  shows "danos_wal_replay (\<lambda>_. True) fs (Some p) (Some cb) u = (int (length rs), fold cb rs u)"
  using assms wal_scan_records [OF assms(1), of 0 "take n (wal_record_bytes r)"]
  by (simp add: danos_wal_replay_def wal_scan_stop wal_next_torn)

theorem wal_torn_tail_dropped_witness:
  "danos_wal_replay (\<lambda>_. True)
     (sample_fs\<lparr>files := [''w'' \<mapsto> wal_record_bytes sample_record @ take 28 (wal_record_bytes sample_record)]\<rparr>)
     (Some ''w'') (Some (#)) [] = (1, [sample_record])"
  using wal_torn_tail_dropped [of "[sample_record]" sample_record 28
      "sample_fs\<lparr>files := [''w'' \<mapsto> wal_record_bytes sample_record @ take 28 (wal_record_bytes sample_record)]\<rparr>"
      "''w''" "(#)" "[]"] sample_record_wf length_wal_record_bytes [OF sample_record_wf]
  by (simp add: sample_fs_def) (simp add: sample_record_def)

text \<open>
  C8: Corruption is detected. If one byte of a stored record is changed, anywhere but in its
  length field, replay stops exactly there: it delivers every earlier record and neither the
  damaged record nor anything after it.
\<close>

theorem wal_corruption_detected:
  assumes "list_all wal_record_wf rs" and "wal_record_wf r" and "i < length (wal_record_bytes r)"
    and "i < 19 \<or> 23 \<le> i" and "wal_record_bytes r ! i \<noteq> b" and "openable fs p"
    and "files fs p = Some (concat (map wal_record_bytes rs) @ (wal_record_bytes r)[i := b] @ post)"
  shows "danos_wal_replay (\<lambda>_. True) fs (Some p) (Some cb) u = (int (length rs), fold cb rs u)"
  using assms(6,7) wal_scan_records [OF assms(1), of 0 "(wal_record_bytes r)[i := b] @ post"]
    wal_next_corrupt [OF assms(2-5), of True post]
  by (simp add: danos_wal_replay_def wal_scan_stop)

theorem wal_corruption_detected_witness:
  "danos_wal_replay (\<lambda>_. True)
     (sample_fs\<lparr>files := [''w'' \<mapsto> wal_record_bytes sample_record @
        (wal_record_bytes sample_record)[0 := 0] @ wal_record_bytes sample_record]\<rparr>)
     (Some ''w'') (Some (#)) [] = (1, [sample_record])"
proof -
  have "wal_record_bytes sample_record ! 0 \<noteq> 0"
    by (simp add: wal_record_bytes_def wal_header_def nth_append le_bytes_def WAL_MAGIC_def)
  then show ?thesis
    using wal_corruption_detected [of "[sample_record]" sample_record 0 0
      "sample_fs\<lparr>files := [''w'' \<mapsto> wal_record_bytes sample_record @
        (wal_record_bytes sample_record)[0 := 0] @ wal_record_bytes sample_record]\<rparr>" "''w''"
      "wal_record_bytes sample_record" "(#)" "[]"]
      sample_record_wf length_wal_record_bytes [OF sample_record_wf]
    by (simp add: sample_fs_def)
qed

lemma rd32_of_le: "rd32 0 (le32 w @ xs) = w"
  by (simp add: codec_simps)

lemma magic_bytes: "le32 WAL_MAGIC = [0x53, 0x4F, 0x4E, 0x44]"
  by (simp add: le_bytes_def WAL_MAGIC_def upt_rec)

lemma wal_record_bytes_start: "\<exists>xs. wal_record_bytes r = [0x53, 0x4F, 0x4E, 0x44] @ xs"
  by (simp add: wal_record_bytes_def wal_header_def magic_bytes)

lemma wal_next_bad_magic: "rd32 0 bs \<noteq> WAL_MAGIC \<Longrightarrow> wal_next m bs = None"
  by (simp add: wal_next_def Let_def rd32_def bslice_def WAL_HEADER_SIZE_def)

text \<open>
  A torn record hides what is logged after it. If a crash leaves one to three bytes of a
  record at the end of the log and the next process goes on appending (nothing cuts the torn
  bytes off), replay delivers only the records from before the crash, whatever was appended
  afterwards.
\<close>

theorem wal_torn_tail_hides_later:
  assumes "list_all wal_record_wf rs" and "1 \<le> n" and "n \<le> 3" and "openable fs p"
    and "files fs p = Some (concat (map wal_record_bytes rs) @ take n (wal_record_bytes r) @
      concat (map wal_record_bytes later))"
  shows "danos_wal_replay (\<lambda>_. True) fs (Some p) (Some cb) u = (int (length rs), fold cb rs u)"
proof -
  let ?tail = "take n (wal_record_bytes r) @ concat (map wal_record_bytes later)"
  have "wal_next True ?tail = None"
  proof (cases later)
    case Nil
    then show ?thesis using assms(3) by (intro wal_next_short) simp
  next
    case (Cons q qs)
    obtain xs ys where xs: "wal_record_bytes r = [0x53, 0x4F, 0x4E, 0x44] @ xs"
      "wal_record_bytes q = [0x53, 0x4F, 0x4E, 0x44] @ ys"
      using wal_record_bytes_start by metis
    consider "n = 1" | "n = 2" | "n = 3" using assms(2,3) by linarith
    then have "rd32 0 ?tail \<noteq> WAL_MAGIC"
      by cases (use Cons xs in \<open>simp_all add: rd32_def bslice_def WAL_MAGIC_def\<close>)
    then show ?thesis by (rule wal_next_bad_magic)
  qed
  then show ?thesis
    using assms(4,5) wal_scan_records [OF assms(1), of 0 ?tail]
    by (simp add: danos_wal_replay_def wal_scan_stop)
qed

theorem wal_torn_tail_hides_later_witness:
  "danos_wal_replay (\<lambda>_. True)
     (sample_fs\<lparr>files := [''w'' \<mapsto> wal_record_bytes sample_record @
        take 1 (wal_record_bytes sample_record) @ wal_record_bytes sample_record]\<rparr>)
     (Some ''w'') (Some (#)) [] = (1, [sample_record])"
  using wal_torn_tail_hides_later [of "[sample_record]" 1
      "sample_fs\<lparr>files := [''w'' \<mapsto> wal_record_bytes sample_record @
        take 1 (wal_record_bytes sample_record) @ wal_record_bytes sample_record]\<rparr>" "''w''"
      sample_record "[sample_record]" "(#)" "[]"] sample_record_wf
  by (simp add: sample_fs_def)

end
