(* ===== verification/Event_Bus.thy ===== *)
theory Event_Bus
  imports Dpa_Types
begin

text \<open>
  The publish/subscribe bus of \<^verbatim>\<open>danos-core/src/event/event_bus.c\<close>. A subscriber's
  callback and user pointer are an opaque handle; \<open>deliveries\<close> is the trace of callback
  invocations, latest last. Allocation outcomes are arguments. Dereferencing the NULL bus
  pointer is \<open>None\<close>.
\<close>

datatype danos_event_type =
    EVENT_OBJ_CREATED | EVENT_OBJ_UPDATED | EVENT_OBJ_DELETED | EVENT_TX_COMMITTED
  | EVENT_TX_ROLLBACK | EVENT_RECONCILE | EVENT_BACKEND_DOWN | EVENT_BACKEND_UP
  | EVENT_CAPABILITY

fun event_type_code :: "danos_event_type \<Rightarrow> nat" where
  "event_type_code EVENT_OBJ_CREATED = 1"
| "event_type_code EVENT_OBJ_UPDATED = 2"
| "event_type_code EVENT_OBJ_DELETED = 3"
| "event_type_code EVENT_TX_COMMITTED = 4"
| "event_type_code EVENT_TX_ROLLBACK = 5"
| "event_type_code EVENT_RECONCILE = 6"
| "event_type_code EVENT_BACKEND_DOWN = 7"
| "event_type_code EVENT_BACKEND_UP = 8"
| "event_type_code EVENT_CAPABILITY = 9"

record danos_event =
  ev_type :: danos_event_type
  ev_timestamp_ns :: u64
  ev_obj_type :: danos_obj_type
  ev_obj_id :: u64
  ev_tx_id :: u64
  ev_message :: "string option"

type_synonym callback = nat

record event_sub =
  sub_id :: u64
  sub_mask :: u32
  sub_cb :: callback

record event_bus =
  subs :: "event_sub list"
  next_sub_id :: u64
  events_published :: u64
  deliveries :: "(callback \<times> danos_event) list"

definition danos_event_bus_init :: "bool \<Rightarrow> event_bus option \<Rightarrow> int \<times> event_bus option" where
  "danos_event_bus_init calloc_ok bus =
     (case bus of
        Some b \<Rightarrow> (0, Some b)
      | None \<Rightarrow>
          (if \<not> calloc_ok then (-1, None)
           else (0, Some \<lparr>subs = [], next_sub_id = 1, events_published = 0, deliveries = []\<rparr>)))"

definition danos_event_bus_fini :: "event_bus option \<Rightarrow> event_bus option" where
  "danos_event_bus_fini bus = None"

definition danos_event_subscribe ::
  "bool \<Rightarrow> bool \<Rightarrow> event_bus option \<Rightarrow> u32 \<Rightarrow> callback option \<Rightarrow> (u64 \<times> event_bus option) option" where
  "danos_event_subscribe init_ok sub_ok bus emask cb =
     (case cb of
        None \<Rightarrow> Some (0, bus)
      | Some f \<Rightarrow>
          (let bus' = snd (danos_event_bus_init init_ok bus)
           in if \<not> sub_ok then Some (0, bus')
              else
                (case bus' of
                   None \<Rightarrow> None
                 | Some b \<Rightarrow>
                     Some (next_sub_id b,
                       Some (b\<lparr>subs := \<lparr>sub_id = next_sub_id b, sub_mask = emask, sub_cb = f\<rparr> # subs b,
                               next_sub_id := next_sub_id b + 1\<rparr>)))))"

fun subs_unlink :: "event_sub list \<Rightarrow> u64 \<Rightarrow> event_sub list" where
  "subs_unlink [] i = []"
| "subs_unlink (s # ss) i = (if sub_id s = i then ss else s # subs_unlink ss i)"

definition danos_event_unsubscribe :: "event_bus option \<Rightarrow> u64 \<Rightarrow> event_bus option" where
  "danos_event_unsubscribe bus i =
     (case bus of
        None \<Rightarrow> None
      | Some b \<Rightarrow> if i = 0 then Some b else Some (b\<lparr>subs := subs_unlink (subs b) i\<rparr>))"

definition sub_matches :: "danos_event \<Rightarrow> event_sub \<Rightarrow> bool" where
  "sub_matches ev s \<longleftrightarrow> sub_mask s AND push_bit (event_type_code (ev_type ev)) 1 \<noteq> 0"

fun dispatch :: "event_sub list \<Rightarrow> danos_event \<Rightarrow> (callback \<times> danos_event) list
    \<Rightarrow> (callback \<times> danos_event) list" where
  "dispatch [] ev tr = tr"
| "dispatch (s # ss) ev tr =
     dispatch ss ev (if sub_matches ev s then tr @ [(sub_cb s, ev)] else tr)"

definition danos_event_publish :: "event_bus option \<Rightarrow> danos_event option \<Rightarrow> event_bus option" where
  "danos_event_publish bus event =
     (case (bus, event) of
        (Some b, Some ev) \<Rightarrow>
          Some (b\<lparr>events_published := events_published b + 1,
                  deliveries := dispatch (subs b) ev (deliveries b)\<rparr>)
      | _ \<Rightarrow> bus)"

subsection \<open>Lemmas\<close>

lemma dispatch_eq:
  "dispatch ss ev tr = tr @ map (\<lambda>s. (sub_cb s, ev)) (filter (sub_matches ev) ss)"
  by (induction ss arbitrary: tr) auto

lemma sub_matches_bit:
  "sub_matches ev s \<longleftrightarrow> bit (sub_mask s) (event_type_code (ev_type ev))"
proof -
  have "(w AND push_bit n 1 \<noteq> 0) = bit w n" for w :: u32 and n
    by (metis and_exp_eq_0_iff_not_bit push_bit_of_1)
  then show ?thesis by (simp add: sub_matches_def)
qed

text \<open>The ids of a bus that has handed out fewer than \<open>2 ^ 64 - 1\<close> of them.\<close>

definition bus_wf :: "event_bus \<Rightarrow> bool" where
  "bus_wf b \<longleftrightarrow>
     distinct (map sub_id (subs b)) \<and> 0 < unat (next_sub_id b) \<and>
     (\<forall>s \<in> set (subs b). sub_id s < next_sub_id b \<and> sub_id s \<noteq> 0)"

lemma set_subs_unlink: "set (subs_unlink ss i) \<subseteq> set ss"
  by (induction ss) auto

lemma distinct_subs_unlink:
  "distinct (map sub_id ss) \<Longrightarrow> distinct (map sub_id (subs_unlink ss i))"
proof (induction ss)
  case Nil
  then show ?case by simp
next
  case (Cons s ss)
  then show ?case using set_subs_unlink [of ss i] by (auto simp: image_iff)
qed

lemma subs_unlink_gone:
  "distinct (map sub_id ss) \<Longrightarrow> s \<in> set (subs_unlink ss i) \<Longrightarrow> sub_id s \<noteq> i"
  by (induction ss) (force simp: image_iff split: if_splits)+

lemma bus_wf_init: "danos_event_bus_init True None = (0, Some b) \<Longrightarrow> bus_wf b"
  by (auto simp: danos_event_bus_init_def bus_wf_def)

lemma bus_wf_subscribe:
  assumes wf: "bus_wf b" and small: "next_sub_id b \<noteq> - 1"
    and sub: "danos_event_subscribe i True (Some b) emask (Some f) = Some (r, Some b')"
  shows "bus_wf b' \<and> r = next_sub_id b \<and> r \<noteq> 0"
proof -
  have b': "b' = b\<lparr>subs := \<lparr>sub_id = next_sub_id b, sub_mask = emask, sub_cb = f\<rparr> # subs b,
                  next_sub_id := next_sub_id b + 1\<rparr>" and r: "r = next_sub_id b"
    using sub by (auto simp: danos_event_subscribe_def danos_event_bus_init_def)
  have "1 + next_sub_id b \<noteq> 0"
    using small by (metis add.commute eq_neg_iff_add_eq_0)
  then have lt: "next_sub_id b < next_sub_id b + 1"
    by (simp add: word_less_nat_alt unatSuc add.commute)
  show ?thesis
    using wf lt by (auto simp: bus_wf_def b' r unat_gt_0 intro: less_trans)
qed

lemma bus_wf_unsubscribe:
  "bus_wf b \<Longrightarrow> danos_event_unsubscribe (Some b) i = Some b' \<Longrightarrow> bus_wf b'"
  using set_subs_unlink [of "subs b" i]
  by (auto simp: danos_event_unsubscribe_def bus_wf_def distinct_subs_unlink split: if_splits)

lemma bus_wf_publish:
  "bus_wf b \<Longrightarrow> danos_event_publish (Some b) e = Some b' \<Longrightarrow> bus_wf b'"
  by (auto simp: danos_event_publish_def bus_wf_def split: option.splits)

subsection \<open>Properties\<close>

text \<open>
  C15: Exact event delivery. Publishing an event appends one delivery for every current
  subscriber whose mask has the bit of the event's type, in subscription order (latest
  first), nothing for the others, keeps the deliveries made before, and counts one event.
\<close>

theorem publish_delivers_exactly:
  "danos_event_publish (Some b) (Some ev) =
     Some (b\<lparr>events_published := events_published b + 1,
             deliveries := deliveries b @
               map (\<lambda>s. (sub_cb s, ev))
                 (filter (\<lambda>s. bit (sub_mask s) (event_type_code (ev_type ev))) (subs b))\<rparr>)"
  by (simp add: danos_event_publish_def dispatch_eq sub_matches_bit [abs_def])

lemma subs_unlink_filter:
  "distinct (map sub_id ss) \<Longrightarrow> subs_unlink ss i = filter (\<lambda>s. sub_id s \<noteq> i) ss"
proof (induction ss)
  case Nil
  then show ?case by simp
next
  case (Cons s ss)
  have "filter (\<lambda>x. sub_id x \<noteq> sub_id s) ss = ss"
    using Cons.prems by (intro filter_True) (auto simp: image_iff)
  with Cons show ?case by auto
qed

text \<open>
  The life of a subscription. On a bus with well-formed ids, subscribing returns an id
  that is not zero and that no current subscriber has, and the bus stays well formed; on any
  later well-formed bus, unsubscribing that id removes exactly the subscriber with that id,
  keeps every other one in its place, and leaves the bus well formed.
\<close>

theorem subscription_lifecycle:
  assumes "bus_wf b" and "next_sub_id b \<noteq> - 1"
    and "danos_event_subscribe i True (Some b) m (Some f) = Some (r, Some b1)"
    and "bus_wf b2" and "danos_event_unsubscribe (Some b2) r = Some b3"
  shows "r \<noteq> 0 \<and> r \<notin> sub_id ` set (subs b) \<and> bus_wf b1 \<and>
     subs b1 = \<lparr>sub_id = r, sub_mask = m, sub_cb = f\<rparr> # subs b \<and>
     subs b3 = filter (\<lambda>s. sub_id s \<noteq> r) (subs b2) \<and> bus_wf b3"
proof -
  have b1: "subs b1 = \<lparr>sub_id = r, sub_mask = m, sub_cb = f\<rparr> # subs b"
    using assms(3) by (auto simp: danos_event_subscribe_def danos_event_bus_init_def)
  have r: "bus_wf b1" "r = next_sub_id b" "r \<noteq> 0"
    using bus_wf_subscribe [OF assms(1-3)] by auto
  have "r \<notin> sub_id ` set (subs b)" using assms(1) by (auto simp: bus_wf_def r)
  moreover have "subs b3 = filter (\<lambda>s. sub_id s \<noteq> r) (subs b2)"
    using assms(4,5) r(3) by (auto simp: danos_event_unsubscribe_def bus_wf_def subs_unlink_filter)
  ultimately show ?thesis using b1 r bus_wf_unsubscribe [OF assms(4,5)] by blast
qed

definition sample_bus :: event_bus where
  "sample_bus = \<lparr>subs = [], next_sub_id = 1, events_published = 0, deliveries = []\<rparr>"

theorem subscription_lifecycle_witness:
  "\<exists>b1 b3. danos_event_subscribe True True (Some sample_bus) 2 (Some 5) = Some (1, Some b1) \<and>
     danos_event_unsubscribe (Some b1) 1 = Some b3 \<and> subs b3 = [] \<and> bus_wf b3"
proof -
  have wf: "bus_wf sample_bus" and lt: "next_sub_id sample_bus \<noteq> - 1"
    by (simp_all add: bus_wf_def sample_bus_def)
  obtain b1 b3 where s: "danos_event_subscribe True True (Some sample_bus) 2 (Some 5) = Some (1, Some b1)"
    "danos_event_unsubscribe (Some b1) 1 = Some b3"
    by (simp add: danos_event_subscribe_def danos_event_bus_init_def danos_event_unsubscribe_def
        sample_bus_def)
  have wf1: "bus_wf b1" using bus_wf_subscribe [OF wf lt s(1)] by simp
  show ?thesis
    using subscription_lifecycle [OF wf lt s(1) wf1 s(2)] s by (auto simp: sample_bus_def)
qed

end
