(* ===== verification/Core_State.thy ===== *)
theory Core_State
  imports Object_Registry Wal Event_Bus
begin

text \<open>
  The global state of \<^verbatim>\<open>danos-core\<close> and the mutating object operations with every hook
  they run. Object stores live in a heap of addresses, since the persistence hook compares
  the store pointer with \<^verbatim>\<open>g_default_store\<close>. Allocation follows the plan \<open>mem_plan\<close>: the
  n-th allocation of the run succeeds when \<open>mem_plan n\<close> holds. The record is extended by
  the programming pipeline and the reconciler, so every operation here works on any
  extension of it. A call with the address of a store that is not live, which has no meaning in
  C, returns INVALID_ARG here; in the states of the properties the stores in use are live. The
  read/write locks make each operation's critical section atomic: the
  model runs operations one after the other.
\<close>

record sys =
  stores :: "nat \<Rightarrow> object_store option"
  next_addr :: nat
  g_default_store :: "nat option"
  g_event_bus :: "event_bus option"
  sys_fs :: fsys
  g_wal :: wal_ctx
  g_enabled :: bool
  g_recovering :: bool
  g_records_logged :: u64
  g_recovered :: u64
  g_dirty :: bool
  mem_plan :: "nat \<Rightarrow> bool"
  mem_next :: nat
  wall_clock :: u64

subsection \<open>Allocation\<close>

definition malloc :: "'z sys_scheme \<Rightarrow> bool \<times> 'z sys_scheme" where
  "malloc s = (mem_plan s (mem_next s), s\<lparr>mem_next := Suc (mem_next s)\<rparr>)"

definition danos_object_store_create :: "'z sys_scheme \<Rightarrow> nat \<Rightarrow> nat option \<times> 'z sys_scheme" where
  "danos_object_store_create s bucket_count =
     (let (ok1, s1) = malloc s
      in if \<not> ok1 then (None, s1)
         else
           (let (ok2, s2) = malloc s1
            in if \<not> ok2 then (None, s2)
               else
                 (let a = next_addr s2
                  in (Some a, s2\<lparr>stores := (stores s2)(a \<mapsto> object_store_new bucket_count),
                                next_addr := Suc a\<rparr>))))"

definition danos_object_store_destroy :: "'z sys_scheme \<Rightarrow> nat option \<Rightarrow> 'z sys_scheme" where
  "danos_object_store_destroy s so =
     (case so of None \<Rightarrow> s | Some a \<Rightarrow> s\<lparr>stores := (stores s)(a := None)\<rparr>)"

subsection \<open>Hooks\<close>

definition danos_programming_mark_dirty :: "'z sys_scheme \<Rightarrow> 'z sys_scheme" where
  "danos_programming_mark_dirty s = s\<lparr>g_dirty := True\<rparr>"

definition danos_programming_dirty_take :: "'z sys_scheme \<Rightarrow> bool \<times> 'z sys_scheme" where
  "danos_programming_dirty_take s = (g_dirty s, s\<lparr>g_dirty := False\<rparr>)"

text \<open>DPA object type to WAL object type and back (\<^verbatim>\<open>persist.c\<close>); 0 is "not logged".\<close>

fun dpa_type_to_wal :: "danos_obj_type \<Rightarrow> u16" where
  "dpa_type_to_wal OBJ_IFACE = 1"
| "dpa_type_to_wal OBJ_VRF = 2"
| "dpa_type_to_wal OBJ_NEXTHOP = 3"
| "dpa_type_to_wal OBJ_NHGROUP = 4"
| "dpa_type_to_wal OBJ_ROUTE = 5"
| "dpa_type_to_wal OBJ_ACL = 6"
| "dpa_type_to_wal OBJ_QOS = 8"
| "dpa_type_to_wal OBJ_BFD = 9"
| "dpa_type_to_wal OBJ_MPLS_LSP = 20"
| "dpa_type_to_wal OBJ_TUNNEL = 21"
| "dpa_type_to_wal OBJ_EVPN = 22"
| "dpa_type_to_wal OBJ_MULTICAST = 23"
| "dpa_type_to_wal OBJ_QOS_BIND = 24"
| "dpa_type_to_wal _ = 0"

definition wal_type_to_dpa :: "u16 \<Rightarrow> danos_obj_type" where
  "wal_type_to_dpa t =
     (if t = 1 then OBJ_IFACE
      else if t = 2 then OBJ_VRF
      else if t = 3 then OBJ_NEXTHOP
      else if t = 4 then OBJ_NHGROUP
      else if t = 5 then OBJ_ROUTE
      else if t = 6 then OBJ_ACL
      else if t = 8 then OBJ_QOS
      else if t = 9 then OBJ_BFD
      else if t = 20 then OBJ_MPLS_LSP
      else if t = 21 then OBJ_TUNNEL
      else if t = 22 then OBJ_EVPN
      else if t = 23 then OBJ_MULTICAST
      else if t = 24 then OBJ_QOS_BIND
      else OBJ_INVALID)"

definition persist_record :: "wal_op \<Rightarrow> u16 \<Rightarrow> u32 \<Rightarrow> bytes option \<Rightarrow> wal_record" where
  "persist_record op wt oid data =
     \<lparr>wr_magic = WAL_MAGIC, wr_tx_id = 1, wr_op_type = wal_op_code op, wr_obj_type = wt,
      wr_obj_id = oid,
      wr_data_len = (case data of None \<Rightarrow> 0 | Some d \<Rightarrow> of_nat (length d)),
      wr_data = data\<rparr>"

definition danos_persist_log_op ::
  "'z sys_scheme \<Rightarrow> wal_op \<Rightarrow> u16 \<Rightarrow> u32 \<Rightarrow> bytes option \<Rightarrow> int \<times> 'z sys_scheme" where
  "danos_persist_log_op s op wt oid data =
     (if \<not> g_enabled s then (0, s)
      else
        (let (rc, fs', ctx') = danos_wal_append (sys_fs s) (g_wal s) (persist_record op wt oid data);
             s' = s\<lparr>sys_fs := fs', g_wal := ctx'\<rparr>
         in if rc \<noteq> 0 then (-1, s')
            else if danos_wal_sync fs' ctx' \<noteq> 0 then (-1, s')
            else (0, s'\<lparr>g_records_logged := g_records_logged s' + 1\<rparr>)))"

definition danos_persist_on_mutation ::
  "'z sys_scheme \<Rightarrow> nat \<Rightarrow> wal_op \<Rightarrow> danos_obj_type \<Rightarrow> u64 \<Rightarrow> bytes option \<Rightarrow> 'z sys_scheme" where
  "danos_persist_on_mutation s store op type oid data =
     (if \<not> g_enabled s \<or> g_recovering s then s
      else if g_default_store s \<noteq> Some store then s
      else if oid > 0xFFFFFFFF then s
      else
        (let wt = dpa_type_to_wal type
         in if wt = 0 then s
            else snd (danos_persist_log_op s op wt (ucast oid) data)))"

definition notify_event :: "'z sys_scheme \<Rightarrow> danos_event_type \<Rightarrow> danos_obj_type \<Rightarrow> u64 \<Rightarrow> 'z sys_scheme" where
  "notify_event s et type oid =
     s\<lparr>g_event_bus := danos_event_publish (g_event_bus s)
         (Some \<lparr>ev_type = et, ev_timestamp_ns = wall_clock s * 1000000000, ev_obj_type = type,
                ev_obj_id = oid, ev_tx_id = 0, ev_message = None\<rparr>)\<rparr>"

subsection \<open>The object operations\<close>

definition set_store :: "'z sys_scheme \<Rightarrow> nat \<Rightarrow> object_store \<Rightarrow> 'z sys_scheme" where
  "set_store s a st = s\<lparr>stores := (stores s)(a \<mapsto> st)\<rparr>"

text \<open>
  \<open>so\<close> is the store pointer; a non-NULL pointer is the address of a live store. \<open>data\<close> is
  the data pointer with its size: \<open>Some []\<close> is a size of zero.
\<close>

definition danos_object_create ::
  "'z sys_scheme \<Rightarrow> nat option \<Rightarrow> danos_obj_type \<Rightarrow> u64 \<Rightarrow> bytes option
     \<Rightarrow> danos_status \<times> 'z sys_scheme" where
  "danos_object_create s so type oid data =
     (case (so, data) of
        (Some a, Some d) \<Rightarrow>
          (case stores s a of
             None \<Rightarrow> (ERR_INVALID_ARG, s)
           | Some st \<Rightarrow>
               (if d = [] then (ERR_INVALID_ARG, s)
                else if find_entry st type oid \<noteq> None then (ERR_EXISTS, s)
                else
                  (let (ok1, s1) = malloc s
                   in if \<not> ok1 then (ERR_NO_MEMORY, s1)
                      else
                        (let (ok2, s2) = malloc s1
                         in if \<not> ok2 then (ERR_NO_MEMORY, s2)
                            else
                              (let s3 = set_store s2 a
                                     (object_link st \<lparr>ent_type = type, ent_id = oid, ent_data = d\<rparr>);
                                   s4 = danos_persist_on_mutation s3 a WAL_OP_CREATE type oid (Some d);
                                   s5 = danos_programming_mark_dirty s4
                               in (DANOS_OK, notify_event s5 EVENT_OBJ_CREATED type oid))))))
      | _ \<Rightarrow> (ERR_INVALID_ARG, s))"

definition danos_object_update ::
  "'z sys_scheme \<Rightarrow> nat option \<Rightarrow> danos_obj_type \<Rightarrow> u64 \<Rightarrow> bytes option
     \<Rightarrow> danos_status \<times> 'z sys_scheme" where
  "danos_object_update s so type oid data =
     (case (so, data) of
        (Some a, Some d) \<Rightarrow>
          (case stores s a of
             None \<Rightarrow> (ERR_INVALID_ARG, s)
           | Some st \<Rightarrow>
               (if d = [] then (ERR_INVALID_ARG, s)
                else if find_entry st type oid = None then (ERR_NOT_FOUND, s)
                else
                  (let (ok1, s1) = malloc s
                   in if \<not> ok1 then (ERR_NO_MEMORY, s1)
                      else
                        (let s2 = set_store s1 a (object_set_data st type oid d);
                             s3 = danos_persist_on_mutation s2 a WAL_OP_UPDATE type oid (Some d);
                             s4 = danos_programming_mark_dirty s3
                         in (DANOS_OK, notify_event s4 EVENT_OBJ_UPDATED type oid)))))
      | _ \<Rightarrow> (ERR_INVALID_ARG, s))"

definition danos_object_delete ::
  "'z sys_scheme \<Rightarrow> nat option \<Rightarrow> danos_obj_type \<Rightarrow> u64 \<Rightarrow> danos_status \<times> 'z sys_scheme" where
  "danos_object_delete s so type oid =
     (case so of
        None \<Rightarrow> (ERR_INVALID_ARG, s)
      | Some a \<Rightarrow>
          (case stores s a of
             None \<Rightarrow> (ERR_INVALID_ARG, s)
           | Some st \<Rightarrow>
               (if find_entry st type oid = None then (ERR_NOT_FOUND, s)
                else
                  (let s1 = set_store s a (object_unlink st type oid);
                       s2 = danos_persist_on_mutation s1 a WAL_OP_DELETE type oid None;
                       s3 = danos_programming_mark_dirty s2
                   in (DANOS_OK, notify_event s3 EVENT_OBJ_DELETED type oid)))))"

definition sys_read ::
  "'z sys_scheme \<Rightarrow> nat option \<Rightarrow> danos_obj_type \<Rightarrow> u64 \<Rightarrow> nat
     \<Rightarrow> danos_status \<times> bytes option \<times> nat option" where
  "sys_read s so type oid cap =
     danos_object_read (case so of None \<Rightarrow> None | Some a \<Rightarrow> stores s a) type oid True (Some cap)"

subsection \<open>What the hooks leave alone\<close>

lemma persist_on_mutation_frame [simp, frame_simps]:
  "stores (danos_persist_on_mutation s a op t i d) = stores s"
  "next_addr (danos_persist_on_mutation s a op t i d) = next_addr s"
  "g_default_store (danos_persist_on_mutation s a op t i d) = g_default_store s"
  "g_event_bus (danos_persist_on_mutation s a op t i d) = g_event_bus s"
  "g_enabled (danos_persist_on_mutation s a op t i d) = g_enabled s"
  "g_recovering (danos_persist_on_mutation s a op t i d) = g_recovering s"
  "g_recovered (danos_persist_on_mutation s a op t i d) = g_recovered s"
  "g_dirty (danos_persist_on_mutation s a op t i d) = g_dirty s"
  "mem_plan (danos_persist_on_mutation s a op t i d) = mem_plan s"
  "mem_next (danos_persist_on_mutation s a op t i d) = mem_next s"
  "wall_clock (danos_persist_on_mutation s a op t i d) = wall_clock s"
  by (simp_all add: danos_persist_on_mutation_def danos_persist_log_op_def Let_def split: prod.splits)

lemma malloc_ok: "mem_plan s (mem_next s) \<Longrightarrow> malloc s = (True, s\<lparr>mem_next := Suc (mem_next s)\<rparr>)"
  by (simp add: malloc_def)

text \<open>The common tail of a successful mutation: new table, hooks, event.\<close>

definition after_mutation ::
  "'z sys_scheme \<Rightarrow> nat \<Rightarrow> object_store \<Rightarrow> wal_op \<Rightarrow> danos_event_type \<Rightarrow> danos_obj_type \<Rightarrow> u64
     \<Rightarrow> bytes option \<Rightarrow> 'z sys_scheme" where
  "after_mutation s a st op et t i d =
     notify_event (danos_programming_mark_dirty (danos_persist_on_mutation (set_store s a st) a op t i d)) et t i"

lemma after_mutation_frame [simp, frame_simps]:
  "stores (after_mutation s a st op et t i d) = (stores s)(a \<mapsto> st)"
  "next_addr (after_mutation s a st op et t i d) = next_addr s"
  "g_default_store (after_mutation s a st op et t i d) = g_default_store s"
  "g_enabled (after_mutation s a st op et t i d) = g_enabled s"
  "g_recovering (after_mutation s a st op et t i d) = g_recovering s"
  "g_recovered (after_mutation s a st op et t i d) = g_recovered s"
  "g_dirty (after_mutation s a st op et t i d)"
  "mem_plan (after_mutation s a st op et t i d) = mem_plan s"
  "mem_next (after_mutation s a st op et t i d) = mem_next s"
  "sys_fs (after_mutation s a st op et t i d) =
     sys_fs (danos_persist_on_mutation (set_store s a st) a op t i d)"
  "g_wal (after_mutation s a st op et t i d) =
     g_wal (danos_persist_on_mutation (set_store s a st) a op t i d)"
  "g_records_logged (after_mutation s a st op et t i d) =
     g_records_logged (danos_persist_on_mutation (set_store s a st) a op t i d)"
  by (simp_all add: after_mutation_def notify_event_def danos_programming_mark_dirty_def set_store_def)

subsection \<open>The operations, branch by branch\<close>

lemma create_exists:
  "stores s a = Some st \<Longrightarrow> store_map st (t, i) \<noteq> None \<Longrightarrow> d \<noteq> [] \<Longrightarrow>
     danos_object_create s (Some a) t i (Some d) = (ERR_EXISTS, s)"
  by (auto simp: danos_object_create_def store_map_def)

lemma create_ok:
  assumes "stores s a = Some st" and "store_map st (t, i) = None" and "d \<noteq> []"
    and "mem_plan s (mem_next s)" and "mem_plan s (Suc (mem_next s))"
  shows "danos_object_create s (Some a) t i (Some d) =
    (DANOS_OK, after_mutation (s\<lparr>mem_next := mem_next s + 2\<rparr>) a (object_link st (mk_entry (t, i) d))
       WAL_OP_CREATE EVENT_OBJ_CREATED t i (Some d))"
  using assms
  by (simp add: danos_object_create_def store_map_def malloc_def after_mutation_def mk_entry_def)

lemma create_no_memory:
  assumes "stores s a = Some st" and "store_map st (t, i) = None" and "d \<noteq> []"
    and "\<not> mem_plan s (mem_next s) \<or> \<not> mem_plan s (Suc (mem_next s))"
  shows "\<exists>n. danos_object_create s (Some a) t i (Some d) = (ERR_NO_MEMORY, s\<lparr>mem_next := n\<rparr>)"
  using assms by (auto simp: danos_object_create_def store_map_def malloc_def)

lemma update_missing:
  "stores s a = Some st \<Longrightarrow> store_map st (t, i) = None \<Longrightarrow> d \<noteq> [] \<Longrightarrow>
     danos_object_update s (Some a) t i (Some d) = (ERR_NOT_FOUND, s)"
  by (auto simp: danos_object_update_def store_map_def)

lemma update_ok:
  assumes "stores s a = Some st" and "store_map st (t, i) \<noteq> None" and "d \<noteq> []"
    and "mem_plan s (mem_next s)"
  shows "danos_object_update s (Some a) t i (Some d) =
    (DANOS_OK, after_mutation (s\<lparr>mem_next := Suc (mem_next s)\<rparr>) a (object_set_data st t i d)
       WAL_OP_UPDATE EVENT_OBJ_UPDATED t i (Some d))"
  using assms
  by (auto simp: danos_object_update_def store_map_def malloc_def after_mutation_def)

lemma update_no_memory:
  assumes "stores s a = Some st" and "store_map st (t, i) \<noteq> None" and "d \<noteq> []"
    and "\<not> mem_plan s (mem_next s)"
  shows "danos_object_update s (Some a) t i (Some d) =
    (ERR_NO_MEMORY, s\<lparr>mem_next := Suc (mem_next s)\<rparr>)"
  using assms by (auto simp: danos_object_update_def store_map_def malloc_def)

lemma delete_missing:
  "stores s a = Some st \<Longrightarrow> store_map st (t, i) = None \<Longrightarrow>
     danos_object_delete s (Some a) t i = (ERR_NOT_FOUND, s)"
  by (auto simp: danos_object_delete_def store_map_def)

lemma delete_ok:
  "stores s a = Some st \<Longrightarrow> store_map st (t, i) \<noteq> None \<Longrightarrow>
     danos_object_delete s (Some a) t i =
       (DANOS_OK, after_mutation s a (object_unlink st t i) WAL_OP_DELETE EVENT_OBJ_DELETED t i None)"
  by (auto simp: danos_object_delete_def store_map_def after_mutation_def)

lemma empty_data_refused:
  "danos_object_create s so t i (Some []) = (ERR_INVALID_ARG, s)"
  "danos_object_update s so t i (Some []) = (ERR_INVALID_ARG, s)"
  by (auto simp: danos_object_create_def danos_object_update_def split: option.splits)

subsection \<open>Refinement to a map\<close>

text \<open>
  The abstract object store: create, update and delete on a map, with the status each
  returns. Every operation of the C code on a well-formed store either runs out of memory
  and changes no object, or does what the abstract operation does.
\<close>

datatype obj_op =
    OpCreate danos_obj_type u64 bytes
  | OpUpdate danos_obj_type u64 bytes
  | OpDelete danos_obj_type u64

fun spec_op :: "obj_op \<Rightarrow> (obj_key \<Rightarrow> bytes option) \<Rightarrow> danos_status \<times> (obj_key \<Rightarrow> bytes option)" where
  "spec_op (OpCreate t i d) m =
     (if d = [] then (ERR_INVALID_ARG, m)
      else if m (t, i) \<noteq> None then (ERR_EXISTS, m)
      else (DANOS_OK, m((t, i) \<mapsto> d)))"
| "spec_op (OpUpdate t i d) m =
     (if d = [] then (ERR_INVALID_ARG, m)
      else if m (t, i) = None then (ERR_NOT_FOUND, m)
      else (DANOS_OK, m((t, i) \<mapsto> d)))"
| "spec_op (OpDelete t i) m =
     (if m (t, i) = None then (ERR_NOT_FOUND, m) else (DANOS_OK, m((t, i) := None)))"

fun run_op :: "nat \<Rightarrow> obj_op \<Rightarrow> 'z sys_scheme \<Rightarrow> danos_status \<times> 'z sys_scheme" where
  "run_op a (OpCreate t i d) s = danos_object_create s (Some a) t i (Some d)"
| "run_op a (OpUpdate t i d) s = danos_object_update s (Some a) t i (Some d)"
| "run_op a (OpDelete t i) s = danos_object_delete s (Some a) t i"

definition sys_map :: "'z sys_scheme \<Rightarrow> nat \<Rightarrow> obj_key \<Rightarrow> bytes option" where
  "sys_map s a = (case stores s a of None \<Rightarrow> Map.empty | Some st \<Rightarrow> store_map st)"

definition stores_wf :: "'z sys_scheme \<Rightarrow> bool" where
  "stores_wf s \<longleftrightarrow> (\<forall>a st. stores s a = Some st \<longrightarrow> store_wf st)"

lemma stores_wf_create:
  "stores_wf s \<Longrightarrow> stores_wf (snd (danos_object_store_create s n))"
  by (auto simp: stores_wf_def danos_object_store_create_def malloc_def Let_def store_wf_new)

definition refines_op :: "nat \<Rightarrow> obj_op \<Rightarrow> 'z sys_scheme \<Rightarrow> danos_status \<Rightarrow> 'z sys_scheme \<Rightarrow> bool" where
  "refines_op a op s rc s' \<longleftrightarrow>
     stores_wf s' \<and> (\<forall>b. b \<noteq> a \<longrightarrow> stores s' b = stores s b) \<and>
     (rc = ERR_NO_MEMORY \<and> sys_map s' a = sys_map s a \<or>
      (rc, sys_map s' a) = spec_op op (sys_map s a))"

lemma refines_mutation:
  assumes "stores_wf s" and "stores s a = Some st" and "store_wf st'"
    and "(DANOS_OK, store_map st') = spec_op op (store_map st)" and "stores s0 = stores s"
  shows "refines_op a op s DANOS_OK (after_mutation s0 a st' w et t i d)"
  using assms by (auto simp: refines_op_def stores_wf_def sys_map_def)

lemma refines_same:
  assumes "stores_wf s" and "stores s a = Some st" and "stores s' = stores s"
    and "rc = ERR_NO_MEMORY \<or> (rc, store_map st) = spec_op op (store_map st)"
  shows "refines_op a op s rc s'"
  using assms by (auto simp: refines_op_def stores_wf_def sys_map_def)

lemma run_create_refines:
  assumes wf: "stores_wf s" and st: "stores s a = Some st"
    and run: "danos_object_create s (Some a) t i (Some d) = (rc, s')"
  shows "refines_op a (OpCreate t i d) s rc s'"
proof (cases "d = [] \<or> store_map st (t, i) \<noteq> None")
  case True
  then have "(rc, store_map st) = spec_op (OpCreate t i d) (store_map st) \<and> s' = s"
    using run create_exists [OF st, of t i d] by (auto simp: empty_data_refused)
  then show ?thesis using refines_same [OF wf st] by blast
next
  case False
  have swf: "store_wf st" using wf st by (simp add: stores_wf_def)
  show ?thesis
  proof (cases "mem_plan s (mem_next s) \<and> mem_plan s (Suc (mem_next s))")
    case True
    with run False show ?thesis
      using create_ok [OF st, of t i d] obj.inv_add_new [OF swf, of "(t, i)" d]
        obj.lookup_add_new [OF swf, of "(t, i)" d]
      by (auto intro!: refines_mutation [OF wf st])
  next
    case oom: False
    with run False show ?thesis
      using create_no_memory [OF st, of t i d] refines_same [OF wf st, of s' rc] by fastforce
  qed
qed

lemma run_update_refines:
  assumes wf: "stores_wf s" and st: "stores s a = Some st"
    and run: "danos_object_update s (Some a) t i (Some d) = (rc, s')"
  shows "refines_op a (OpUpdate t i d) s rc s'"
proof (cases "d = [] \<or> store_map st (t, i) = None")
  case True
  then have "(rc, store_map st) = spec_op (OpUpdate t i d) (store_map st) \<and> s' = s"
    using run update_missing [OF st, of t i d] by (auto simp: empty_data_refused)
  then show ?thesis using refines_same [OF wf st] by blast
next
  case False
  have swf: "store_wf st" using wf st by (simp add: stores_wf_def)
  show ?thesis
  proof (cases "mem_plan s (mem_next s)")
    case True
    with run False show ?thesis
      using update_ok [OF st, of t i d] obj.inv_overwrite [OF swf, of "(t, i)" d]
        obj.lookup_overwrite [OF swf, of "(t, i)" d]
      by (auto intro!: refines_mutation [OF wf st])
  next
    case oom: False
    with run False show ?thesis
      using update_no_memory [OF st, of t i d] refines_same [OF wf st, of s' rc] by fastforce
  qed
qed

lemma run_delete_refines:
  assumes wf: "stores_wf s" and st: "stores s a = Some st"
    and run: "danos_object_delete s (Some a) t i = (rc, s')"
  shows "refines_op a (OpDelete t i) s rc s'"
proof (cases "store_map st (t, i) = None")
  case True
  then show ?thesis
    using run delete_missing [OF st, of t i] refines_same [OF wf st, of s' rc] by auto
next
  case False
  have swf: "store_wf st" using wf st by (simp add: stores_wf_def)
  show ?thesis
    using run False delete_ok [OF st, of t i] obj.inv_remove [OF swf, of "(t, i)"]
      obj.lookup_remove [OF swf, of "(t, i)"]
    by (auto intro!: refines_mutation [OF wf st])
qed

lemma run_op_refines:
  "stores_wf s \<Longrightarrow> stores s a = Some st \<Longrightarrow> run_op a op s = (rc, s') \<Longrightarrow> refines_op a op s rc s'"
  by (cases op) (auto intro: run_create_refines run_update_refines run_delete_refines)

subsection \<open>Runs that never lack memory\<close>

lemma run_op_frame [simp, frame_simps]:
  "next_addr (snd (run_op a op s)) = next_addr s"
  "g_default_store (snd (run_op a op s)) = g_default_store s"
  "g_enabled (snd (run_op a op s)) = g_enabled s"
  "g_recovering (snd (run_op a op s)) = g_recovering s"
  "g_recovered (snd (run_op a op s)) = g_recovered s"
  "mem_plan (snd (run_op a op s)) = mem_plan s"
  by (cases op;
      simp add: danos_object_create_def danos_object_update_def danos_object_delete_def malloc_def
        Let_def notify_event_def danos_programming_mark_dirty_def set_store_def split: option.split)+

lemma run_op_memory:
  assumes "mem_plan s = (\<lambda>_. True)"
  shows "fst (run_op a op s) \<noteq> ERR_NO_MEMORY"
  using assms
  by (cases op)
    (auto simp: danos_object_create_def danos_object_update_def danos_object_delete_def malloc_def
      Let_def split: option.split)

lemma run_op_keeps_store:
  "stores s a \<noteq> None \<Longrightarrow> stores (snd (run_op a op s)) a \<noteq> None"
  by (cases op)
    (auto simp: danos_object_create_def danos_object_update_def danos_object_delete_def malloc_def
      Let_def notify_event_def danos_programming_mark_dirty_def set_store_def
      split: option.splits if_splits)

lemma run_op_exact:
  assumes wf: "stores_wf s" and a: "stores s a \<noteq> None" and mem: "mem_plan s = (\<lambda>_. True)"
    and run: "run_op a op s = (rc, s')"
  shows "stores_wf s'" and "stores s' a \<noteq> None" and "\<And>b. b \<noteq> a \<Longrightarrow> stores s' b = stores s b"
    and "(rc, sys_map s' a) = spec_op op (sys_map s a)"
proof -
  obtain st where st: "stores s a = Some st" using a by blast
  have "refines_op a op s rc s'" by (rule run_op_refines [OF wf st run])
  moreover have "rc \<noteq> ERR_NO_MEMORY" using run_op_memory [OF mem, of a op] run by simp
  ultimately show "stores_wf s'" "\<And>b. b \<noteq> a \<Longrightarrow> stores s' b = stores s b"
    "(rc, sys_map s' a) = spec_op op (sys_map s a)"
    by (auto simp: refines_op_def)
  show "stores s' a \<noteq> None" using run_op_keeps_store [OF a, of op] run by simp
qed

subsection \<open>Properties\<close>

lemma run_op_failed:
  "fst (run_op a op s) \<noteq> DANOS_OK \<Longrightarrow>
     snd (run_op a op s) = s\<lparr>mem_next := mem_next (snd (run_op a op s))\<rparr>"
  by (cases op)
    (simp_all add: danos_object_create_def danos_object_update_def danos_object_delete_def
      malloc_def Let_def split: option.splits if_splits)

fun op_event :: "obj_op \<Rightarrow> u64 \<Rightarrow> danos_event" where
  "op_event (OpCreate t i d) now = \<lparr>ev_type = EVENT_OBJ_CREATED, ev_timestamp_ns = now * 1000000000,
     ev_obj_type = t, ev_obj_id = i, ev_tx_id = 0, ev_message = None\<rparr>"
| "op_event (OpUpdate t i d) now = \<lparr>ev_type = EVENT_OBJ_UPDATED, ev_timestamp_ns = now * 1000000000,
     ev_obj_type = t, ev_obj_id = i, ev_tx_id = 0, ev_message = None\<rparr>"
| "op_event (OpDelete t i) now = \<lparr>ev_type = EVENT_OBJ_DELETED, ev_timestamp_ns = now * 1000000000,
     ev_obj_type = t, ev_obj_id = i, ev_tx_id = 0, ev_message = None\<rparr>"

lemma run_op_done:
  "fst (run_op a op s) = DANOS_OK \<Longrightarrow>
     g_dirty (snd (run_op a op s)) \<and>
     g_event_bus (snd (run_op a op s)) =
       danos_event_publish (g_event_bus s) (Some (op_event op (wall_clock s)))"
  by (cases op; simp add: danos_object_create_def danos_object_update_def danos_object_delete_def
      malloc_def Let_def notify_event_def danos_programming_mark_dirty_def set_store_def
      split: option.splits if_splits; auto)

text \<open>
  C6: The hash-table object store implements a map. Any create, update or delete on a
  well-formed store either runs out of memory and changes no object, or returns the status
  and has the effect of the same operation on the abstract map (duplicate create, update or
  delete of an absent object and empty data included); it keeps every store well formed and
  touches no other store.
\<close>

theorem object_op_refines_map:
  assumes "stores_wf s" and "stores s a \<noteq> None" and "run_op a op s = (rc, s')"
  shows "stores_wf s' \<and> (\<forall>b. b \<noteq> a \<longrightarrow> stores s' b = stores s b) \<and>
     (rc = ERR_NO_MEMORY \<and> sys_map s' a = sys_map s a \<or>
      (rc, sys_map s' a) = spec_op op (sys_map s a))"
  using assms run_op_refines [of s a _ op rc s'] by (auto simp: refines_op_def)

definition sample_sys :: sys where
  "sample_sys = \<lparr>stores = [0 \<mapsto> object_store_new 4], next_addr = 1, g_default_store = Some 0,
     g_event_bus = Some sample_bus, sys_fs = sample_fs, g_wal = wal_ctx_zero, g_enabled = False,
     g_recovering = False, g_records_logged = 0, g_recovered = 0, g_dirty = False,
     mem_plan = (\<lambda>_. True), mem_next = 0, wall_clock = 0\<rparr>"

lemma sample_sys_wf: "stores_wf sample_sys"
  by (simp add: stores_wf_def sample_sys_def store_wf_new)

theorem object_op_refines_map_witness:
  "stores_wf sample_sys \<and> stores sample_sys 0 \<noteq> None \<and>
     sys_map (snd (run_op 0 (OpCreate OBJ_VRF 5 [1, 2]) sample_sys)) 0 = [(OBJ_VRF, 5) \<mapsto> [1, 2]]"
proof -
  have "fst (run_op 0 (OpCreate OBJ_VRF 5 [1, 2]) sample_sys) \<noteq> ERR_NO_MEMORY"
    by (simp add: danos_object_create_def sample_sys_def malloc_def Let_def)
  moreover have "sys_map sample_sys 0 = Map.empty"
    by (simp add: sys_map_def sample_sys_def store_map_new)
  ultimately show ?thesis
    using object_op_refines_map [OF sample_sys_wf, of 0 "OpCreate OBJ_VRF 5 [1, 2]"
        "fst (run_op 0 (OpCreate OBJ_VRF 5 [1, 2]) sample_sys)"
        "snd (run_op 0 (OpCreate OBJ_VRF 5 [1, 2]) sample_sys)"] sample_sys_wf
    by (simp add: sample_sys_def)
qed

text \<open>
  C16: Mutations are all or nothing. An operation that does not return OK leaves the whole
  system as it was (no object, log record, dirty mark or event), apart from the allocations
  it tried; one that returns OK marks the programming state dirty and publishes exactly the
  event of that operation.
\<close>

theorem object_op_atomic:
  "case run_op a op s of (rc, s') \<Rightarrow>
     if rc = DANOS_OK
     then g_dirty s' \<and> g_event_bus s' = danos_event_publish (g_event_bus s) (Some (op_event op (wall_clock s)))
     else s' = s\<lparr>mem_next := mem_next s'\<rparr>"
  using run_op_failed [of a op s] run_op_done [of a op s] by (auto split: prod.split)

end
