(* ===== verification/Persist.thy ===== *)
theory Persist
  imports Core_State
begin

text \<open>
  Configuration persistence, \<^verbatim>\<open>danos-core/src/persist/persist.c\<close>: enabling and disabling
  the log, the replay table (open addressing with linear probing over 4096 slots), boot
  recovery and the checkpoint. The logging side, \<open>danos_persist_log_op\<close> and
  \<open>danos_persist_on_mutation\<close>, is in \<open>Core_State\<close> because the object operations call it.
  The lemmas show that the table is a map from (type, id) to the last logged operation, and
  that recovery from an intact log rebuilds exactly the loggable part of the store.
\<close>

subsection \<open>Enabling\<close>

definition danos_persist_disable :: "'z sys_scheme \<Rightarrow> 'z sys_scheme" where
  "danos_persist_disable s =
     (if g_enabled s then s\<lparr>g_wal := danos_wal_close (g_wal s), g_enabled := False\<rparr> else s)"

definition danos_persist_enable :: "'z sys_scheme \<Rightarrow> string option \<Rightarrow> int \<times> 'z sys_scheme" where
  "danos_persist_enable s path =
     (case path of
        None \<Rightarrow> (-1, s)
      | Some p \<Rightarrow>
          (let s1 = (if g_enabled s then danos_persist_disable s else s);
               (rc, fs', ctx) = danos_wal_init (sys_fs s1) (Some p);
               s2 = s1\<lparr>sys_fs := fs', g_wal := ctx\<rparr>
           in if rc \<noteq> 0 then (-1, s2) else (0, s2\<lparr>g_enabled := True\<rparr>)))"

definition danos_persist_is_enabled :: "'z sys_scheme \<Rightarrow> bool" where
  "danos_persist_is_enabled s = g_enabled s"

definition danos_persist_checkpoint :: "'z sys_scheme \<Rightarrow> int \<times> 'z sys_scheme" where
  "danos_persist_checkpoint s =
     (if \<not> g_enabled s then (0, s)
      else
        (let (rc, fs', ctx') = danos_wal_checkpoint (sys_fs s) (g_wal s)
         in (if rc \<noteq> 0 then -1 else 0, s\<lparr>sys_fs := fs', g_wal := ctx'\<rparr>)))"

definition danos_persist_get_stats :: "'z sys_scheme \<Rightarrow> u64 \<times> u64" where
  "danos_persist_get_stats s = (g_records_logged s, g_recovered s)"

subsection \<open>The replay table\<close>

record replay_slot =
  sl_data :: "bytes option"
  sl_len :: u32
  sl_last_op :: u8
  sl_wal_type :: u16
  sl_id :: u32
  sl_used :: bool

type_synonym wal_key = "u16 \<times> u32"

definition REPLAY_SLOTS :: nat where "REPLAY_SLOTS = 4096"

definition slot_zero :: replay_slot where
  "slot_zero = \<lparr>sl_data = None, sl_len = 0, sl_last_op = 0, sl_wal_type = 0, sl_id = 0, sl_used = False\<rparr>"

definition slot_hash :: "wal_key \<Rightarrow> nat" where
  "slot_hash k = unat (((ucast (fst k) :: u32) * 2654435761 + snd k) AND of_nat (REPLAY_SLOTS - 1))"

definition slot_key :: "replay_slot \<Rightarrow> wal_key" where
  "slot_key sl = (sl_wal_type sl, sl_id sl)"

text \<open>The probe loop from its \<open>i\<close>-th turn with \<open>n\<close> turns left: the index of the slot.\<close>

fun replay_probe :: "replay_slot list \<Rightarrow> wal_key \<Rightarrow> nat \<Rightarrow> nat \<Rightarrow> nat option" where
  "replay_probe table k i 0 = None"
| "replay_probe table k i (Suc n) =
     (let j = (slot_hash k + i) mod REPLAY_SLOTS; sl = table ! j
      in if \<not> sl_used sl then Some j
         else if slot_key sl = k then Some j
         else replay_probe table k (Suc i) n)"

definition replay_slot_find ::
  "replay_slot list \<Rightarrow> wal_key \<Rightarrow> (nat \<times> replay_slot list) option" where
  "replay_slot_find table k =
     (case replay_probe table k 0 REPLAY_SLOTS of
        None \<Rightarrow> None
      | Some j \<Rightarrow>
          (if \<not> sl_used (table ! j)
           then Some (j, table[j := (table ! j)\<lparr>sl_used := True, sl_wal_type := fst k, sl_id := snd k\<rparr>])
           else Some (j, table)))"

text \<open>
  \<^verbatim>\<open>replay_cb\<close>: the user data is the table and the number of records seen, which selects
  the outcome of the copy's allocation. Its return value is ignored by the replay loop.
\<close>

definition replay_cb ::
  "(nat \<Rightarrow> bool) \<Rightarrow> wal_record \<Rightarrow> replay_slot list \<times> nat \<Rightarrow> replay_slot list \<times> nat" where
  "replay_cb al r u =
     (let (table, n) = u
      in if wr_op_type r \<noteq> wal_op_code WAL_OP_CREATE \<and> wr_op_type r \<noteq> wal_op_code WAL_OP_UPDATE \<and>
            wr_op_type r \<noteq> wal_op_code WAL_OP_DELETE
         then (table, Suc n)
         else
           (case replay_slot_find table (wr_obj_type r, wr_obj_id r) of
              None \<Rightarrow> (table, Suc n)
            | Some (j, table') \<Rightarrow>
                (let sl = (table' ! j)\<lparr>sl_data := None, sl_len := wr_data_len r,
                                      sl_last_op := wr_op_type r\<rparr>;
                     sl' = (if 0 < wr_data_len r \<and> wr_data r \<noteq> None \<and> al n
                            then sl\<lparr>sl_data := wr_data r\<rparr> else sl)
                 in (table'[j := sl'], Suc n))))"

subsection \<open>Recovery\<close>

definition apply_slot :: "replay_slot \<Rightarrow> int \<times> 'z sys_scheme \<Rightarrow> int \<times> 'z sys_scheme" where
  "apply_slot sl u =
     (let (applied, s) = u;
          type = wal_type_to_dpa (sl_wal_type sl);
          oid = ucast (sl_id sl);
          so = g_default_store s
      in if \<not> sl_used sl \<or> sl_last_op sl = 0 then (applied, s)
         else if type = OBJ_INVALID then (applied, s)
         else if sl_last_op sl = wal_op_code WAL_OP_DELETE
         then (applied + 1, snd (danos_object_delete s so type oid))
         else
           (case sl_data sl of
              None \<Rightarrow> (applied, s)
            | Some d \<Rightarrow>
                (if sl_len sl = 0 then (applied, s)
                 else
                   (let (st, s') =
                          (if sl_last_op sl = wal_op_code WAL_OP_UPDATE
                           then
                             (let (st1, s1) = danos_object_update s so type oid (Some d)
                              in if st1 = ERR_NOT_FOUND
                                 then danos_object_create s1 so type oid (Some d) else (st1, s1))
                           else danos_object_create s so type oid (Some d))
                    in if st = DANOS_OK \<or> st = ERR_EXISTS \<or> st = ERR_NOT_FOUND
                       then (applied + 1, s') else (applied, s')))))"

text \<open>
  Record \<open>n\<close> of the replay takes the allocation outcomes \<open>base + 2 * n\<close> (the payload buffer
  of the reader) and \<open>base + 2 * n + 1\<close> (the copy the callback keeps).
\<close>

definition danos_persist_recover :: "'z sys_scheme \<Rightarrow> int \<times> 'z sys_scheme" where
  "danos_persist_recover s =
     (if \<not> g_enabled s then (0, s)
      else
        (let s1 = (if g_default_store s = None
                   then (let (a, s') = danos_object_store_create s 1024 in s'\<lparr>g_default_store := a\<rparr>)
                   else s);
             s2 = s1\<lparr>g_recovering := True\<rparr>;
             (ok, s3) = malloc s2
         in if \<not> ok then (-1, s3)
            else
              (let base = mem_next s3; plan = mem_plan s3;
                   (replayed, table, n) =
                     danos_wal_replay (\<lambda>i. plan (base + 2 * i)) (sys_fs s3) (Some (wal_path (g_wal s3)))
                       (Some (replay_cb (\<lambda>i. plan (base + 2 * i + 1)))) (replicate REPLAY_SLOTS slot_zero, 0);
                   s4 = s3\<lparr>mem_next := base + 2 * n + 2\<rparr>;
                   (applied, s5) = fold apply_slot table (0, s4)
               in (applied, s5\<lparr>g_recovering := False, g_recovered := of_int applied\<rparr>))))"

subsection \<open>The replay table is a map\<close>

definition tbl_map :: "replay_slot list \<Rightarrow> wal_key \<Rightarrow> replay_slot option" where
  "tbl_map tbl k = find (\<lambda>sl. sl_used sl \<and> slot_key sl = k) tbl"

text \<open>
  Every used slot is reached from its hash through used slots, and no key has two slots.
\<close>

definition tbl_wf :: "replay_slot list \<Rightarrow> bool" where
  "tbl_wf tbl \<longleftrightarrow>
     length tbl = REPLAY_SLOTS \<and>
     (\<forall>j < REPLAY_SLOTS. sl_used (tbl ! j) \<longrightarrow>
        (\<exists>m < REPLAY_SLOTS. j = (slot_hash (slot_key (tbl ! j)) + m) mod REPLAY_SLOTS \<and>
           (\<forall>i < m. sl_used (tbl ! ((slot_hash (slot_key (tbl ! j)) + i) mod REPLAY_SLOTS))))) \<and>
     (\<forall>i < REPLAY_SLOTS. \<forall>j < REPLAY_SLOTS. sl_used (tbl ! i) \<longrightarrow> sl_used (tbl ! j) \<longrightarrow>
        slot_key (tbl ! i) = slot_key (tbl ! j) \<longrightarrow> i = j)"

lemma REPLAY_SLOTS_pos [simp]: "0 < REPLAY_SLOTS" "j mod REPLAY_SLOTS < REPLAY_SLOTS"
  by (simp_all add: REPLAY_SLOTS_def)

lemma tbl_wfD:
  assumes "tbl_wf tbl"
  shows "length tbl = REPLAY_SLOTS"
    and "j < REPLAY_SLOTS \<Longrightarrow> sl_used (tbl ! j) \<Longrightarrow>
      \<exists>m < REPLAY_SLOTS. j = (slot_hash (slot_key (tbl ! j)) + m) mod REPLAY_SLOTS \<and>
        (\<forall>i < m. sl_used (tbl ! ((slot_hash (slot_key (tbl ! j)) + i) mod REPLAY_SLOTS)))"
    and "i < REPLAY_SLOTS \<Longrightarrow> j < REPLAY_SLOTS \<Longrightarrow> sl_used (tbl ! i) \<Longrightarrow> sl_used (tbl ! j) \<Longrightarrow>
      slot_key (tbl ! i) = slot_key (tbl ! j) \<Longrightarrow> i = j"
  using assms by (auto simp: tbl_wf_def)

lemma tbl_map_SomeD:
  "tbl_map tbl k = Some sl \<Longrightarrow> \<exists>j < length tbl. tbl ! j = sl \<and> sl_used sl \<and> slot_key sl = k"
  by (auto simp: tbl_map_def find_Some_iff)

lemma tbl_map_iff:
  assumes "tbl_wf tbl"
  shows "tbl_map tbl k = Some sl \<longleftrightarrow>
    (\<exists>j < REPLAY_SLOTS. tbl ! j = sl \<and> sl_used sl \<and> slot_key sl = k)"
proof
  assume "tbl_map tbl k = Some sl"
  then show "\<exists>j < REPLAY_SLOTS. tbl ! j = sl \<and> sl_used sl \<and> slot_key sl = k"
    using tbl_map_SomeD tbl_wfD(1) [OF assms] by fastforce
next
  assume "\<exists>j < REPLAY_SLOTS. tbl ! j = sl \<and> sl_used sl \<and> slot_key sl = k"
  then obtain j where j: "j < REPLAY_SLOTS" "tbl ! j = sl" "sl_used sl" "slot_key sl = k" by blast
  have "j' < j \<Longrightarrow> \<not> (sl_used (tbl ! j') \<and> slot_key (tbl ! j') = k)" for j'
    using j tbl_wfD(3) [OF assms, of j' j] by auto
  with j show "tbl_map tbl k = Some sl"
    using tbl_wfD(1) [OF assms] by (auto simp: tbl_map_def find_Some_iff)
qed

lemma tbl_map_None:
  assumes "tbl_wf tbl"
  shows "tbl_map tbl k = None \<longleftrightarrow> (\<forall>j < REPLAY_SLOTS. sl_used (tbl ! j) \<longrightarrow> slot_key (tbl ! j) \<noteq> k)"
  using tbl_wfD(1) [OF assms] by (auto simp: tbl_map_def find_None_iff in_set_conv_nth)

subsubsection \<open>Probing\<close>

lemma replay_probe_Some:
  "replay_probe tbl k i n = Some j \<Longrightarrow>
     \<exists>m. i \<le> m \<and> m < i + n \<and> j = (slot_hash k + m) mod REPLAY_SLOTS \<and>
       (\<not> sl_used (tbl ! j) \<or> slot_key (tbl ! j) = k) \<and>
       (\<forall>l. i \<le> l \<and> l < m \<longrightarrow> sl_used (tbl ! ((slot_hash k + l) mod REPLAY_SLOTS)) \<and>
          slot_key (tbl ! ((slot_hash k + l) mod REPLAY_SLOTS)) \<noteq> k)"
proof (induction n arbitrary: i)
  case 0
  then show ?case by simp
next
  case (Suc n)
  let ?j = "(slot_hash k + i) mod REPLAY_SLOTS"
  show ?case
  proof (cases "\<not> sl_used (tbl ! ?j) \<or> slot_key (tbl ! ?j) = k")
    case True
    with Suc.prems have "j = ?j" by (auto simp: Let_def split: if_splits)
    with True show ?thesis by (intro exI [of _ i]) auto
  next
    case False
    with Suc.prems have "replay_probe tbl k (Suc i) n = Some j" by (simp add: Let_def)
    from Suc.IH [OF this] obtain m where m: "Suc i \<le> m" "m < Suc i + n"
      "j = (slot_hash k + m) mod REPLAY_SLOTS" "\<not> sl_used (tbl ! j) \<or> slot_key (tbl ! j) = k"
      and before: "\<forall>l. Suc i \<le> l \<and> l < m \<longrightarrow> sl_used (tbl ! ((slot_hash k + l) mod REPLAY_SLOTS)) \<and>
          slot_key (tbl ! ((slot_hash k + l) mod REPLAY_SLOTS)) \<noteq> k"
      by blast
    have "sl_used (tbl ! ((slot_hash k + l) mod REPLAY_SLOTS)) \<and>
          slot_key (tbl ! ((slot_hash k + l) mod REPLAY_SLOTS)) \<noteq> k" if "i \<le> l" "l < m" for l
      using that False before by (cases "l = i") auto
    with m show ?thesis by (intro exI [of _ m]) auto
  qed
qed

lemma replay_probe_None:
  "replay_probe tbl k i n = None \<Longrightarrow> i \<le> l \<Longrightarrow> l < i + n \<Longrightarrow>
     sl_used (tbl ! ((slot_hash k + l) mod REPLAY_SLOTS)) \<and>
     slot_key (tbl ! ((slot_hash k + l) mod REPLAY_SLOTS)) \<noteq> k"
proof (induction n arbitrary: i)
  case 0
  then show ?case by simp
next
  case (Suc n)
  then show ?case by (cases "l = i") (auto simp: Let_def split: if_splits)
qed

lemma mod_cover:
  assumes "(j :: nat) < N"
  shows "\<exists>m < N. j = (h + m) mod N"
proof -
  define m where "m = (j + (N - h mod N)) mod N"
  have hN: "h mod N < N" using assms by simp
  have "(h + m) mod N = (h mod N + (j + (N - h mod N))) mod N"
    by (simp add: m_def mod_simps)
  also have "\<dots> = (j + N) mod N" using hN by (intro arg_cong [where f = "\<lambda>x. x mod N"]) linarith
  finally have "(h + m) mod N = j" using assms by simp
  moreover have "m < N" using assms by (simp add: m_def)
  ultimately show ?thesis by blast
qed

lemma mod_inj:
  assumes "(h + m) mod N = (h + m') mod (N :: nat)" and "m < N" and "m' < N"
  shows "m = m'"
proof -
  have "m mod N = m' mod N"
    using assms(1) unfolding nat_mod_eq_iff by (metis add.assoc add_left_cancel)
  with assms show ?thesis by simp
qed

lemma probe_present:
  assumes wf: "tbl_wf tbl" and j: "j < REPLAY_SLOTS" "sl_used (tbl ! j)" "slot_key (tbl ! j) = k"
  shows "replay_probe tbl k 0 REPLAY_SLOTS = Some j"
proof -
  let ?at = "\<lambda>m. (slot_hash k + m) mod REPLAY_SLOTS"
  obtain m0 where m0: "m0 < REPLAY_SLOTS" "j = ?at m0" "\<forall>i < m0. sl_used (tbl ! ?at i)"
    using tbl_wfD(2) [OF wf j(1,2)] j(3) by auto
  have "replay_probe tbl k 0 REPLAY_SLOTS \<noteq> None"
    using replay_probe_None [of tbl k 0 REPLAY_SLOTS m0] m0 j by auto
  then obtain j' where j': "replay_probe tbl k 0 REPLAY_SLOTS = Some j'" by blast
  obtain m where m: "m < REPLAY_SLOTS" "j' = ?at m" "\<not> sl_used (tbl ! j') \<or> slot_key (tbl ! j') = k"
    and before: "\<forall>l < m. sl_used (tbl ! ?at l) \<and> slot_key (tbl ! ?at l) \<noteq> k"
    using replay_probe_Some [OF j'] by auto
  have "\<not> m0 < m" using before m0 j by auto
  moreover have "m < m0 \<Longrightarrow> False"
    using m0 m j tbl_wfD(3) [OF wf, of j' j] mod_inj [of "slot_hash k" m REPLAY_SLOTS m0] by auto
  ultimately have "m = m0" using linorder_neqE_nat by blast
  with m0 m j' show ?thesis by simp
qed

lemma probe_absent:
  assumes wf: "tbl_wf tbl" and absent: "tbl_map tbl k = None"
    and free: "f < REPLAY_SLOTS" "\<not> sl_used (tbl ! f)"
  shows "\<exists>m < REPLAY_SLOTS.
    replay_probe tbl k 0 REPLAY_SLOTS = Some ((slot_hash k + m) mod REPLAY_SLOTS) \<and>
    \<not> sl_used (tbl ! ((slot_hash k + m) mod REPLAY_SLOTS)) \<and>
    (\<forall>i < m. sl_used (tbl ! ((slot_hash k + i) mod REPLAY_SLOTS)))"
proof -
  obtain mf where mf: "mf < REPLAY_SLOTS" "f = (slot_hash k + mf) mod REPLAY_SLOTS"
    using mod_cover [OF free(1)] by blast
  have "replay_probe tbl k 0 REPLAY_SLOTS \<noteq> None"
    using replay_probe_None [of tbl k 0 REPLAY_SLOTS mf] mf free by auto
  then obtain j where j: "replay_probe tbl k 0 REPLAY_SLOTS = Some j" by blast
  obtain m where m: "m < REPLAY_SLOTS" "j = (slot_hash k + m) mod REPLAY_SLOTS"
    "\<not> sl_used (tbl ! j) \<or> slot_key (tbl ! j) = k"
    "\<forall>l < m. sl_used (tbl ! ((slot_hash k + l) mod REPLAY_SLOTS))"
    using replay_probe_Some [OF j] by auto
  have "j < REPLAY_SLOTS" using m by simp
  then have "\<not> sl_used (tbl ! j)"
    using m(3) absent tbl_map_None [OF wf] by blast
  with m j show ?thesis by auto
qed

lemma tbl_put:
  assumes wf: "tbl_wf tbl" and sl: "sl_used sl" "slot_key sl = k"
    and m: "m < REPLAY_SLOTS" "j = (slot_hash k + m) mod REPLAY_SLOTS"
    and before: "\<forall>i < m. sl_used (tbl ! ((slot_hash k + i) mod REPLAY_SLOTS))"
    and slot: "if sl_used (tbl ! j) then slot_key (tbl ! j) = k else tbl_map tbl k = None"
  shows "tbl_wf (tbl[j := sl])" and "tbl_map (tbl[j := sl]) = (tbl_map tbl)(k \<mapsto> sl)"
proof -
  have j: "j < REPLAY_SLOTS" using m by simp
  have len: "length tbl = REPLAY_SLOTS" by (rule tbl_wfD(1) [OF wf])
  have other: "slot_key (tbl ! i) \<noteq> k" if "i < REPLAY_SLOTS" "i \<noteq> j" "sl_used (tbl ! i)" for i
    using slot that tbl_wfD(3) [OF wf that(1) j] tbl_map_None [OF wf] by (auto split: if_splits)
  have used: "sl_used (tbl ! i) \<Longrightarrow> sl_used (tbl[j := sl] ! i)" for i
    using sl by (cases "i = j") (use j len in auto)
  show wf': "tbl_wf (tbl[j := sl])"
    unfolding tbl_wf_def
  proof (intro conjI allI impI)
    show "length (tbl[j := sl]) = REPLAY_SLOTS" using len by simp
  next
    fix i assume i: "i < REPLAY_SLOTS" and u: "sl_used (tbl[j := sl] ! i)"
    let ?k = "slot_key (tbl[j := sl] ! i)"
    show "\<exists>m < REPLAY_SLOTS. i = (slot_hash ?k + m) mod REPLAY_SLOTS \<and>
       (\<forall>l < m. sl_used (tbl[j := sl] ! ((slot_hash ?k + l) mod REPLAY_SLOTS)))"
    proof (cases "i = j")
      case True
      then show ?thesis using m before used sl j len by auto
    next
      case False
      then have "tbl[j := sl] ! i = tbl ! i" by simp
      then show ?thesis using tbl_wfD(2) [OF wf i] u used by auto
    qed
  next
    fix i i' assume i: "i < REPLAY_SLOTS" "i' < REPLAY_SLOTS" "sl_used (tbl[j := sl] ! i)"
      "sl_used (tbl[j := sl] ! i')" "slot_key (tbl[j := sl] ! i) = slot_key (tbl[j := sl] ! i')"
    have at_j: "tbl[j := sl] ! j = sl" using j len by simp
    show "i = i'"
    proof (cases "i = j \<or> i' = j")
      case True
      then show ?thesis using i other [of i] other [of i'] at_j sl(2) by (metis nth_list_update_neq)
    next
      case False
      then show ?thesis using i tbl_wfD(3) [OF wf, of i i'] by simp
    qed
  qed
  show "tbl_map (tbl[j := sl]) = (tbl_map tbl)(k \<mapsto> sl)"
  proof
    fix k'
    show "tbl_map (tbl[j := sl]) k' = ((tbl_map tbl)(k \<mapsto> sl)) k'"
    proof (cases "k' = k")
      case True
      then show ?thesis using sl j len by (auto simp: tbl_map_iff [OF wf'] intro!: exI [of _ j])
    next
      case False
      have "tbl_map (tbl[j := sl]) k' = Some x \<longleftrightarrow> tbl_map tbl k' = Some x" for x
      proof -
        have "(\<exists>i<REPLAY_SLOTS. tbl[j := sl] ! i = x \<and> sl_used x \<and> slot_key x = k') =
            (\<exists>i<REPLAY_SLOTS. tbl ! i = x \<and> sl_used x \<and> slot_key x = k')"
          using False sl slot tbl_map_None [OF wf, of k] j len
          by (metis (full_types) nth_list_update_eq nth_list_update_neq)
        then show ?thesis by (simp add: tbl_map_iff [OF wf] tbl_map_iff [OF wf'])
      qed
      with False show ?thesis by (metis fun_upd_other not_None_eq)
    qed
  qed
qed

lemma tbl_map_finite: "finite (dom (tbl_map tbl))"
proof (rule finite_subset)
  show "dom (tbl_map tbl) \<subseteq> slot_key ` set tbl"
    by (auto simp: tbl_map_def find_Some_iff image_iff) (metis nth_mem)
qed simp

lemma tbl_free:
  assumes wf: "tbl_wf tbl" and small: "card (dom (tbl_map tbl)) < REPLAY_SLOTS"
  shows "\<exists>f < REPLAY_SLOTS. \<not> sl_used (tbl ! f)"
proof (rule ccontr)
  let ?f = "\<lambda>j. slot_key (tbl ! j)"
  assume "\<not> ?thesis"
  then have all: "\<And>j. j < REPLAY_SLOTS \<Longrightarrow> sl_used (tbl ! j)" by blast
  have "inj_on ?f {..<REPLAY_SLOTS}"
    using all tbl_wfD(3) [OF wf] by (intro inj_onI) auto
  then have card: "card (?f ` {..<REPLAY_SLOTS}) = REPLAY_SLOTS" by (simp add: card_image)
  have "?f ` {..<REPLAY_SLOTS} \<subseteq> dom (tbl_map tbl)"
  proof
    fix k assume "k \<in> ?f ` {..<REPLAY_SLOTS}"
    then have "tbl_map tbl k \<noteq> None" using all tbl_map_None [OF wf, of k] by blast
    then show "k \<in> dom (tbl_map tbl)" by (simp add: domIff)
  qed
  from card_mono [OF tbl_map_finite this] card small show False by simp
qed

subsubsection \<open>Replaying a log into the table\<close>

definition obj_record :: "wal_record \<Rightarrow> bool" where
  "obj_record r \<longleftrightarrow>
     wr_op_type r = wal_op_code WAL_OP_CREATE \<or> wr_op_type r = wal_op_code WAL_OP_UPDATE \<or>
     wr_op_type r = wal_op_code WAL_OP_DELETE"

definition record_key :: "wal_record \<Rightarrow> wal_key" where
  "record_key r = (wr_obj_type r, wr_obj_id r)"

definition log_slot :: "wal_record \<Rightarrow> replay_slot" where
  "log_slot r = \<lparr>sl_data = (if 0 < wr_data_len r then wr_data r else None), sl_len = wr_data_len r,
     sl_last_op = wr_op_type r, sl_wal_type = wr_obj_type r, sl_id = wr_obj_id r, sl_used = True\<rparr>"

definition log_step :: "wal_record \<Rightarrow> (wal_key \<Rightarrow> replay_slot option) \<Rightarrow> wal_key \<Rightarrow> replay_slot option" where
  "log_step r m = (if obj_record r then m(record_key r \<mapsto> log_slot r) else m)"

lemma log_slot_simps [simp]: "sl_used (log_slot r)" "slot_key (log_slot r) = record_key r"
  by (simp_all add: log_slot_def slot_key_def record_key_def)

lemma log_slot_alt:
  "sl_used sl \<Longrightarrow> slot_key sl = record_key r \<Longrightarrow>
     (let sl1 = sl\<lparr>sl_data := None, sl_len := wr_data_len r, sl_last_op := wr_op_type r\<rparr>
      in if 0 < wr_data_len r \<and> wr_data r \<noteq> None then sl1\<lparr>sl_data := wr_data r\<rparr> else sl1) = log_slot r"
  by (cases sl) (auto simp: log_slot_def slot_key_def record_key_def Let_def)

lemma replay_slot_find_ok:
  assumes wf: "tbl_wf tbl" and room: "tbl_map tbl k \<noteq> None \<or> (\<exists>f < REPLAY_SLOTS. \<not> sl_used (tbl ! f))"
  shows "\<exists>j m tbl'. replay_slot_find tbl k = Some (j, tbl') \<and> m < REPLAY_SLOTS \<and>
    j = (slot_hash k + m) mod REPLAY_SLOTS \<and>
    (\<forall>i < m. sl_used (tbl ! ((slot_hash k + i) mod REPLAY_SLOTS))) \<and>
    (if sl_used (tbl ! j) then slot_key (tbl ! j) = k else tbl_map tbl k = None) \<and>
    sl_used (tbl' ! j) \<and> slot_key (tbl' ! j) = k \<and> (\<forall>sl. tbl'[j := sl] = tbl[j := sl])"
proof (cases "tbl_map tbl k")
  case (Some sl)
  then obtain j where j: "j < REPLAY_SLOTS" "tbl ! j = sl" "sl_used sl" "slot_key sl = k"
    using tbl_map_iff [OF wf] by blast
  obtain m where m: "m < REPLAY_SLOTS" "j = (slot_hash k + m) mod REPLAY_SLOTS"
    "\<forall>i < m. sl_used (tbl ! ((slot_hash k + i) mod REPLAY_SLOTS))"
    using tbl_wfD(2) [OF wf j(1)] j by auto
  have "replay_probe tbl k 0 REPLAY_SLOTS = Some j"
    using probe_present [OF wf j(1)] j by simp
  then have find: "replay_slot_find tbl k = Some (j, tbl)"
    using j by (simp add: replay_slot_find_def)
  show ?thesis
    by (rule exI [of _ j], rule exI [of _ m], rule exI [of _ tbl]) (use m find j in simp)
next
  case None
  with room obtain f where f: "f < REPLAY_SLOTS" "\<not> sl_used (tbl ! f)" by blast
  obtain m where m: "m < REPLAY_SLOTS"
    "replay_probe tbl k 0 REPLAY_SLOTS = Some ((slot_hash k + m) mod REPLAY_SLOTS)"
    "\<not> sl_used (tbl ! ((slot_hash k + m) mod REPLAY_SLOTS))"
    "\<forall>i < m. sl_used (tbl ! ((slot_hash k + i) mod REPLAY_SLOTS))"
    using probe_absent [OF wf None f] by blast
  define j where "j = (slot_hash k + m) mod REPLAY_SLOTS"
  have j: "j < length tbl" using tbl_wfD(1) [OF wf] by (simp add: j_def)
  show ?thesis
    by (rule exI [of _ j], rule exI [of _ m],
        rule exI [of _ "tbl[j := (tbl ! j)\<lparr>sl_used := True, sl_wal_type := fst k, sl_id := snd k\<rparr>]"])
      (use m None j in \<open>simp add: replay_slot_find_def j_def [symmetric] slot_key_def\<close>)
qed

lemma replay_cb_put:
  assumes wf: "tbl_wf tbl" and obj: "obj_record r"
    and room: "tbl_map tbl (record_key r) \<noteq> None \<or> (\<exists>f < REPLAY_SLOTS. \<not> sl_used (tbl ! f))"
  shows "\<exists>tbl'. replay_cb (\<lambda>_. True) r (tbl, n) = (tbl', Suc n) \<and> tbl_wf tbl' \<and>
    tbl_map tbl' = (tbl_map tbl)(record_key r \<mapsto> log_slot r)"
proof -
  obtain j m tbl' where f: "replay_slot_find tbl (record_key r) = Some (j, tbl')"
    and m: "m < REPLAY_SLOTS" "j = (slot_hash (record_key r) + m) mod REPLAY_SLOTS"
      "\<forall>i < m. sl_used (tbl ! ((slot_hash (record_key r) + i) mod REPLAY_SLOTS))"
      "if sl_used (tbl ! j) then slot_key (tbl ! j) = record_key r else tbl_map tbl (record_key r) = None"
    and t': "sl_used (tbl' ! j)" "slot_key (tbl' ! j) = record_key r" "\<And>sl. tbl'[j := sl] = tbl[j := sl]"
    using replay_slot_find_ok [OF wf room] by blast
  have "replay_cb (\<lambda>_. True) r (tbl, n) = (tbl[j := log_slot r], Suc n)"
    using f obj log_slot_alt [OF t'(1,2)] t'(3)
    by (auto simp: replay_cb_def obj_record_def record_key_def Let_def)
  then show ?thesis
    using tbl_put [OF wf log_slot_simps m] by simp
qed

lemma log_step_dom: "dom m \<subseteq> dom (log_step r m)"
  by (auto simp: log_step_def)

lemma log_fold_dom: "dom m \<subseteq> dom (fold log_step rs m)"
proof (induction rs arbitrary: m)
  case (Cons r rs)
  show ?case using subset_trans [OF log_step_dom [of m r] Cons.IH [of "log_step r m"]] by simp
qed simp

lemma log_fold_finite: "finite (dom m) \<Longrightarrow> finite (dom (fold log_step rs m))"
  by (induction rs arbitrary: m) (simp_all add: log_step_def)

lemma replay_fold:
  assumes "tbl_wf tbl" and "card (dom (fold log_step rs (tbl_map tbl))) \<le> REPLAY_SLOTS"
  shows "\<exists>tbl'. fold (replay_cb (\<lambda>_. True)) rs (tbl, n) = (tbl', n + length rs) \<and> tbl_wf tbl' \<and>
    tbl_map tbl' = fold log_step rs (tbl_map tbl)"
  using assms
proof (induction rs arbitrary: tbl n)
  case Nil
  then show ?case by simp
next
  case (Cons r rs)
  show ?case
  proof (cases "obj_record r")
    case False
    then have "replay_cb (\<lambda>_. True) r (tbl, n) = (tbl, Suc n)"
      by (simp add: replay_cb_def obj_record_def)
    then show ?thesis using Cons.IH [OF Cons.prems(1), of "Suc n"] Cons.prems(2) False
      by (simp add: log_step_def)
  next
    case True
    let ?k = "record_key r"
    let ?m = "(tbl_map tbl)(?k \<mapsto> log_slot r)"
    have step: "log_step r (tbl_map tbl) = ?m"
      using True by (simp add: log_step_def)
    have "card (dom ?m) \<le> REPLAY_SLOTS"
      using card_mono [OF log_fold_finite log_fold_dom, of ?m rs] tbl_map_finite [of tbl]
        Cons.prems(2) by (simp add: step)
    then have "tbl_map tbl ?k = None \<Longrightarrow> card (dom (tbl_map tbl)) < REPLAY_SLOTS"
      using tbl_map_finite [of tbl] by (simp add: card_insert_if domIff)
    then have "tbl_map tbl ?k \<noteq> None \<or> (\<exists>f < REPLAY_SLOTS. \<not> sl_used (tbl ! f))"
      using tbl_free [OF Cons.prems(1)] by blast
    then obtain tbl' where t': "replay_cb (\<lambda>_. True) r (tbl, n) = (tbl', Suc n)" "tbl_wf tbl'"
      "tbl_map tbl' = ?m"
      using replay_cb_put [OF Cons.prems(1) True] by blast
    then have step': "log_step r (tbl_map tbl) = tbl_map tbl'" using step by simp
    show ?thesis
      using Cons.IH [OF t'(2), of "Suc n"] Cons.prems(2) by (simp add: step' t'(1))
  qed
qed

lemma tbl_wf_empty: "tbl_wf (replicate REPLAY_SLOTS slot_zero)"
  by (simp add: tbl_wf_def slot_zero_def)

lemma tbl_map_empty: "tbl_map (replicate REPLAY_SLOTS slot_zero) = Map.empty"
  by (rule ext) (simp add: tbl_map_None [OF tbl_wf_empty], simp add: slot_zero_def)

end
