(* ===== verification/Durability.thy ===== *)
theory Durability
  imports Persist
begin

text \<open>
  Boot recovery against the log: applying the replay table to the default store, the
  invariant that ties the log to the running store (\<open>durable\<close>), and the crash, checkpoint
  and allocation-failure behaviour of \<^verbatim>\<open>persist.c\<close>.
\<close>

subsection \<open>Applying the table\<close>

definition slot_obj_key :: "replay_slot \<Rightarrow> obj_key" where
  "slot_obj_key sl = (wal_type_to_dpa (sl_wal_type sl), ucast (sl_id sl))"

definition slot_live :: "replay_slot \<Rightarrow> bool" where
  "slot_live sl \<longleftrightarrow> sl_used sl \<and> wal_type_to_dpa (sl_wal_type sl) \<noteq> OBJ_INVALID"

definition slot_value :: "replay_slot \<Rightarrow> bytes option" where
  "slot_value sl =
     (if sl_last_op sl = 0 \<or> sl_last_op sl = wal_op_code WAL_OP_DELETE \<or> sl_len sl = 0 then None
      else sl_data sl)"

text \<open>What one slot does to the map of the default store.\<close>

definition slot_spec :: "replay_slot \<Rightarrow> (obj_key \<Rightarrow> bytes option) \<Rightarrow> obj_key \<Rightarrow> bytes option" where
  "slot_spec sl m =
     (if \<not> slot_live sl \<or> sl_last_op sl = 0 then m
      else if sl_last_op sl = wal_op_code WAL_OP_DELETE then m(slot_obj_key sl := None)
      else if slot_value sl = None then m
      else if sl_last_op sl = wal_op_code WAL_OP_UPDATE \<or> m (slot_obj_key sl) = None
      then m(slot_obj_key sl := slot_value sl) else m)"

definition ready :: "nat \<Rightarrow> 'z sys_scheme \<Rightarrow> bool" where
  "ready a s \<longleftrightarrow>
     g_default_store s = Some a \<and> stores_wf s \<and> stores s a \<noteq> None \<and> mem_plan s = (\<lambda>_. True)"

lemma ready_run_op:
  assumes "ready a s" and "run_op a op s = (rc, s')"
  shows "ready a s'" and "(rc, sys_map s' a) = spec_op op (sys_map s a)"
  using assms run_op_exact [of s a op rc s'] run_op_frame [of a op s] by (auto simp: ready_def)

lemma ready_create:
  "ready a s \<Longrightarrow> danos_object_create s (Some a) t i (Some d) = (rc, s') \<Longrightarrow>
     ready a s' \<and> (rc, sys_map s' a) = spec_op (OpCreate t i d) (sys_map s a)"
  using ready_run_op [of a s "OpCreate t i d"] by simp

lemma ready_update:
  "ready a s \<Longrightarrow> danos_object_update s (Some a) t i (Some d) = (rc, s') \<Longrightarrow>
     ready a s' \<and> (rc, sys_map s' a) = spec_op (OpUpdate t i d) (sys_map s a)"
  using ready_run_op [of a s "OpUpdate t i d"] by simp

lemma ready_delete:
  "ready a s \<Longrightarrow> danos_object_delete s (Some a) t i = (rc, s') \<Longrightarrow>
     ready a s' \<and> (rc, sys_map s' a) = spec_op (OpDelete t i) (sys_map s a)"
  using ready_run_op [of a s "OpDelete t i"] by simp

definition upsert_op :: "'z sys_scheme \<Rightarrow> nat option \<Rightarrow> danos_obj_type \<Rightarrow> u64 \<Rightarrow> bytes \<Rightarrow> danos_status \<times> 'z sys_scheme" where
  "upsert_op s so t i d =
     (let (st1, s1) = danos_object_update s so t i (Some d)
      in if st1 = ERR_NOT_FOUND then danos_object_create s1 so t i (Some d) else (st1, s1))"

lemma upsert_op_spec:
  assumes "ready a s" and "d \<noteq> []" and "upsert_op s (Some a) t i d = (rc, s')"
  shows "ready a s' \<and> rc = DANOS_OK \<and> sys_map s' a = (sys_map s a)((t, i) \<mapsto> d)"
proof -
  obtain st1 s1 where u: "danos_object_update s (Some a) t i (Some d) = (st1, s1)" by fastforce
  note up = ready_update [OF assms(1) u]
  show ?thesis
  proof (cases "st1 = ERR_NOT_FOUND")
    case True
    then have "danos_object_create s1 (Some a) t i (Some d) = (rc, s')"
      using assms(3) u by (simp add: upsert_op_def)
    from ready_create [OF conjunct1 [OF up] this] up True assms(2) show ?thesis
      by (auto split: if_splits)
  next
    case False
    then show ?thesis using assms(2,3) u up by (auto simp: upsert_op_def split: if_splits)
  qed
qed

lemma apply_slot_spec:
  assumes r: "ready a s" and d: "sl_used sl \<longrightarrow> sl_data sl \<noteq> Some []" and ap: "apply_slot sl (n, s) = (n', s')"
  shows "ready a s' \<and> sys_map s' a = slot_spec sl (sys_map s a)"
proof -
  have so: "g_default_store s = Some a" using r by (simp add: ready_def)
  let ?t = "wal_type_to_dpa (sl_wal_type sl)" and ?i = "ucast (sl_id sl) :: u64"
  consider (skip) "\<not> slot_live sl \<or> sl_last_op sl = 0"
    | (delete) "slot_live sl" "sl_last_op sl = 3"
    | (empty) "slot_live sl" "sl_last_op sl \<noteq> 0" "sl_last_op sl \<noteq> 3" "slot_value sl = None"
    | (update) v where "slot_live sl" "sl_last_op sl = 2" "slot_value sl = Some v"
    | (create) v where "slot_live sl" "sl_last_op sl \<noteq> 0" "sl_last_op sl \<noteq> 3" "sl_last_op sl \<noteq> 2"
        "slot_value sl = Some v"
    by fastforce
  then show ?thesis
  proof cases
    case skip
    then have "apply_slot sl (n, s) = (n, s)" by (auto simp: apply_slot_def slot_live_def Let_def)
    then show ?thesis using ap r skip by (auto simp: slot_spec_def)
  next
    case delete
    obtain rc1 s1 where s1: "danos_object_delete s (Some a) ?t ?i = (rc1, s1)" by fastforce
    then have "s' = s1"
      using ap delete so by (auto simp: apply_slot_def slot_live_def Let_def split: prod.splits)
    then show ?thesis
      using ready_delete [OF r s1] delete
      by (auto simp: slot_spec_def slot_obj_key_def split: if_splits)
  next
    case empty
    then have "apply_slot sl (n, s) = (n, s)"
      by (auto simp: apply_slot_def slot_live_def slot_value_def Let_def split: option.split)
    then show ?thesis using ap r empty by (simp add: slot_spec_def)
  next
    case (update v)
    then have v: "sl_data sl = Some v" "sl_len sl \<noteq> 0" by (auto simp: slot_value_def split: if_splits)
    obtain rc1 s1 where s1: "upsert_op s (g_default_store s) ?t ?i v = (rc1, s1)" by fastforce
    then have "snd (apply_slot sl (n, s)) = s1"
      using update v by (simp add: apply_slot_def slot_live_def upsert_op_def Let_def)
    then have "s' = s1" using ap by simp
    moreover have "v \<noteq> []" using d v update by (auto simp: slot_live_def)
    ultimately show ?thesis
      using upsert_op_spec [OF r _ s1 [unfolded so]] update by (simp add: slot_spec_def slot_obj_key_def)
  next
    case (create v)
    then have v: "sl_data sl = Some v" "sl_len sl \<noteq> 0" by (auto simp: slot_value_def split: if_splits)
    obtain rc1 s1 where s1: "danos_object_create s (Some a) ?t ?i (Some v) = (rc1, s1)" by fastforce
    then have "snd (apply_slot sl (n, s)) = s1"
      using create v so by (simp add: apply_slot_def slot_live_def Let_def)
    then have "s' = s1" using ap by simp
    moreover have "v \<noteq> []" using d v create by (auto simp: slot_live_def)
    ultimately show ?thesis
      using ready_create [OF r s1] create by (auto simp: slot_spec_def slot_obj_key_def split: if_splits)
  qed
qed

lemma apply_fold_spec:
  assumes "ready a s" and "\<forall>sl \<in> set tbl. sl_used sl \<longrightarrow> sl_data sl \<noteq> Some []"
    and "fold apply_slot tbl (n, s) = (n', s')"
  shows "ready a s' \<and> sys_map s' a = fold slot_spec tbl (sys_map s a)"
  using assms
proof (induction tbl arbitrary: n s)
  case Nil
  then show ?case by simp
next
  case (Cons sl tbl)
  obtain n1 s1 where s1: "apply_slot sl (n, s) = (n1, s1)" by fastforce
  have "ready a s1 \<and> sys_map s1 a = slot_spec sl (sys_map s a)"
    by (rule apply_slot_spec [OF Cons.prems(1) _ s1]) (use Cons.prems(2) in simp)
  then show ?case using Cons.IH [of s1 n1] Cons.prems s1 by simp
qed

subsubsection \<open>The value of a table\<close>

definition loggable :: "obj_key \<Rightarrow> bool" where
  "loggable k \<longleftrightarrow> dpa_type_to_wal (fst k) \<noteq> 0 \<and> snd k \<le> 0xFFFFFFFF"

definition wal_key_of :: "obj_key \<Rightarrow> wal_key" where
  "wal_key_of k = (dpa_type_to_wal (fst k), ucast (snd k))"

lemma dpa_wal_roundtrip: "dpa_type_to_wal t \<noteq> 0 \<Longrightarrow> wal_type_to_dpa (dpa_type_to_wal t) = t"
  by (cases t) (simp_all add: wal_type_to_dpa_def)

lemma wal_dpa_roundtrip:
  "wal_type_to_dpa w \<noteq> OBJ_INVALID \<Longrightarrow> dpa_type_to_wal (wal_type_to_dpa w) = w \<and> w \<noteq> 0"
  by (auto simp: wal_type_to_dpa_def split: if_splits)

lemma ucast_u32_u64: "unat (ucast (w :: u32) :: u64) = unat w"
proof -
  have "unat w < 2 ^ 64" using unsigned_less [of w, where 'a = nat] by simp
  then show ?thesis by (simp add: unsigned_ucast_eq take_bit_nat_eq_self)
qed

lemma ucast_small: "x \<le> 0xFFFFFFFF \<Longrightarrow> ucast (ucast (x :: u64) :: u32) = x"
proof -
  assume "x \<le> 0xFFFFFFFF"
  then have "unat x < 2 ^ 32" by (simp add: word_le_nat_alt)
  then have "unat (ucast (ucast x :: u32) :: u64) = unat x"
    by (simp add: ucast_u32_u64 unsigned_ucast_eq unsigned_take_bit_eq take_bit_nat_eq_self)
  then show ?thesis by (simp add: word_unat_eq_iff)
qed

lemma ucast_back: "ucast (ucast (w :: u32) :: u64) = w"
  by (rule bit_word_eqI) (simp add: bit_simps)

lemma ucast_le: "(ucast (w :: u32) :: u64) \<le> 0xFFFFFFFF"
  using unsigned_less [of w, where 'a = nat] by (simp add: word_le_nat_alt ucast_u32_u64)

lemma slot_key_obj_key:
  "slot_live sl \<and> slot_obj_key sl = k \<longleftrightarrow> sl_used sl \<and> loggable k \<and> slot_key sl = wal_key_of k"
  using dpa_wal_roundtrip [of "fst k"] wal_dpa_roundtrip [of "sl_wal_type sl"] ucast_small [of "snd k"]
  by (cases k) (auto simp: slot_live_def slot_obj_key_def loggable_def slot_key_def wal_key_of_def
      ucast_back ucast_le)

lemma distinct_map_filter_nth:
  "(\<And>i j. i < length xs \<Longrightarrow> j < length xs \<Longrightarrow> P (xs ! i) \<Longrightarrow> P (xs ! j) \<Longrightarrow> f (xs ! i) = f (xs ! j) \<Longrightarrow> i = j)
     \<Longrightarrow> distinct (map f (filter P xs))"
proof (induction xs)
  case Nil
  then show ?case by simp
next
  case (Cons x xs)
  have "i = j" if "i < length xs" "j < length xs" "P (xs ! i)" "P (xs ! j)" "f (xs ! i) = f (xs ! j)" for i j
    using Cons.prems [of "Suc i" "Suc j"] that by simp
  then have IH: "distinct (map f (filter P xs))" by (rule Cons.IH)
  have "f x \<noteq> f y" if y: "P x" "y \<in> set xs" "P y" for y
  proof -
    obtain j where "j < length xs" "xs ! j = y" using y(2) by (auto simp: in_set_conv_nth)
    then show ?thesis using Cons.prems [of 0 "Suc j"] y by auto
  qed
  with IH show ?case by auto
qed

lemma tbl_wf_distinct: "tbl_wf tbl \<Longrightarrow> distinct (map slot_key (filter sl_used tbl))"
  by (rule distinct_map_filter_nth) (use tbl_wfD in auto)

lemma slot_spec_other: "slot_obj_key sl \<noteq> k \<or> \<not> slot_live sl \<Longrightarrow> slot_spec sl m k = m k"
  by (auto simp: slot_spec_def)

lemma slot_spec_self:
  "slot_live sl \<Longrightarrow> m (slot_obj_key sl) = None \<Longrightarrow> slot_spec sl m (slot_obj_key sl) = slot_value sl"
  by (auto simp: slot_spec_def slot_value_def)

lemma fold_slot_spec:
  assumes "distinct (map slot_key (filter sl_used tbl))"
    and "\<forall>sl \<in> set tbl. slot_live sl \<longrightarrow> m (slot_obj_key sl) = None"
  shows "fold slot_spec tbl m k =
    (case find (\<lambda>sl. slot_live sl \<and> slot_obj_key sl = k) tbl of None \<Rightarrow> m k | Some sl \<Rightarrow> slot_value sl)"
  using assms
proof (induction tbl arbitrary: m)
  case Nil
  then show ?case by simp
next
  case (Cons x tbl)
  have other: "\<not> (slot_live x \<and> slot_obj_key sl = slot_obj_key x)" if "sl \<in> set tbl" "slot_live sl" for sl
  proof
    assume "slot_live x \<and> slot_obj_key sl = slot_obj_key x"
    then have "slot_key x = slot_key sl" "sl_used x" "sl_used sl"
      using slot_key_obj_key [of x "slot_obj_key x"] slot_key_obj_key [of sl "slot_obj_key x"] that
      by auto
    then show False using Cons.prems(1) that by (auto simp: image_iff)
  qed
  have IH: "fold slot_spec tbl (slot_spec x m) k =
    (case find (\<lambda>sl. slot_live sl \<and> slot_obj_key sl = k) tbl of
       None \<Rightarrow> slot_spec x m k | Some sl \<Rightarrow> slot_value sl)"
  proof (rule Cons.IH)
    show "distinct (map slot_key (filter sl_used tbl))" using Cons.prems(1) by (auto split: if_splits)
    show "\<forall>sl \<in> set tbl. slot_live sl \<longrightarrow> slot_spec x m (slot_obj_key sl) = None"
    proof (intro ballI impI)
      fix sl assume sl: "sl \<in> set tbl" "slot_live sl"
      have "slot_spec x m (slot_obj_key sl) = m (slot_obj_key sl)"
        by (rule slot_spec_other) (use other [OF sl] in auto)
      then show "slot_spec x m (slot_obj_key sl) = None" using Cons.prems(2) sl by simp
    qed
  qed
  show ?case
  proof (cases "slot_live x \<and> slot_obj_key x = k")
    case True
    then have "find (\<lambda>sl. slot_live sl \<and> slot_obj_key sl = k) tbl = None"
      using other by (auto simp: find_None_iff)
    with IH True Cons.prems(2) show ?thesis by (auto simp: slot_spec_self)
  next
    case False
    then have "slot_spec x m k = m k" by (intro slot_spec_other) auto
    with IH False show ?thesis by (simp split: option.split) auto
  qed
qed

definition tbl_value :: "(wal_key \<Rightarrow> replay_slot option) \<Rightarrow> obj_key \<Rightarrow> bytes option" where
  "tbl_value m k =
     (if loggable k then (case m (wal_key_of k) of None \<Rightarrow> None | Some sl \<Rightarrow> slot_value sl) else None)"

lemma fold_slot_spec_table:
  assumes "tbl_wf tbl"
  shows "fold slot_spec tbl Map.empty = tbl_value (tbl_map tbl)"
proof
  fix k
  have "find (\<lambda>sl. slot_live sl \<and> slot_obj_key sl = k) tbl = (if loggable k then tbl_map tbl (wal_key_of k) else None)"
    by (simp add: slot_key_obj_key tbl_map_def find_None_iff)
  then show "fold slot_spec tbl Map.empty k = tbl_value (tbl_map tbl) k"
    using fold_slot_spec [OF tbl_wf_distinct [OF assms], of Map.empty k]
    by (simp add: tbl_value_def)
qed

subsection \<open>Recovery from a log with an unreadable tail\<close>

definition log_map :: "wal_record list \<Rightarrow> obj_key \<Rightarrow> bytes option" where
  "log_map rs = tbl_value (fold log_step rs Map.empty)"

lemma log_fold_slots:
  assumes "fold log_step rs m k = Some sl" and "list_all wal_record_wf rs"
    and "\<forall>k sl. m k = Some sl \<longrightarrow> sl_data sl \<noteq> Some []"
  shows "sl_data sl \<noteq> Some []"
  using assms
proof (induction rs arbitrary: m)
  case Nil
  then show ?case by (cases k) auto
next
  case (Cons r rs)
  have "sl_data (log_slot r) \<noteq> Some []"
    using Cons.prems(2) by (auto simp: log_slot_def wal_record_wf_def unat_eq_zero)
  then have "\<forall>k sl. log_step r m k = Some sl \<longrightarrow> sl_data sl \<noteq> Some []"
    using Cons.prems(3) by (auto simp: log_step_def)
  with Cons show ?case by (simp del: split_paired_All)
qed

lemma create_default_store:
  assumes "mem_plan s = (\<lambda>_. True)" and "stores_wf s"
    and "danos_object_store_create s n = (x, s1)"
  shows "\<exists>a. x = Some a \<and> ready a (s1\<lparr>g_default_store := x\<rparr>) \<and> sys_map s1 a = Map.empty \<and>
    sys_fs s1 = sys_fs s \<and> g_wal s1 = g_wal s \<and> mem_plan s1 = mem_plan s"
  using assms
  by (auto simp: danos_object_store_create_def malloc_def Let_def ready_def sys_map_def stores_wf_def
      store_wf_new store_map_new)

lemma sys_map_cong: "stores s = stores t \<Longrightarrow> sys_map s a = sys_map t a"
  by (simp add: sys_map_def)

lemma ready_cong:
  "stores s = stores t \<Longrightarrow> g_default_store s = g_default_store t \<Longrightarrow> mem_plan s = mem_plan t \<Longrightarrow>
     ready a s = ready a t"
  by (simp add: ready_def stores_wf_def)

lemma wal_replay_prefix:
  assumes "openable fs p" and "files fs p = Some (concat (map wal_record_bytes rs) @ tail)"
    and "list_all wal_record_wf rs" and "wal_next True tail = None"
  shows "danos_wal_replay (\<lambda>_. True) fs (Some p) (Some cb) u = (int (length rs), fold cb rs u)"
  using assms wal_scan_records [OF assms(3), of 0 tail]
  by (simp add: danos_wal_replay_def wal_scan_stop)

lemma recover_prefix:
  assumes "g_enabled s" and mem: "mem_plan s = (\<lambda>_. True)" and "stores_wf s"
    and "g_default_store s = None"
    and log: "openable (sys_fs s) (wal_path (g_wal s))"
      "files (sys_fs s) (wal_path (g_wal s)) = Some (concat (map wal_record_bytes rs) @ tail)"
      "list_all wal_record_wf rs" "wal_next True tail = None"
    and fits: "card (dom (fold log_step rs Map.empty)) \<le> REPLAY_SLOTS"
    and run: "danos_persist_recover s = (n, s')"
  shows "\<exists>a. ready a s' \<and> sys_map s' a = log_map rs \<and> \<not> g_recovering s'"
proof -
  obtain x s1 where c: "danos_object_store_create s 1024 = (x, s1)" by fastforce
  obtain a where x: "x = Some a" and ra: "ready a (s1\<lparr>g_default_store := x\<rparr>)"
    and e: "sys_map s1 a = Map.empty" and fs: "sys_fs s1 = sys_fs s" "g_wal s1 = g_wal s"
      "mem_plan s1 = (\<lambda>_. True)"
    using create_default_store [OF mem assms(3) c] mem by auto
  obtain tbl where t: "fold (replay_cb (\<lambda>_. True)) rs (replicate REPLAY_SLOTS slot_zero, 0) = (tbl, length rs)"
    "tbl_wf tbl" "tbl_map tbl = fold log_step rs Map.empty"
    using replay_fold [OF tbl_wf_empty, of rs 0] fits by (auto simp: tbl_map_empty)
  define s4 where "s4 = s1\<lparr>g_default_store := x, g_recovering := True,
    mem_next := Suc (mem_next s1) + 2 * length rs + 2\<rparr>"
  obtain m s5 where s5: "fold apply_slot tbl (0, s4) = (m, s5)" by fastforce
  have r4: "ready a s4" using ra by (simp add: ready_def s4_def stores_wf_def)
  have "sl_data sl \<noteq> Some []" if "sl \<in> set tbl" "sl_used sl" for sl
  proof -
    have "tbl_map tbl (slot_key sl) = Some sl"
      using that tbl_map_iff [OF t(2)] tbl_wfD(1) [OF t(2)] by (auto simp: in_set_conv_nth)
    then show ?thesis using log_fold_slots [OF _ log(3), of Map.empty] t(3) by auto
  qed
  then have fin: "ready a s5 \<and> sys_map s5 a = fold slot_spec tbl (sys_map s4 a)"
    by (intro apply_fold_spec [OF r4 _ s5]) blast
  have "sys_map s4 a = Map.empty" using e by (simp add: s4_def sys_map_def)
  then have "sys_map s5 a = log_map rs"
    using fin fold_slot_spec_table [OF t(2)] t(3) by (simp add: log_map_def)
  moreover have "danos_persist_recover s = (m, s5\<lparr>g_recovering := False, g_recovered := of_int m\<rparr>)"
    using assms(1,4) c fs t(1) s5
    by (simp add: danos_persist_recover_def malloc_def s4_def Let_def wal_replay_prefix [OF log])
  ultimately show ?thesis using fin run
    by (intro exI [of _ a]) (simp add: ready_def stores_wf_def sys_map_def)
qed

subsection \<open>Logging keeps the log equal to the store\<close>

fun op_key :: "obj_op \<Rightarrow> obj_key" where
  "op_key (OpCreate t i d) = (t, i)"
| "op_key (OpUpdate t i d) = (t, i)"
| "op_key (OpDelete t i) = (t, i)"

fun op_data :: "obj_op \<Rightarrow> bytes option" where
  "op_data (OpCreate t i d) = Some d"
| "op_data (OpUpdate t i d) = Some d"
| "op_data (OpDelete t i) = None"

fun op_wal :: "obj_op \<Rightarrow> wal_op" where
  "op_wal (OpCreate t i d) = WAL_OP_CREATE"
| "op_wal (OpUpdate t i d) = WAL_OP_UPDATE"
| "op_wal (OpDelete t i) = WAL_OP_DELETE"

definition op_record :: "obj_op \<Rightarrow> wal_record" where
  "op_record op = persist_record (op_wal op) (dpa_type_to_wal (fst (op_key op))) (ucast (snd (op_key op))) (op_data op)"

text \<open>The payload fits the record format: replay refuses more than 1 MiB.\<close>

definition op_fits :: "obj_op \<Rightarrow> bool" where
  "op_fits op \<longleftrightarrow> (case op_data op of None \<Rightarrow> True | Some d \<Rightarrow> length d \<le> WAL_MAX_DATA)"

lemma spec_op_ok:
  "spec_op op m = (DANOS_OK, m') \<Longrightarrow> m' = m(op_key op := op_data op) \<and> op_data op \<noteq> Some []"
  by (cases op) (auto split: if_splits)

lemma unat_of_nat_fits: "n \<le> WAL_MAX_DATA \<Longrightarrow> unat (of_nat n :: u32) = n"
  by (simp add: WAL_MAX_DATA_def unat_of_nat)

lemma op_record_wf:
  assumes "op_fits op" and "op_data op \<noteq> Some []"
  shows "wal_record_wf (op_record op)"
proof (cases "op_data op")
  case (Some d)
  then have d: "unat (of_nat (length d) :: u32) = length d" "length d \<le> WAL_MAX_DATA" "0 < length d"
    using assms unat_of_nat_fits by (auto simp: op_fits_def)
  then have "0 < (of_nat (length d) :: u32)" by (simp add: word_less_nat_alt)
  with d Some show ?thesis by (simp add: wal_record_wf_def op_record_def persist_record_def)
qed (simp add: wal_record_wf_def op_record_def persist_record_def)

lemma op_record_obj: "obj_record (op_record op)" "record_key (op_record op) = wal_key_of (op_key op)"
  by (cases op; simp add: obj_record_def op_record_def persist_record_def record_key_def wal_key_of_def)+

lemma op_record_value:
  assumes "op_fits op" and "op_data op \<noteq> Some []"
  shows "slot_value (log_slot (op_record op)) = op_data op"
  using assms op_record_wf [OF assms]
  by (cases op)
    (auto simp: slot_value_def log_slot_def op_record_def persist_record_def wal_record_wf_def)

lemma wal_key_of_inj: "loggable k \<Longrightarrow> loggable k' \<Longrightarrow> wal_key_of k = wal_key_of k' \<Longrightarrow> k = k'"
  by (metis dpa_wal_roundtrip loggable_def prod.collapse prod.inject ucast_small wal_key_of_def)

lemma log_map_append:
  assumes "loggable (op_key op)" and "op_fits op" and "op_data op \<noteq> Some []"
  shows "log_map (rs @ [op_record op]) = (log_map rs)(op_key op := op_data op)"
proof
  fix k
  show "log_map (rs @ [op_record op]) k = ((log_map rs)(op_key op := op_data op)) k"
    using assms(1) op_record_obj [of op] op_record_value [OF assms(2,3)] wal_key_of_inj [of k "op_key op"]
    by (auto simp: log_map_def tbl_value_def log_step_def)
qed

lemma persist_on_mutation_log:
  assumes "g_enabled s" and "\<not> g_recovering s" and "g_default_store s = Some a"
    and "wal_fp (g_wal s) = Some p" and "wal_enabled (g_wal s)" and "room (sys_fs s) = None"
    and "files (sys_fs s) p = Some old" and "loggable (t, i)"
    and "wal_record_wf (persist_record op (dpa_type_to_wal t) (ucast i) d)"
  defines "s' \<equiv> danos_persist_on_mutation s a op t i d"
  shows "sys_fs s' = (sys_fs s)\<lparr>files := (files (sys_fs s))(p \<mapsto> old @
      wal_record_bytes (persist_record op (dpa_type_to_wal t) (ucast i) d))\<rparr>"
    and "wal_fp (g_wal s') = Some p" and "wal_enabled (g_wal s')" and "wal_path (g_wal s') = wal_path (g_wal s)"
proof -
  have "\<not> i > 0xFFFFFFFF" "dpa_type_to_wal t \<noteq> 0" using assms(8) by (auto simp: loggable_def not_less)
  then show "sys_fs s' = (sys_fs s)\<lparr>files := (files (sys_fs s))(p \<mapsto> old @
      wal_record_bytes (persist_record op (dpa_type_to_wal t) (ucast i) d))\<rparr>"
    and "wal_fp (g_wal s') = Some p" and "wal_enabled (g_wal s')" and "wal_path (g_wal s') = wal_path (g_wal s)"
    using assms(1-5) danos_wal_append_ok [OF assms(9,4,5,6,7)]
    by (simp_all add: s'_def danos_persist_on_mutation_def danos_persist_log_op_def Let_def)
qed

lemma persist_on_mutation_unlogged:
  "\<not> loggable (t, i) \<Longrightarrow> danos_persist_on_mutation s a op t i d = s"
  by (auto simp: danos_persist_on_mutation_def loggable_def not_le)

lemma run_op_log:
  fixes s :: "'z sys_scheme"
  assumes "fst (run_op a op s) = DANOS_OK"
  shows "\<exists>(s0 :: 'z sys_scheme) st. stores s0 = (stores s)(a \<mapsto> st) \<and> g_enabled s0 = g_enabled s \<and>
    g_recovering s0 = g_recovering s \<and> g_default_store s0 = g_default_store s \<and>
    sys_fs s0 = sys_fs s \<and> g_wal s0 = g_wal s \<and>
    sys_fs (snd (run_op a op s)) =
      sys_fs (danos_persist_on_mutation s0 a (op_wal op) (fst (op_key op)) (snd (op_key op)) (op_data op)) \<and>
    g_wal (snd (run_op a op s)) =
      g_wal (danos_persist_on_mutation s0 a (op_wal op) (fst (op_key op)) (snd (op_key op)) (op_data op))"
proof (cases op)
  case (OpCreate t i d)
  with assms obtain st where st: "stores s a = Some st" "d \<noteq> []" "find_entry st t i = None"
    "mem_plan s (mem_next s)" "mem_plan s (Suc (mem_next s))"
    by (auto simp: danos_object_create_def malloc_def Let_def split: option.splits if_splits)
  show ?thesis
    by (rule exI [of _ "set_store (s\<lparr>mem_next := mem_next s + 2\<rparr>) a (object_link st (mk_entry (t, i) d))"],
        rule exI [of _ "object_link st (mk_entry (t, i) d)"])
      (use OpCreate st create_ok [OF st(1) _ st(2) st(4,5), of t i] in \<open>simp add: find_entry_store_map set_store_def\<close>)
next
  case (OpUpdate t i d)
  with assms obtain st where st: "stores s a = Some st" "d \<noteq> []" "find_entry st t i \<noteq> None"
    "mem_plan s (mem_next s)"
    by (auto simp: danos_object_update_def malloc_def Let_def split: option.splits if_splits)
  show ?thesis
    by (rule exI [of _ "set_store (s\<lparr>mem_next := Suc (mem_next s)\<rparr>) a (object_set_data st t i d)"],
        rule exI [of _ "object_set_data st t i d"])
      (use OpUpdate st update_ok [OF st(1) _ st(2) st(4), of t i] in \<open>simp add: find_entry_store_map set_store_def\<close>)
next
  case (OpDelete t i)
  with assms obtain st where st: "stores s a = Some st" "find_entry st t i \<noteq> None"
    by (auto simp: danos_object_delete_def Let_def split: option.splits if_splits)
  show ?thesis
    by (rule exI [of _ "set_store s a (object_unlink st t i)"],
        rule exI [of _ "object_unlink st t i"])
      (use OpDelete st delete_ok [OF st(1), of t i] in \<open>simp add: find_entry_store_map set_store_def\<close>)
qed

definition durable :: "nat \<Rightarrow> string \<Rightarrow> wal_record list \<Rightarrow> 'z sys_scheme \<Rightarrow> bool" where
  "durable a p rs s \<longleftrightarrow>
     ready a s \<and> g_enabled s \<and> \<not> g_recovering s \<and> wal_fp (g_wal s) = Some p \<and>
     wal_enabled (g_wal s) \<and> room (sys_fs s) = None \<and> openable (sys_fs s) p \<and>
     files (sys_fs s) p = Some (concat (map wal_record_bytes rs)) \<and> list_all wal_record_wf rs \<and>
     log_map rs = (\<lambda>k. if loggable k then sys_map s a k else None)"

lemma durable_run_op:
  assumes d: "durable a p rs s" and fits: "op_fits op" and run: "run_op a op s = (rc, s')"
  shows "durable a p (if rc = DANOS_OK \<and> loggable (op_key op) then rs @ [op_record op] else rs) s'"
proof -
  have r: "ready a s" using d by (simp add: durable_def)
  note r' = ready_run_op [OF r run]
  have frame: "g_enabled s' = g_enabled s" "g_recovering s' = g_recovering s"
    using run_op_frame [of a op s] run by simp_all
  show ?thesis
  proof (cases "rc = DANOS_OK")
    case False
    then have "s' = s\<lparr>mem_next := mem_next s'\<rparr>" using run_op_failed [of a op s] run by simp
    then obtain n where n: "s' = s\<lparr>mem_next := n\<rparr>" by blast
    then have same: "sys_fs s' = sys_fs s" "g_wal s' = g_wal s" "stores s' = stores s"
      by simp_all
    then have "sys_map s' a = sys_map s a" by (simp add: sys_map_def)
    with d r' frame same False show ?thesis by (simp add: durable_def cong: if_cong)
  next
    case True
    then have "spec_op op (sys_map s a) = (DANOS_OK, sys_map s' a)" using r'(2) by simp
    note sp = spec_op_ok [OF this]
    obtain s0 :: "'a sys_scheme" where s0: "g_enabled s0 = g_enabled s" "g_recovering s0 = g_recovering s"
      "g_default_store s0 = g_default_store s" "sys_fs s0 = sys_fs s" "g_wal s0 = g_wal s"
      and s': "sys_fs s' = sys_fs (danos_persist_on_mutation s0 a (op_wal op) (fst (op_key op)) (snd (op_key op)) (op_data op))"
       "g_wal s' = g_wal (danos_persist_on_mutation s0 a (op_wal op) (fst (op_key op)) (snd (op_key op)) (op_data op))"
      using run_op_log [of a op s] run True by auto
    show ?thesis
    proof (cases "loggable (op_key op)")
      case False
      then have "sys_fs s' = sys_fs s" "g_wal s' = g_wal s"
        using s' s0 by (simp_all add: persist_on_mutation_unlogged)
      with d r' frame False sp show ?thesis by (auto simp: durable_def)
    next
      case log: True
      note wf = op_record_wf [OF fits conjunct2 [OF sp]]
      have "wal_fp (g_wal s0) = Some p" "wal_enabled (g_wal s0)" "room (sys_fs s0) = None"
        "files (sys_fs s0) p = Some (concat (map wal_record_bytes rs))" "g_default_store s0 = Some a"
        "g_enabled s0" "\<not> g_recovering s0"
        using d r s0 by (simp_all add: durable_def ready_def)
      from persist_on_mutation_log [OF this(6,7,5,1-4), of "fst (op_key op)" "snd (op_key op)"
          "op_wal op" "op_data op"] log wf s' s0(4)
      have fs: "sys_fs s' = (sys_fs s)\<lparr>files := (files (sys_fs s))(p \<mapsto>
          concat (map wal_record_bytes rs) @ wal_record_bytes (op_record op))\<rparr>"
        and ctx: "wal_fp (g_wal s') = Some p" "wal_enabled (g_wal s')"
        by (simp_all add: op_record_def)
      have "log_map (rs @ [op_record op]) = (\<lambda>k. if loggable k then sys_map s' a k else None)"
        using d log sp by (auto simp: log_map_append [OF log fits conjunct2 [OF sp]] durable_def)
      with d True r' frame fs ctx wf log show ?thesis by (simp add: durable_def)
    qed
  qed
qed

definition run_ops :: "nat \<Rightarrow> obj_op list \<Rightarrow> 'z sys_scheme \<Rightarrow> 'z sys_scheme" where
  "run_ops a ops s = fold (\<lambda>op s. snd (run_op a op s)) ops s"

lemma durable_run_ops:
  assumes "durable a p rs s" and "list_all op_fits ops"
  shows "\<exists>rs'. durable a p (rs @ rs') (run_ops a ops s) \<and> record_key ` set rs' \<subseteq> wal_key_of ` op_key ` set ops"
  using assms
proof (induction ops arbitrary: rs s)
  case Nil
  then show ?case by (intro exI [of _ "[]"]) (simp add: run_ops_def)
next
  case (Cons op ops)
  obtain rc s' where run: "run_op a op s = (rc, s')" by fastforce
  define r where "r = (if rc = DANOS_OK \<and> loggable (op_key op) then [op_record op] else [])"
  have "durable a p (rs @ r) s'"
    using durable_run_op [OF Cons.prems(1) _ run] Cons.prems(2) by (auto simp: r_def split: if_splits)
  from Cons.IH [OF this] Cons.prems(2)
  obtain rs' where "durable a p ((rs @ r) @ rs') (run_ops a ops s')"
    "record_key ` set rs' \<subseteq> wal_key_of ` op_key ` set ops"
    by auto
  moreover have "record_key ` set r \<subseteq> {wal_key_of (op_key op)}"
    using op_record_obj by (auto simp: r_def)
  ultimately show ?case
    using run by (intro exI [of _ "r @ rs'"]) (auto simp: run_ops_def)
qed

lemma log_fold_keys: "dom (fold log_step rs m) \<subseteq> dom m \<union> record_key ` set rs"
proof (induction rs arbitrary: m)
  case (Cons r rs)
  show ?case using Cons.IH [of "log_step r m"] by (auto simp: log_step_def split: if_splits)
qed simp

lemma log_capacity:
  assumes "record_key ` set rs \<subseteq> wal_key_of ` op_key ` set ops" and "card (op_key ` set ops) \<le> n"
  shows "card (dom (fold log_step rs Map.empty)) \<le> n"
proof -
  have "dom (fold log_step rs Map.empty) \<subseteq> wal_key_of ` op_key ` set ops"
    using log_fold_keys [of rs Map.empty] assms(1) by auto
  then have "card (dom (fold log_step rs Map.empty)) \<le> card (wal_key_of ` op_key ` set ops)"
    by (intro card_mono) auto
  also have "\<dots> \<le> card (op_key ` set ops)" by (rule card_image_le) simp
  finally show ?thesis using assms(2) by simp
qed

subsection \<open>Properties\<close>

text \<open>A process that has just booted: nothing enabled, no store, memory for everything.\<close>

definition booted :: "'z sys_scheme \<Rightarrow> bool" where
  "booted s \<longleftrightarrow>
     g_default_store s = None \<and> \<not> g_enabled s \<and> \<not> g_recovering s \<and> stores_wf s \<and>
     mem_plan s = (\<lambda>_. True)"

definition disk_ok :: "string \<Rightarrow> fsys \<Rightarrow> bool" where
  "disk_ok p fs \<longleftrightarrow> room fs = None \<and> openable fs p \<and> length p \<le> 255"

lemma enable_ok:
  assumes "\<not> g_enabled s" and "disk_ok p (sys_fs s)" and "danos_persist_enable s (Some p) = (rc, s')"
  shows "rc = 0 \<and> s' = s\<lparr>sys_fs := (sys_fs s)\<lparr>files := (files (sys_fs s))(p \<mapsto>
           (case files (sys_fs s) p of None \<Rightarrow> [] | Some c \<Rightarrow> c))\<rparr>,
         g_wal := \<lparr>wal_fp = Some p, wal_path = p, wal_enabled = True, records_written = 0, bytes_written = 0\<rparr>,
         g_enabled := True\<rparr>"
  using assms
  by (auto simp: danos_persist_enable_def danos_wal_init_def fopen_append_def disk_ok_def wal_ctx_zero_def)

lemma boot_durable:
  assumes b: "booted s" and disk: "disk_ok p (sys_fs s)" and new: "files (sys_fs s) p = None"
    and en: "danos_persist_enable s (Some p) = (rc, s1)" and rec: "danos_persist_recover s1 = (n, s2)"
  shows "\<exists>a. durable a p [] s2 \<and> wal_path (g_wal s2) = p"
proof -
  have s1: "s1 = s\<lparr>sys_fs := (sys_fs s)\<lparr>files := (files (sys_fs s))(p \<mapsto> [])\<rparr>,
         g_wal := \<lparr>wal_fp = Some p, wal_path = p, wal_enabled = True, records_written = 0, bytes_written = 0\<rparr>,
         g_enabled := True\<rparr>"
    using enable_ok [OF _ disk en] b new by (simp add: booted_def)
  obtain x s1' where c: "danos_object_store_create s1 1024 = (x, s1')" by fastforce
  have "mem_plan s1 = (\<lambda>_. True)" "stores_wf s1" using b by (simp_all add: s1 booted_def stores_wf_def)
  from create_default_store [OF this c] obtain a where a: "x = Some a" "ready a (s1'\<lparr>g_default_store := x\<rparr>)"
    "sys_map s1' a = Map.empty" "sys_fs s1' = sys_fs s1" "g_wal s1' = g_wal s1" "mem_plan s1' = mem_plan s1"
    by auto
  have en1: "g_enabled s1'" using c by (auto simp: s1 danos_object_store_create_def malloc_def Let_def split: if_splits)
  have skip: "(apply_slot slot_zero ^^ m) u = u" for m and u :: "int \<times> 'a sys_scheme"
    by (induction m) (auto simp: apply_slot_def slot_zero_def split: prod.split)
  have log: "danos_wal_replay al (sys_fs s1') (Some (wal_path (g_wal s1'))) (Some cb) u = (0, u)"
    for al and cb :: "wal_record \<Rightarrow> replay_slot list \<times> nat \<Rightarrow> replay_slot list \<times> nat" and u
    using a(4,5) disk by (simp add: danos_wal_replay_def s1 wal_scan_stop wal_next_short disk_ok_def)
  have "danos_persist_recover s1 = (0, s1'\<lparr>g_default_store := x, g_recovering := False, g_recovered := 0,
      mem_next := mem_next s1' + 3\<rparr>)"
    using b c a(6) by (simp add: danos_persist_recover_def malloc_def Let_def log skip booted_def s1)
  then have "s2 = s1'\<lparr>g_default_store := x, g_recovering := False, g_recovered := 0,
      mem_next := mem_next s1' + 3\<rparr>" using rec by simp
  then show ?thesis
    using a en1 b disk
    by (intro exI [of _ a])
      (auto simp: durable_def ready_def stores_wf_def s1 disk_ok_def sys_map_def log_map_def tbl_value_def fun_eq_iff)
qed

text \<open>
  C2: Configuration survives a crash. A process boots with a new log, runs any sequence of
  object operations (payloads of at most 1 MiB, at most 4096 different objects), and dies
  while the record of a further operation is being written, any proper prefix of which has
  reached the disk (none of it for a clean stop). The next process that enables the same log
  and recovers has, in its default store, exactly the objects of the dead process that the
  log covers, with their last contents, and nothing else. Covered are the objects of a logged
  type whose id fits 32 bits.
\<close>

theorem config_survives_crash:
  assumes "booted s0" and "disk_ok p (sys_fs s0)" and "files (sys_fs s0) p = None"
    and "danos_persist_enable s0 (Some p) = (rc, s1)" and "danos_persist_recover s1 = (n0, s2)"
    and "g_default_store s2 = Some a"
    and "list_all op_fits ops" and "card (op_key ` set ops) \<le> REPLAY_SLOTS"
    and "run_ops a ops s2 = s3" and "files (sys_fs s3) p = Some c"
    and "op_fits op" and "op_data op \<noteq> Some []" and "m < length (wal_record_bytes (op_record op))"
    and "booted t0" and "sys_fs t0 = (sys_fs s3)\<lparr>files :=
      (files (sys_fs s3))(p \<mapsto> c @ take m (wal_record_bytes (op_record op)))\<rparr>"
    and "danos_persist_enable t0 (Some p) = (rc', t1)" and "danos_persist_recover t1 = (n1, t2)"
  shows "\<exists>b. g_default_store t2 = Some b \<and>
    (\<forall>k. sys_map t2 b k = (if loggable k then sys_map s3 a k else None))"
proof -
  obtain a' where d2: "durable a' p [] s2" using boot_durable [OF assms(1-5)] by blast
  then have "a' = a" using assms(6) by (simp add: durable_def ready_def)
  with d2 durable_run_ops [OF _ assms(7), of a p "[]" s2] assms(9)
  obtain rs where rs: "durable a p rs s3" "record_key ` set rs \<subseteq> wal_key_of ` op_key ` set ops" by auto
  have c: "c = concat (map wal_record_bytes rs)" and wf: "list_all wal_record_wf rs"
    and log: "log_map rs = (\<lambda>k. if loggable k then sys_map s3 a k else None)"
    and disk3: "room (sys_fs s3) = None" "openable (sys_fs s3) p"
    using rs(1) assms(10) by (simp_all add: durable_def)
  have disk: "disk_ok p (sys_fs t0)" using disk3 assms(2,15) by (simp add: disk_ok_def)
  have t1: "t1 = t0\<lparr>sys_fs := sys_fs t0,
         g_wal := \<lparr>wal_fp = Some p, wal_path = p, wal_enabled = True, records_written = 0, bytes_written = 0\<rparr>,
         g_enabled := True\<rparr>"
    using enable_ok [OF _ disk assms(16)] assms(14,15) by (simp add: booted_def)
  have "\<exists>b. ready b t2 \<and> sys_map t2 b = log_map rs \<and> \<not> g_recovering t2"
  proof (rule recover_prefix [OF _ _ _ _ _ _ wf _ _ assms(17)])
    show "wal_next True (take m (wal_record_bytes (op_record op))) = None"
      by (rule wal_next_torn [OF op_record_wf [OF assms(11,12)] assms(13)])
    show "card (dom (fold log_step rs Map.empty)) \<le> REPLAY_SLOTS"
      by (rule log_capacity [OF rs(2) assms(8)])
  qed (use assms(14,15) disk c in \<open>auto simp: t1 booted_def stores_wf_def disk_ok_def\<close>)
  then show ?thesis by (auto simp: log ready_def)
qed

lemma durable_value: "durable a p rs s \<Longrightarrow> loggable k \<Longrightarrow> sys_map s a k = log_map rs k"
  by (simp add: durable_def)

lemma log_map_Nil: "log_map [] = Map.empty"
  by (simp add: log_map_def tbl_value_def fun_eq_iff)

lemma run_op_path:
  assumes "durable a p rs s" and "op_fits op" and "run_op a op s = (rc, s')"
  shows "wal_path (g_wal s') = wal_path (g_wal s)"
proof -
  have "wal_path (g_wal (danos_persist_on_mutation t b w ty i d)) = wal_path (g_wal t)"
    for t :: "'a sys_scheme" and b w ty i d
    by (auto simp: danos_persist_on_mutation_def danos_persist_log_op_def danos_wal_append_def Let_def
        split: option.split prod.split)
  then have "wal_path (g_wal (snd (run_op a op s))) = wal_path (g_wal s)"
    by (cases op)
      (simp_all add: danos_object_create_def danos_object_update_def danos_object_delete_def malloc_def
        Let_def notify_event_def danos_programming_mark_dirty_def set_store_def split: option.split)
  then show ?thesis using assms(3) by simp
qed

lemma run_op_recovering:
  assumes "g_recovering t"
  shows "sys_fs (snd (run_op a op t)) = sys_fs t \<and>
    g_records_logged (snd (run_op a op t)) = g_records_logged t"
proof -
  have "g_recovering u \<Longrightarrow> danos_persist_on_mutation u b w ty i d = u"
    for u :: "'a sys_scheme" and b w ty i d
    by (simp add: danos_persist_on_mutation_def)
  then show ?thesis
    using assms
    by (cases op)
      (simp_all add: danos_object_create_def danos_object_update_def danos_object_delete_def malloc_def
        Let_def notify_event_def danos_programming_mark_dirty_def set_store_def split: option.split)
qed

definition sample_boot :: sys where
  "sample_boot = \<lparr>stores = Map.empty, next_addr = 0, g_default_store = None,
     g_event_bus = None, sys_fs = sample_fs, g_wal = wal_ctx_zero, g_enabled = False,
     g_recovering = False, g_records_logged = 0, g_recovered = 0, g_dirty = False,
     mem_plan = (\<lambda>_. True), mem_next = 0, wall_clock = 0\<rparr>"

lemma sample_boot_ok:
  "booted sample_boot" "disk_ok ''w'' (sys_fs sample_boot)" "files (sys_fs sample_boot) ''w'' = None"
  "booted (sample_boot\<lparr>sys_fs := fs\<rparr>)"
  by (simp_all add: sample_boot_def booted_def stores_wf_def disk_ok_def sample_fs_def)

theorem config_survives_crash_witness:
  "\<exists>s1 s2 t1 t2 a b c.
     danos_persist_enable sample_boot (Some ''w'') = (0, s1) \<and> snd (danos_persist_recover s1) = s2 \<and>
     g_default_store s2 = Some a \<and>
     files (sys_fs (run_ops a [OpCreate OBJ_VRF 5 [1, 2]] s2)) ''w'' = Some c \<and>
     danos_persist_enable (sample_boot\<lparr>sys_fs := (sys_fs (run_ops a [OpCreate OBJ_VRF 5 [1, 2]] s2))\<lparr>files :=
         (files (sys_fs (run_ops a [OpCreate OBJ_VRF 5 [1, 2]] s2)))(''w'' \<mapsto>
           c @ take 3 (wal_record_bytes (op_record (OpDelete OBJ_VRF 5))))\<rparr>\<rparr>) (Some ''w'') = (0, t1) \<and>
     snd (danos_persist_recover t1) = t2 \<and> g_default_store t2 = Some b \<and>
     sys_map t2 b (OBJ_VRF, 5) = Some [1, 2]"
proof -
  let ?op = "OpCreate OBJ_VRF 5 [1, 2]" and ?del = "OpDelete OBJ_VRF 5"
  obtain rc s1 where e: "danos_persist_enable sample_boot (Some ''w'') = (rc, s1)" by fastforce
  have rc: "rc = 0" using enable_ok [OF _ sample_boot_ok(2) e] by (simp add: sample_boot_def)
  obtain n0 s2 where r: "danos_persist_recover s1 = (n0, s2)" by fastforce
  obtain a where d: "durable a ''w'' [] s2" using boot_durable [OF sample_boot_ok(1-3) e r] by blast
  then have a: "g_default_store s2 = Some a" by (simp add: durable_def ready_def)
  have m0: "sys_map s2 a (OBJ_VRF, 5) = None"
    using durable_value [OF d, of "(OBJ_VRF, 5)"] by (simp add: log_map_Nil loggable_def)
  define s3 where "s3 = run_ops a [?op] s2"
  have fits: "op_fits ?op" "op_fits ?del" by (simp_all add: op_fits_def WAL_MAX_DATA_def)
  have s3: "run_op a ?op s2 = (fst (run_op a ?op s2), s3)" by (simp add: s3_def run_ops_def)
  have m3: "sys_map s3 a (OBJ_VRF, 5) = Some [1, 2]"
    using ready_run_op(2) [OF _ s3] d m0 by (simp add: durable_def)
  obtain c where c: "files (sys_fs s3) ''w'' = Some c"
    using durable_run_op [OF d fits(1) s3] by (auto simp: durable_def)
  define fs where "fs = (sys_fs s3)\<lparr>files := (files (sys_fs s3))(''w'' \<mapsto> c @ take 3 (wal_record_bytes (op_record ?del)))\<rparr>"
  obtain rc' t1 where e': "danos_persist_enable (sample_boot\<lparr>sys_fs := fs\<rparr>) (Some ''w'') = (rc', t1)" by fastforce
  have "disk_ok ''w'' fs"
    using durable_run_op [OF d fits(1) s3] by (simp add: durable_def disk_ok_def fs_def)
  then have rc': "rc' = 0" using enable_ok [OF _ _ e'] by (simp add: sample_boot_def)
  obtain n1 t2 where r': "danos_persist_recover t1 = (n1, t2)" by fastforce
  have len: "3 < length (wal_record_bytes (op_record ?del))" by (simp add: wal_record_bytes_def)
  have ops: "list_all op_fits [?op]" "card (op_key ` set [?op]) \<le> REPLAY_SLOTS" "op_data ?del \<noteq> Some []"
    using fits by (simp_all add: REPLAY_SLOTS_def)
  have fs: "sys_fs (sample_boot\<lparr>sys_fs := fs\<rparr>) =
      (sys_fs s3)\<lparr>files := (files (sys_fs s3))(''w'' \<mapsto> c @ take 3 (wal_record_bytes (op_record ?del)))\<rparr>"
    by (simp add: fs_def)
  obtain b where b: "g_default_store t2 = Some b"
    "\<forall>k. sys_map t2 b k = (if loggable k then sys_map s3 a k else None)"
    using config_survives_crash [OF sample_boot_ok(1-3) e r a ops(1,2) s3_def [symmetric] c fits(2) ops(3)
        len sample_boot_ok(4) fs e' r'] by blast
  have "sys_map t2 b (OBJ_VRF, 5) = Some [1, 2]" using b(2) m3 by (simp add: loggable_def)
  with e rc r a c e' rc' r' b(1) show ?thesis by (auto simp: s3_def fs_def)
qed

lemma checkpoint_ok:
  assumes "durable a p rs s" and "wal_path (g_wal s) = p" and "danos_persist_checkpoint s = (rc, s')"
  shows "rc = 0 \<and> stores s' = stores s \<and> files (sys_fs s') p = Some [] \<and> openable (sys_fs s') p \<and>
    room (sys_fs s') = None"
proof -
  have "wal_fp (g_wal s) = Some p" "openable (sys_fs s) p" "g_enabled s" "room (sys_fs s) = None"
    using assms(1) by (simp_all add: durable_def)
  then show ?thesis
    using assms(2,3)
    by (auto simp: danos_persist_checkpoint_def danos_wal_checkpoint_def fopen_append_def Let_def)
qed

text \<open>
  C17: Checkpointing discards the configuration. A checkpoint on a log that holds the
  configuration succeeds and keeps the running store, but leaves an empty log: the process
  that boots from it recovers no object at all. (The code truncates the log and never
  writes the snapshot of the store that its header announces.)
\<close>

theorem checkpoint_discards_config:
  assumes "durable a p rs s" and "wal_path (g_wal s) = p" and "length p \<le> 255"
    and "danos_persist_checkpoint s = (rc, s')"
    and "booted t0" and "sys_fs t0 = sys_fs s'"
    and "danos_persist_enable t0 (Some p) = (rc', t1)" and "danos_persist_recover t1 = (n, t2)"
  shows "rc = 0 \<and> sys_map s' a = sys_map s a \<and>
    (\<exists>b. g_default_store t2 = Some b \<and> sys_map t2 b = Map.empty)"
proof -
  note cp = checkpoint_ok [OF assms(1,2,4)]
  have disk: "disk_ok p (sys_fs t0)" using cp assms(3,6) by (simp add: disk_ok_def)
  have t1: "t1 = t0\<lparr>sys_fs := (sys_fs t0)\<lparr>files := (files (sys_fs t0))(p \<mapsto> [])\<rparr>,
         g_wal := \<lparr>wal_fp = Some p, wal_path = p, wal_enabled = True, records_written = 0, bytes_written = 0\<rparr>,
         g_enabled := True\<rparr>"
    using enable_ok [OF _ disk assms(7)] assms(5,6) cp by (simp add: booted_def)
  have "\<exists>b. ready b t2 \<and> sys_map t2 b = log_map [] \<and> \<not> g_recovering t2"
    by (rule recover_prefix [OF _ _ _ _ _ _ _ _ _ assms(8), where tail = "[]"])
      (use assms(5) disk in \<open>auto simp: t1 booted_def stores_wf_def disk_ok_def wal_next_short\<close>)
  then show ?thesis using cp by (auto simp: ready_def sys_map_def log_map_Nil)
qed

theorem checkpoint_discards_config_witness:
  "\<exists>s1 s2 s3 s4 t1 a b.
     danos_persist_enable sample_boot (Some ''w'') = (0, s1) \<and> snd (danos_persist_recover s1) = s2 \<and>
     run_op a (OpCreate OBJ_VRF 5 [1, 2]) s2 = (DANOS_OK, s3) \<and> danos_persist_checkpoint s3 = (0, s4) \<and>
     sys_map s4 a (OBJ_VRF, 5) = Some [1, 2] \<and>
     danos_persist_enable (sample_boot\<lparr>sys_fs := sys_fs s4\<rparr>) (Some ''w'') = (0, t1) \<and>
     g_default_store (snd (danos_persist_recover t1)) = Some b \<and>
     sys_map (snd (danos_persist_recover t1)) b = Map.empty"
proof -
  let ?op = "OpCreate OBJ_VRF 5 [1, 2]"
  obtain rc s1 where e: "danos_persist_enable sample_boot (Some ''w'') = (rc, s1)" by fastforce
  have rc: "rc = 0" using enable_ok [OF _ sample_boot_ok(2) e] by (simp add: sample_boot_def)
  obtain n0 s2 where r: "danos_persist_recover s1 = (n0, s2)" by fastforce
  obtain a where d: "durable a ''w'' [] s2" and p2: "wal_path (g_wal s2) = ''w''"
    using boot_durable [OF sample_boot_ok(1-3) e r] by blast
  have m0: "sys_map s2 a (OBJ_VRF, 5) = None"
    using durable_value [OF d, of "(OBJ_VRF, 5)"] by (simp add: log_map_Nil loggable_def)
  have fits: "op_fits ?op" by (simp add: op_fits_def WAL_MAX_DATA_def)
  obtain rc3 s3 where s3: "run_op a ?op s2 = (rc3, s3)" by fastforce
  have m3: "rc3 = DANOS_OK" "sys_map s3 a (OBJ_VRF, 5) = Some [1, 2]"
    using ready_run_op(2) [OF _ s3] d m0 by (simp_all add: durable_def)
  note d3 = durable_run_op [OF d fits s3]
  have p3: "wal_path (g_wal s3) = ''w''" using run_op_path [OF d fits s3] p2 by simp
  obtain rc4 s4 where s4: "danos_persist_checkpoint s3 = (rc4, s4)" by fastforce
  obtain rc' t1 where e': "danos_persist_enable (sample_boot\<lparr>sys_fs := sys_fs s4\<rparr>) (Some ''w'') = (rc', t1)"
    by fastforce
  obtain n t2 where r': "danos_persist_recover t1 = (n, t2)" by fastforce
  have cp: "rc4 = 0 \<and> sys_map s4 a = sys_map s3 a \<and> (\<exists>b. g_default_store t2 = Some b \<and> sys_map t2 b = Map.empty)"
    using checkpoint_discards_config [OF d3 p3 _ s4 sample_boot_ok(4) _ e' r'] by (simp add: sample_boot_def)
  have "room (sys_fs s4) = None" "openable (sys_fs s4) ''w''"
    using checkpoint_ok [OF d3 p3 s4] by simp_all
  then have rc': "rc' = 0" using enable_ok [OF _ _ e'] by (simp add: sample_boot_def disk_ok_def)
  obtain b where b: "g_default_store t2 = Some b \<and> sys_map t2 b = Map.empty" using cp by blast
  show ?thesis
    by (intro exI [of _ s1] exI [of _ s2] exI [of _ s3] exI [of _ s4] exI [of _ t1] exI [of _ a] exI [of _ b])
      (use e rc r s3 m3 s4 cp e' rc' r' b in simp)
qed

text \<open>
  An allocation failure during recovery switches persistence off. When the replay table
  cannot be allocated, recovery returns -1 but leaves the recovering flag set: from then on
  no object operation writes to the log, although persistence still reports enabled.
\<close>

theorem recover_oom_stops_logging:
  assumes "g_enabled s" and "g_default_store s = Some a" and "\<not> mem_plan s (mem_next s)"
    and "danos_persist_recover s = (rc, s1)"
  shows "rc = -1 \<and> danos_persist_is_enabled s1 \<and>
    sys_fs (run_ops a ops s1) = sys_fs s \<and> g_records_logged (run_ops a ops s1) = g_records_logged s"
proof -
  have s1: "rc = -1 \<and> s1 = s\<lparr>g_recovering := True, mem_next := Suc (mem_next s)\<rparr>"
    using assms by (simp add: danos_persist_recover_def malloc_def)
  have "g_recovering t \<Longrightarrow> sys_fs (run_ops a ops t) = sys_fs t \<and>
      g_records_logged (run_ops a ops t) = g_records_logged t" for t :: "'a sys_scheme"
  proof (induction ops arbitrary: t)
    case Nil
    then show ?case by (simp add: run_ops_def)
  next
    case (Cons op ops)
    have "g_recovering (snd (run_op a op t))" using Cons.prems by simp
    moreover have "sys_fs (snd (run_op a op t)) = sys_fs t \<and>
        g_records_logged (snd (run_op a op t)) = g_records_logged t"
      using Cons.prems by (rule run_op_recovering)
    ultimately show ?case using Cons.IH [of "snd (run_op a op t)"] by (simp add: run_ops_def)
  qed
  then show ?thesis using s1 assms(1) by (simp add: danos_persist_is_enabled_def)
qed

theorem recover_oom_stops_logging_witness:
  "let s = sample_sys\<lparr>g_enabled := True, mem_plan := (\<lambda>n. n \<noteq> 0)\<rparr>
   in g_enabled s \<and> \<not> mem_plan s (mem_next s) \<and>
      sys_fs (run_ops 0 [OpCreate OBJ_VRF 5 [1, 2]] (snd (danos_persist_recover s))) = sys_fs s"
proof -
  let ?s = "sample_sys\<lparr>g_enabled := True, mem_plan := (\<lambda>n. n \<noteq> 0)\<rparr>"
  obtain rc s1 where r: "danos_persist_recover ?s = (rc, s1)" by fastforce
  have h: "g_enabled ?s" "g_default_store ?s = Some 0" "\<not> mem_plan ?s (mem_next ?s)"
    by (simp_all add: sample_sys_def)
  show ?thesis
    using recover_oom_stops_logging [OF h r, of "[OpCreate OBJ_VRF 5 [1, 2]]"] h r by (simp add: Let_def)
qed

end
