(* ===== verification/Dpa_Objects.thy ===== *)
theory Dpa_Objects
  imports Durability
begin

text \<open>
  The typed object API of \<^verbatim>\<open>danos-core/src/object/dpa_objects.c\<close>: every create, update,
  delete and read function, the route dump, and the key functions of the composite-key
  objects. All work on the lazily created default store. The transaction argument is
  ignored by every one of these functions and left out. A NULL pointer is \<open>None\<close>; the
  output buffer of a read is given with its previous contents, since a stored blob shorter
  than the struct overwrites only its beginning.
\<close>

subsection \<open>The default store\<close>

definition get_default_store :: "'z sys_scheme \<Rightarrow> nat option \<times> 'z sys_scheme" where
  "get_default_store s =
     (if g_default_store s = None
      then (let (so, s1) = danos_object_store_create s 1024 in (so, s1\<lparr>g_default_store := so\<rparr>))
      else (g_default_store s, s))"

text \<open>The calls the functions below share, each on the default store.\<close>

definition default_create ::
  "'z sys_scheme \<Rightarrow> danos_obj_type \<Rightarrow> u64 \<Rightarrow> bytes \<Rightarrow> danos_status \<times> 'z sys_scheme" where
  "default_create s t i d =
     (let (so, s1) = get_default_store s in danos_object_create s1 so t i (Some d))"

definition default_update ::
  "'z sys_scheme \<Rightarrow> danos_obj_type \<Rightarrow> u64 \<Rightarrow> bytes \<Rightarrow> danos_status \<times> 'z sys_scheme" where
  "default_update s t i d =
     (let (so, s1) = get_default_store s in danos_object_update s1 so t i (Some d))"

definition default_delete ::
  "'z sys_scheme \<Rightarrow> danos_obj_type \<Rightarrow> u64 \<Rightarrow> danos_status \<times> 'z sys_scheme" where
  "default_delete s t i =
     (let (so, s1) = get_default_store s in danos_object_delete s1 so t i)"

definition default_read ::
  "'z sys_scheme \<Rightarrow> danos_obj_type \<Rightarrow> u64 \<Rightarrow> nat \<Rightarrow> bytes \<Rightarrow> danos_status \<times> bytes \<times> 'z sys_scheme" where
  "default_read s t i sz old =
     (let (so, s1) = get_default_store s;
          (st, out, n) = sys_read s1 so t i sz
      in (st, (case out of None \<Rightarrow> old | Some d \<Rightarrow> d @ drop (length d) old), s1))"

subsection \<open>Interfaces\<close>

definition danos_iface_create ::
  "'z sys_scheme \<Rightarrow> danos_iface option \<Rightarrow> danos_status \<times> 'z sys_scheme" where
  "danos_iface_create s p =
     (case p of
        None \<Rightarrow> (ERR_INVALID_ARG, s)
      | Some x \<Rightarrow> default_create s OBJ_IFACE (ucast (if_ifindex x)) (enc_iface x))"

definition danos_iface_update ::
  "'z sys_scheme \<Rightarrow> danos_iface option \<Rightarrow> danos_status \<times> 'z sys_scheme" where
  "danos_iface_update s p =
     (case p of
        None \<Rightarrow> (ERR_INVALID_ARG, s)
      | Some x \<Rightarrow> default_update s OBJ_IFACE (ucast (if_ifindex x)) (enc_iface x))"

definition danos_iface_delete :: "'z sys_scheme \<Rightarrow> u32 \<Rightarrow> danos_status \<times> 'z sys_scheme" where
  "danos_iface_delete s oid = default_delete s OBJ_IFACE (ucast oid)"

definition danos_iface_read ::
  "'z sys_scheme \<Rightarrow> u32 \<Rightarrow> danos_iface option \<Rightarrow> danos_status \<times> danos_iface option \<times> 'z sys_scheme" where
  "danos_iface_read s oid out =
     (case out of
        None \<Rightarrow> (ERR_INVALID_ARG, None, s)
      | Some y \<Rightarrow>
          (let (st, bs, s1) = default_read s OBJ_IFACE (ucast oid) 144 (enc_iface y)
           in (st, Some (dec_iface bs), s1)))"

subsection \<open>VRFs\<close>

definition danos_vrf_create ::
  "'z sys_scheme \<Rightarrow> danos_vrf option \<Rightarrow> danos_status \<times> 'z sys_scheme" where
  "danos_vrf_create s p =
     (case p of
        None \<Rightarrow> (ERR_INVALID_ARG, s)
      | Some x \<Rightarrow> default_create s OBJ_VRF (ucast (vrf_id x)) (enc_vrf x))"

definition danos_vrf_update ::
  "'z sys_scheme \<Rightarrow> danos_vrf option \<Rightarrow> danos_status \<times> 'z sys_scheme" where
  "danos_vrf_update s p =
     (case p of
        None \<Rightarrow> (ERR_INVALID_ARG, s)
      | Some x \<Rightarrow> default_update s OBJ_VRF (ucast (vrf_id x)) (enc_vrf x))"

definition danos_vrf_delete :: "'z sys_scheme \<Rightarrow> u32 \<Rightarrow> danos_status \<times> 'z sys_scheme" where
  "danos_vrf_delete s oid = default_delete s OBJ_VRF (ucast oid)"

definition danos_vrf_read ::
  "'z sys_scheme \<Rightarrow> u32 \<Rightarrow> danos_vrf option \<Rightarrow> danos_status \<times> danos_vrf option \<times> 'z sys_scheme" where
  "danos_vrf_read s oid out =
     (case out of
        None \<Rightarrow> (ERR_INVALID_ARG, None, s)
      | Some y \<Rightarrow>
          (let (st, bs, s1) = default_read s OBJ_VRF (ucast oid) 72 (enc_vrf y)
           in (st, Some (dec_vrf bs), s1)))"

subsection \<open>Next hops\<close>

definition danos_nh_create ::
  "'z sys_scheme \<Rightarrow> danos_nexthop option \<Rightarrow> danos_status \<times> 'z sys_scheme" where
  "danos_nh_create s p =
     (case p of
        None \<Rightarrow> (ERR_INVALID_ARG, s)
      | Some x \<Rightarrow> default_create s OBJ_NEXTHOP (nh_id x) (enc_nexthop x))"

definition danos_nh_update ::
  "'z sys_scheme \<Rightarrow> danos_nexthop option \<Rightarrow> danos_status \<times> 'z sys_scheme" where
  "danos_nh_update s p =
     (case p of
        None \<Rightarrow> (ERR_INVALID_ARG, s)
      | Some x \<Rightarrow> default_update s OBJ_NEXTHOP (nh_id x) (enc_nexthop x))"

definition danos_nh_delete :: "'z sys_scheme \<Rightarrow> u64 \<Rightarrow> danos_status \<times> 'z sys_scheme" where
  "danos_nh_delete s oid = default_delete s OBJ_NEXTHOP oid"

definition danos_nh_read ::
  "'z sys_scheme \<Rightarrow> u64 \<Rightarrow> danos_nexthop option \<Rightarrow> danos_status \<times> danos_nexthop option \<times> 'z sys_scheme" where
  "danos_nh_read s oid out =
     (case out of
        None \<Rightarrow> (ERR_INVALID_ARG, None, s)
      | Some y \<Rightarrow>
          (let (st, bs, s1) = default_read s OBJ_NEXTHOP oid 56 (enc_nexthop y)
           in (st, Some (dec_nexthop bs), s1)))"

subsection \<open>Next-hop groups\<close>

definition danos_nhgroup_create ::
  "'z sys_scheme \<Rightarrow> danos_nhgroup option \<Rightarrow> danos_status \<times> 'z sys_scheme" where
  "danos_nhgroup_create s p =
     (case p of
        None \<Rightarrow> (ERR_INVALID_ARG, s)
      | Some x \<Rightarrow> default_create s OBJ_NHGROUP (grp_id x) (enc_nhgroup x))"

definition danos_nhgroup_update ::
  "'z sys_scheme \<Rightarrow> danos_nhgroup option \<Rightarrow> danos_status \<times> 'z sys_scheme" where
  "danos_nhgroup_update s p =
     (case p of
        None \<Rightarrow> (ERR_INVALID_ARG, s)
      | Some x \<Rightarrow> default_update s OBJ_NHGROUP (grp_id x) (enc_nhgroup x))"

definition danos_nhgroup_delete :: "'z sys_scheme \<Rightarrow> u64 \<Rightarrow> danos_status \<times> 'z sys_scheme" where
  "danos_nhgroup_delete s oid = default_delete s OBJ_NHGROUP oid"

definition danos_nhgroup_read ::
  "'z sys_scheme \<Rightarrow> u64 \<Rightarrow> danos_nhgroup option \<Rightarrow> danos_status \<times> danos_nhgroup option \<times> 'z sys_scheme" where
  "danos_nhgroup_read s oid out =
     (case out of
        None \<Rightarrow> (ERR_INVALID_ARG, None, s)
      | Some y \<Rightarrow>
          (let (st, bs, s1) = default_read s OBJ_NHGROUP oid 536 (enc_nhgroup y)
           in (st, Some (dec_nhgroup bs), s1)))"

subsection \<open>Routes\<close>

definition fnv_prime :: u64 where "fnv_prime = 1099511628211"

definition route_key :: "u32 \<Rightarrow> danos_ip_prefix \<Rightarrow> u32 \<Rightarrow> u64" where
  "route_key vrf p proto =
     (let h = 14695981039346656037;
          h = (h XOR ucast vrf) * fnv_prime;
          h = fold (\<lambda>i h. (h XOR ucast (addr (pfx_addr p) ! i)) * fnv_prime) [0..<16] h;
          h = (h XOR ucast (prefix_len p)) * fnv_prime;
          h = (h XOR ucast proto) * fnv_prime
      in h)"

definition danos_route_create ::
  "'z sys_scheme \<Rightarrow> danos_route option \<Rightarrow> danos_status \<times> 'z sys_scheme" where
  "danos_route_create s p =
     (case p of
        None \<Rightarrow> (ERR_INVALID_ARG, s)
      | Some x \<Rightarrow>
          default_create s OBJ_ROUTE (route_key (rt_vrf_id x) (rt_prefix x) (protocol x)) (enc_route x))"

definition danos_route_update ::
  "'z sys_scheme \<Rightarrow> danos_route option \<Rightarrow> danos_status \<times> 'z sys_scheme" where
  "danos_route_update s p =
     (case p of
        None \<Rightarrow> (ERR_INVALID_ARG, s)
      | Some x \<Rightarrow>
          default_update s OBJ_ROUTE (route_key (rt_vrf_id x) (rt_prefix x) (protocol x)) (enc_route x))"

definition danos_route_delete ::
  "'z sys_scheme \<Rightarrow> u32 \<Rightarrow> danos_ip_prefix \<Rightarrow> u32 \<Rightarrow> danos_status \<times> 'z sys_scheme" where
  "danos_route_delete s vrf p proto = default_delete s OBJ_ROUTE (route_key vrf p proto)"

definition danos_route_read ::
  "'z sys_scheme \<Rightarrow> u32 \<Rightarrow> danos_ip_prefix \<Rightarrow> u32 \<Rightarrow> danos_route option
     \<Rightarrow> danos_status \<times> danos_route option \<times> 'z sys_scheme" where
  "danos_route_read s vrf p proto out =
     (case out of
        None \<Rightarrow> (ERR_INVALID_ARG, None, s)
      | Some y \<Rightarrow>
          (let (st, bs, s1) = default_read s OBJ_ROUTE (route_key vrf p proto) 56 (enc_route y)
           in (st, Some (dec_route bs), s1)))"

text \<open>The callback of the dump returns an \<^verbatim>\<open>int\<close>, which the iteration does not look at.\<close>

definition route_dump_iter ::
  "u32 \<Rightarrow> (danos_route \<Rightarrow> 'u \<Rightarrow> int \<times> 'u) \<Rightarrow> object_entry \<Rightarrow> 'u \<Rightarrow> 'u" where
  "route_dump_iter vrf cb e u =
     (if ent_type e \<noteq> OBJ_ROUTE then u
      else if length (ent_data e) < 56 then u
      else
        (let r = dec_route (ent_data e)
         in if vrf \<noteq> 0 \<and> rt_vrf_id r \<noteq> vrf then u else snd (cb r u)))"

definition danos_route_dump ::
  "'z sys_scheme \<Rightarrow> u32 \<Rightarrow> (danos_route \<Rightarrow> 'u \<Rightarrow> int \<times> 'u) option \<Rightarrow> 'u \<Rightarrow> danos_status \<times> 'u \<times> 'z sys_scheme" where
  "danos_route_dump s vrf cb u =
     (case cb of
        None \<Rightarrow> (ERR_INVALID_ARG, u, s)
      | Some f \<Rightarrow>
          (let (so, s1) = get_default_store s
           in (DANOS_OK,
               danos_object_iterate (case so of None \<Rightarrow> None | Some a \<Rightarrow> stores s1 a) (route_dump_iter vrf f) u,
               s1)))"

subsection \<open>ACL tables and rules\<close>

definition danos_acl_table_create ::
  "'z sys_scheme \<Rightarrow> danos_acl_table option \<Rightarrow> danos_status \<times> 'z sys_scheme" where
  "danos_acl_table_create s p =
     (case p of
        None \<Rightarrow> (ERR_INVALID_ARG, s)
      | Some x \<Rightarrow> default_create s OBJ_ACL (table_id x) (enc_acl_table x))"

definition danos_acl_table_update ::
  "'z sys_scheme \<Rightarrow> danos_acl_table option \<Rightarrow> danos_status \<times> 'z sys_scheme" where
  "danos_acl_table_update s p =
     (case p of
        None \<Rightarrow> (ERR_INVALID_ARG, s)
      | Some x \<Rightarrow> default_update s OBJ_ACL (table_id x) (enc_acl_table x))"

definition danos_acl_table_delete :: "'z sys_scheme \<Rightarrow> u64 \<Rightarrow> danos_status \<times> 'z sys_scheme" where
  "danos_acl_table_delete s oid = default_delete s OBJ_ACL oid"

definition danos_acl_table_read ::
  "'z sys_scheme \<Rightarrow> u64 \<Rightarrow> danos_acl_table option \<Rightarrow> danos_status \<times> danos_acl_table option \<times> 'z sys_scheme" where
  "danos_acl_table_read s oid out =
     (case out of
        None \<Rightarrow> (ERR_INVALID_ARG, None, s)
      | Some y \<Rightarrow>
          (let (st, bs, s1) = default_read s OBJ_ACL oid 80 (enc_acl_table y)
           in (st, Some (dec_acl_table bs), s1)))"

definition danos_acl_rule_add ::
  "'z sys_scheme \<Rightarrow> u64 \<Rightarrow> danos_acl_rule option \<Rightarrow> danos_status \<times> 'z sys_scheme" where
  "danos_acl_rule_add s tbl p =
     (case p of
        None \<Rightarrow> (ERR_INVALID_ARG, s)
      | Some x \<Rightarrow> default_create s OBJ_ACL (rule_id x + 1000000) (enc_acl_rule x))"

definition danos_acl_rule_delete ::
  "'z sys_scheme \<Rightarrow> u64 \<Rightarrow> u64 \<Rightarrow> danos_status \<times> 'z sys_scheme" where
  "danos_acl_rule_delete s tbl oid = default_delete s OBJ_ACL (oid + 1000000)"

definition danos_acl_rule_read ::
  "'z sys_scheme \<Rightarrow> u64 \<Rightarrow> u64 \<Rightarrow> danos_acl_rule option
     \<Rightarrow> danos_status \<times> danos_acl_rule option \<times> 'z sys_scheme" where
  "danos_acl_rule_read s tbl oid out =
     (case out of
        None \<Rightarrow> (ERR_INVALID_ARG, None, s)
      | Some y \<Rightarrow>
          (let (st, bs, s1) = default_read s OBJ_ACL (oid + 1000000) 112 (enc_acl_rule y)
           in (st, Some (dec_acl_rule bs), s1)))"

subsection \<open>QoS policies and bindings\<close>

definition danos_qos_policy_create ::
  "'z sys_scheme \<Rightarrow> danos_qos_policy option \<Rightarrow> danos_status \<times> 'z sys_scheme" where
  "danos_qos_policy_create s p =
     (case p of
        None \<Rightarrow> (ERR_INVALID_ARG, s)
      | Some x \<Rightarrow> default_create s OBJ_QOS (policy_id x) (enc_qos_policy x))"

definition danos_qos_policy_update ::
  "'z sys_scheme \<Rightarrow> danos_qos_policy option \<Rightarrow> danos_status \<times> 'z sys_scheme" where
  "danos_qos_policy_update s p =
     (case p of
        None \<Rightarrow> (ERR_INVALID_ARG, s)
      | Some x \<Rightarrow> default_update s OBJ_QOS (policy_id x) (enc_qos_policy x))"

definition danos_qos_policy_delete :: "'z sys_scheme \<Rightarrow> u64 \<Rightarrow> danos_status \<times> 'z sys_scheme" where
  "danos_qos_policy_delete s oid = default_delete s OBJ_QOS oid"

definition danos_qos_policy_read ::
  "'z sys_scheme \<Rightarrow> u64 \<Rightarrow> danos_qos_policy option \<Rightarrow> danos_status \<times> danos_qos_policy option \<times> 'z sys_scheme" where
  "danos_qos_policy_read s oid out =
     (case out of
        None \<Rightarrow> (ERR_INVALID_ARG, None, s)
      | Some y \<Rightarrow>
          (let (st, bs, s1) = default_read s OBJ_QOS oid 112 (enc_qos_policy y)
           in (st, Some (dec_qos_policy bs), s1)))"

definition qos_bind_key :: "u64 \<Rightarrow> u32 \<Rightarrow> bool \<Rightarrow> u64" where
  "qos_bind_key policy ifindex ingress =
     (let h = 0x51505342;
          h = (h XOR policy) * fnv_prime;
          h = (h XOR ucast ifindex) * fnv_prime;
          h = (h XOR of_bool ingress) * fnv_prime
      in h OR push_bit 63 1)"

definition danos_qos_policy_bind ::
  "'z sys_scheme \<Rightarrow> u64 \<Rightarrow> u32 \<Rightarrow> bool \<Rightarrow> danos_status \<times> 'z sys_scheme" where
  "danos_qos_policy_bind s policy ifindex ingress =
     default_create s OBJ_QOS_BIND (qos_bind_key policy ifindex ingress)
       (enc_qos_bind_rec \<lparr>bind_policy_id = policy, bind_rec_ifindex = ifindex, bind_ingress = ingress\<rparr>)"

subsection \<open>BFD sessions\<close>

definition danos_bfd_create ::
  "'z sys_scheme \<Rightarrow> danos_bfd option \<Rightarrow> danos_status \<times> 'z sys_scheme" where
  "danos_bfd_create s p =
     (case p of
        None \<Rightarrow> (ERR_INVALID_ARG, s)
      | Some x \<Rightarrow> default_create s OBJ_BFD (bfd_id x) (enc_bfd x))"

definition danos_bfd_delete :: "'z sys_scheme \<Rightarrow> u64 \<Rightarrow> danos_status \<times> 'z sys_scheme" where
  "danos_bfd_delete s oid = default_delete s OBJ_BFD oid"

subsection \<open>MPLS, tunnels, EVPN\<close>

definition danos_mpls_lsp_create ::
  "'z sys_scheme \<Rightarrow> danos_mpls_lsp option \<Rightarrow> danos_status \<times> 'z sys_scheme" where
  "danos_mpls_lsp_create s p =
     (case p of
        None \<Rightarrow> (ERR_INVALID_ARG, s)
      | Some x \<Rightarrow> default_create s OBJ_MPLS_LSP (ucast (in_label x)) (enc_mpls_lsp x))"

definition danos_mpls_lsp_update ::
  "'z sys_scheme \<Rightarrow> danos_mpls_lsp option \<Rightarrow> danos_status \<times> 'z sys_scheme" where
  "danos_mpls_lsp_update s p =
     (case p of
        None \<Rightarrow> (ERR_INVALID_ARG, s)
      | Some x \<Rightarrow> default_update s OBJ_MPLS_LSP (ucast (in_label x)) (enc_mpls_lsp x))"

definition danos_mpls_lsp_delete :: "'z sys_scheme \<Rightarrow> u32 \<Rightarrow> danos_status \<times> 'z sys_scheme" where
  "danos_mpls_lsp_delete s oid = default_delete s OBJ_MPLS_LSP (ucast oid)"

definition danos_mpls_lsp_read ::
  "'z sys_scheme \<Rightarrow> u32 \<Rightarrow> danos_mpls_lsp option \<Rightarrow> danos_status \<times> danos_mpls_lsp option \<times> 'z sys_scheme" where
  "danos_mpls_lsp_read s oid out =
     (case out of
        None \<Rightarrow> (ERR_INVALID_ARG, None, s)
      | Some y \<Rightarrow>
          (let (st, bs, s1) = default_read s OBJ_MPLS_LSP (ucast oid) 32 (enc_mpls_lsp y)
           in (st, Some (dec_mpls_lsp bs), s1)))"

definition danos_tunnel_create ::
  "'z sys_scheme \<Rightarrow> danos_tunnel option \<Rightarrow> danos_status \<times> 'z sys_scheme" where
  "danos_tunnel_create s p =
     (case p of
        None \<Rightarrow> (ERR_INVALID_ARG, s)
      | Some x \<Rightarrow> default_create s OBJ_TUNNEL (tun_id x) (enc_tunnel x))"

definition danos_tunnel_update ::
  "'z sys_scheme \<Rightarrow> danos_tunnel option \<Rightarrow> danos_status \<times> 'z sys_scheme" where
  "danos_tunnel_update s p =
     (case p of
        None \<Rightarrow> (ERR_INVALID_ARG, s)
      | Some x \<Rightarrow> default_update s OBJ_TUNNEL (tun_id x) (enc_tunnel x))"

definition danos_tunnel_delete :: "'z sys_scheme \<Rightarrow> u64 \<Rightarrow> danos_status \<times> 'z sys_scheme" where
  "danos_tunnel_delete s oid = default_delete s OBJ_TUNNEL oid"

definition danos_tunnel_read ::
  "'z sys_scheme \<Rightarrow> u64 \<Rightarrow> danos_tunnel option \<Rightarrow> danos_status \<times> danos_tunnel option \<times> 'z sys_scheme" where
  "danos_tunnel_read s oid out =
     (case out of
        None \<Rightarrow> (ERR_INVALID_ARG, None, s)
      | Some y \<Rightarrow>
          (let (st, bs, s1) = default_read s OBJ_TUNNEL oid 64 (enc_tunnel y)
           in (st, Some (dec_tunnel bs), s1)))"

definition danos_evpn_evi_create ::
  "'z sys_scheme \<Rightarrow> danos_evpn_evi option \<Rightarrow> danos_status \<times> 'z sys_scheme" where
  "danos_evpn_evi_create s p =
     (case p of
        None \<Rightarrow> (ERR_INVALID_ARG, s)
      | Some x \<Rightarrow> default_create s OBJ_EVPN (ucast (evi x)) (enc_evpn_evi x))"

definition danos_evpn_evi_update ::
  "'z sys_scheme \<Rightarrow> danos_evpn_evi option \<Rightarrow> danos_status \<times> 'z sys_scheme" where
  "danos_evpn_evi_update s p =
     (case p of
        None \<Rightarrow> (ERR_INVALID_ARG, s)
      | Some x \<Rightarrow> default_update s OBJ_EVPN (ucast (evi x)) (enc_evpn_evi x))"

definition danos_evpn_evi_delete :: "'z sys_scheme \<Rightarrow> u32 \<Rightarrow> danos_status \<times> 'z sys_scheme" where
  "danos_evpn_evi_delete s oid = default_delete s OBJ_EVPN (ucast oid)"

definition danos_evpn_evi_read ::
  "'z sys_scheme \<Rightarrow> u32 \<Rightarrow> danos_evpn_evi option \<Rightarrow> danos_status \<times> danos_evpn_evi option \<times> 'z sys_scheme" where
  "danos_evpn_evi_read s oid out =
     (case out of
        None \<Rightarrow> (ERR_INVALID_ARG, None, s)
      | Some y \<Rightarrow>
          (let (st, bs, s1) = default_read s OBJ_EVPN (ucast oid) 72 (enc_evpn_evi y)
           in (st, Some (dec_evpn_evi bs), s1)))"

subsection \<open>Multicast routes\<close>

definition mroute_key :: "u32 \<Rightarrow> danos_ip_addr option \<Rightarrow> u64" where
  "mroute_key vrf grp =
     (let g = (case grp of
                 None \<Rightarrow> 0
               | Some x \<Rightarrow>
                   push_bit 24 (ucast (addr x ! 0)) OR push_bit 16 (ucast (addr x ! 1)) OR
                   push_bit 8 (ucast (addr x ! 2)) OR (ucast (addr x ! 3) :: u32))
      in push_bit 32 (ucast vrf) OR ucast g)"

definition danos_mroute_create ::
  "'z sys_scheme \<Rightarrow> danos_mroute option \<Rightarrow> danos_status \<times> 'z sys_scheme" where
  "danos_mroute_create s p =
     (case p of
        None \<Rightarrow> (ERR_INVALID_ARG, s)
      | Some x \<Rightarrow> default_create s OBJ_MULTICAST (mroute_key (mr_vrf_id x) (Some (mr_group x))) (enc_mroute x))"

definition danos_mroute_update ::
  "'z sys_scheme \<Rightarrow> danos_mroute option \<Rightarrow> danos_status \<times> 'z sys_scheme" where
  "danos_mroute_update s p =
     (case p of
        None \<Rightarrow> (ERR_INVALID_ARG, s)
      | Some x \<Rightarrow> default_update s OBJ_MULTICAST (mroute_key (mr_vrf_id x) (Some (mr_group x))) (enc_mroute x))"

definition danos_mroute_delete ::
  "'z sys_scheme \<Rightarrow> u32 \<Rightarrow> danos_ip_addr option \<Rightarrow> danos_status \<times> 'z sys_scheme" where
  "danos_mroute_delete s vrf grp =
     (case grp of
        None \<Rightarrow> (ERR_INVALID_ARG, s)
      | Some g \<Rightarrow> default_delete s OBJ_MULTICAST (mroute_key vrf (Some g)))"

definition danos_mroute_read ::
  "'z sys_scheme \<Rightarrow> u32 \<Rightarrow> danos_ip_addr option \<Rightarrow> danos_mroute option
     \<Rightarrow> danos_status \<times> danos_mroute option \<times> 'z sys_scheme" where
  "danos_mroute_read s vrf grp out =
     (case (grp, out) of
        (Some g, Some y) \<Rightarrow>
          (let (st, bs, s1) = default_read s OBJ_MULTICAST (mroute_key vrf (Some g)) 320 (enc_mroute y)
           in (st, Some (dec_mroute bs), s1))
      | _ \<Rightarrow> (ERR_INVALID_ARG, out, s))"

subsection \<open>The default store as a map\<close>

definition default_map :: "'z sys_scheme \<Rightarrow> obj_key \<Rightarrow> bytes option" where
  "default_map s = (case g_default_store s of None \<Rightarrow> Map.empty | Some a \<Rightarrow> sys_map s a)"

definition dpa_ok :: "'z sys_scheme \<Rightarrow> bool" where
  "dpa_ok s \<longleftrightarrow> stores_wf s \<and> (\<forall>a. g_default_store s = Some a \<longrightarrow> stores s a \<noteq> None)"

lemma get_default_store_ok:
  assumes "dpa_ok s" and "get_default_store s = (so, s1)"
  shows "dpa_ok s1" and "so = g_default_store s1" and "default_map s1 = default_map s"
    and "sys_fs s1 = sys_fs s" and "g_default_store s \<noteq> None \<Longrightarrow> s1 = s"
  using assms
  by (auto simp: get_default_store_def danos_object_store_create_def malloc_def Let_def dpa_ok_def
      default_map_def stores_wf_def store_wf_new sys_map_def store_map_new split: if_splits)

lemma default_run:
  assumes ok: "dpa_ok s" and so: "g_default_store s = Some a" and run: "run_op a op s = (DANOS_OK, s')"
  shows "dpa_ok s' \<and> g_default_store s' = Some a \<and> default_map s' = (default_map s)(op_key op := op_data op) \<and>
    spec_op op (default_map s) = (DANOS_OK, default_map s')"
proof -
  obtain st where st: "stores s a = Some st" using ok so by (auto simp: dpa_ok_def)
  have "refines_op a op s DANOS_OK s'"
    by (rule run_op_refines [OF _ st run]) (use ok in \<open>simp add: dpa_ok_def\<close>)
  then have r: "stores_wf s'" "spec_op op (sys_map s a) = (DANOS_OK, sys_map s' a)"
    by (auto simp: refines_op_def)
  have so': "g_default_store s' = Some a" using run_op_frame(2) [of a op s] run so by simp
  moreover have "stores s' a \<noteq> None" using run_op_keeps_store [of s a op] st run by simp
  ultimately show ?thesis using r so spec_op_ok [OF r(2)] by (simp add: dpa_ok_def default_map_def)
qed

text \<open>A call on the default store that returns OK.\<close>

lemma get_default_store_live:
  assumes "get_default_store s = (Some a, s1)"
  shows "g_default_store s1 = Some a"
  using assms
  by (auto simp: get_default_store_def danos_object_store_create_def malloc_def Let_def split: if_splits)

lemma default_op_ok:
  assumes ok: "dpa_ok s" and g: "get_default_store s = (Some a, s1)"
    and run: "run_op a op s1 = (DANOS_OK, s')"
  shows "dpa_ok s' \<and> g_default_store s' \<noteq> None \<and>
    default_map s' = (default_map s)(op_key op := op_data op) \<and>
    spec_op op (default_map s) = (DANOS_OK, default_map s')"
proof -
  note g1 = get_default_store_ok [OF ok g]
  have "g_default_store s1 = Some a" using g1(2) by simp
  from default_run [OF g1(1) this run] show ?thesis using g1(3) by simp
qed

lemma null_store_refused:
  "fst (danos_object_create s None t i d) \<noteq> DANOS_OK" "fst (danos_object_update s None t i d) \<noteq> DANOS_OK"
  "fst (danos_object_delete s None t i) \<noteq> DANOS_OK"
  by (simp_all add: danos_object_create_def danos_object_update_def danos_object_delete_def)

lemma default_create_ok:
  assumes "dpa_ok s" and "default_create s t i d = (DANOS_OK, s')"
  shows "dpa_ok s' \<and> g_default_store s' \<noteq> None \<and> default_map s (t, i) = None \<and>
    default_map s' = (default_map s)((t, i) \<mapsto> d)"
proof -
  obtain so s1 where g: "get_default_store s = (so, s1)" by fastforce
  have run: "danos_object_create s1 so t i (Some d) = (DANOS_OK, s')"
    using assms(2) g by (simp add: default_create_def)
  then obtain a where a: "so = Some a" using null_store_refused(1) [of s1 t i "Some d"] by (cases so) auto
  have "run_op a (OpCreate t i d) s1 = (DANOS_OK, s')" using run a by simp
  from default_op_ok [OF assms(1) g [unfolded a] this] show ?thesis by (auto split: if_splits)
qed

lemma default_update_ok:
  assumes "dpa_ok s" and "default_update s t i d = (DANOS_OK, s')"
  shows "dpa_ok s' \<and> g_default_store s' \<noteq> None \<and> default_map s (t, i) \<noteq> None \<and>
    default_map s' = (default_map s)((t, i) \<mapsto> d)"
proof -
  obtain so s1 where g: "get_default_store s = (so, s1)" by fastforce
  have run: "danos_object_update s1 so t i (Some d) = (DANOS_OK, s')"
    using assms(2) g by (simp add: default_update_def)
  then obtain a where a: "so = Some a" using null_store_refused(2) [of s1 t i "Some d"] by (cases so) auto
  have "run_op a (OpUpdate t i d) s1 = (DANOS_OK, s')" using run a by simp
  from default_op_ok [OF assms(1) g [unfolded a] this] show ?thesis by (auto split: if_splits)
qed

lemma default_delete_ok:
  assumes "dpa_ok s" and "default_delete s t i = (DANOS_OK, s')"
  shows "dpa_ok s' \<and> g_default_store s' \<noteq> None \<and> default_map s (t, i) \<noteq> None \<and>
    default_map s' = (default_map s)((t, i) := None)"
proof -
  obtain so s1 where g: "get_default_store s = (so, s1)" by fastforce
  have run: "danos_object_delete s1 so t i = (DANOS_OK, s')"
    using assms(2) g by (simp add: default_delete_def)
  then obtain a where a: "so = Some a" using null_store_refused(3) [of s1 t i] by (cases so) auto
  have "run_op a (OpDelete t i) s1 = (DANOS_OK, s')" using run a by simp
  from default_op_ok [OF assms(1) g [unfolded a] this] show ?thesis by (auto split: if_splits)
qed

lemma default_read_live:
  assumes "dpa_ok s" and "g_default_store s \<noteq> None"
  shows "default_read s t i sz old =
    (case default_map s (t, i) of
       None \<Rightarrow> (ERR_NOT_FOUND, old, s)
     | Some d \<Rightarrow> if length d \<le> sz then (DANOS_OK, d @ drop (length d) old, s) else (ERR_INVALID_ARG, old, s))"
  using assms
  by (auto simp: default_read_def get_default_store_def sys_read_def danos_object_read_cases dpa_ok_def
      default_map_def sys_map_def split: option.split)

subsection \<open>What the structs' codecs give\<close>

context struct_codec
begin

lemma create_read:
  assumes "dpa_ok s" and "wf x" and "wf y" and "default_create s t i (enc x) = (DANOS_OK, s')"
  shows "default_read s' t i sz (enc y) = (DANOS_OK, enc x, s')"
proof -
  note c = default_create_ok [OF assms(1,4)]
  then show ?thesis using default_read_live [of s' t i sz "enc y"] assms by (simp add: enc_length)
qed

lemma update_read:
  assumes "dpa_ok s" and "wf x" and "wf y" and "default_update s t i (enc x) = (DANOS_OK, s')"
  shows "default_read s' t i sz (enc y) = (DANOS_OK, enc x, s')"
proof -
  note c = default_update_ok [OF assms(1,4)]
  then show ?thesis using default_read_live [of s' t i sz "enc y"] assms by (simp add: enc_length)
qed

end

lemma delete_read:
  assumes "dpa_ok s" and "default_delete s t i = (DANOS_OK, s')"
  shows "default_read s' t i n old = (ERR_NOT_FOUND, old, s')"
  using default_read_live [of s' t i n old] default_delete_ok [OF assms] by simp

subsection \<open>Properties\<close>

text \<open>
  C18: Route CRUD round trip. On any sound state, a route that was created or updated with
  status OK reads back, by its VRF, prefix and protocol, as exactly that route with status OK;
  after a delete with status OK the read reports NOT_FOUND and leaves the output buffer alone.
\<close>

theorem route_crud_roundtrip:
  assumes "dpa_ok s" and "wf_route r" and "wf_route y"
  shows "(danos_route_create s (Some r) = (DANOS_OK, s1) \<longrightarrow>
      danos_route_read s1 (rt_vrf_id r) (rt_prefix r) (protocol r) (Some y) = (DANOS_OK, Some r, s1)) \<and>
    (danos_route_update s (Some r) = (DANOS_OK, s2) \<longrightarrow>
      danos_route_read s2 (rt_vrf_id r) (rt_prefix r) (protocol r) (Some y) = (DANOS_OK, Some r, s2)) \<and>
    (danos_route_delete s v p pr = (DANOS_OK, s3) \<longrightarrow>
      danos_route_read s3 v p pr (Some y) = (ERR_NOT_FOUND, Some y, s3))"
  using assms route_codec.create_read [OF assms] route_codec.update_read [OF assms]
    delete_read [OF assms(1)]
  by (auto simp: danos_route_create_def danos_route_update_def danos_route_delete_def
      danos_route_read_def route_codec.dec_enc)

definition v4_prefix :: "bytes \<Rightarrow> u8 \<Rightarrow> danos_ip_prefix" where
  "v4_prefix a n = \<lparr>pfx_addr = \<lparr>af = DANOS_AF_IPV4, addr = a @ replicate 12 0\<rparr>, prefix_len = n\<rparr>"

definition sample_route :: danos_route where
  "sample_route = \<lparr>rt_vrf_id = 0, rt_prefix = v4_prefix [10, 0, 0, 0] 8, protocol = 2,
     admin_distance = 1, rt_metric = 0, nhgroup_id = 7, rt_flags = 0\<rparr>"

lemma sample_route_wf: "wf_route sample_route"
  by (simp add: sample_route_def wf_route_def wf_ip_prefix_def wf_ip_addr_def v4_prefix_def)

lemma sample_boot_dpa: "dpa_ok sample_boot"
  by (simp add: dpa_ok_def sample_boot_def stores_wf_def)

lemma sample_create:
  assumes "d \<noteq> []"
  shows "\<exists>s1. default_create sample_boot t i d = (DANOS_OK, s1)"
proof -
  have "find_entry (object_store_new 1024) t i = None"
    by (simp add: find_entry_store_map store_map_new)
  then show ?thesis
    using assms
    by (simp add: default_create_def get_default_store_def sample_boot_def danos_object_store_create_def
        malloc_def danos_object_create_def Let_def)
qed

theorem route_crud_roundtrip_witness:
  "\<exists>s1. danos_route_create sample_boot (Some sample_route) = (DANOS_OK, s1) \<and>
     danos_route_read s1 0 (v4_prefix [10, 0, 0, 0] 8) 2 (Some sample_route) = (DANOS_OK, Some sample_route, s1)"
proof -
  obtain s1 where s1: "danos_route_create sample_boot (Some sample_route) = (DANOS_OK, s1)"
    using sample_create [OF route_codec.enc_not_Nil [OF sample_route_wf]] by (auto simp: danos_route_create_def)
  then show ?thesis
    using route_crud_roundtrip [OF sample_boot_dpa sample_route_wf sample_route_wf, of s1]
    by (simp add: sample_route_def)
qed

text \<open>
  C19: Every object type reads back. For interfaces, VRFs, next hops, next-hop groups, ACL
  tables and rules, QoS policies, MPLS label paths, tunnels, EVPN instances and multicast
  routes: an object whose create returned OK is returned unchanged by the read function of
  its type.
\<close>

theorem object_create_read:
  assumes "dpa_ok s"
  shows "(wf_iface a \<and> wf_iface a0 \<and> danos_iface_create s (Some a) = (DANOS_OK, s1) \<longrightarrow>
        danos_iface_read s1 (if_ifindex a) (Some a0) = (DANOS_OK, Some a, s1)) \<and>
    (wf_vrf b \<and> wf_vrf b0 \<and> danos_vrf_create s (Some b) = (DANOS_OK, s2) \<longrightarrow>
        danos_vrf_read s2 (vrf_id b) (Some b0) = (DANOS_OK, Some b, s2)) \<and>
    (wf_nexthop c \<and> wf_nexthop c0 \<and> danos_nh_create s (Some c) = (DANOS_OK, s3) \<longrightarrow>
        danos_nh_read s3 (nh_id c) (Some c0) = (DANOS_OK, Some c, s3)) \<and>
    (wf_nhgroup d \<and> wf_nhgroup d0 \<and> danos_nhgroup_create s (Some d) = (DANOS_OK, s4) \<longrightarrow>
        danos_nhgroup_read s4 (grp_id d) (Some d0) = (DANOS_OK, Some d, s4)) \<and>
    (wf_acl_table e \<and> wf_acl_table e0 \<and> danos_acl_table_create s (Some e) = (DANOS_OK, s5) \<longrightarrow>
        danos_acl_table_read s5 (table_id e) (Some e0) = (DANOS_OK, Some e, s5)) \<and>
    (wf_acl_rule f \<and> wf_acl_rule f0 \<and> danos_acl_rule_add s tbl (Some f) = (DANOS_OK, s6) \<longrightarrow>
        danos_acl_rule_read s6 tbl (rule_id f) (Some f0) = (DANOS_OK, Some f, s6)) \<and>
    (wf_qos_policy g \<and> wf_qos_policy g0 \<and> danos_qos_policy_create s (Some g) = (DANOS_OK, s7) \<longrightarrow>
        danos_qos_policy_read s7 (policy_id g) (Some g0) = (DANOS_OK, Some g, s7)) \<and>
    (wf_mpls_lsp h \<and> wf_mpls_lsp h0 \<and> danos_mpls_lsp_create s (Some h) = (DANOS_OK, s8) \<longrightarrow>
        danos_mpls_lsp_read s8 (in_label h) (Some h0) = (DANOS_OK, Some h, s8)) \<and>
    (wf_tunnel j \<and> wf_tunnel j0 \<and> danos_tunnel_create s (Some j) = (DANOS_OK, s9) \<longrightarrow>
        danos_tunnel_read s9 (tun_id j) (Some j0) = (DANOS_OK, Some j, s9)) \<and>
    (wf_evpn_evi k \<and> wf_evpn_evi k0 \<and> danos_evpn_evi_create s (Some k) = (DANOS_OK, s10) \<longrightarrow>
        danos_evpn_evi_read s10 (evi k) (Some k0) = (DANOS_OK, Some k, s10)) \<and>
    (wf_mroute l \<and> wf_mroute l0 \<and> danos_mroute_create s (Some l) = (DANOS_OK, s11) \<longrightarrow>
        danos_mroute_read s11 (mr_vrf_id l) (Some (mr_group l)) (Some l0) = (DANOS_OK, Some l, s11))"
proof (intro conjI impI; elim conjE)
  note defs = danos_iface_create_def danos_iface_read_def danos_vrf_create_def danos_vrf_read_def
    danos_nh_create_def danos_nh_read_def danos_nhgroup_create_def danos_nhgroup_read_def
    danos_acl_table_create_def danos_acl_table_read_def danos_acl_rule_add_def danos_acl_rule_read_def
    danos_qos_policy_create_def danos_qos_policy_read_def danos_mpls_lsp_create_def
    danos_mpls_lsp_read_def danos_tunnel_create_def danos_tunnel_read_def danos_evpn_evi_create_def
    danos_evpn_evi_read_def danos_mroute_create_def danos_mroute_read_def
  show "wf_iface a \<Longrightarrow> wf_iface a0 \<Longrightarrow> danos_iface_create s (Some a) = (DANOS_OK, s1) \<Longrightarrow>
      danos_iface_read s1 (if_ifindex a) (Some a0) = (DANOS_OK, Some a, s1)"
    by (simp add: defs iface_codec.create_read [OF assms] iface_codec.dec_enc)
  show "wf_vrf b \<Longrightarrow> wf_vrf b0 \<Longrightarrow> danos_vrf_create s (Some b) = (DANOS_OK, s2) \<Longrightarrow>
      danos_vrf_read s2 (vrf_id b) (Some b0) = (DANOS_OK, Some b, s2)"
    by (simp add: defs vrf_codec.create_read [OF assms] vrf_codec.dec_enc)
  show "wf_nexthop c \<Longrightarrow> wf_nexthop c0 \<Longrightarrow> danos_nh_create s (Some c) = (DANOS_OK, s3) \<Longrightarrow>
      danos_nh_read s3 (nh_id c) (Some c0) = (DANOS_OK, Some c, s3)"
    by (simp add: defs nexthop_codec.create_read [OF assms] nexthop_codec.dec_enc)
  show "wf_nhgroup d \<Longrightarrow> wf_nhgroup d0 \<Longrightarrow> danos_nhgroup_create s (Some d) = (DANOS_OK, s4) \<Longrightarrow>
      danos_nhgroup_read s4 (grp_id d) (Some d0) = (DANOS_OK, Some d, s4)"
    by (simp add: defs nhgroup_codec.create_read [OF assms] nhgroup_codec.dec_enc)
  show "wf_acl_table e \<Longrightarrow> wf_acl_table e0 \<Longrightarrow> danos_acl_table_create s (Some e) = (DANOS_OK, s5) \<Longrightarrow>
      danos_acl_table_read s5 (table_id e) (Some e0) = (DANOS_OK, Some e, s5)"
    by (simp add: defs acl_table_codec.create_read [OF assms] acl_table_codec.dec_enc)
  show "wf_acl_rule f \<Longrightarrow> wf_acl_rule f0 \<Longrightarrow> danos_acl_rule_add s tbl (Some f) = (DANOS_OK, s6) \<Longrightarrow>
      danos_acl_rule_read s6 tbl (rule_id f) (Some f0) = (DANOS_OK, Some f, s6)"
    by (simp add: defs acl_rule_codec.create_read [OF assms] acl_rule_codec.dec_enc)
  show "wf_qos_policy g \<Longrightarrow> wf_qos_policy g0 \<Longrightarrow> danos_qos_policy_create s (Some g) = (DANOS_OK, s7) \<Longrightarrow>
      danos_qos_policy_read s7 (policy_id g) (Some g0) = (DANOS_OK, Some g, s7)"
    by (simp add: defs qos_policy_codec.create_read [OF assms] qos_policy_codec.dec_enc)
  show "wf_mpls_lsp h \<Longrightarrow> wf_mpls_lsp h0 \<Longrightarrow> danos_mpls_lsp_create s (Some h) = (DANOS_OK, s8) \<Longrightarrow>
      danos_mpls_lsp_read s8 (in_label h) (Some h0) = (DANOS_OK, Some h, s8)"
    by (simp add: defs mpls_lsp_codec.create_read [OF assms] mpls_lsp_codec.dec_enc)
  show "wf_tunnel j \<Longrightarrow> wf_tunnel j0 \<Longrightarrow> danos_tunnel_create s (Some j) = (DANOS_OK, s9) \<Longrightarrow>
      danos_tunnel_read s9 (tun_id j) (Some j0) = (DANOS_OK, Some j, s9)"
    by (simp add: defs tunnel_codec.create_read [OF assms] tunnel_codec.dec_enc)
  show "wf_evpn_evi k \<Longrightarrow> wf_evpn_evi k0 \<Longrightarrow> danos_evpn_evi_create s (Some k) = (DANOS_OK, s10) \<Longrightarrow>
      danos_evpn_evi_read s10 (evi k) (Some k0) = (DANOS_OK, Some k, s10)"
    by (simp add: defs evpn_evi_codec.create_read [OF assms] evpn_evi_codec.dec_enc)
  show "wf_mroute l \<Longrightarrow> wf_mroute l0 \<Longrightarrow> danos_mroute_create s (Some l) = (DANOS_OK, s11) \<Longrightarrow>
      danos_mroute_read s11 (mr_vrf_id l) (Some (mr_group l)) (Some l0) = (DANOS_OK, Some l, s11)"
    by (simp add: defs mroute_codec.create_read [OF assms] mroute_codec.dec_enc)
qed

definition sample_vrf :: danos_vrf where
  "sample_vrf = \<lparr>vrf_id = 3, vrf_name = replicate 64 0, ipv4_active = True, ipv6_active = False\<rparr>"

theorem object_create_read_witness:
  "\<exists>s2. danos_vrf_create sample_boot (Some sample_vrf) = (DANOS_OK, s2) \<and>
     danos_vrf_read s2 3 (Some sample_vrf) = (DANOS_OK, Some sample_vrf, s2)"
proof -
  have wf: "wf_vrf sample_vrf" by (simp add: sample_vrf_def wf_vrf_def)
  obtain s2 where s2: "danos_vrf_create sample_boot (Some sample_vrf) = (DANOS_OK, s2)"
    using sample_create [OF vrf_codec.enc_not_Nil [OF wf]] by (auto simp: danos_vrf_create_def)
  then show ?thesis
    using object_create_read [OF sample_boot_dpa, of undefined undefined undefined sample_vrf sample_vrf s2]
      wf by (simp add: sample_vrf_def)
qed

definition dumped :: "u32 \<Rightarrow> object_entry \<Rightarrow> bool" where
  "dumped vrf e \<longleftrightarrow> ent_type e = OBJ_ROUTE \<and> 56 \<le> length (ent_data e) \<and>
     (vrf = 0 \<or> rt_vrf_id (dec_route (ent_data e)) = vrf)"

lemma route_dump_fold:
  "fold (route_dump_iter vrf cb) es u =
     fold (\<lambda>d u. snd (cb (dec_route d) u)) (map ent_data (filter (dumped vrf) es)) u"
  by (induction es arbitrary: u) (auto simp: route_dump_iter_def dumped_def Let_def)

text \<open>
  C20: The route dump is exact. With a default store present the dump returns OK, leaves the
  state unchanged and calls the callback exactly once for each stored route of the requested
  VRF, and for each stored route of every VRF when the requested VRF is 0: \<open>ids\<close> are the ids of
  these routes without repetition, in the order of the calls. The callback is called for all
  of them whatever it returns. VRF 0 is the default VRF, so that the routes of the
  default VRF alone cannot be dumped.
\<close>

theorem route_dump_exact:
  assumes "dpa_ok s" and "g_default_store s \<noteq> None"
    and "danos_route_dump s vrf (Some cb) u = (rc, u', s')"
  shows "rc = DANOS_OK \<and> s' = s \<and>
    (\<exists>ids. distinct ids \<and>
      set ids = {i. \<exists>d. default_map s (OBJ_ROUTE, i) = Some d \<and> 56 \<le> length d \<and>
        (vrf = 0 \<or> rt_vrf_id (dec_route d) = vrf)} \<and>
      u' = fold (\<lambda>i u. snd (cb (dec_route (the (default_map s (OBJ_ROUTE, i)))) u)) ids u)"
proof -
  obtain a st where a: "g_default_store s = Some a" "stores s a = Some st"
    using assms(1,2) by (auto simp: dpa_ok_def)
  have wf: "store_wf st" using assms(1) a by (auto simp: dpa_ok_def stores_wf_def)
  let ?es = "filter (dumped vrf) (entries st)"
  have dump: "rc = DANOS_OK" "s' = s" "u' = fold (route_dump_iter vrf cb) (entries st) u"
    using assms(3) a by (auto simp: danos_route_dump_def get_default_store_def danos_object_iterate_entries)
  have m: "default_map s (OBJ_ROUTE, i) = Some d \<longleftrightarrow>
      (\<exists>e \<in> set (entries st). ent_type e = OBJ_ROUTE \<and> ent_id e = i \<and> ent_data e = d)" for i d
    using a store_map_iff [OF wf, of "(OBJ_ROUTE, i)" d]
    by (auto simp: default_map_def sys_map_def ent_key_def)
  have data: "the (default_map s (OBJ_ROUTE, ent_id e)) = ent_data e" if "e \<in> set ?es" for e
    using that m [of "ent_id e" "ent_data e"] by (auto simp: dumped_def)
  have "distinct (map ent_key ?es)" by (rule distinct_map_filter [OF distinct_keys [OF wf]])
  moreover have "map ent_key ?es = map (Pair OBJ_ROUTE) (map ent_id ?es)" by (auto simp: ent_key_def dumped_def)
  ultimately have dist: "distinct (map ent_id ?es)" by (metis distinct_map)
  have ids: "set (map ent_id ?es) = {i. \<exists>d. default_map s (OBJ_ROUTE, i) = Some d \<and> 56 \<le> length d \<and>
      (vrf = 0 \<or> rt_vrf_id (dec_route d) = vrf)}"
    by (auto simp: m dumped_def)
  have "u' = fold (\<lambda>e u. snd (cb (dec_route (ent_data e)) u)) ?es u"
    by (simp add: dump(3) route_dump_fold fold_map comp_def)
  also have "\<dots> = fold (\<lambda>e u. snd (cb (dec_route (the (default_map s (OBJ_ROUTE, ent_id e)))) u)) ?es u"
    by (intro List.fold_cong) (simp_all add: data)
  also have "\<dots> = fold (\<lambda>i u. snd (cb (dec_route (the (default_map s (OBJ_ROUTE, i)))) u)) (map ent_id ?es) u"
    by (simp add: fold_map comp_def)
  finally show ?thesis using dump(1,2) dist ids by blast
qed

text \<open>A callback that collects the routes and asks to stop after the first one.\<close>

definition sample_cb :: "danos_route \<Rightarrow> danos_route list \<Rightarrow> int \<times> danos_route list" where
  "sample_cb r acc = (1, r # acc)"

theorem route_dump_exact_witness:
  "\<exists>s1. danos_route_create sample_boot (Some sample_route) = (DANOS_OK, s1) \<and>
     danos_route_dump s1 0 (Some sample_cb) [] = (DANOS_OK, [sample_route], s1)"
proof -
  obtain s1 where s1: "danos_route_create sample_boot (Some sample_route) = (DANOS_OK, s1)"
    using sample_create [OF route_codec.enc_not_Nil [OF sample_route_wf]] by (auto simp: danos_route_create_def)
  let ?k = "route_key 0 (v4_prefix [10, 0, 0, 0] 8) 2"
  have "default_create sample_boot OBJ_ROUTE ?k (enc_route sample_route) = (DANOS_OK, s1)"
    using s1 by (simp add: danos_route_create_def) (simp add: sample_route_def)
  note c = default_create_ok [OF sample_boot_dpa this]
  have m: "default_map sample_boot = Map.empty" by (simp add: default_map_def sample_boot_def)
  note code = route_codec.dec_enc [OF sample_route_wf] route_codec.enc_length [OF sample_route_wf]
  obtain rc rs s' where r: "danos_route_dump s1 0 (Some sample_cb) [] = (rc, rs, s')" by (metis prod_cases3)
  obtain ids where ids: "rc = DANOS_OK" "s' = s1" "distinct ids" "set ids = {?k}"
    "rs = fold (\<lambda>i u. snd (sample_cb (dec_route (the (default_map s1 (OBJ_ROUTE, i)))) u)) ids []"
    using route_dump_exact [OF _ _ r] c m code by auto
  have "length ids = 1" using distinct_card [OF ids(3)] by (simp add: ids(4))
  then obtain x where "ids = [x]" by (cases ids) auto
  then have "ids = [?k]" using ids(4) by simp
  then show ?thesis using ids(1,2,5) s1 r c m code by (simp add: sample_cb_def)
qed

text \<open>
  The route key ignores the address family. Two prefixes with the same 16 address bytes
  and length but different families, such as 10.0.0.0/8 and a00::/8, have the same key: once
  the first route exists, creating the second one in the same VRF and protocol returns EXISTS
  and changes nothing, and deleting the second one's key removes the first route.
\<close>

theorem route_family_collision:
  assumes "dpa_ok s" and "danos_route_create s (Some r) = (DANOS_OK, s1)"
    and "wf_route q" and "rt_vrf_id q = rt_vrf_id r" and "protocol q = protocol r"
    and "addr (pfx_addr (rt_prefix q)) = addr (pfx_addr (rt_prefix r))"
    and "prefix_len (rt_prefix q) = prefix_len (rt_prefix r)"
  shows "danos_route_create s1 (Some q) = (ERR_EXISTS, s1) \<and>
    fst (danos_route_delete s1 (rt_vrf_id q) (rt_prefix q) (protocol q)) = DANOS_OK"
proof -
  let ?k = "route_key (rt_vrf_id r) (rt_prefix r) (protocol r)"
  have key: "route_key (rt_vrf_id q) (rt_prefix q) (protocol q) = ?k"
    using assms(4-7) by (simp add: route_key_def)
  have "default_create s OBJ_ROUTE ?k (enc_route r) = (DANOS_OK, s1)"
    using assms(2) by (simp add: danos_route_create_def)
  note c = default_create_ok [OF assms(1) this]
  then obtain a st where a: "g_default_store s1 = Some a" "stores s1 a = Some st"
    by (auto simp: dpa_ok_def)
  have m: "store_map st (OBJ_ROUTE, ?k) = Some (enc_route r)"
    using c a by (simp add: default_map_def sys_map_def)
  then have "danos_object_create s1 (Some a) OBJ_ROUTE ?k (Some (enc_route q)) = (ERR_EXISTS, s1)"
    by (intro create_exists [OF a(2)]) (simp_all add: route_codec.enc_not_Nil [OF assms(3)])
  moreover have "fst (danos_object_delete s1 (Some a) OBJ_ROUTE ?k) = DANOS_OK"
    using delete_ok [OF a(2), of OBJ_ROUTE ?k] m by simp
  ultimately show ?thesis
    using a key by (simp add: danos_route_create_def danos_route_delete_def default_create_def
        default_delete_def get_default_store_def)
qed

theorem route_family_collision_witness:
  "\<exists>s1. danos_route_create sample_boot (Some sample_route) = (DANOS_OK, s1) \<and>
     danos_route_create s1 (Some (sample_route\<lparr>rt_prefix := \<lparr>pfx_addr = \<lparr>af = DANOS_AF_IPV6,
       addr = [10, 0, 0, 0] @ replicate 12 0\<rparr>, prefix_len = 8\<rparr>\<rparr>)) = (ERR_EXISTS, s1)"
proof -
  let ?q = "sample_route\<lparr>rt_prefix := \<lparr>pfx_addr = \<lparr>af = DANOS_AF_IPV6,
       addr = [10, 0, 0, 0] @ replicate 12 0\<rparr>, prefix_len = 8\<rparr>\<rparr>"
  have wf: "wf_route ?q" by (simp add: sample_route_def wf_route_def wf_ip_prefix_def wf_ip_addr_def)
  obtain s1 where s1: "danos_route_create sample_boot (Some sample_route) = (DANOS_OK, s1)"
    using sample_create [OF route_codec.enc_not_Nil [OF sample_route_wf]] by (auto simp: danos_route_create_def)
  then show ?thesis
    using route_family_collision [OF sample_boot_dpa s1 wf] by (simp add: sample_route_def v4_prefix_def)
qed

text \<open>
  ACL rules and tables share their keys. If an ACL table's id is a rule id plus 1000000,
  adding that rule returns EXISTS, and reading that rule returns OK with the bytes of the
  table laid over the caller's rule buffer.
\<close>

theorem acl_rule_table_collision:
  assumes "dpa_ok s" and "danos_acl_table_create s (Some t) = (DANOS_OK, s1)"
    and "wf_acl_table t" and "wf_acl_rule r" and "table_id t = rule_id r + 1000000"
  shows "danos_acl_rule_add s1 tbl (Some r) = (ERR_EXISTS, s1) \<and>
    danos_acl_rule_read s1 tbl (rule_id r) (Some r) =
      (DANOS_OK, Some (dec_acl_rule (enc_acl_table t @ drop 80 (enc_acl_rule r))), s1)"
proof -
  have "default_create s OBJ_ACL (rule_id r + 1000000) (enc_acl_table t) = (DANOS_OK, s1)"
    using assms(2,5) by (simp add: danos_acl_table_create_def)
  note c = default_create_ok [OF assms(1) this]
  then obtain a st where a: "g_default_store s1 = Some a" "stores s1 a = Some st"
    by (auto simp: dpa_ok_def)
  have m: "store_map st (OBJ_ACL, rule_id r + 1000000) = Some (enc_acl_table t)"
    using c a by (simp add: default_map_def sys_map_def)
  then have "danos_object_create s1 (Some a) OBJ_ACL (rule_id r + 1000000) (Some (enc_acl_rule r)) = (ERR_EXISTS, s1)"
    by (intro create_exists [OF a(2)]) (simp_all add: acl_rule_codec.enc_not_Nil [OF assms(4)])
  moreover have "default_read s1 OBJ_ACL (rule_id r + 1000000) 112 (enc_acl_rule r) =
      (DANOS_OK, enc_acl_table t @ drop 80 (enc_acl_rule r), s1)"
    using default_read_live [of s1 OBJ_ACL "rule_id r + 1000000" 112 "enc_acl_rule r"] c
      acl_table_codec.enc_length [OF assms(3)] by simp
  ultimately show ?thesis
    using a by (simp add: danos_acl_rule_add_def danos_acl_rule_read_def default_create_def get_default_store_def)
qed

definition sample_table :: danos_acl_table where
  "sample_table = \<lparr>table_id = 1000005, tbl_name = replicate 64 0, bind_ifindex = 0, tbl_ingress = True\<rparr>"

definition sample_rule :: danos_acl_rule where
  "sample_rule = dec_acl_rule (replicate 112 0)\<lparr>rule_id := 5\<rparr>"

theorem acl_rule_table_collision_witness:
  "\<exists>s1. danos_acl_table_create sample_boot (Some sample_table) = (DANOS_OK, s1) \<and>
     danos_acl_rule_add s1 1 (Some sample_rule) = (ERR_EXISTS, s1)"
proof -
  have wt: "wf_acl_table sample_table" by (simp add: sample_table_def wf_acl_table_def)
  have wr: "wf_acl_rule sample_rule"
    by (simp add: sample_rule_def wf_acl_rule_def dec_acl_rule_def wf_acl_match_def dec_acl_match_def
        wf_acl_action_params_def wf_ip_prefix_def dec_ip_prefix_def wf_ip_addr_def dec_ip_addr_def)
  obtain s1 where s1: "danos_acl_table_create sample_boot (Some sample_table) = (DANOS_OK, s1)"
    using sample_create [OF acl_table_codec.enc_not_Nil [OF wt]] by (auto simp: danos_acl_table_create_def)
  then show ?thesis
    using acl_rule_table_collision [OF sample_boot_dpa s1 wt wr] by (simp add: sample_table_def sample_rule_def)
qed

lemma unlogged_create:
  "\<not> loggable (t, i) \<Longrightarrow> sys_fs (snd (default_create s t i d)) = sys_fs s"
  by (auto simp: default_create_def get_default_store_def danos_object_store_create_def malloc_def Let_def
      danos_object_create_def persist_on_mutation_unlogged notify_event_def
      danos_programming_mark_dirty_def set_store_def split: option.split)

lemma unlogged_update:
  "\<not> loggable (t, i) \<Longrightarrow> sys_fs (snd (default_update s t i d)) = sys_fs s"
  by (auto simp: default_update_def get_default_store_def danos_object_store_create_def malloc_def Let_def
      danos_object_update_def persist_on_mutation_unlogged notify_event_def
      danos_programming_mark_dirty_def set_store_def split: option.split)

lemma unlogged_delete:
  "\<not> loggable (t, i) \<Longrightarrow> sys_fs (snd (default_delete s t i)) = sys_fs s"
  by (auto simp: default_delete_def get_default_store_def danos_object_store_create_def malloc_def Let_def
      danos_object_delete_def persist_on_mutation_unlogged notify_event_def
      danos_programming_mark_dirty_def set_store_def split: option.split)

lemma bit_small: "x \<le> 0xFFFFFFFF \<Longrightarrow> 32 \<le> n \<Longrightarrow> \<not> bit (x :: u64) n"
proof -
  assume "x \<le> 0xFFFFFFFF" and n: "32 \<le> n"
  then have "x = ucast (ucast x :: u32)" by (simp add: ucast_small)
  moreover have "\<not> bit (ucast (ucast x :: u32) :: u64) n" using n by (auto simp: bit_simps)
  ultimately show ?thesis by metis
qed

lemma qos_bind_key_large: "\<not> qos_bind_key p i d \<le> 0xFFFFFFFF"
proof
  assume "qos_bind_key p i d \<le> 0xFFFFFFFF"
  then have "\<not> bit (qos_bind_key p i d) 63" by (rule bit_small) simp
  then show False by (simp add: qos_bind_key_def Let_def bit_simps)
qed

lemma mroute_key_large:
  assumes "v \<noteq> 0"
  shows "\<not> mroute_key v g \<le> 0xFFFFFFFF"
proof
  assume le: "mroute_key v g \<le> 0xFFFFFFFF"
  obtain n where n: "bit v n" using assms by (metis bit_eqI bit_0_eq bot_apply bot_bool_def)
  then have "n < 32" using bit_imp_le_length by fastforce
  then have "bit (mroute_key v g) (n + 32)" using n by (simp add: mroute_key_def Let_def bit_simps)
  moreover have "\<not> bit (mroute_key v g) (n + 32)" by (rule bit_small [OF le]) simp
  ultimately show False by blast
qed

lemma default_route_key: "route_key 0 (v4_prefix [0, 0, 0, 0] 0) 2 = 0x76a32c165b5748dd"
  by (simp add: route_key_def v4_prefix_def fnv_prime_def upt_rec)

text \<open>
  C21: Objects that never reach the log. The log stores ids of 32 bits, and objects whose id is
  larger are not logged. Whatever the state of persistence, nothing is written to the file
  system by binding a QoS policy; by creating, updating or deleting a multicast route of a VRF
  other than 0; or by creating, updating or deleting a route whose hashed key does not fit 32
  bits. The key of the IPv4 default route of protocol 2 in VRF 0 is one of these, whatever the
  other fields of the route are. None of these changes is in the log a restart recovers from.
\<close>

theorem objects_never_logged:
  "sys_fs (snd (danos_qos_policy_bind s p i d)) = sys_fs s \<and>
   (v \<noteq> 0 \<longrightarrow>
     (\<forall>m. mr_vrf_id m = v \<longrightarrow>
        sys_fs (snd (danos_mroute_create s (Some m))) = sys_fs s \<and>
        sys_fs (snd (danos_mroute_update s (Some m))) = sys_fs s) \<and>
     (\<forall>g. sys_fs (snd (danos_mroute_delete s v g)) = sys_fs s)) \<and>
   (0xFFFFFFFF < route_key u q k \<longrightarrow>
     (\<forall>r. rt_vrf_id r = u \<and> rt_prefix r = q \<and> protocol r = k \<longrightarrow>
        sys_fs (snd (danos_route_create s (Some r))) = sys_fs s \<and>
        sys_fs (snd (danos_route_update s (Some r))) = sys_fs s) \<and>
     sys_fs (snd (danos_route_delete s u q k)) = sys_fs s) \<and>
   0xFFFFFFFF < route_key 0 (v4_prefix [0, 0, 0, 0] 0) 2"
proof (intro conjI impI allI)
  note unlogged = unlogged_create unlogged_update unlogged_delete
  show "sys_fs (snd (danos_qos_policy_bind s p i d)) = sys_fs s"
    using qos_bind_key_large [of p i d] by (simp add: danos_qos_policy_bind_def unlogged loggable_def)
  show "sys_fs (snd (danos_mroute_create s (Some m))) = sys_fs s"
    "sys_fs (snd (danos_mroute_update s (Some m))) = sys_fs s" if "v \<noteq> 0" "mr_vrf_id m = v" for m
    using mroute_key_large [OF that(1), of "Some (mr_group m)"] that(2)
    by (simp_all add: danos_mroute_create_def danos_mroute_update_def unlogged loggable_def)
  show "sys_fs (snd (danos_mroute_delete s v g)) = sys_fs s" if "v \<noteq> 0" for g
    using mroute_key_large [OF that, of g] by (cases g) (simp_all add: danos_mroute_delete_def unlogged loggable_def)
  show "sys_fs (snd (danos_route_create s (Some r))) = sys_fs s"
    "sys_fs (snd (danos_route_update s (Some r))) = sys_fs s"
    if "0xFFFFFFFF < route_key u q k" "rt_vrf_id r = u \<and> rt_prefix r = q \<and> protocol r = k" for r
    using that by (auto simp: danos_route_create_def danos_route_update_def unlogged loggable_def not_le)
  show "sys_fs (snd (danos_route_delete s u q k)) = sys_fs s" if "0xFFFFFFFF < route_key u q k"
    using that by (simp add: danos_route_delete_def unlogged loggable_def not_le)
  show "0xFFFFFFFF < route_key 0 (v4_prefix [0, 0, 0, 0] 0) 2" by (simp add: default_route_key)
qed

definition sample_mroute :: danos_mroute where
  "sample_mroute = \<lparr>mr_vrf_id = 1, mr_source = \<lparr>af = 4, addr = replicate 16 0\<rparr>,
     mr_group = \<lparr>af = 4, addr = [224, 0, 0, 1] @ replicate 12 0\<rparr>, incoming_if = 0, oif_count = 0,
     oif_list = replicate 64 0\<rparr>"

theorem objects_never_logged_witness:
  "mr_vrf_id sample_mroute \<noteq> 0 \<and>
     sys_fs (snd (danos_mroute_create (sample_sys\<lparr>g_enabled := True\<rparr>) (Some sample_mroute))) = sample_fs \<and>
     0xFFFFFFFF < route_key 0 (v4_prefix [0, 0, 0, 0] 0) 2 \<and>
     sys_fs (snd (danos_route_delete (sample_sys\<lparr>g_enabled := True\<rparr>) 0 (v4_prefix [0, 0, 0, 0] 0) 2)) = sample_fs"
proof -
  note n = objects_never_logged [where s = "sample_sys\<lparr>g_enabled := True\<rparr>" and v = 1
    and u = 0 and q = "v4_prefix [0, 0, 0, 0] 0" and k = 2]
  have "mr_vrf_id sample_mroute = 1" "sys_fs (sample_sys\<lparr>g_enabled := True\<rparr>) = sample_fs"
    by (simp_all add: sample_mroute_def sample_sys_def)
  then show ?thesis using n by auto
qed

end
