(* ===== verification/Zapi_Mapper.thy ===== *)
theory Zapi_Mapper
  imports Zapi Dpa_Objects
begin

text \<open>
  The mapping of ZAPI messages to operations on DPA objects
  (\<^verbatim>\<open>danos-fib/src/mapper/zapi_mapper.c\<close>), on the core state extended by the counter the
  mapper takes object ids from.  A message is an option, \<^term>\<open>None\<close> when the message pointer
  or the transaction pointer is NULL: every function tests both at its start and returns the same
  error, and the transaction is not used otherwise.  The legacy route mapper stores into an
  array of 64 ids with an index of up to 254: a store outside the array is the result
  \<^term>\<open>None\<close>.
\<close>

record fib = sys +
  g_zapi_next_id :: u64

subsection \<open>Protocols\<close>

definition DANOS_ROUTE_PROTO_UNSPEC :: u32 where "DANOS_ROUTE_PROTO_UNSPEC = 0"
definition DANOS_ROUTE_PROTO_KERNEL :: u32 where "DANOS_ROUTE_PROTO_KERNEL = 1"
definition DANOS_ROUTE_PROTO_STATIC :: u32 where "DANOS_ROUTE_PROTO_STATIC = 2"
definition DANOS_ROUTE_PROTO_BGP :: u32 where "DANOS_ROUTE_PROTO_BGP = 3"
definition DANOS_ROUTE_PROTO_OSPF :: u32 where "DANOS_ROUTE_PROTO_OSPF = 4"
definition DANOS_ROUTE_PROTO_ISIS :: u32 where "DANOS_ROUTE_PROTO_ISIS = 5"
definition DANOS_ROUTE_PROTO_CONNECTED :: u32 where "DANOS_ROUTE_PROTO_CONNECTED = 6"
definition DANOS_NH_FLAG_ECMP :: u32 where "DANOS_NH_FLAG_ECMP = 1"
definition DANOS_IF_TYPE_PHYS :: u32 where "DANOS_IF_TYPE_PHYS = 1"

definition map_protocol :: "u8 \<Rightarrow> u32" where
  "map_protocol p =
     (if p = 0 then DANOS_ROUTE_PROTO_KERNEL else if p = 1 then DANOS_ROUTE_PROTO_STATIC
      else if p = 2 then DANOS_ROUTE_PROTO_BGP else if p = 3 then DANOS_ROUTE_PROTO_OSPF
      else if p = 4 then DANOS_ROUTE_PROTO_ISIS else if p = 5 then DANOS_ROUTE_PROTO_CONNECTED
      else DANOS_ROUTE_PROTO_UNSPEC)"

definition map_frr_protocol :: "u8 \<Rightarrow> u32" where
  "map_frr_protocol t =
     (if t = 1 then DANOS_ROUTE_PROTO_KERNEL else if t = 2 then DANOS_ROUTE_PROTO_CONNECTED
      else if t = 4 then DANOS_ROUTE_PROTO_STATIC else if t = 6 then DANOS_ROUTE_PROTO_OSPF
      else if t = 8 then DANOS_ROUTE_PROTO_ISIS else if t = 10 then DANOS_ROUTE_PROTO_BGP
      else if t = 11 then DANOS_ROUTE_PROTO_OSPF else DANOS_ROUTE_PROTO_UNSPEC)"

subsection \<open>Zeroed objects\<close>

definition addr_zero :: danos_ip_addr where
  "addr_zero = \<lparr>af = 0, addr = replicate 16 0\<rparr>"

definition prefix_zero :: danos_ip_prefix where
  "prefix_zero = \<lparr>pfx_addr = addr_zero, prefix_len = 0\<rparr>"

definition route_zero :: danos_route where
  "route_zero = \<lparr>rt_vrf_id = 0, rt_prefix = prefix_zero, protocol = 0, admin_distance = 0, rt_metric = 0,
     nhgroup_id = 0, rt_flags = 0\<rparr>"

definition nexthop_zero :: danos_nexthop where
  "nexthop_zero = \<lparr>nh_id = 0, gateway = addr_zero, nh_ifindex = 0, nh_weight = 0, nh_flags = 0, label_count = 0,
     nh_labels = replicate 3 0\<rparr>"

definition nhgroup_zero :: danos_nhgroup where
  "nhgroup_zero = \<lparr>grp_id = 0, nh_count = 0, nh_ids = replicate 64 0, grp_flags = 0\<rparr>"

definition iface_zero :: danos_iface where
  "iface_zero = \<lparr>if_ifindex = 0, if_name = replicate 64 0, if_type = 0, mtu = 0, mac = replicate 6 0, if_admin_up = False,
     link_up = False, parent_ifindex = 0, outer_vlan = 0, inner_vlan = 0, ipv4_address = prefix_zero, ipv6_address = prefix_zero\<rparr>"

definition bfd_zero :: danos_bfd where
  "bfd_zero = \<lparr>bfd_id = 0, bfd_remote = addr_zero, bfd_ifindex = 0, desired_tx_ms = 0, required_rx_ms = 0,
     detect_mult = 0, bfd_admin_up = False, session_up = False\<rparr>"

definition lsp_zero :: danos_mpls_lsp where
  "lsp_zero = \<lparr>in_label = 0, lsp_type = 0, lsp_nhgroup_id = 0, php = False, push_label_count = 0, push_labels = replicate 3 0\<rparr>"

definition set_addr :: "u32 \<Rightarrow> bytes \<Rightarrow> danos_ip_addr" where
  "set_addr f bs = \<lparr>af = f, addr = mem_put 0 bs (replicate 16 0)\<rparr>"

subsection \<open>Routes\<close>

text \<open>\<^verbatim>\<open>if (m != 0) return e;\<close> and the rest of the function.\<close>

definition orelse :: "'a option \<Rightarrow> 'r \<Rightarrow> ('a \<Rightarrow> 'r) \<Rightarrow> 'r" where
  "orelse m e k = (case m of None \<Rightarrow> e | Some x \<Rightarrow> k x)"

abbreviation arg :: "'a option \<Rightarrow> 's \<Rightarrow> ('a \<Rightarrow> danos_status \<times> 's) \<Rightarrow> danos_status \<times> 's" where
  "arg m s k \<equiv> orelse m (ERR_INVALID_ARG, s) k"

definition take_id :: "'z fib_scheme \<Rightarrow> u64 \<times> 'z fib_scheme" where
  "take_id s = (g_zapi_next_id s, s\<lparr>g_zapi_next_id := g_zapi_next_id s + 1\<rparr>)"

text \<open>
  The next hops of the legacy payload: \<open>n\<close> are left, \<open>i\<close> is the index of the next one.  The
  result is the status of the function when it returns from the loop, the decoder and the
  group otherwise.
\<close>

fun legacy_nexthops ::
  "nat \<Rightarrow> nat \<Rightarrow> u8 \<Rightarrow> u32 \<Rightarrow> nat \<Rightarrow> zapi_decoder \<Rightarrow> danos_nhgroup \<Rightarrow> 'z fib_scheme
     \<Rightarrow> ((danos_status + danos_nhgroup) \<times> 'z fib_scheme) option" where
  "legacy_nexthops 0 i cnt f gw d grp s = Some (Inr grp, s)"
| "legacy_nexthops (Suc n) i cnt f gw d grp s =
     orelse (zapi_decode_u8 d) (Some (Inl ERR_INVALID_ARG, s)) (\<lambda>(nh_type, d).
     let (nid, s) = take_id s in
     orelse (zapi_decode_bytes d gw) (Some (Inl ERR_INVALID_ARG, s)) (\<lambda>(g, d).
     orelse (zapi_decode_u32 d) (Some (Inl ERR_INVALID_ARG, s)) (\<lambda>(ifx, d).
     if i \<ge> 64 then None
     else let grp = grp\<lparr>nh_ids := (nh_ids grp)[i := nid]\<rparr>;
              nh = nexthop_zero\<lparr>nh_id := nid, gateway := set_addr f g, nh_ifindex := ifx, nh_weight := 1,
                     nh_flags := (if cnt > 1 then DANOS_NH_FLAG_ECMP else 0)\<rparr>;
              (st, s) = danos_nh_create s (Some nh)
          in if st \<noteq> DANOS_OK then Some (Inl st, s) else legacy_nexthops n (Suc i) cnt f gw d grp s)))"

text \<open>The objects of a decoded legacy route.\<close>

definition legacy_install ::
  "danos_route \<Rightarrow> u8 \<Rightarrow> u32 \<Rightarrow> nat \<Rightarrow> zapi_decoder \<Rightarrow> bool \<Rightarrow> 'z fib_scheme \<Rightarrow> (danos_status \<times> 'z fib_scheme) option" where
  "legacy_install route cnt f n d is_add s =
     (if cnt > 0 \<and> is_add then
        let (gid, s) = take_id s in
        case legacy_nexthops (unat cnt) 0 cnt f n d (nhgroup_zero\<lparr>grp_id := gid, nh_count := ucast cnt\<rparr>) s of
          None \<Rightarrow> None
        | Some (Inl st, s) \<Rightarrow> Some (st, s)
        | Some (Inr grp, s) \<Rightarrow>
            let (gst, s) = danos_nhgroup_create s (Some grp) in
            if gst \<noteq> DANOS_OK then Some (gst, s)
            else Some (danos_route_create s (Some (route\<lparr>nhgroup_id := gid\<rparr>)))
      else if is_add then Some (danos_route_create s (Some route))
      else Some (danos_route_delete s (rt_vrf_id route) (rt_prefix route) (protocol route)))"

definition zapi_map_route :: "zapi_message option \<Rightarrow> bool \<Rightarrow> 'z fib_scheme \<Rightarrow> (danos_status \<times> 'z fib_scheme) option" where
  "zapi_map_route msg is_add s = (let bad = Some (ERR_INVALID_ARG, s) in
     orelse msg bad (\<lambda>m.
     orelse (zapi_decode_u32 (zapi_decoder_init (zm_payload m))) bad (\<lambda>(vrf, d).
     orelse (zapi_decode_u8 d) bad (\<lambda>(family, d).
     orelse (zapi_decode_u8 d) bad (\<lambda>(plen, d).
     let f = (if family = 4 then DANOS_AF_IPV4 else DANOS_AF_IPV6); n = (if family = 4 then 4 else 16) in
     orelse (zapi_decode_bytes d n) bad (\<lambda>(pfx, d).
     orelse (zapi_decode_u8 d) bad (\<lambda>(proto, d).
     orelse (zapi_decode_u8 d) bad (\<lambda>(dist, d).
     orelse (zapi_decode_u32 d) bad (\<lambda>(metric, d).
     orelse (zapi_decode_u8 d) bad (\<lambda>(cnt, d).
     legacy_install
       (route_zero\<lparr>rt_vrf_id := vrf, rt_prefix := \<lparr>pfx_addr = set_addr f pfx, prefix_len = plen\<rparr>,
          protocol := map_protocol proto, admin_distance := ucast dist, rt_metric := metric\<rparr>)
       cnt f n d is_add s))))))))))"

text \<open>The next hops of an FRR route, with the same index into the same array.\<close>

fun frr_create_nexthops ::
  "zapi_frr_nexthop list \<Rightarrow> nat \<Rightarrow> u16 \<Rightarrow> u8 \<Rightarrow> u32 \<Rightarrow> danos_nhgroup \<Rightarrow> 'z fib_scheme
     \<Rightarrow> ((danos_status + danos_nhgroup) \<times> 'z fib_scheme) option" where
  "frr_create_nexthops [] i cnt family f grp s = Some (Inr grp, s)"
| "frr_create_nexthops (src # srcs) i cnt family f grp s =
     (let (nid, s) = take_id s;
          gw = (if fn_has_gateway src then set_addr f (take (if family = 2 then 4 else 16) (fn_gateway src))
                else addr_zero\<lparr>af := f\<rparr>);
          nh = nexthop_zero\<lparr>nh_id := nid, nh_ifindex := fn_ifindex src, gateway := gw, nh_weight := 1,
                 nh_flags := (if cnt > 1 then DANOS_NH_FLAG_ECMP else 0)\<rparr>
      in if i \<ge> 64 then None
         else let grp = grp\<lparr>nh_ids := (nh_ids grp)[i := nid]\<rparr>;
                  (st, s) = danos_nh_create s (Some nh)
              in if st \<noteq> DANOS_OK then Some (Inl st, s)
                 else frr_create_nexthops srcs (Suc i) cnt family f grp s)"

definition ZEBRA_FRR_REDISTRIBUTE_ROUTE_ADD :: u16 where "ZEBRA_FRR_REDISTRIBUTE_ROUTE_ADD = 31"
definition ZEBRA_FRR_REDISTRIBUTE_ROUTE_DELETE :: u16 where "ZEBRA_FRR_REDISTRIBUTE_ROUTE_DELETE = 32"

definition zapi_dispatch_frr :: "zapi_message option \<Rightarrow> 'z fib_scheme \<Rightarrow> (danos_status \<times> 'z fib_scheme) option" where
  "zapi_dispatch_frr msg s = (case msg of None \<Rightarrow> Some (ERR_INVALID_ARG, s) | Some m \<Rightarrow>
     let add = (zh_command (zm_header m) = ZEBRA_FRR_REDISTRIBUTE_ROUTE_ADD) in
     if \<not> add \<and> zh_command (zm_header m) \<noteq> ZEBRA_FRR_REDISTRIBUTE_ROUTE_DELETE then Some (ERR_NOT_SUPPORTED, s)
     else case zapi_decode_frr_route msg of Inl e \<Rightarrow> Some (ERR_INVALID_ARG, s) | Inr inp \<Rightarrow>
     if fr_family inp \<noteq> 2 then Some (ERR_NOT_SUPPORTED, s)
     else
       let f = (if fr_family inp = 2 then DANOS_AF_IPV4 else DANOS_AF_IPV6);
           route = route_zero\<lparr>rt_vrf_id := zm_vrf_id m,
             rt_prefix := \<lparr>pfx_addr = set_addr f (take (if fr_family inp = 2 then 4 else 16) (fr_prefix inp)), prefix_len = fr_prefix_len inp\<rparr>,
             protocol := map_frr_protocol (fr_type inp)\<rparr>
       in if \<not> add then Some (danos_route_delete s (rt_vrf_id route) (rt_prefix route) (protocol route))
          else if fr_nexthop_count inp > 0 then
            let (gid, s) = take_id s in
            case frr_create_nexthops (fr_nexthops inp) 0 (fr_nexthop_count inp) (fr_family inp) f
                (nhgroup_zero\<lparr>grp_id := gid, nh_count := ucast (fr_nexthop_count inp)\<rparr>) s of
              None \<Rightarrow> None
            | Some (Inl st, s) \<Rightarrow> Some (st, s)
            | Some (Inr grp, s) \<Rightarrow>
                let (st, s) = danos_nhgroup_create s (Some grp) in
                if st \<noteq> DANOS_OK then Some (st, s)
                else Some (danos_route_create s (Some (route\<lparr>nhgroup_id := gid\<rparr>)))
          else Some (danos_route_create s (Some (route\<lparr>rt_flags := rt_flags route OR DANOS_ROUTE_FLAG_BLACKHOLE\<rparr>))))"

subsection \<open>Interfaces, BFD sessions and labels\<close>

definition zapi_map_interface :: "zapi_message option \<Rightarrow> bool \<Rightarrow> 'z fib_scheme \<Rightarrow> danos_status \<times> 'z fib_scheme" where
  "zapi_map_interface msg is_add s = arg msg s (\<lambda>m.
     arg (zapi_decode_u32 (zapi_decoder_init (zm_payload m))) s (\<lambda>(ifindex, d).
     arg (zapi_decode_u8 d) s (\<lambda>(len, d).
     let len = (if len \<ge> 64 then 63 else len);
         iface = iface_zero\<lparr>if_ifindex := ifindex, if_type := DANOS_IF_TYPE_PHYS, mtu := 1500, if_admin_up := True\<rparr>
     in arg (if len > 0 then map_option (\<lambda>(nm, d). (mem_put 0 (nm @ [0]) (if_name iface), d)) (zapi_decode_bytes d (unat len))
             else Some (if_name iface, d)) s (\<lambda>(nm, d).
     let iface = iface\<lparr>if_name := nm\<rparr>;
         (iface, d) = (case zapi_decode_u32 d of None \<Rightarrow> (iface, d) | Some (v, d) \<Rightarrow> (iface\<lparr>mtu := ucast v\<rparr>, d));
         iface = (case zapi_decode_bytes d 6 of None \<Rightarrow> iface | Some (a, d) \<Rightarrow> iface\<lparr>mac := a\<rparr>)
     in if is_add then danos_iface_create s (Some iface) else danos_iface_delete s ifindex))))"

definition opt_u32 :: "zapi_decoder \<Rightarrow> (u32 \<Rightarrow> 'a \<Rightarrow> 'a) \<Rightarrow> 'a \<Rightarrow> 'a \<times> zapi_decoder" where
  "opt_u32 d f x = (case zapi_decode_u32 d of None \<Rightarrow> (x, d) | Some (v, d) \<Rightarrow> (f v x, d))"

definition zapi_map_bfd :: "zapi_message option \<Rightarrow> bool \<Rightarrow> 'z fib_scheme \<Rightarrow> danos_status \<times> 'z fib_scheme" where
  "zapi_map_bfd msg is_add s = arg msg s (\<lambda>m.
     arg (zapi_decode_u8 (zapi_decoder_init (zm_payload m))) s (\<lambda>(family, d).
     arg (zapi_decode_bytes d (if family = 4 then 4 else 16)) s (\<lambda>(a, d).
     let bfd = bfd_zero\<lparr>bfd_id := 1, bfd_admin_up := is_add,
                 bfd_remote := set_addr (if family = 4 then DANOS_AF_IPV4 else DANOS_AF_IPV6) a\<rparr>;
         (bfd, d) = opt_u32 d (\<lambda>v b. b\<lparr>bfd_ifindex := v\<rparr>) bfd;
         (bfd, d) = opt_u32 d (\<lambda>v b. b\<lparr>desired_tx_ms := v\<rparr>) bfd;
         (bfd, d) = opt_u32 d (\<lambda>v b. b\<lparr>required_rx_ms := v\<rparr>) bfd;
         (bfd, d) = opt_u32 d (\<lambda>v b. b\<lparr>detect_mult := v\<rparr>) bfd
     in if is_add then danos_bfd_create s (Some bfd) else danos_bfd_delete s (bfd_id bfd))))"

definition zapi_map_interface_set_mtu :: "zapi_message option \<Rightarrow> danos_iface \<Rightarrow> 'z fib_scheme \<Rightarrow> danos_status \<times> 'z fib_scheme" where
  "zapi_map_interface_set_mtu msg garbage s = arg msg s (\<lambda>m.
     arg (zapi_decode_u32 (zapi_decoder_init (zm_payload m))) s (\<lambda>(ifindex, d).
     arg (zapi_decode_u32 d) s (\<lambda>(v, d).
     let (st, out, s) = danos_iface_read s ifindex (Some garbage) in
     if st \<noteq> DANOS_OK then (st, s)
     else danos_iface_update s (map_option (\<lambda>x. x\<lparr>mtu := ucast v\<rparr>) out))))"

definition zapi_map_interface_set_admin ::
  "zapi_message option \<Rightarrow> bool \<Rightarrow> danos_iface \<Rightarrow> 'z fib_scheme \<Rightarrow> danos_status \<times> 'z fib_scheme" where
  "zapi_map_interface_set_admin msg up garbage s = arg msg s (\<lambda>m.
     arg (zapi_decode_u32 (zapi_decoder_init (zm_payload m))) s (\<lambda>(ifindex, d).
     let (st, out, s) = danos_iface_read s ifindex (Some garbage) in
     if st \<noteq> DANOS_OK then (st, s)
     else danos_iface_update s (map_option (\<lambda>x. x\<lparr>if_admin_up := up\<rparr>) out)))"

definition zapi_map_nexthop_lookup ::
  "zapi_message option \<Rightarrow> danos_nexthop option \<Rightarrow> 'z fib_scheme \<Rightarrow> danos_status \<times> danos_nexthop option \<times> 'z fib_scheme" where
  "zapi_map_nexthop_lookup msg out_nh s = (let bad = (ERR_INVALID_ARG, out_nh, s) in
     orelse msg bad (\<lambda>m. orelse out_nh bad (\<lambda>out.
     orelse (zapi_decode_u32 (zapi_decoder_init (zm_payload m))) bad (\<lambda>(vrf, d).
     orelse (zapi_decode_u8 d) bad (\<lambda>(family, d).
     orelse (zapi_decode_bytes d (if family = 4 then 4 else 16)) bad (\<lambda>(g, d).
     danos_nh_read s 1 (Some out)))))))"

definition zapi_map_redistribute_add :: "zapi_message option \<Rightarrow> 'z fib_scheme \<Rightarrow> danos_status \<times> 'z fib_scheme" where
  "zapi_map_redistribute_add msg s = arg msg s (\<lambda>m.
     arg (zapi_decode_u8 (zapi_decoder_init (zm_payload m))) s (\<lambda>(proto, d). (DANOS_OK, s)))"

fun push_labels_loop :: "nat \<Rightarrow> nat \<Rightarrow> zapi_decoder \<Rightarrow> u32 list \<Rightarrow> u32 list option" where
  "push_labels_loop 0 i d ls = Some ls"
| "push_labels_loop (Suc n) i d ls =
     (case zapi_decode_u32 d of None \<Rightarrow> None | Some (l, d) \<Rightarrow> push_labels_loop n (Suc i) d (ls[i := l]))"

definition zapi_map_labels :: "zapi_message option \<Rightarrow> bool \<Rightarrow> 'z fib_scheme \<Rightarrow> danos_status \<times> 'z fib_scheme" where
  "zapi_map_labels msg is_add s = arg msg s (\<lambda>m.
     arg (zapi_decode_u32 (zapi_decoder_init (zm_payload m))) s (\<lambda>(lbl, d).
     arg (zapi_decode_u8 d) s (\<lambda>(ty, d).
     arg (zapi_decode_u64 d) s (\<lambda>(nhg, d).
     arg (zapi_decode_u8 d) s (\<lambda>(ph, d).
     arg (zapi_decode_u8 d) s (\<lambda>(cnt, d).
     let cnt = (if cnt > 3 then 3 else cnt);
         lsp = lsp_zero\<lparr>in_label := lbl, lsp_type := ucast ty, lsp_nhgroup_id := nhg, php := (ph \<noteq> 0), push_label_count := cnt\<rparr>
     in arg (push_labels_loop (unat cnt) 0 d (push_labels lsp)) s (\<lambda>ls.
        if is_add then danos_mpls_lsp_create s (Some (lsp\<lparr>push_labels := ls\<rparr>))
        else danos_mpls_lsp_delete s lbl)))))))"

subsection \<open>Dispatch\<close>

datatype zapi_command = ZEBRA_ROUTE_ADD | ZEBRA_ROUTE_DELETE | ZEBRA_REDISTRIBUTE_ADD | ZEBRA_INTERFACE_ADD
  | ZEBRA_INTERFACE_DELETE | ZEBRA_INTERFACE_SET_MTU | ZEBRA_INTERFACE_UP | ZEBRA_INTERFACE_DOWN | ZEBRA_NEXTHOP_LOOKUP
  | ZEBRA_LABELS_ADD | ZEBRA_LABELS_DELETE | ZEBRA_BFD_DEST_REGISTER | ZEBRA_BFD_DEST_DEREGISTER

fun command_code :: "zapi_command \<Rightarrow> u16" where
  "command_code ZEBRA_ROUTE_ADD = 0" | "command_code ZEBRA_ROUTE_DELETE = 1"
| "command_code ZEBRA_REDISTRIBUTE_ADD = 8" | "command_code ZEBRA_INTERFACE_ADD = 20"
| "command_code ZEBRA_INTERFACE_DELETE = 21" | "command_code ZEBRA_INTERFACE_SET_MTU = 24"
| "command_code ZEBRA_INTERFACE_UP = 25" | "command_code ZEBRA_INTERFACE_DOWN = 26"
| "command_code ZEBRA_NEXTHOP_LOOKUP = 40" | "command_code ZEBRA_LABELS_ADD = 60"
| "command_code ZEBRA_LABELS_DELETE = 61" | "command_code ZEBRA_BFD_DEST_REGISTER = 80"
| "command_code ZEBRA_BFD_DEST_DEREGISTER = 81"

text \<open>
  \<open>ifg\<close> and \<open>nhg\<close> are what the uninitialised local structs of the called mappers hold.
\<close>

definition zapi_dispatch ::
  "zapi_message option \<Rightarrow> danos_iface \<Rightarrow> danos_nexthop \<Rightarrow> 'z fib_scheme \<Rightarrow> (danos_status \<times> 'z fib_scheme) option" where
  "zapi_dispatch msg ifg nhg s = (case msg of None \<Rightarrow> Some (ERR_INVALID_ARG, s) | Some m \<Rightarrow>
     let c = zh_command (zm_header m) in
     if c = command_code ZEBRA_ROUTE_ADD then zapi_map_route msg True s
     else if c = command_code ZEBRA_ROUTE_DELETE then zapi_map_route msg False s
     else if c = command_code ZEBRA_REDISTRIBUTE_ADD then Some (zapi_map_redistribute_add msg s)
     else if c = command_code ZEBRA_INTERFACE_ADD then Some (zapi_map_interface msg True s)
     else if c = command_code ZEBRA_INTERFACE_DELETE then Some (zapi_map_interface msg False s)
     else if c = command_code ZEBRA_INTERFACE_SET_MTU then Some (zapi_map_interface_set_mtu msg ifg s)
     else if c = command_code ZEBRA_INTERFACE_UP then Some (zapi_map_interface_set_admin msg True ifg s)
     else if c = command_code ZEBRA_INTERFACE_DOWN then Some (zapi_map_interface_set_admin msg False ifg s)
     else if c = command_code ZEBRA_NEXTHOP_LOOKUP then
       (let (st, nh, s) = zapi_map_nexthop_lookup msg (Some nhg) s in Some (st, s))
     else if c = command_code ZEBRA_LABELS_ADD then Some (zapi_map_labels msg True s)
     else if c = command_code ZEBRA_LABELS_DELETE then Some (zapi_map_labels msg False s)
     else if c = command_code ZEBRA_BFD_DEST_REGISTER then Some (zapi_map_bfd msg True s)
     else if c = command_code ZEBRA_BFD_DEST_DEREGISTER then Some (zapi_map_bfd msg False s)
     else Some (ERR_NOT_SUPPORTED, s))"

end
