(* ===== verification/Zapi_Install.thy ===== *)
theory Zapi_Install
  imports Zapi_Mapper
begin

text \<open>
  What the route handlers of \<open>zapi_mapper.c\<close> leave in the object store: the objects an FRR
  announcement installs, what a second announcement of the prefix does, and where the two route
  handlers stand with the bound of a next-hop group.
\<close>

subsection \<open>Creating objects with memory to spare\<close>

lemma fib_frame:
  "g_zapi_next_id (snd (run_op a op s)) = g_zapi_next_id s" for s :: "'z fib_scheme"
  by (cases op;
      simp add: danos_object_create_def danos_object_update_def danos_object_delete_def malloc_def
        Let_def notify_event_def danos_programming_mark_dirty_def set_store_def
        danos_persist_on_mutation_def danos_persist_log_op_def split: option.split prod.split)

definition roomy :: "'z fib_scheme \<Rightarrow> bool" where
  "roomy s \<longleftrightarrow> dpa_ok s \<and> mem_plan s = (\<lambda>_. True)"

lemma get_default_store_roomy:
  assumes "roomy s"
  obtains a s1 where "get_default_store s = (Some a, s1)" and "roomy s1" and "g_zapi_next_id s1 = g_zapi_next_id s"
    and "default_map s1 = default_map s" and "g_default_store s1 = Some a"
proof -
  obtain so s1 where g: "get_default_store s = (so, s1)" by fastforce
  have so: "so \<noteq> None" "mem_plan s1 = mem_plan s" "g_zapi_next_id s1 = g_zapi_next_id s"
    using g assms
    by (auto simp: roomy_def get_default_store_def danos_object_store_create_def malloc_def Let_def split: if_splits)
  have d: "dpa_ok s" using assms by (simp add: roomy_def)
  note o = get_default_store_ok [OF d g]
  show ?thesis
    using so o g that assms by (auto simp: roomy_def)
qed

lemma create_roomy:
  assumes r: "roomy s" and n: "default_map s (t, i) = None" and d: "d \<noteq> []"
  obtains s' where "default_create s t i d = (DANOS_OK, s')" and "roomy s'" and "g_zapi_next_id s' = g_zapi_next_id s"
    and "default_map s' = (default_map s)((t, i) \<mapsto> d)" and "g_default_store s' \<noteq> None"
proof (rule get_default_store_roomy [OF r])
  fix a s1
  assume g: "get_default_store s = (Some a, s1)" "roomy s1" "g_zapi_next_id s1 = g_zapi_next_id s"
    "default_map s1 = default_map s" "g_default_store s1 = Some a"
  obtain st where st: "stores s1 a = Some st" using g(2,5) by (auto simp: roomy_def dpa_ok_def)
  have m: "store_map st (t, i) = None" using n g(4,5) st by (simp add: default_map_def sys_map_def)
  obtain s' where c: "danos_object_create s1 (Some a) t i (Some d) = (DANOS_OK, s')"
    using create_ok [OF st m d] g(2) by (auto simp: roomy_def)
  then have run: "run_op a (OpCreate t i d) s1 = (DANOS_OK, s')" by simp
  have e: "default_create s t i d = (DANOS_OK, s')" using g(1) c by (simp add: default_create_def)
  have "dpa_ok s" using r by (simp add: roomy_def)
  note k = default_create_ok [OF this e]
  have f: "mem_plan s' = mem_plan s1" "g_zapi_next_id s' = g_zapi_next_id s1"
    using run_op_frame(6) [of a "OpCreate t i d" s1] fib_frame [of a "OpCreate t i d" s1] run by simp_all
  show ?thesis using that [OF e] k f g r by (simp add: roomy_def)
qed

subsection \<open>The objects of an FRR route\<close>

definition frr_nh :: "zapi_frr_route \<Rightarrow> u64 \<Rightarrow> nat \<Rightarrow> danos_nexthop" where
  "frr_nh inp base i = (let src = fr_nexthops inp ! i in
     nexthop_zero\<lparr>nh_id := base + 1 + of_nat i, nh_ifindex := fn_ifindex src,
       gateway := (if fn_has_gateway src then set_addr DANOS_AF_IPV4 (take 4 (fn_gateway src)) else addr_zero\<lparr>af := DANOS_AF_IPV4\<rparr>),
       nh_weight := 1, nh_flags := (if fr_nexthop_count inp > 1 then DANOS_NH_FLAG_ECMP else 0)\<rparr>)"

definition frr_group :: "zapi_frr_route \<Rightarrow> u64 \<Rightarrow> danos_nhgroup" where
  "frr_group inp base = nhgroup_zero\<lparr>grp_id := base, nh_count := ucast (fr_nexthop_count inp),
     nh_ids := map (\<lambda>i. base + 1 + of_nat i) [0..<length (fr_nexthops inp)] @ replicate (64 - length (fr_nexthops inp)) 0\<rparr>"

definition frr_route :: "zapi_message \<Rightarrow> zapi_frr_route \<Rightarrow> u64 \<Rightarrow> danos_route" where
  "frr_route m inp base = route_zero\<lparr>rt_vrf_id := zm_vrf_id m,
     rt_prefix := \<lparr>pfx_addr = set_addr DANOS_AF_IPV4 (take 4 (fr_prefix inp)), prefix_len = fr_prefix_len inp\<rparr>,
     protocol := map_frr_protocol (fr_type inp),
     nhgroup_id := (if fr_nexthop_count inp > 0 then base else 0),
     rt_flags := (if fr_nexthop_count inp > 0 then 0 else DANOS_ROUTE_FLAG_BLACKHOLE)\<rparr>"

lemma length_addr_set_addr: "length bs \<le> 16 \<Longrightarrow> length (addr (set_addr f bs)) = 16"
  by (simp add: set_addr_def)

lemma frr_objects_wf:
  assumes "frr_wf inp"
  shows "wf_route (frr_route m inp base)" "wf_nhgroup (frr_group inp base)"
    "i < length (fr_nexthops inp) \<Longrightarrow> wf_nexthop (frr_nh inp base i)"
  using assms
  by (auto simp: frr_wf_def frr_route_def frr_group_def frr_nh_def wf_route_def wf_ip_prefix_def length_addr_set_addr wf_nhgroup_def
      wf_nexthop_def nexthop_zero_def nhgroup_zero_def addr_zero_def wf_ip_addr_def zapi_consts Let_def)

text \<open>The next hops from index \<open>k\<close> on.\<close>

definition nh_fresh :: "(obj_key \<Rightarrow> bytes option) \<Rightarrow> u64 \<Rightarrow> nat \<Rightarrow> nat \<Rightarrow> bool" where
  "nh_fresh mp base k n \<longleftrightarrow> (\<forall>i. k \<le> i \<and> i < n \<longrightarrow> mp (OBJ_NEXTHOP, base + 1 + of_nat i) = None)"

definition grp_upto :: "danos_nhgroup \<Rightarrow> u64 \<Rightarrow> nat \<Rightarrow> danos_nhgroup" where
  "grp_upto g base k = g\<lparr>nh_ids := map (\<lambda>i. base + 1 + of_nat i) [0..<k] @ replicate (64 - k) 0\<rparr>"

lemma of_nat_inj64: "i \<le> 64 \<Longrightarrow> j \<le> 64 \<Longrightarrow> (of_nat i :: u64) = of_nat j \<longleftrightarrow> i = j"
  by (auto dest!: arg_cong [where f = unat] simp: unat_of_nat)

lemma grp_upto_step: "k < 64 \<Longrightarrow> (grp_upto g base k)\<lparr>nh_ids := (nh_ids (grp_upto g base k))[k := base + 1 + of_nat k]\<rparr> = grp_upto g base (Suc k)"
proof -
  assume k: "k < 64"
  have r: "replicate (64 - k) (0 :: u64) = 0 # replicate (64 - Suc k) 0" using k by (metis Suc_diff_Suc replicate_Suc)
  have l: "length (map (\<lambda>i. base + 1 + of_nat i :: u64) [0..<k]) = k" by simp
  have "(map (\<lambda>i. base + 1 + of_nat i) [0..<k] @ 0 # replicate (64 - Suc k) 0)[k := base + 1 + of_nat k] =
      map (\<lambda>i. base + 1 + of_nat i) [0..<k] @ (base + 1 + of_nat k) # replicate (64 - Suc k) 0"
    using l by (metis list_update_length)
  then show ?thesis by (simp add: grp_upto_def r)
qed

lemma nh_create_step:
  assumes r: "roomy s" and w: "frr_wf inp" and k: "k < length (fr_nexthops inp)"
    and n: "default_map s (OBJ_NEXTHOP, base + 1 + of_nat k) = None" and b: "g_zapi_next_id s = base + 1 + of_nat k"
  obtains s' where "danos_nh_create (s\<lparr>g_zapi_next_id := g_zapi_next_id s + 1\<rparr>) (Some (frr_nh inp base k)) = (DANOS_OK, s')"
    and "roomy s'" and "g_zapi_next_id s' = base + 1 + of_nat (Suc k)"
    and "default_map s' = (default_map s)((OBJ_NEXTHOP, base + 1 + of_nat k) \<mapsto> enc_nexthop (frr_nh inp base k))"
    and "g_default_store s' \<noteq> None"
proof -
  let ?s = "s\<lparr>g_zapi_next_id := g_zapi_next_id s + 1\<rparr>"
  have r': "roomy ?s" and m: "default_map ?s = default_map s"
    using r by (simp_all add: roomy_def dpa_ok_def default_map_def sys_map_def stores_wf_def split: option.split)
  have i: "nh_id (frr_nh inp base k) = base + 1 + of_nat k" by (simp add: frr_nh_def Let_def)
  have e: "enc_nexthop (frr_nh inp base k) \<noteq> []" by (rule nexthop_codec.enc_not_Nil [OF frr_objects_wf(3) [OF w k]])
  show ?thesis
    using create_roomy [OF r' _ e, of OBJ_NEXTHOP "base + 1 + of_nat k"] n m b that
    by (auto simp: danos_nh_create_def i ac_simps)
qed

lemma frr_create_nexthops_ok:
  assumes "roomy s" and w: "frr_wf inp" and "srcs = drop k (fr_nexthops inp)" and "k \<le> length (fr_nexthops inp)"
    and "g_zapi_next_id s = base + 1 + of_nat k" and "nh_fresh (default_map s) base k (length (fr_nexthops inp))"
  shows "\<exists>s'. frr_create_nexthops srcs k (fr_nexthop_count inp) 2 DANOS_AF_IPV4 (grp_upto g base k) s =
        Some (Inr (grp_upto g base (length (fr_nexthops inp))), s') \<and>
      roomy s' \<and> g_zapi_next_id s' = base + 1 + of_nat (length (fr_nexthops inp)) \<and>
      (\<forall>i. k \<le> i \<and> i < length (fr_nexthops inp) \<longrightarrow>
         default_map s' (OBJ_NEXTHOP, base + 1 + of_nat i) = Some (enc_nexthop (frr_nh inp base i))) \<and>
      (\<forall>key. (\<forall>i. k \<le> i \<and> i < length (fr_nexthops inp) \<longrightarrow> key \<noteq> (OBJ_NEXTHOP, base + 1 + of_nat i)) \<longrightarrow>
         default_map s' key = default_map s key)"
  using assms(1,3-)
proof (induction srcs arbitrary: k s)
  case Nil
  then show ?case by auto
next
  case (Cons src srcs)
  let ?n = "length (fr_nexthops inp)"
  have k: "k < ?n" using Cons.prems(2) by (metis drop_all linorder_not_less list.distinct(1))
  have le: "?n \<le> 64" using w by (simp add: frr_wf_def zapi_consts)
  have src: "src = fr_nexthops inp ! k" and srcs: "srcs = drop (Suc k) (fr_nexthops inp)"
    using Cons.prems(2) k by (metis Cons_nth_drop_Suc list.inject)+
  have new: "default_map s (OBJ_NEXTHOP, base + 1 + of_nat k) = None" using Cons.prems(5) k by (simp add: nh_fresh_def)
  obtain s1 where s1: "danos_nh_create (s\<lparr>g_zapi_next_id := g_zapi_next_id s + 1\<rparr>) (Some (frr_nh inp base k)) = (DANOS_OK, s1)"
    "roomy s1" "g_zapi_next_id s1 = base + 1 + of_nat (Suc k)"
    "default_map s1 = (default_map s)((OBJ_NEXTHOP, base + 1 + of_nat k) \<mapsto> enc_nexthop (frr_nh inp base k))"
    by (rule nh_create_step [OF Cons.prems(1) w k new Cons.prems(4)])
  have fresh: "nh_fresh (default_map s1) base (Suc k) ?n"
    using Cons.prems(5) k le by (auto simp: nh_fresh_def s1(4) of_nat_inj64 simp del: of_nat_Suc)
  obtain s' where s': "frr_create_nexthops srcs (Suc k) (fr_nexthop_count inp) 2 DANOS_AF_IPV4 (grp_upto g base (Suc k)) s1 =
        Some (Inr (grp_upto g base ?n), s')" "roomy s'" "g_zapi_next_id s' = base + 1 + of_nat ?n"
    and a: "\<And>i. Suc k \<le> i \<Longrightarrow> i < ?n \<Longrightarrow> default_map s' (OBJ_NEXTHOP, base + 1 + of_nat i) = Some (enc_nexthop (frr_nh inp base i))"
    and o: "\<And>key. (\<forall>i. Suc k \<le> i \<and> i < ?n \<longrightarrow> key \<noteq> (OBJ_NEXTHOP, base + 1 + of_nat i)) \<Longrightarrow> default_map s' key = default_map s1 key"
    using Cons.IH [OF s1(2) srcs _ s1(3) fresh] k by (auto simp: Suc_le_eq)
  have step: "frr_create_nexthops (src # srcs) k (fr_nexthop_count inp) 2 DANOS_AF_IPV4 (grp_upto g base k) s =
      frr_create_nexthops srcs (Suc k) (fr_nexthop_count inp) 2 DANOS_AF_IPV4 (grp_upto g base (Suc k)) s1"
  proof -
    have "nexthop_zero\<lparr>nh_id := g_zapi_next_id s, nh_ifindex := fn_ifindex src,
        gateway := (if fn_has_gateway src then set_addr DANOS_AF_IPV4 (take (if (2 :: u8) = 2 then 4 else 16) (fn_gateway src)) else addr_zero\<lparr>af := DANOS_AF_IPV4\<rparr>),
        nh_weight := 1, nh_flags := (if fr_nexthop_count inp > 1 then DANOS_NH_FLAG_ECMP else 0)\<rparr> = frr_nh inp base k"
      using src Cons.prems(4) by (simp add: frr_nh_def Let_def)
    note this [simplified]
    then show ?thesis
      using grp_upto_step [of k g base] k le s1(1) Cons.prems(4) by (simp add: take_id_def Let_def)
  qed
  have at_k: "default_map s' (OBJ_NEXTHOP, base + 1 + of_nat k) = Some (enc_nexthop (frr_nh inp base k))"
    using o [of "(OBJ_NEXTHOP, base + 1 + of_nat k)"] k le s1(4) by (auto simp: of_nat_inj64)
  show ?case
  proof (intro exI conjI allI impI)
    show "frr_create_nexthops (src # srcs) k (fr_nexthop_count inp) 2 DANOS_AF_IPV4 (grp_upto g base k) s =
        Some (Inr (grp_upto g base ?n), s')" using step s'(1) by simp
    show "roomy s'" "g_zapi_next_id s' = base + 1 + of_nat ?n" by (fact s')+
    fix i assume "k \<le> i \<and> i < ?n"
    then show "default_map s' (OBJ_NEXTHOP, base + 1 + of_nat i) = Some (enc_nexthop (frr_nh inp base i))"
      using a at_k by (cases "i = k") auto
  next
    fix key assume "\<forall>i. k \<le> i \<and> i < ?n \<longrightarrow> key \<noteq> (OBJ_NEXTHOP, base + 1 + of_nat i)"
    then show "default_map s' key = default_map s key" using o [of key] k s1(4) by auto
  qed
qed

lemma reads_at:
  assumes "roomy s" and "g_default_store s \<noteq> None"
  shows "default_map s (OBJ_ROUTE, route_key v p q) = Some (enc_route a) \<Longrightarrow> wf_route a \<Longrightarrow> wf_route a0 \<Longrightarrow>
      danos_route_read s v p q (Some a0) = (DANOS_OK, Some a, s)"
    and "default_map s (OBJ_NHGROUP, i) = Some (enc_nhgroup b) \<Longrightarrow> wf_nhgroup b \<Longrightarrow> wf_nhgroup b0 \<Longrightarrow>
      danos_nhgroup_read s i (Some b0) = (DANOS_OK, Some b, s)"
    and "default_map s (OBJ_NEXTHOP, i) = Some (enc_nexthop c) \<Longrightarrow> wf_nexthop c \<Longrightarrow> wf_nexthop c0 \<Longrightarrow>
      danos_nh_read s i (Some c0) = (DANOS_OK, Some c, s)"
  using assms
  by (simp_all add: danos_route_read_def danos_nhgroup_read_def danos_nh_read_def default_read_live roomy_def
      route_codec.enc_length route_codec.dec_enc nhgroup_codec.enc_length nhgroup_codec.dec_enc
      nexthop_codec.enc_length nexthop_codec.dec_enc)

definition frr_key :: "zapi_message \<Rightarrow> zapi_frr_route \<Rightarrow> obj_key" where
  "frr_key m inp = (let r = frr_route m inp 0 in (OBJ_ROUTE, route_key (rt_vrf_id r) (rt_prefix r) (protocol r)))"

text \<open>The objects a state holds for an FRR route whose ids start at \<open>base\<close>.\<close>

definition frr_hops :: "zapi_frr_route \<Rightarrow> u64 \<Rightarrow> (obj_key \<Rightarrow> bytes option) \<Rightarrow> (obj_key \<Rightarrow> bytes option) \<Rightarrow> bool" where
  "frr_hops inp base mp mp' \<longleftrightarrow>
     mp' (OBJ_NHGROUP, base) = Some (enc_nhgroup (frr_group inp base)) \<and>
     (\<forall>i < length (fr_nexthops inp). mp' (OBJ_NEXTHOP, base + 1 + of_nat i) = Some (enc_nexthop (frr_nh inp base i))) \<and>
     (\<forall>key. key \<noteq> (OBJ_NHGROUP, base) \<and>
        (\<forall>i < length (fr_nexthops inp). key \<noteq> (OBJ_NEXTHOP, base + 1 + of_nat i)) \<longrightarrow> mp' key = mp key)"

definition frr_installed :: "zapi_message \<Rightarrow> zapi_frr_route \<Rightarrow> u64 \<Rightarrow> (obj_key \<Rightarrow> bytes option) \<Rightarrow> (obj_key \<Rightarrow> bytes option) \<Rightarrow> bool" where
  "frr_installed m inp base mp mp' \<longleftrightarrow>
     mp' (frr_key m inp) = Some (enc_route (frr_route m inp base)) \<and>
     (fr_nexthop_count inp > 0 \<longrightarrow> mp' (OBJ_NHGROUP, base) = Some (enc_nhgroup (frr_group inp base))) \<and>
     (\<forall>i < length (fr_nexthops inp). mp' (OBJ_NEXTHOP, base + 1 + of_nat i) = Some (enc_nexthop (frr_nh inp base i))) \<and>
     (\<forall>key. key \<noteq> frr_key m inp \<and> (fr_nexthop_count inp > 0 \<longrightarrow> key \<noteq> (OBJ_NHGROUP, base)) \<and>
        (\<forall>i < length (fr_nexthops inp). key \<noteq> (OBJ_NEXTHOP, base + 1 + of_nat i)) \<longrightarrow> mp' key = mp key)"

lemma route_create_roomy:
  assumes "roomy s" and "frr_wf inp" and "default_map s (frr_key m inp) = None"
  obtains s' where "danos_route_create s (Some (frr_route m inp base)) = (DANOS_OK, s')" and "roomy s'"
    and "g_zapi_next_id s' = g_zapi_next_id s"
    and "default_map s' = (default_map s)(frr_key m inp \<mapsto> enc_route (frr_route m inp base))"
    and "g_default_store s' \<noteq> None"
proof -
  have k: "(OBJ_ROUTE, route_key (rt_vrf_id (frr_route m inp base)) (rt_prefix (frr_route m inp base)) (protocol (frr_route m inp base))) = frr_key m inp"
    by (simp add: frr_key_def frr_route_def)
  show ?thesis
    using create_roomy [OF assms(1) _ route_codec.enc_not_Nil [OF frr_objects_wf(1) [OF assms(2)]],
        of OBJ_ROUTE "route_key (rt_vrf_id (frr_route m inp base)) (rt_prefix (frr_route m inp base)) (protocol (frr_route m inp base))" m base]
      assms(3) that unfolding k by (auto simp: danos_route_create_def)
qed

lemma frr_add_blackhole:
  assumes "roomy s" and "frr_wf inp" and "default_map s (frr_key m inp) = None"
    and "zh_command (zm_header m) = ZEBRA_FRR_REDISTRIBUTE_ROUTE_ADD" and "zapi_decode_frr_route (Some m) = Inr inp"
    and "fr_family inp = 2" and c: "fr_nexthop_count inp = 0"
  obtains s' where "zapi_dispatch_frr (Some m) s = Some (DANOS_OK, s')" and "roomy s'"
    and "g_zapi_next_id s' = g_zapi_next_id s" and "frr_installed m inp base (default_map s) (default_map s')"
    and "g_default_store s' \<noteq> None"
proof -
  obtain s' where s': "danos_route_create s (Some (frr_route m inp base)) = (DANOS_OK, s')" "roomy s'"
    "g_zapi_next_id s' = g_zapi_next_id s" "default_map s' = (default_map s)(frr_key m inp \<mapsto> enc_route (frr_route m inp base))"
    "g_default_store s' \<noteq> None"
    by (rule route_create_roomy [OF assms(1-3), of base])
  have n: "fr_nexthops inp = []" using assms(2) c by (simp add: frr_wf_def)
  have "zapi_dispatch_frr (Some m) s = Some (danos_route_create s (Some (frr_route m inp base)))"
    using assms(4-) by (simp add: zapi_dispatch_frr_def Let_def frr_route_def route_zero_def)
  moreover have "frr_installed m inp base (default_map s) (default_map s')"
    using c n by (simp add: frr_installed_def s'(4))
  ultimately show ?thesis using that s' by simp
qed

text \<open>The group and the next hops are in place before the route is created.\<close>

lemma frr_add_prepares:
  assumes r: "roomy s" and w: "frr_wf inp"
    and cmd: "zh_command (zm_header m) = ZEBRA_FRR_REDISTRIBUTE_ROUTE_ADD" and dec: "zapi_decode_frr_route (Some m) = Inr inp"
    and fam: "fr_family inp = 2" and c: "fr_nexthop_count inp > 0" and b: "g_zapi_next_id s = base"
    and g: "default_map s (OBJ_NHGROUP, base) = None" and f: "nh_fresh (default_map s) base 0 (length (fr_nexthops inp))"
  obtains s2 where "zapi_dispatch_frr (Some m) s = Some (danos_route_create s2 (Some (frr_route m inp base)))" and "roomy s2"
    and "g_zapi_next_id s2 = base + 1 + of_nat (length (fr_nexthops inp))" and "frr_hops inp base (default_map s) (default_map s2)"
    and "g_default_store s2 \<noteq> None"
proof -
  let ?n = "length (fr_nexthops inp)" and ?s = "s\<lparr>g_zapi_next_id := base + 1\<rparr>"
  let ?g = "nhgroup_zero\<lparr>grp_id := base, nh_count := ucast (fr_nexthop_count inp)\<rparr>"
  have s0: "roomy ?s" "default_map ?s = default_map s"
    using r by (simp_all add: roomy_def dpa_ok_def default_map_def sys_map_def stores_wf_def split: option.split)
  have g0: "grp_upto ?g base 0 = ?g" by (simp add: grp_upto_def nhgroup_zero_def)
  have gn: "grp_upto ?g base ?n = frr_group inp base" by (simp add: grp_upto_def frr_group_def)
  obtain s1 where s1: "frr_create_nexthops (fr_nexthops inp) 0 (fr_nexthop_count inp) 2 DANOS_AF_IPV4 ?g ?s =
        Some (Inr (frr_group inp base), s1)" "roomy s1" "g_zapi_next_id s1 = base + 1 + of_nat ?n"
    and a: "\<forall>i < ?n. default_map s1 (OBJ_NEXTHOP, base + 1 + of_nat i) = Some (enc_nexthop (frr_nh inp base i))"
    and o: "\<forall>key. (\<forall>i < ?n. key \<noteq> (OBJ_NEXTHOP, base + 1 + of_nat i)) \<longrightarrow> default_map s1 key = default_map s key"
    using frr_create_nexthops_ok [OF s0(1) w, of "fr_nexthops inp" 0 base ?g] f unfolding s0(2) g0 gn by auto
  have g1: "default_map s1 (OBJ_NHGROUP, base) = None" using o g by simp
  obtain s2 where s2: "danos_nhgroup_create s1 (Some (frr_group inp base)) = (DANOS_OK, s2)" "roomy s2"
    "g_zapi_next_id s2 = g_zapi_next_id s1" "default_map s2 = (default_map s1)((OBJ_NHGROUP, base) \<mapsto> enc_nhgroup (frr_group inp base))"
    "g_default_store s2 \<noteq> None"
    using create_roomy [OF s1(2) g1 nhgroup_codec.enc_not_Nil [OF frr_objects_wf(2) [OF w]], of base]
    by (auto simp: danos_nhgroup_create_def frr_group_def)
  have rt: "route_zero\<lparr>rt_vrf_id := zm_vrf_id m,
        rt_prefix := \<lparr>pfx_addr = set_addr DANOS_AF_IPV4 (take 4 (fr_prefix inp)), prefix_len = fr_prefix_len inp\<rparr>,
        protocol := map_frr_protocol (fr_type inp), nhgroup_id := base\<rparr> = frr_route m inp base"
    using c by (simp add: frr_route_def route_zero_def)
  have "zapi_dispatch_frr (Some m) s = Some (danos_route_create s2 (Some (frr_route m inp base)))"
    using cmd dec fam c b s1(1) s2(1) rt by (simp add: zapi_dispatch_frr_def take_id_def Let_def)
  moreover have "frr_hops inp base (default_map s) (default_map s2)"
    using a o c by (auto simp: frr_hops_def s2(4))
  ultimately show ?thesis using that s2 s1(3) by simp
qed

lemma frr_add_nexthops:
  assumes w: "frr_wf inp" and new: "default_map s (frr_key m inp) = None" and c: "fr_nexthop_count inp > 0"
    and d: "zapi_dispatch_frr (Some m) s = Some (danos_route_create s2 (Some (frr_route m inp base)))"
    and s2: "roomy s2" "frr_hops inp base (default_map s) (default_map s2)"
  obtains s' where "zapi_dispatch_frr (Some m) s = Some (DANOS_OK, s')" and "roomy s'"
    and "g_zapi_next_id s' = g_zapi_next_id s2"
    and "frr_installed m inp base (default_map s) (default_map s')" and "g_default_store s' \<noteq> None"
proof -
  have n2: "default_map s2 (frr_key m inp) = None" using new s2(2) by (simp add: frr_key_def Let_def frr_hops_def)
  obtain s' where s': "danos_route_create s2 (Some (frr_route m inp base)) = (DANOS_OK, s')" "roomy s'"
    "g_zapi_next_id s' = g_zapi_next_id s2" "default_map s' = (default_map s2)(frr_key m inp \<mapsto> enc_route (frr_route m inp base))"
    "g_default_store s' \<noteq> None"
    by (rule route_create_roomy [OF s2(1) w n2, of base])
  have "frr_installed m inp base (default_map s) (default_map s')"
    using s2(2) c by (auto simp: frr_installed_def frr_hops_def s'(4) frr_key_def Let_def)
  then show ?thesis using that s' d by simp
qed

lemma route_create_exists:
  assumes "roomy s" and "g_default_store s \<noteq> None" and "frr_wf inp" and "default_map s (frr_key m inp) \<noteq> None"
  shows "danos_route_create s (Some (frr_route m inp base)) = (ERR_EXISTS, s)"
proof -
  obtain a st where a: "g_default_store s = Some a" "stores s a = Some st" using assms(1,2) by (auto simp: roomy_def dpa_ok_def)
  have k: "frr_key m inp = (OBJ_ROUTE, route_key (rt_vrf_id (frr_route m inp base)) (rt_prefix (frr_route m inp base)) (protocol (frr_route m inp base)))"
    by (simp add: frr_key_def frr_route_def)
  have "store_map st (frr_key m inp) \<noteq> None" using assms(4) a by (simp add: default_map_def sys_map_def)
  then show ?thesis
    using create_exists [OF a(2) _ route_codec.enc_not_Nil [OF frr_objects_wf(1) [OF assms(3), of m base]]] a(1)
    unfolding k by (simp add: danos_route_create_def default_create_def get_default_store_def)
qed

lemma frr_add_installs:
  assumes "roomy s" and "zh_command (zm_header m) = ZEBRA_FRR_REDISTRIBUTE_ROUTE_ADD"
    and "zapi_decode_frr_route (Some m) = Inr inp" and "fr_family inp = 2"
    and "default_map s (frr_key m inp) = None" and b: "g_zapi_next_id s = base"
    and "default_map s (OBJ_NHGROUP, base) = None" and "nh_fresh (default_map s) base 0 (length (fr_nexthops inp))"
  obtains s' where "zapi_dispatch_frr (Some m) s = Some (DANOS_OK, s')" and "roomy s'"
    and "g_zapi_next_id s' = (if fr_nexthop_count inp > 0 then base + 1 + of_nat (length (fr_nexthops inp)) else base)"
    and "frr_installed m inp base (default_map s) (default_map s')" and "g_default_store s' \<noteq> None"
proof -
  have w: "frr_wf inp" by (rule frr_decode_wf [OF assms(3)])
  show ?thesis
  proof (cases "fr_nexthop_count inp > 0")
    case True
    obtain s2 where s2: "zapi_dispatch_frr (Some m) s = Some (danos_route_create s2 (Some (frr_route m inp base)))" "roomy s2"
      "g_zapi_next_id s2 = base + 1 + of_nat (length (fr_nexthops inp))" "frr_hops inp base (default_map s) (default_map s2)"
      by (rule frr_add_prepares [OF assms(1) w assms(2-4) True assms(6-8)])
    show ?thesis using that True s2(3) by (rule_tac frr_add_nexthops [OF w assms(5) True s2(1,2,4)]) simp
  next
    case False
    then have z: "fr_nexthop_count inp = 0" by (simp add: word_gt_0)
    show ?thesis using that z b by (rule_tac frr_add_blackhole [OF assms(1) w assms(5,2-4) z, of base]) simp
  qed
qed

subsection \<open>Properties\<close>

text \<open>
  C10: An FRR route announcement installs the route. With memory to spare, a route-add message of
  address family IPv4 whose payload decodes, for a prefix that has no route yet and with the ids
  from the counter on unused, returns OK; the route, its next-hop group and every next hop of the
  message read back as the message says, the group listing the next hops in order; the id counter
  has moved past the ids used, and no other object has changed.
\<close>

theorem frr_route_add_installs:
  assumes "roomy s" and "zh_command (zm_header m) = ZEBRA_FRR_REDISTRIBUTE_ROUTE_ADD"
    and "zapi_decode_frr_route (Some m) = Inr inp" and "fr_family inp = 2"
    and "default_map s (frr_key m inp) = None" and b: "g_zapi_next_id s = base"
    and "default_map s (OBJ_NHGROUP, base) = None" and "nh_fresh (default_map s) base 0 (length (fr_nexthops inp))"
    and "wf_route r0" and "wf_nhgroup g0" and "wf_nexthop n0"
  shows "\<exists>s'. zapi_dispatch_frr (Some m) s = Some (DANOS_OK, s') \<and> roomy s' \<and>
    danos_route_read s' (zm_vrf_id m) (rt_prefix (frr_route m inp base)) (map_frr_protocol (fr_type inp)) (Some r0) =
      (DANOS_OK, Some (frr_route m inp base), s') \<and>
    (fr_nexthop_count inp > 0 \<longrightarrow>
       danos_nhgroup_read s' base (Some g0) = (DANOS_OK, Some (frr_group inp base), s')) \<and>
    (\<forall>i < length (fr_nexthops inp).
       danos_nh_read s' (base + 1 + of_nat i) (Some n0) = (DANOS_OK, Some (frr_nh inp base i), s')) \<and>
    g_zapi_next_id s' = (if fr_nexthop_count inp > 0 then base + 1 + of_nat (length (fr_nexthops inp)) else base) \<and>
    frr_installed m inp base (default_map s) (default_map s')"
proof -
  have w: "frr_wf inp" by (rule frr_decode_wf [OF assms(3)])
  obtain s' where s': "zapi_dispatch_frr (Some m) s = Some (DANOS_OK, s')" "roomy s'"
    "g_zapi_next_id s' = (if fr_nexthop_count inp > 0 then base + 1 + of_nat (length (fr_nexthops inp)) else base)"
    "frr_installed m inp base (default_map s) (default_map s')" "g_default_store s' \<noteq> None"
    by (rule frr_add_installs [OF assms(1-8)])
  note i = s'(4) [unfolded frr_installed_def]
  have k: "frr_key m inp = (OBJ_ROUTE, route_key (zm_vrf_id m) (rt_prefix (frr_route m inp base)) (map_frr_protocol (fr_type inp)))"
    by (simp add: frr_key_def frr_route_def)
  show ?thesis
    using s' i frr_objects_wf [OF w] assms(9-11) unfolding k
    by (intro exI [of _ s'] conjI allI impI) (simp_all add: reads_at [OF s'(2,5)])
qed

definition sample_fib :: fib where
  "sample_fib = sys.extend sample_boot (fib.fields 1000)"

lemma sample_fib_roomy: "roomy sample_fib" "default_map sample_fib = Map.empty" "g_zapi_next_id sample_fib = 1000"
  by (simp_all add: sample_fib_def sys.defs fib.defs sample_boot_def roomy_def dpa_ok_def stores_wf_def default_map_def)

text \<open>10.0.0.0/8 by BGP with the next hops 192.0.2.1 and 192.0.2.2 on interface 3.\<close>

definition sample_frr :: zapi_message where
  "sample_frr = \<lparr>zm_header = \<lparr>zh_length = 0, zh_marker = 254, zh_version = 6, zh_command = 31\<rparr>,
     zm_payload = [10, 0, 0, 0, 0, 0, 0, 0, 0, 0, 1, 1, 2, 8, 10, 0, 2] @
       [0, 0, 0, 0, 2, 0, 192, 0, 2, 1] @ [0, 0, 0, 0, 3, 0, 192, 0, 2, 2, 0, 0, 0, 3], zm_vrf_id = 0\<rparr>"

definition sample_inp :: zapi_frr_route where
  "sample_inp = \<lparr>fr_type = 10, fr_instance = 0, fr_flags = 0, fr_message = 1, fr_safi = 1, fr_family = 2, fr_prefix_len = 8,
     fr_prefix = 10 # replicate 15 0, fr_nhg_id = 0, fr_nexthop_count = 2, fr_nexthops =
       [\<lparr>fn_type = 2, fn_flags = 0, fn_family = 2, fn_ifindex = 0, fn_gateway = [192, 0, 2, 1] @ replicate 12 0, fn_has_gateway = True\<rparr>,
        \<lparr>fn_type = 3, fn_flags = 0, fn_family = 2, fn_ifindex = 3, fn_gateway = [192, 0, 2, 2] @ replicate 12 0, fn_has_gateway = True\<rparr>]\<rparr>"

lemma sample_frr_decodes: "zapi_decode_frr_route (Some sample_frr) = Inr sample_inp"
  by code_simp

theorem frr_route_add_installs_witness:
  "\<exists>s'. zapi_dispatch_frr (Some sample_frr) sample_fib = Some (DANOS_OK, s') \<and>
     danos_route_read s' 0 (v4_prefix [10, 0, 0, 0] 8) DANOS_ROUTE_PROTO_BGP (Some sample_route) =
       (DANOS_OK, Some \<lparr>rt_vrf_id = 0, rt_prefix = v4_prefix [10, 0, 0, 0] 8, protocol = DANOS_ROUTE_PROTO_BGP,
          admin_distance = 0, rt_metric = 0, nhgroup_id = 1000, rt_flags = 0\<rparr>, s')"
proof -
  have wf: "wf_nhgroup (frr_group sample_inp 0)" "wf_nexthop (frr_nh sample_inp 0 0)"
    using frr_objects_wf [OF frr_decode_wf [OF sample_frr_decodes]] by (simp_all add: sample_inp_def)
  have r: "frr_route sample_frr sample_inp 1000 =
      \<lparr>rt_vrf_id = 0, rt_prefix = v4_prefix [10, 0, 0, 0] 8, protocol = DANOS_ROUTE_PROTO_BGP,
          admin_distance = 0, rt_metric = 0, nhgroup_id = 1000, rt_flags = 0\<rparr>"
    by code_simp
  have p: "map_frr_protocol (fr_type sample_inp) = DANOS_ROUTE_PROTO_BGP" by code_simp
  show ?thesis
    using frr_route_add_installs [OF sample_fib_roomy(1) _ sample_frr_decodes _ _ sample_fib_roomy(3) _ _ sample_route_wf wf]
    by (auto simp: sample_fib_roomy nh_fresh_def r p)
      (auto simp: sample_frr_def sample_inp_def ZEBRA_FRR_REDISTRIBUTE_ROUTE_ADD_def)
qed

text \<open>
  C32: A re-announced route keeps its old next hops. When the prefix of an IPv4 route-add message
  with next hops has a route of the same VRF and protocol already, the dispatch returns EXISTS: the
  stored route is the old one, bound to its old group, while the new group and next hops were
  created and stay in the store with no route that refers to them through this message.
\<close>

theorem frr_reannounce_keeps_old:
  assumes "roomy s" and "zh_command (zm_header m) = ZEBRA_FRR_REDISTRIBUTE_ROUTE_ADD"
    and "zapi_decode_frr_route (Some m) = Inr inp" and "fr_family inp = 2" and "fr_nexthop_count inp > 0"
    and old: "default_map s (frr_key m inp) = Some old" and "g_zapi_next_id s = base"
    and "default_map s (OBJ_NHGROUP, base) = None" and "nh_fresh (default_map s) base 0 (length (fr_nexthops inp))"
  shows "\<exists>s'. zapi_dispatch_frr (Some m) s = Some (ERR_EXISTS, s') \<and>
    default_map s' (frr_key m inp) = Some old \<and>
    frr_hops inp base (default_map s) (default_map s')"
proof -
  have w: "frr_wf inp" by (rule frr_decode_wf [OF assms(3)])
  obtain s2 where s2: "zapi_dispatch_frr (Some m) s = Some (danos_route_create s2 (Some (frr_route m inp base)))" "roomy s2"
    "frr_hops inp base (default_map s) (default_map s2)" "g_default_store s2 \<noteq> None"
    by (rule frr_add_prepares [OF assms(1) w assms(2-5,7-9)])
  have o: "default_map s2 (frr_key m inp) = Some old" using old s2(3) by (simp add: frr_key_def Let_def frr_hops_def)
  show ?thesis
    using route_create_exists [OF s2(2,4) w, of m base] o s2(1,3) by simp
qed

theorem frr_reannounce_keeps_old_witness:
  "\<exists>(s :: fib) s'. default_map s (frr_key sample_frr sample_inp) = Some [1] \<and>
     zapi_dispatch_frr (Some sample_frr) s = Some (ERR_EXISTS, s') \<and>
     default_map s' (frr_key sample_frr sample_inp) = Some [1] \<and> default_map s' (OBJ_NHGROUP, 1000) \<noteq> None"
proof -
  obtain t i where k: "frr_key sample_frr sample_inp = (t, i)" "t = OBJ_ROUTE" by (simp add: frr_key_def Let_def)
  obtain s :: fib where s: "roomy s" "g_zapi_next_id s = 1000" "default_map s = [(t, i) \<mapsto> [1]]"
    by (rule create_roomy [OF sample_fib_roomy(1), of t i "[1]"]) (simp_all add: sample_fib_roomy)
  have "\<exists>s'. zapi_dispatch_frr (Some sample_frr) s = Some (ERR_EXISTS, s') \<and>
      default_map s' (frr_key sample_frr sample_inp) = Some [1] \<and> frr_hops sample_inp 1000 (default_map s) (default_map s')"
    by (rule frr_reannounce_keeps_old [OF s(1) _ sample_frr_decodes])
      (simp_all add: s k nh_fresh_def, simp_all add: sample_frr_def sample_inp_def ZEBRA_FRR_REDISTRIBUTE_ROUTE_ADD_def)
  then obtain s' where s': "zapi_dispatch_frr (Some sample_frr) s = Some (ERR_EXISTS, s')"
    "default_map s' (frr_key sample_frr sample_inp) = Some [1]" "frr_hops sample_inp 1000 (default_map s) (default_map s')"
    by blast
  from s'(3) have "default_map s' (OBJ_NHGROUP, 1000) \<noteq> None" by (simp add: frr_hops_def)
  then show ?thesis using s s' k by (intro exI [of _ s] exI [of _ s']) simp
qed

subsection \<open>The group's id array\<close>

lemma frr_create_nexthops_in_bounds:
  "i + length srcs \<le> 64 \<Longrightarrow> frr_create_nexthops srcs i cnt fam f g s \<noteq> None"
  by (induction srcs arbitrary: i g s) (simp_all add: Let_def split_beta)

text \<open>
  The FRR dispatch keeps inside a group's id array. On any message, well formed or not, and
  any state, handling an FRR route message makes no store outside \<open>nh_ids[64]\<close>.
\<close>

theorem frr_dispatch_in_bounds: "zapi_dispatch_frr msg s \<noteq> None" for s :: "'z fib_scheme"
proof (cases "zapi_decode_frr_route msg")
  case (Inr inp)
  then have "length (fr_nexthops inp) \<le> 64" using frr_decode_wf by (fastforce simp: frr_wf_def zapi_consts)
  then have n: "frr_create_nexthops (fr_nexthops inp) 0 cnt fam f g t \<noteq> None" for cnt fam f g and t :: "'z fib_scheme"
    by (intro frr_create_nexthops_in_bounds) simp
  show ?thesis using Inr
    by (auto simp: zapi_dispatch_frr_def Let_def split_beta n split: option.split sum.split prod.split)
qed (auto simp: zapi_dispatch_frr_def Let_def split: option.split)

lemma legacy_step:
  assumes "roomy s" and "default_map s (OBJ_NEXTHOP, g_zapi_next_id s) = None" and "wf_nexthop nh" and "nh_id nh = g_zapi_next_id s"
  obtains s' where "danos_nh_create (s\<lparr>g_zapi_next_id := g_zapi_next_id s + 1\<rparr>) (Some nh) = (DANOS_OK, s')"
    and "roomy s'" and "g_zapi_next_id s' = g_zapi_next_id s + 1"
    and "default_map s' = (default_map s)((OBJ_NEXTHOP, g_zapi_next_id s) \<mapsto> enc_nexthop nh)"
proof -
  let ?s = "s\<lparr>g_zapi_next_id := g_zapi_next_id s + 1\<rparr>"
  have r': "roomy ?s" and m: "default_map ?s = default_map s"
    using assms(1) by (simp_all add: roomy_def dpa_ok_def default_map_def sys_map_def stores_wf_def split: option.split)
  show ?thesis
    using create_roomy [OF r' _ nexthop_codec.enc_not_Nil [OF assms(3)], of OBJ_NEXTHOP "g_zapi_next_id s"] assms(2,4) m that
    by (auto simp: danos_nh_create_def)
qed

lemma legacy_overflows:
  assumes "roomy s" and "i \<le> 64" and "65 \<le> n + i" and "zd_pos d + (65 - i) * 9 \<le> length (zd_data d)"
    and "\<And>k. k < 64 - i \<Longrightarrow> default_map s (OBJ_NEXTHOP, g_zapi_next_id s + of_nat k) = None"
  shows "legacy_nexthops n i cnt f 4 d grp s = None"
  using assms
proof (induction n arbitrary: i d grp s)
  case 0
  then show ?case by simp
next
  case (Suc n)
  define nid where "nid = g_zapi_next_id s"
  define g where "g = bslice (zd_pos d + 1) 4 (zd_data d)"
  define ifx :: u32 where "ifx = be_word (bslice (zd_pos d + 5) 4 (zd_data d))"
  define fl where "fl = (if cnt > 1 then DANOS_NH_FLAG_ECMP else 0)"
  define nh where "nh = nexthop_zero\<lparr>nh_id := nid, gateway := set_addr f g, nh_ifindex := ifx, nh_weight := 1,
      nh_flags := fl\<rparr>"
  have len: "zd_pos d + 9 \<le> length (zd_data d)" using Suc.prems(2,4) by (cases "65 - i") auto
  have e: "legacy_nexthops (Suc n) i cnt f 4 d grp s =
      (if i \<ge> 64 then None
       else let (st, s') = danos_nh_create (s\<lparr>g_zapi_next_id := nid + 1\<rparr>) (Some nh)
            in if st \<noteq> DANOS_OK then Some (Inl st, s')
               else legacy_nexthops n (Suc i) cnt f 4 (d\<lparr>zd_pos := zd_pos d + 9\<rparr>) (grp\<lparr>nh_ids := (nh_ids grp)[i := nid]\<rparr>) s')"
    using len unfolding legacy_nexthops.simps(2) fl_def [symmetric] nh_def nid_def g_def ifx_def
    by (simp add: orelse_def zapi_decode_u8_def zapi_decode_bytes_def zapi_decode_u32_def take_id_def Let_def split_beta add.commute [of _ "5 :: nat"] add.commute [of _ "9 :: nat"])
  show ?case
  proof (cases "i = 64")
    case False
    have wf: "wf_nexthop nh"
      using len by (simp add: nh_def wf_nexthop_def nexthop_zero_def addr_zero_def wf_ip_addr_def length_addr_set_addr g_def)
    have new: "default_map s (OBJ_NEXTHOP, g_zapi_next_id s) = None" using Suc.prems(5) [of 0] False Suc.prems(2) by simp
    obtain s' where s': "danos_nh_create (s\<lparr>g_zapi_next_id := g_zapi_next_id s + 1\<rparr>) (Some nh) = (DANOS_OK, s')"
      "roomy s'" "g_zapi_next_id s' = g_zapi_next_id s + 1" "default_map s' = (default_map s)((OBJ_NEXTHOP, g_zapi_next_id s) \<mapsto> enc_nexthop nh)"
      by (rule legacy_step [OF Suc.prems(1) new wf]) (simp_all add: nh_def nid_def)
    have "legacy_nexthops n (Suc i) cnt f 4 (d\<lparr>zd_pos := zd_pos d + 9\<rparr>) (grp\<lparr>nh_ids := (nh_ids grp)[i := nid]\<rparr>) s' = None"
    proof (rule Suc.IH [OF s'(2)])
      show "zd_pos (d\<lparr>zd_pos := zd_pos d + 9\<rparr>) + (65 - Suc i) * 9 \<le> length (zd_data (d\<lparr>zd_pos := zd_pos d + 9\<rparr>))"
        using Suc.prems(2,4) False by simp
      fix k assume k: "k < 64 - Suc i"
      have "default_map s (OBJ_NEXTHOP, g_zapi_next_id s + of_nat (Suc k)) = None" using Suc.prems(5) [of "Suc k"] k by simp
      moreover have "(of_nat (Suc k) :: u64) \<noteq> of_nat 0" using k of_nat_inj64 [of "Suc k" 0] by simp
      ultimately show "default_map s' (OBJ_NEXTHOP, g_zapi_next_id s' + of_nat k) = None" by (simp add: s'(3,4) ac_simps)
    qed (use Suc.prems False in simp_all)
    then show ?thesis using s'(1) unfolding e by (simp add: nid_def)
  qed (use e in simp)
qed

text \<open>
  C33: The legacy route mapper stores past a group's id array. With memory to spare and fresh ids,
  a legacy IPv4 route-add message whose next-hop count byte is 65 or more and whose payload is long
  enough for 65 next hops makes \<open>zapi_map_route\<close> write behind \<open>nh_ids[64]\<close>: the count is an
  8-bit value that is compared with no limit.
\<close>

theorem legacy_route_overflow:
  assumes "roomy s" and "zm_payload m ! 4 = 4" and "65 \<le> unat (zm_payload m ! 16)" and "602 \<le> length (zm_payload m)"
    and "\<And>k. k < 64 \<Longrightarrow> default_map s (OBJ_NEXTHOP, g_zapi_next_id s + 1 + of_nat k) = None"
  shows "zapi_map_route (Some m) True s = None"
proof -
  let ?s = "s\<lparr>g_zapi_next_id := g_zapi_next_id s + 1\<rparr>"
  have r': "roomy ?s" and mp: "default_map ?s = default_map s"
    using assms(1) by (simp_all add: roomy_def dpa_ok_def default_map_def sys_map_def stores_wf_def split: option.split)
  have "legacy_nexthops (unat (zm_payload m ! 16)) 0 (zm_payload m ! 16) DANOS_AF_IPV4 4
      \<lparr>zd_data = zm_payload m, zd_pos = 17\<rparr> g ?s = None" for g
    by (rule legacy_overflows [OF r']) (use assms mp in simp_all)
  moreover have "0 < zm_payload m ! 16" using assms(3) by (cases "zm_payload m ! 16 = 0") (simp_all add: word_gt_0)
  ultimately show ?thesis
    using assms(2,4)
    by (simp add: zapi_map_route_def orelse_def zapi_decoder_init_def zapi_decode_u8_def zapi_decode_bytes_def
        zapi_decode_u32_def Let_def legacy_install_def take_id_def)
qed

definition sample_legacy :: zapi_message where
  "sample_legacy = \<lparr>zm_header = \<lparr>zh_length = 611, zh_marker = 0xFFFF, zh_version = 6, zh_command = 0\<rparr>,
     zm_payload = [0, 0, 0, 0, 4, 8, 10, 0, 0, 0, 1, 20, 0, 0, 0, 0, 65] @ replicate 585 0, zm_vrf_id = 0\<rparr>"

theorem legacy_route_overflow_witness: "zapi_map_route (Some sample_legacy) True sample_fib = None"
  by (rule legacy_route_overflow [OF sample_fib_roomy(1)]) (simp_all add: sample_legacy_def sample_fib_roomy)

end
