(* ===== verification/State_Store.thy ===== *)
theory State_Store
  imports Dpa_Objects
begin

text \<open>
  The desired/programmed/operational state model of \<^verbatim>\<open>danos-core/src/state/state_store.c\<close>:
  three object stores behind one handle, with set, get, delete and the difference between
  desired and programmed. The stores are addresses in the heap of \<open>Core_State\<close>.
\<close>

datatype state_kind = STATE_NONE | STATE_CONFIG | STATE_DESIRED | STATE_PROGRAMMED | STATE_OPER

record state_store =
  ss_desired :: "nat option"
  ss_programmed :: "nat option"
  ss_oper :: "nat option"

definition danos_state_store_destroy :: "'z sys_scheme \<Rightarrow> state_store option \<Rightarrow> 'z sys_scheme" where
  "danos_state_store_destroy s ss =
     (case ss of
        None \<Rightarrow> s
      | Some x \<Rightarrow>
          danos_object_store_destroy
            (danos_object_store_destroy
               (danos_object_store_destroy s (ss_desired x)) (ss_programmed x)) (ss_oper x))"

definition danos_state_store_create :: "'z sys_scheme \<Rightarrow> state_store option \<times> 'z sys_scheme" where
  "danos_state_store_create s =
     (let (ok, s0) = malloc s
      in if \<not> ok then (None, s0)
         else
           (let (d, s1) = danos_object_store_create s0 1024;
                (p, s2) = danos_object_store_create s1 1024;
                (r, s3) = danos_object_store_create s2 1024;
                ss = \<lparr>ss_desired = d, ss_programmed = p, ss_oper = r\<rparr>
            in if d = None \<or> p = None \<or> r = None
               then (None, danos_state_store_destroy s3 (Some ss))
               else (Some ss, s3)))"

fun pick_store :: "state_store \<Rightarrow> state_kind \<Rightarrow> nat option" where
  "pick_store ss STATE_DESIRED = ss_desired ss"
| "pick_store ss STATE_PROGRAMMED = ss_programmed ss"
| "pick_store ss STATE_OPER = ss_oper ss"
| "pick_store ss _ = None"

definition danos_state_set ::
  "'z sys_scheme \<Rightarrow> state_store \<Rightarrow> state_kind \<Rightarrow> danos_obj_type \<Rightarrow> u64 \<Rightarrow> bytes option
     \<Rightarrow> danos_status \<times> 'z sys_scheme" where
  "danos_state_set s ss kind t i d =
     (case pick_store ss kind of
        None \<Rightarrow> (ERR_INVALID_ARG, s)
      | Some a \<Rightarrow>
          (let (st, s1) = danos_object_create s (Some a) t i d
           in if st = ERR_EXISTS then danos_object_update s1 (Some a) t i d else (st, s1)))"

definition danos_state_get ::
  "'z sys_scheme \<Rightarrow> state_store \<Rightarrow> state_kind \<Rightarrow> danos_obj_type \<Rightarrow> u64 \<Rightarrow> bool \<Rightarrow> nat option
     \<Rightarrow> danos_status \<times> bytes option \<times> nat option" where
  "danos_state_get s ss kind t i has_out n =
     (case pick_store ss kind of
        None \<Rightarrow> (ERR_INVALID_ARG, None, n)
      | Some a \<Rightarrow> danos_object_read (stores s a) t i has_out n)"

definition danos_state_delete ::
  "'z sys_scheme \<Rightarrow> state_store \<Rightarrow> state_kind \<Rightarrow> danos_obj_type \<Rightarrow> u64 \<Rightarrow> danos_status \<times> 'z sys_scheme" where
  "danos_state_delete s ss kind t i =
     (case pick_store ss kind of
        None \<Rightarrow> (ERR_INVALID_ARG, s)
      | Some a \<Rightarrow> danos_object_delete s (Some a) t i)"

text \<open>One desired entry of the diff walk: whether it differs, and the allocation it makes.\<close>

definition diff_entry :: "object_store option \<Rightarrow> object_entry \<Rightarrow> 'z sys_scheme \<Rightarrow> bool \<times> 'z sys_scheme" where
  "diff_entry programmed e s =
     (let (st, _, psize) = danos_object_read programmed (ent_type e) (ent_id e) False (Some 0)
      in if st = ERR_NOT_FOUND then (True, s)
         else if st = ERR_INVALID_ARG \<and> psize \<noteq> Some 0
         then
           (let (ok, s1) = malloc s
            in if ok
               then
                 (let (st2, pbuf, rsize) = danos_object_read programmed (ent_type e) (ent_id e) True psize
                  in if st2 = DANOS_OK \<and> rsize = Some (length (ent_data e))
                     then (pbuf \<noteq> Some (ent_data e), s1)
                     else (True, s1))
               else (True, s1))
         else (True, s))"

definition danos_state_diff_desired_programmed ::
  "'z sys_scheme \<Rightarrow> state_store option \<Rightarrow> (danos_obj_type \<Rightarrow> u64 \<Rightarrow> 'u \<Rightarrow> 'u) option \<Rightarrow> 'u
     \<Rightarrow> u64 \<times> 'u \<times> 'z sys_scheme" where
  "danos_state_diff_desired_programmed s ss cb user =
     (case (ss, cb) of
        (Some x, Some f) \<Rightarrow>
          (case (ss_desired x, ss_programmed x) of
             (Some a, Some b) \<Rightarrow>
               (case stores s a of
                  None \<Rightarrow> (0, user, s)
                | Some st \<Rightarrow>
                    fold (\<lambda>e (diffs, u, s1).
                       let (differs, s2) = diff_entry (stores s b) e s1
                       in if differs then (diffs + 1, f (ent_type e) (ent_id e) u, s2) else (diffs, u, s2))
                      (concat (buckets st)) (0, user, s))
           | _ \<Rightarrow> (0, user, s))
      | _ \<Rightarrow> (0, user, s))"

subsection \<open>Lemmas\<close>

text \<open>A handle as \<^verbatim>\<open>danos_state_store_create\<close> returns it: three live, different stores.\<close>

definition ss_ok :: "'z sys_scheme \<Rightarrow> state_store \<Rightarrow> bool" where
  "ss_ok s ss \<longleftrightarrow>
     stores_wf s \<and>
     (\<exists>a b c. ss = \<lparr>ss_desired = Some a, ss_programmed = Some b, ss_oper = Some c\<rparr> \<and>
        a \<noteq> b \<and> a \<noteq> c \<and> b \<noteq> c \<and> stores s a \<noteq> None \<and> stores s b \<noteq> None \<and> stores s c \<noteq> None)"

definition kind_map :: "'z sys_scheme \<Rightarrow> state_store \<Rightarrow> state_kind \<Rightarrow> obj_key \<Rightarrow> bytes option" where
  "kind_map s ss kind = (case pick_store ss kind of None \<Rightarrow> Map.empty | Some a \<Rightarrow> sys_map s a)"

lemma store_create_ok:
  assumes "mem_plan s = (\<lambda>_. True)"
  shows "danos_object_store_create s n =
    (Some (next_addr s), s\<lparr>mem_next := mem_next s + 2,
       stores := (stores s)(next_addr s \<mapsto> object_store_new n), next_addr := Suc (next_addr s)\<rparr>)"
  using assms by (simp add: danos_object_store_create_def malloc_def Let_def)

lemma ss_ok_create:
  assumes "stores_wf s" and "mem_plan s = (\<lambda>_. True)" and "danos_state_store_create s = (x, s')"
  shows "\<exists>ss. x = Some ss \<and> ss_ok s' ss \<and> (\<forall>k. kind_map s' ss k = Map.empty)"
proof -
  let ?n = "next_addr s"
  let ?ss = "\<lparr>ss_desired = Some ?n, ss_programmed = Some (Suc ?n), ss_oper = Some (Suc (Suc ?n))\<rparr>"
  have c: "x = Some ?ss" "stores s' = (stores s)(?n \<mapsto> object_store_new 1024,
      Suc ?n \<mapsto> object_store_new 1024, Suc (Suc ?n) \<mapsto> object_store_new 1024)"
    using assms(2,3) by (auto simp: danos_state_store_create_def malloc_def store_create_ok Let_def)
  have "kind_map s' ?ss k = Map.empty" for k
    by (cases k) (simp_all add: kind_map_def sys_map_def c store_map_new)
  moreover have "ss_ok s' ?ss"
    using assms(1) by (auto simp: ss_ok_def stores_wf_def c store_wf_new)
  ultimately show ?thesis using c by blast
qed

lemma pick_live:
  assumes "ss_ok s ss" and "pick_store ss kind = Some a"
  shows "stores_wf s" and "stores s a \<noteq> None"
  using assms by (cases kind; auto simp: ss_ok_def)+

lemma pick_inj:
  "ss_ok s ss \<Longrightarrow> pick_store ss k = Some a \<Longrightarrow> pick_store ss k' = Some a \<Longrightarrow> k = k'"
  by (cases k; cases k'; auto simp: ss_ok_def)

lemma kind_map_op:
  assumes ok: "ss_ok s ss" and a: "pick_store ss kind = Some a" and run: "run_op a op s = (rc, s')"
  shows "ss_ok s' ss" and "k \<noteq> kind \<Longrightarrow> kind_map s' ss k = kind_map s ss k"
    and "rc = ERR_NO_MEMORY \<and> kind_map s' ss kind = kind_map s ss kind \<or>
      (rc, kind_map s' ss kind) = spec_op op (kind_map s ss kind)"
proof -
  obtain st where st: "stores s a = Some st" using pick_live [OF ok a] by blast
  have "refines_op a op s rc s'" by (rule run_op_refines [OF pick_live(1) [OF ok a] st run])
  then have r: "stores_wf s'" "\<And>b. b \<noteq> a \<Longrightarrow> stores s' b = stores s b"
    "rc = ERR_NO_MEMORY \<and> sys_map s' a = sys_map s a \<or> (rc, sys_map s' a) = spec_op op (sys_map s a)"
    by (auto simp: refines_op_def)
  have live: "stores s' b \<noteq> None" if "stores s b \<noteq> None" for b
    using that r(2) [of b] run_op_keeps_store [of s a op] run by (cases "b = a") auto
  show "ss_ok s' ss" using ok r(1) live by (auto simp: ss_ok_def)
  show "kind_map s' ss k = kind_map s ss k" if "k \<noteq> kind"
  proof (cases "pick_store ss k")
    case (Some b)
    then have "b \<noteq> a" using pick_inj [OF ok a, of k] that by auto
    with Some show ?thesis using r(2) by (simp add: kind_map_def sys_map_def)
  qed (simp add: kind_map_def)
  show "rc = ERR_NO_MEMORY \<and> kind_map s' ss kind = kind_map s ss kind \<or>
      (rc, kind_map s' ss kind) = spec_op op (kind_map s ss kind)"
    using r(3) a by (simp add: kind_map_def)
qed

lemma state_set_cases:
  assumes ok: "ss_ok s ss" and a: "pick_store ss kind = Some a" and d: "d \<noteq> []"
    and set: "danos_state_set s ss kind t i (Some d) = (rc, s')"
  shows "ss_ok s' ss \<and> (\<forall>k. k \<noteq> kind \<longrightarrow> kind_map s' ss k = kind_map s ss k) \<and>
    (rc = DANOS_OK \<and> kind_map s' ss kind = (kind_map s ss kind)((t, i) \<mapsto> d) \<or>
     rc = ERR_NO_MEMORY \<and> kind_map s' ss kind = kind_map s ss kind)"
proof -
  obtain rc1 s1 where c: "run_op a (OpCreate t i d) s = (rc1, s1)" by fastforce
  note c1 = kind_map_op [OF ok a c]
  show ?thesis
  proof (cases "rc1 = ERR_EXISTS")
    case False
    then have "rc = rc1 \<and> s' = s1" using set a c by (simp add: danos_state_set_def)
    with c1 d False show ?thesis by (auto split: if_splits)
  next
    case True
    then have u: "run_op a (OpUpdate t i d) s1 = (rc, s')" using set a c by (simp add: danos_state_set_def)
    have m: "kind_map s1 ss kind = kind_map s ss kind" "kind_map s ss kind (t, i) \<noteq> None"
      using c1(3) True d by (auto split: if_splits)
    with c1 kind_map_op [OF c1(1) a u] d show ?thesis by (auto split: if_splits)
  qed
qed

lemma diff_entry_exact:
  assumes "store_wf p" and "mem_plan s = (\<lambda>_. True)" and "ent_data e \<noteq> []"
  shows "\<exists>n. diff_entry (Some p) e s = (store_map p (ent_key e) \<noteq> Some (ent_data e), s\<lparr>mem_next := n\<rparr>)"
proof (cases "find_entry p (ent_type e) (ent_id e)")
  case None
  then show ?thesis
    by (intro exI [of _ "mem_next s"])
      (simp add: diff_entry_def danos_object_read_def store_map_def ent_key_def)
next
  case (Some x)
  then have "ent_data x \<noteq> []" using assms(1) find_entry_iff [OF assms(1)] by (auto simp: store_wf_def)
  with Some show ?thesis
    using assms(2)
    by (intro exI [of _ "Suc (mem_next s)"])
      (auto simp: diff_entry_def danos_object_read_def store_map_def ent_key_def malloc_def Let_def)
qed

definition diff_step ::
  "object_store option \<Rightarrow> (danos_obj_type \<Rightarrow> u64 \<Rightarrow> 'u \<Rightarrow> 'u) \<Rightarrow> object_entry
     \<Rightarrow> u64 \<times> 'u \<times> 'z sys_scheme \<Rightarrow> u64 \<times> 'u \<times> 'z sys_scheme" where
  "diff_step p f e = (\<lambda>(diffs, u, s1).
     let (differs, s2) = diff_entry p e s1
     in if differs then (diffs + 1, f (ent_type e) (ent_id e) u, s2) else (diffs, u, s2))"

lemma diff_fold:
  assumes "store_wf p" and "mem_plan s = (\<lambda>_. True)" and "\<forall>e \<in> set es. ent_data e \<noteq> []"
  shows "\<exists>n. fold (diff_step (Some p) (\<lambda>t i u. (t, i) # u)) es (c, acc, s) =
    (let ks = filter (\<lambda>e. store_map p (ent_key e) \<noteq> Some (ent_data e)) es
     in (c + of_nat (length ks), rev (map ent_key ks) @ acc, s\<lparr>mem_next := n\<rparr>))"
  using assms(2,3)
proof (induction es arbitrary: c acc s)
  case Nil
  show ?case by (intro exI [of _ "mem_next s"]) (simp add: Let_def)
next
  case (Cons e es)
  obtain n where n: "diff_entry (Some p) e s = (store_map p (ent_key e) \<noteq> Some (ent_data e), s\<lparr>mem_next := n\<rparr>)"
    using diff_entry_exact [OF assms(1) Cons.prems(1), of e] Cons.prems(2) by auto
  have m: "mem_plan (s\<lparr>mem_next := n\<rparr>) = (\<lambda>_. True)" using Cons.prems(1) by simp
  show ?case
    using n Cons.IH [OF m, of "c + 1" "ent_key e # acc"] Cons.IH [OF m, of c acc] Cons.prems(2)
    by (auto simp: diff_step_def Let_def ent_key_def add.assoc)
qed

subsection \<open>Properties\<close>

text \<open>
  The three states are independent maps. Setting an object in one of the desired,
  programmed and operational states writes exactly that object there (creating or
  overwriting it), or runs out of memory and writes nothing; the other two states are never
  touched, and the object then reads back from the state it was set in.
\<close>

theorem state_set_isolated:
  assumes "ss_ok s ss" and "pick_store ss kind \<noteq> None" and "d \<noteq> []"
    and "danos_state_set s ss kind t i (Some d) = (rc, s')"
  shows "ss_ok s' ss \<and> (\<forall>k. k \<noteq> kind \<longrightarrow> kind_map s' ss k = kind_map s ss k) \<and>
    (rc = DANOS_OK \<and> kind_map s' ss kind = (kind_map s ss kind)((t, i) \<mapsto> d) \<and>
       danos_state_get s' ss kind t i True (Some (length d)) = (DANOS_OK, Some d, Some (length d)) \<or>
     rc = ERR_NO_MEMORY \<and> kind_map s' ss kind = kind_map s ss kind)"
proof -
  obtain a where a: "pick_store ss kind = Some a" using assms(2) by blast
  note c = state_set_cases [OF assms(1) a assms(3,4)]
  have "danos_state_get s' ss kind t i True (Some (length d)) = (DANOS_OK, Some d, Some (length d))"
    if "kind_map s' ss kind (t, i) = Some d"
  proof -
    obtain st where "stores s' a = Some st" using pick_live(2) [OF _ a] c by blast
    with that a show ?thesis
      by (simp add: danos_state_get_def kind_map_def sys_map_def danos_object_read_ok)
  qed
  with c show ?thesis by (metis fun_upd_same)
qed

lemma sample_state:
  "\<exists>ss s. danos_state_store_create sample_boot = (Some ss, s) \<and> ss_ok s ss \<and> mem_plan s = (\<lambda>_. True) \<and>
     (\<forall>k. kind_map s ss k = Map.empty)"
proof -
  obtain x s where c: "danos_state_store_create sample_boot = (x, s)" by fastforce
  have b: "stores_wf sample_boot" "mem_plan sample_boot = (\<lambda>_. True)"
    by (simp_all add: sample_boot_def stores_wf_def)
  have "mem_plan s = (\<lambda>_. True)"
    using c b(2) by (auto simp: danos_state_store_create_def malloc_def store_create_ok Let_def)
  then show ?thesis using ss_ok_create [OF b c] c by blast
qed

lemma sample_state_set:
  "\<exists>ss s s'. danos_state_store_create sample_boot = (Some ss, s) \<and> ss_ok s ss \<and>
     danos_state_set s ss STATE_DESIRED OBJ_VRF 1 (Some [7]) = (DANOS_OK, s') \<and>
     mem_plan s' = (\<lambda>_. True) \<and> pick_store ss STATE_DESIRED \<noteq> None \<and> (\<forall>k. kind_map s ss k = Map.empty)"
proof -
  obtain ss s where c: "danos_state_store_create sample_boot = (Some ss, s)" and ok: "ss_ok s ss"
    and mem: "mem_plan s = (\<lambda>_. True)" and e: "\<And>k. kind_map s ss k = Map.empty"
    using sample_state by blast
  obtain a where a: "pick_store ss STATE_DESIRED = Some a" using ok by (auto simp: ss_ok_def)
  obtain rc s' where run: "run_op a (OpCreate OBJ_VRF 1 [7]) s = (rc, s')" by fastforce
  have "rc = DANOS_OK"
    using kind_map_op(3) [OF ok a run] run_op_memory [OF mem, of a "OpCreate OBJ_VRF 1 [7]"] run e by auto
  moreover have "mem_plan s' = (\<lambda>_. True)"
    using run_op_frame(6) [of a "OpCreate OBJ_VRF 1 [7]" s] run mem by simp
  ultimately show ?thesis using c ok a run e by (auto simp: danos_state_set_def)
qed

theorem state_set_isolated_witness:
  "\<exists>ss s s'. danos_state_store_create sample_boot = (Some ss, s) \<and>
     danos_state_set s ss STATE_DESIRED OBJ_VRF 1 (Some [7]) = (DANOS_OK, s') \<and>
     kind_map s' ss STATE_DESIRED = [(OBJ_VRF, 1) \<mapsto> [7]] \<and> kind_map s' ss STATE_PROGRAMMED = Map.empty"
proof -
  obtain ss s s' where c: "danos_state_store_create sample_boot = (Some ss, s)" "ss_ok s ss"
    "pick_store ss STATE_DESIRED \<noteq> None" "\<And>k. kind_map s ss k = Map.empty"
    and set: "danos_state_set s ss STATE_DESIRED OBJ_VRF 1 (Some [7]) = (DANOS_OK, s')"
    using sample_state_set by blast
  show ?thesis using state_set_isolated [OF c(2,3) _ set] c set by auto
qed

text \<open>
  C25: The difference is exact. With memory available, the difference of desired and
  programmed calls back on exactly the desired objects that the programmed state lacks or
  holds with other contents, once each, returns their number, and changes neither state.
\<close>

theorem state_diff_exact:
  assumes "ss_ok s ss" and "mem_plan s = (\<lambda>_. True)"
    and "danos_state_diff_desired_programmed s (Some ss) (Some (\<lambda>t i u. (t, i) # u)) [] = (n, ks, s')"
  shows "n = of_nat (length ks) \<and> distinct ks \<and> stores s' = stores s \<and>
    set ks = {k. kind_map s ss STATE_DESIRED k \<noteq> None \<and>
      kind_map s ss STATE_PROGRAMMED k \<noteq> kind_map s ss STATE_DESIRED k}"
proof -
  obtain a b where ab: "ss_desired ss = Some a" "ss_programmed ss = Some b"
    "stores s a \<noteq> None" "stores s b \<noteq> None"
    using assms(1) by (auto simp: ss_ok_def)
  then obtain st p where st: "stores s a = Some st" "stores s b = Some p" by blast
  have wf: "store_wf st" "store_wf p" using assms(1) st by (auto simp: ss_ok_def stores_wf_def)
  let ?es = "filter (\<lambda>e. store_map p (ent_key e) \<noteq> Some (ent_data e)) (entries st)"
  have "\<forall>e \<in> set (entries st). ent_data e \<noteq> []" using wf by (simp add: store_wf_def)
  from diff_fold [OF wf(2) assms(2) this, of 0 "[]"]
  obtain m where "fold (diff_step (Some p) (\<lambda>t i u. (t, i) # u)) (entries st) (0, [], s) =
      (of_nat (length ?es), rev (map ent_key ?es), s\<lparr>mem_next := m\<rparr>)"
    by (auto simp: Let_def)
  then have r: "n = of_nat (length ?es)" "ks = rev (map ent_key ?es)" "s' = s\<lparr>mem_next := m\<rparr>"
    using assms(3) ab st
    by (auto simp: danos_state_diff_desired_programmed_def diff_step_def [abs_def] entries_def)
  have "distinct ks" using r(2) distinct_keys [OF wf(1)] by (simp add: distinct_map_filter)
  moreover have "set ks = {k. store_map st k \<noteq> None \<and> store_map p k \<noteq> store_map st k}"
    using r(2) by (auto simp: image_iff store_map_iff [OF wf(1)]) (metis store_map_iff [OF wf(1)])+
  ultimately show ?thesis using r ab st by (simp add: kind_map_def sys_map_def)
qed

theorem state_diff_exact_witness:
  "\<exists>ss s s'. danos_state_store_create sample_boot = (Some ss, s) \<and>
     danos_state_set s ss STATE_DESIRED OBJ_VRF 1 (Some [7]) = (DANOS_OK, s') \<and>
     set (fst (snd (danos_state_diff_desired_programmed s' (Some ss) (Some (\<lambda>t i u. (t, i) # u)) []))) =
       {(OBJ_VRF, 1)}"
proof -
  obtain ss s s' where c: "danos_state_store_create sample_boot = (Some ss, s)" "ss_ok s ss"
    "pick_store ss STATE_DESIRED \<noteq> None" "\<And>k. kind_map s ss k = Map.empty"
    and set: "danos_state_set s ss STATE_DESIRED OBJ_VRF 1 (Some [7]) = (DANOS_OK, s')"
    and mem: "mem_plan s' = (\<lambda>_. True)"
    using sample_state_set by blast
  obtain a where a: "pick_store ss STATE_DESIRED = Some a" using c(3) by blast
  have s': "ss_ok s' ss" "kind_map s' ss STATE_DESIRED = [(OBJ_VRF, 1) \<mapsto> [7]]"
    "kind_map s' ss STATE_PROGRAMMED = Map.empty"
    using state_set_cases [OF c(2) a _ set] c(4) by auto
  obtain n ks s'' where d: "danos_state_diff_desired_programmed s' (Some ss) (Some (\<lambda>t i u. (t, i) # u)) [] = (n, ks, s'')"
    by (metis prod_cases3)
  show ?thesis using state_diff_exact [OF s'(1) mem d] s' c set d by (auto split: if_splits)
qed

end
