(* ===== verification/Backend_Ops.thy ===== *)
theory Backend_Ops
  imports State_Store
begin

text \<open>
  The programming pipeline of \<^verbatim>\<open>danos-core/src/backend/backend_ops.c\<close>: it drives a
  dataplane backend until every desired object is recorded in the private ledger of
  programmed objects, withdraws routes whose next hop vanished, and sweeps ledger entries
  whose desired object is gone. The backend is a parameter: a table of optional functions on
  an abstract backend state \<open>'b\<close>, as the C code has a table of function pointers with a user
  pointer. Reading a stored blob into a struct takes the bytes of the blob; the API of
  \<open>Dpa_Objects\<close> stores every struct with its full size. Copying a ledger record of more than
  520 bytes overruns the C buffer, which \<open>stack_overrun\<close> records.
\<close>

subsection \<open>Backends and state\<close>

record resolved_route =
  rr_route :: danos_route
  has_gw :: bool
  rr_gw :: bytes
  rr_oif :: u32
  rr_nh_count :: u32
  rr_nh_gw :: "bytes list"
  rr_nh_oif :: "u32 list"

record 'b backend_ops =
  bo_iface_up :: "(u32 \<Rightarrow> bool \<Rightarrow> 'b \<Rightarrow> danos_status \<times> 'b) option"
  bo_iface_addr_set :: "(danos_iface \<Rightarrow> 'b \<Rightarrow> danos_status \<times> 'b) option"
  bo_iface_addr_del :: "(danos_iface \<Rightarrow> 'b \<Rightarrow> danos_status \<times> 'b) option"
  bo_route_add :: "(resolved_route \<Rightarrow> 'b \<Rightarrow> danos_status \<times> 'b) option"
  bo_route_del :: "(resolved_route \<Rightarrow> 'b \<Rightarrow> danos_status \<times> 'b) option"
  bo_vrf_add :: "(danos_vrf \<Rightarrow> 'b \<Rightarrow> danos_status \<times> 'b) option"
  bo_vrf_del :: "(u32 \<Rightarrow> 'b \<Rightarrow> danos_status \<times> 'b) option"

record 'b prog = sys +
  g_ops :: "'b backend_ops option"
  backend :: 'b
  g_programmed :: "nat option"
  prog_attempted :: u64
  prog_ok :: u64
  prog_failed :: u64
  g_sweep_ids :: "obj_key list"
  stack_overrun :: bool

definition danos_programming_get_stats :: "('b, 'z) prog_scheme \<Rightarrow> u64 \<times> u64 \<times> u64" where
  "danos_programming_get_stats s = (prog_attempted s, prog_ok s, prog_failed s)"

definition danos_backend_ops_set :: "('b, 'z) prog_scheme \<Rightarrow> 'b backend_ops option \<Rightarrow> ('b, 'z) prog_scheme" where
  "danos_backend_ops_set s ops = s\<lparr>g_ops := ops\<rparr>"

definition danos_backend_ops_get :: "('b, 'z) prog_scheme \<Rightarrow> 'b backend_ops option" where
  "danos_backend_ops_get s = g_ops s"

definition ledger :: "('b, 'z) prog_scheme \<Rightarrow> nat option \<times> ('b, 'z) prog_scheme" where
  "ledger s =
     (if g_programmed s = None
      then (let (a, s1) = danos_object_store_create s 256 in (a, s1\<lparr>g_programmed := a\<rparr>))
      else (g_programmed s, s))"

subsection \<open>Dependency digest\<close>

definition hash_bytes :: "bytes \<Rightarrow> u64" where
  "hash_bytes bs = fold (\<lambda>b h. (h XOR ucast b) * fnv_prime) bs 14695981039346656037"

definition dep_digest :: "('b, 'z) prog_scheme \<Rightarrow> danos_obj_type \<Rightarrow> bytes \<Rightarrow> u64" where
  "dep_digest s type data =
     (if type \<noteq> OBJ_ROUTE \<or> length data < 56 then 0
      else
        (let r = dec_route data
         in if nhgroup_id r = 0 then 0
            else
              (case sys_read s (g_default_store s) OBJ_NHGROUP (nhgroup_id r) 536 of
                 (DANOS_OK, Some g, _) \<Rightarrow>
                   (let grp = dec_nhgroup g
                    in fold (\<lambda>i h.
                         (case sys_read s (g_default_store s) OBJ_NEXTHOP (nh_ids grp ! i) 56 of
                            (DANOS_OK, Some nh, _) \<Rightarrow> h XOR hash_bytes nh
                          | _ \<Rightarrow> h XOR 0x535A4A))
                       [0..<min (unat (nh_count grp)) 64] (hash_bytes g))
               | _ \<Rightarrow> 0xDEADBEEF)))"

subsection \<open>Next-hop resolution\<close>

definition rr_zero :: "danos_route \<Rightarrow> resolved_route" where
  "rr_zero r = \<lparr>rr_route = r, has_gw = False, rr_gw = replicate 16 0, rr_oif = 0, rr_nh_count = 0,
     rr_nh_gw = replicate 64 (replicate 16 0), rr_nh_oif = replicate 64 0\<rparr>"

definition overlay :: "bytes \<Rightarrow> bytes \<Rightarrow> bytes" where
  "overlay src dst = src @ drop (length src) dst"

text \<open>The member loop from index \<open>i\<close> with \<open>n\<close> members left.\<close>

fun resolve_members ::
  "('b, 'z) prog_scheme \<Rightarrow> u64 list \<Rightarrow> nat \<Rightarrow> nat \<Rightarrow> resolved_route \<Rightarrow> danos_status \<times> resolved_route" where
  "resolve_members s ids i 0 out = (DANOS_OK, out)"
| "resolve_members s ids i (Suc n) out =
     (case sys_read s (g_default_store s) OBJ_NEXTHOP (ids ! i) 56 of
        (DANOS_OK, Some d, _) \<Rightarrow>
          (let m = dec_nexthop d;
               len = (if af (gateway m) = DANOS_AF_IPV6 then 16 else 4)
           in resolve_members s ids (Suc i) n
                (out\<lparr>rr_nh_gw := (rr_nh_gw out)[i := overlay (take len (addr (gateway m))) (rr_nh_gw out ! i)],
                     rr_nh_oif := (rr_nh_oif out)[i := nh_ifindex m]\<rparr>))
      | _ \<Rightarrow> (ERR_RETRY, out))"

definition resolve_route_nh :: "('b, 'z) prog_scheme \<Rightarrow> danos_route \<Rightarrow> danos_status \<times> resolved_route" where
  "resolve_route_nh s r =
     (let out = rr_zero r
      in if rt_flags r AND DANOS_ROUTE_FLAG_BLACKHOLE \<noteq> 0 then (DANOS_OK, out)
         else if nhgroup_id r = 0 then (ERR_RETRY, out)
         else
           (case sys_read s (g_default_store s) OBJ_NHGROUP (nhgroup_id r) 536 of
              (DANOS_OK, Some g, _) \<Rightarrow>
                (let grp = dec_nhgroup g
                 in if nh_count grp = 0 then (ERR_RETRY, out)
                    else
                      (case sys_read s (g_default_store s) OBJ_NEXTHOP (nh_ids grp ! 0) 56 of
                         (DANOS_OK, Some d, _) \<Rightarrow>
                           (let nh = dec_nexthop d;
                                out = (if af (gateway nh) = DANOS_AF_IPV4
                                       then out\<lparr>has_gw := True, rr_gw := overlay (take 4 (addr (gateway nh))) (rr_gw out)\<rparr>
                                       else if af (gateway nh) = DANOS_AF_IPV6
                                       then out\<lparr>has_gw := True, rr_gw := overlay (take 16 (addr (gateway nh))) (rr_gw out)\<rparr>
                                       else out);
                                cnt = (if nh_count grp > 64 then 64 else nh_count grp)
                            in resolve_members s (nh_ids grp) 0 (unat cnt)
                                 (out\<lparr>rr_oif := nh_ifindex nh, rr_nh_count := cnt\<rparr>))
                       | _ \<Rightarrow> (ERR_RETRY, out)))
            | _ \<Rightarrow> (ERR_RETRY, out)))"

subsection \<open>One object\<close>

definition call_op ::
  "('b \<Rightarrow> danos_status \<times> 'b) option \<Rightarrow> ('b, 'z) prog_scheme \<Rightarrow> danos_status \<times> ('b, 'z) prog_scheme" where
  "call_op f s =
     (case f of
        None \<Rightarrow> (ERR_NOT_SUPPORTED, s)
      | Some g \<Rightarrow> (let (st, b) = g (backend s) in (st, s\<lparr>backend := b\<rparr>)))"

definition program_one ::
  "'b backend_ops \<Rightarrow> danos_obj_type \<Rightarrow> bytes \<Rightarrow> ('b, 'z) prog_scheme \<Rightarrow> danos_status \<times> ('b, 'z) prog_scheme" where
  "program_one ops type data s =
     (if type = OBJ_IFACE \<and> length data \<ge> 144
      then
        (let i = dec_iface data;
             (st, s1) = call_op (map_option (\<lambda>f. f (if_ifindex i) (if_admin_up i)) (bo_iface_up ops)) s
         in if st \<noteq> DANOS_OK then (st, s1)
            else if af (pfx_addr (ipv4_address i)) \<noteq> DANOS_AF_UNSPEC \<or>
                    af (pfx_addr (ipv6_address i)) \<noteq> DANOS_AF_UNSPEC
            then call_op (map_option (\<lambda>f. f i) (bo_iface_addr_set ops)) s1
            else (DANOS_OK, s1))
      else if type = OBJ_ROUTE \<and> length data \<ge> 56
      then
        (let r = dec_route data
         in if nhgroup_id r = 0 \<and> rt_flags r AND DANOS_ROUTE_FLAG_BLACKHOLE = 0 then (ERR_RETRY, s)
            else
              (let (st, rr) = resolve_route_nh s r
               in if st \<noteq> DANOS_OK then (st, s)
                  else call_op (map_option (\<lambda>f. f rr) (bo_route_add ops)) s))
      else if type = OBJ_VRF \<and> length data \<ge> 72
      then call_op (map_option (\<lambda>f. f (dec_vrf data)) (bo_vrf_add ops)) s
      else (ERR_NOT_SUPPORTED, s))"

definition type_skipped :: "danos_obj_type \<Rightarrow> bool" where
  "type_skipped t \<longleftrightarrow>
     t = OBJ_ACL \<or> t = OBJ_QOS \<or> t = OBJ_QOS_BIND \<or> t = OBJ_BFD \<or> t = OBJ_MPLS_LSP \<or>
     t = OBJ_TUNNEL \<or> t = OBJ_EVPN \<or> t = OBJ_MULTICAST \<or> t = OBJ_NEXTHOP \<or> t = OBJ_NHGROUP"

subsection \<open>The desired-state pass\<close>

record program_ctx =
  pc_attempted :: u64
  pc_ok :: u64
  pc_failed :: u64

text \<open>
  The stages of \<^verbatim>\<open>program_entry\<close>: the ledger record of the entry, the removal of addresses an
  interface no longer has, the withdrawal of a route that lost its next hop, and the new
  ledger record.
\<close>

definition read_ledger ::
  "('b, 'z) prog_scheme \<Rightarrow> obj_key \<Rightarrow> nat \<Rightarrow> bytes option \<times> ('b, 'z) prog_scheme" where
  "read_ledger s k cap =
     (let (a, s1) = ledger s
      in (case sys_read s1 a (fst k) (snd k) cap of
            (DANOS_OK, Some d, _) \<Rightarrow> (Some d, s1)
          | _ \<Rightarrow> (None, s1)))"

definition addr_del_stage ::
  "'b backend_ops \<Rightarrow> object_entry \<Rightarrow> bytes option \<Rightarrow> ('b, 'z) prog_scheme \<Rightarrow> danos_status \<times> ('b, 'z) prog_scheme" where
  "addr_del_stage ops e prev s =
     (case prev of
        Some l \<Rightarrow>
          (if ent_type e = OBJ_IFACE \<and> length l = length (ent_data e) + 8 \<and>
              bo_iface_addr_del ops \<noteq> None \<and> length (ent_data e) = 144
           then
             (let old = drop 8 l
              in if bslice 96 24 old \<noteq> bslice 96 24 (ent_data e) \<or>
                    bslice 120 24 old \<noteq> bslice 120 24 (ent_data e)
                 then call_op (map_option (\<lambda>f. f (dec_iface old)) (bo_iface_addr_del ops)) s
                 else (DANOS_OK, s))
           else (DANOS_OK, s))
      | None \<Rightarrow> (DANOS_OK, s))"

definition withdraw_stage ::
  "'b backend_ops \<Rightarrow> object_entry \<Rightarrow> danos_status \<Rightarrow> bytes option \<Rightarrow> ('b, 'z) prog_scheme
     \<Rightarrow> bool \<times> ('b, 'z) prog_scheme" where
  "withdraw_stage ops e st prev s =
     (case prev of
        Some l \<Rightarrow>
          (if st = ERR_RETRY \<and> ent_type e = OBJ_ROUTE \<and> bo_route_del ops \<noteq> None \<and> length l \<ge> 8 + 56
           then
             (let (st2, s1) = call_op (map_option (\<lambda>f. f (rr_zero (dec_route (bslice 8 56 l)))) (bo_route_del ops)) s
              in if st2 = DANOS_OK
                 then (let (a, s2) = ledger s1
                       in (True, snd (danos_object_delete s2 a (ent_type e) (ent_id e))))
                 else (False, s1))
           else (False, s))
      | None \<Rightarrow> (False, s))"

definition record_stage ::
  "object_entry \<Rightarrow> u64 \<Rightarrow> bytes option \<Rightarrow> ('b, 'z) prog_scheme \<Rightarrow> ('b, 'z) prog_scheme" where
  "record_stage e dep prev s =
     (let rec = le64 dep @ ent_data e;
          s1 = s\<lparr>stack_overrun := stack_overrun s \<or> length rec > 520\<rparr>;
          (a, s2) = ledger s1
      in if prev \<noteq> None \<and> map_option length prev = Some (length (ent_data e) + 8)
         then snd (danos_object_update s2 a (ent_type e) (ent_id e) (Some rec))
         else snd (danos_object_create s2 a (ent_type e) (ent_id e) (Some rec)))"

definition program_entry ::
  "'b backend_ops \<Rightarrow> object_entry \<Rightarrow> program_ctx \<times> ('b, 'z) prog_scheme \<Rightarrow> program_ctx \<times> ('b, 'z) prog_scheme" where
  "program_entry ops e u =
     (let (c, s) = u
      in if type_skipped (ent_type e) then (c, s)
         else
           (let dep = dep_digest s (ent_type e) (ent_data e);
                (prev, s1) = read_ledger s (ent_key e) 512
            in if prev = Some (le64 dep @ ent_data e) then (c, s1)
               else
                 (let c1 = c\<lparr>pc_attempted := pc_attempted c + 1\<rparr>;
                      (dst, s2) = addr_del_stage ops e prev s1
                  in if dst \<noteq> DANOS_OK then (c1\<lparr>pc_failed := pc_failed c1 + 1\<rparr>, s2)
                     else
                       (let (st, s3) = program_one ops (ent_type e) (ent_data e) s2
                        in if st \<noteq> DANOS_OK
                           then (let (gone, s4) = withdraw_stage ops e st prev s3
                                 in (c1\<lparr>pc_failed := (if gone then pc_failed c1 + 1 - 1 else pc_failed c1 + 1)\<rparr>, s4))
                           else (c1\<lparr>pc_ok := pc_ok c1 + 1\<rparr>, record_stage e dep prev s3)))))"

definition danos_programming_run ::
  "('b, 'z) prog_scheme \<Rightarrow> (u64 \<times> u64 \<times> u64) \<times> ('b, 'z) prog_scheme" where
  "danos_programming_run s =
     (let c0 = \<lparr>pc_attempted = 0, pc_ok = 0, pc_failed = 0\<rparr>
      in (case (g_ops s, g_default_store s) of
            (Some ops, Some a) \<Rightarrow>
              (let (c, s1) = danos_object_iterate (stores s a) (program_entry ops) (c0, s)
               in ((pc_ok c, pc_attempted c, pc_failed c),
                   s1\<lparr>prog_attempted := prog_attempted s1 + pc_attempted c,
                      prog_ok := prog_ok s1 + pc_ok c,
                      prog_failed := prog_failed s1 + pc_failed c\<rparr>))
          | _ \<Rightarrow> ((0, 0, 0), s)))"

definition danos_programming_programmed_count ::
  "('b, 'z) prog_scheme \<Rightarrow> danos_obj_type \<Rightarrow> u64 \<times> ('b, 'z) prog_scheme" where
  "danos_programming_programmed_count s t =
     (let (a, s1) = ledger s
      in (danos_object_count (case a of None \<Rightarrow> None | Some x \<Rightarrow> stores s1 x) t, s1))"

subsection \<open>The tombstone sweep\<close>

definition SWEEP_MAX :: nat where "SWEEP_MAX = 256"

definition sweep_collect ::
  "bool \<Rightarrow> object_entry \<Rightarrow> ('b, 'z) prog_scheme \<Rightarrow> ('b, 'z) prog_scheme" where
  "sweep_collect forget e s =
     (if length (g_sweep_ids s) \<ge> SWEEP_MAX then s
      else
        (let (prev, s1) = read_ledger s (ent_key e) 512
         in if prev = None then s1
            else if \<not> forget \<and> g_default_store s1 \<noteq> None \<and>
                    fst (sys_read s1 (g_default_store s1) (ent_type e) (ent_id e) 512) = DANOS_OK
            then s1
            else s1\<lparr>g_sweep_ids := g_sweep_ids s1 @ [ent_key e]\<rparr>))"

definition sweep_one ::
  "obj_key \<Rightarrow> (u64 \<times> u64) \<times> ('b, 'z) prog_scheme \<Rightarrow> (u64 \<times> u64) \<times> ('b, 'z) prog_scheme" where
  "sweep_one k u =
     (let ((issued, failed), s) = u;
          (prev, s1) = read_ledger s k 520
      in (case prev of
            None \<Rightarrow> ((issued, failed), s1)
          | Some l \<Rightarrow>
              (if length l < 8 + 56 then ((issued, failed), s1)
               else
                 (let (st, s2) =
                        (case g_ops s1 of
                           Some ops \<Rightarrow>
                             (if fst k = OBJ_ROUTE \<and> bo_route_del ops \<noteq> None
                              then call_op (map_option (\<lambda>f. f (rr_zero (dec_route (bslice 8 56 l)))) (bo_route_del ops)) s1
                              else (DANOS_OK, s1))
                         | None \<Rightarrow> (DANOS_OK, s1))
                  in if st \<noteq> DANOS_OK then ((issued, failed + 1), s2)
                     else
                       (let s3 =
                              (case g_ops s2 of
                                 Some ops \<Rightarrow>
                                   (if fst k = OBJ_IFACE \<and> bo_iface_up ops \<noteq> None \<and> length l \<ge> 8 + 144
                                    then snd (call_op (map_option (\<lambda>f. f (if_ifindex (dec_iface (bslice 8 144 l))) False)
                                           (bo_iface_up ops)) s2)
                                    else s2)
                               | None \<Rightarrow> s2);
                            (a, s4) = ledger s3
                        in ((issued + 1, failed), snd (danos_object_delete s4 a (fst k) (snd k))))))))"

definition danos_programming_sweep :: "('b, 'z) prog_scheme \<Rightarrow> (u64 \<times> u64) \<times> ('b, 'z) prog_scheme" where
  "danos_programming_sweep s =
     (case g_programmed s of
        None \<Rightarrow> ((0, 0), s)
      | Some b \<Rightarrow>
          (let s1 = danos_object_iterate (stores s b) (sweep_collect False) (s\<lparr>g_sweep_ids := []\<rparr>)
           in fold sweep_one (g_sweep_ids s1) ((0, 0), s1)))"

definition danos_programming_forget_programmed :: "('b, 'z) prog_scheme \<Rightarrow> u64 \<times> ('b, 'z) prog_scheme" where
  "danos_programming_forget_programmed s =
     (case g_programmed s of
        None \<Rightarrow> (0, s)
      | Some b \<Rightarrow>
          (let s1 = danos_object_iterate (stores s b) (sweep_collect True) (s\<lparr>g_sweep_ids := []\<rparr>)
           in fold (\<lambda>k (n, s2).
                let (st, s3) = danos_object_delete s2 (Some b) (fst k) (snd k)
                in (if st = DANOS_OK then n + 1 else n, s3))
                (g_sweep_ids s1) (0, s1)))"

subsection \<open>Desired state and ledger as maps\<close>

definition ledger_map :: "('b, 'z) prog_scheme \<Rightarrow> obj_key \<Rightarrow> bytes option" where
  "ledger_map s = (case g_programmed s of None \<Rightarrow> Map.empty | Some b \<Rightarrow> sys_map s b)"

text \<open>
  The default store is live, the ledger is live and another store when it exists, new stores
  get new addresses, and memory suffices.
\<close>

definition pipe_ok :: "('b, 'z) prog_scheme \<Rightarrow> bool" where
  "pipe_ok s \<longleftrightarrow>
     stores_wf s \<and> mem_plan s = (\<lambda>_. True) \<and>
     (\<exists>a. g_default_store s = Some a \<and> stores s a \<noteq> None \<and> a < next_addr s \<and> g_programmed s \<noteq> Some a) \<and>
     (\<forall>b. g_programmed s = Some b \<longrightarrow> stores s b \<noteq> None)"

text \<open>What every stage keeps: the invariant, the desired state and the installed backend.\<close>

definition keeps :: "('b, 'z) prog_scheme \<Rightarrow> ('b, 'z) prog_scheme \<Rightarrow> bool" where
  "keeps s s' \<longleftrightarrow>
     pipe_ok s' \<and> default_map s' = default_map s \<and> g_ops s' = g_ops s \<and>
     g_default_store s' = g_default_store s \<and>
     (\<forall>a. g_default_store s = Some a \<longrightarrow> stores s' a = stores s a) \<and> g_sweep_ids s' = g_sweep_ids s"

lemma keeps_refl: "pipe_ok s \<Longrightarrow> keeps s s"
  by (simp add: keeps_def)

lemma keeps_trans: "keeps s t \<Longrightarrow> keeps t u \<Longrightarrow> keeps s u"
  by (simp add: keeps_def)

lemma keeps_ok: "keeps s t \<Longrightarrow> pipe_ok t"
  by (simp add: keeps_def)

lemma sys_read_default:
  assumes "pipe_ok s"
  shows "sys_read s (g_default_store s) t i n =
    (case default_map s (t, i) of
       None \<Rightarrow> (ERR_NOT_FOUND, None, Some n)
     | Some d \<Rightarrow> if length d \<le> n then (DANOS_OK, Some d, Some (length d))
                else (ERR_INVALID_ARG, None, Some (length d)))"
  using assms
  by (auto simp: pipe_ok_def sys_read_def default_map_def sys_map_def danos_object_read_cases)

lemma sys_read_keeps:
  assumes "pipe_ok s" "keeps s t"
  shows "sys_read t (g_default_store t) ty i n = sys_read s (g_default_store s) ty i n"
  unfolding sys_read_default [OF assms(1)] sys_read_default [OF keeps_ok [OF assms(2)]]
  using assms by (simp add: keeps_def)

lemma dep_digest_keeps: "pipe_ok s \<Longrightarrow> keeps s t \<Longrightarrow> dep_digest t ty d = dep_digest s ty d"
  by (simp only: dep_digest_def sys_read_keeps)

lemma resolve_members_keeps:
  assumes "pipe_ok s" "keeps s t"
  shows "resolve_members t = resolve_members s"
proof (intro ext)
  fix ids i n out
  show "resolve_members t ids i n out = resolve_members s ids i n out"
    by (induction n arbitrary: i out) (simp_all only: resolve_members.simps sys_read_keeps [OF assms])
qed

lemma resolve_keeps: "pipe_ok s \<Longrightarrow> keeps s t \<Longrightarrow> resolve_route_nh t r = resolve_route_nh s r"
  by (simp only: resolve_route_nh_def resolve_members_keeps [of s t] sys_read_keeps [of s t])

lemma ledger_ok:
  assumes ok: "pipe_ok s" and l: "ledger s = (x, s1)"
  shows "\<exists>b. x = Some b \<and> g_programmed s1 = Some b \<and> keeps s s1 \<and> ledger_map s1 = ledger_map s \<and>
    backend s1 = backend s \<and> stack_overrun s1 = stack_overrun s"
proof (cases "g_programmed s")
  case (Some b)
  then have "x = Some b" "s1 = s" using l by (simp_all add: ledger_def)
  then show ?thesis using ok Some by (simp add: keeps_def)
next
  case None
  have mem: "mem_plan s = (\<lambda>_. True)" using ok by (simp add: pipe_ok_def)
  obtain a where a: "g_default_store s = Some a" "stores s a \<noteq> None" "a < next_addr s"
    using ok by (auto simp: pipe_ok_def)
  let ?n = "next_addr s"
  have s1: "x = Some ?n" "s1 = s\<lparr>mem_next := mem_next s + 2, stores := (stores s)(?n \<mapsto> object_store_new 256),
      next_addr := Suc ?n, g_programmed := Some ?n\<rparr>"
    using l None by (auto simp: ledger_def store_create_ok [OF mem])
  show ?thesis
    using s1 a ok None
    by (auto simp: pipe_ok_def keeps_def ledger_map_def default_map_def sys_map_def stores_wf_def
        store_wf_new store_map_new)
qed

lemma call_op_ok:
  "pipe_ok s \<Longrightarrow> call_op f s = (st, s1) \<Longrightarrow>
     keeps s s1 \<and> ledger_map s1 = ledger_map s \<and> g_programmed s1 = g_programmed s"
  by (auto simp: call_op_def keeps_def pipe_ok_def ledger_map_def default_map_def sys_map_def stores_wf_def
      split: option.splits prod.splits)

text \<open>An object operation on the ledger.\<close>

lemma run_op_prog_frame:
  "g_ops (snd (run_op b op s)) = g_ops s" "g_programmed (snd (run_op b op s)) = g_programmed s"
  "backend (snd (run_op b op s)) = backend s" "g_sweep_ids (snd (run_op b op s)) = g_sweep_ids s"
  "stack_overrun (snd (run_op b op s)) = stack_overrun s"
  for s :: "('b, 'z) prog_scheme"
  by (cases op;
      simp add: danos_object_create_def danos_object_update_def danos_object_delete_def malloc_def
        Let_def notify_event_def danos_programming_mark_dirty_def set_store_def
        danos_persist_on_mutation_def danos_persist_log_op_def split: option.split prod.split)+

lemma ledger_run_op:
  assumes ok: "pipe_ok s" and b: "g_programmed s = Some b" and run: "run_op b op s = (rc, s')"
  shows "keeps s s' \<and> (rc, ledger_map s') = spec_op op (ledger_map s) \<and> g_programmed s' = Some b \<and>
    backend s' = backend s"
proof -
  have wf: "stores_wf s" "stores s b \<noteq> None" "mem_plan s = (\<lambda>_. True)" using ok b by (auto simp: pipe_ok_def)
  note r = run_op_exact [OF wf run]
  have f: "g_programmed s' = Some b" "g_ops s' = g_ops s" "backend s' = backend s" "g_sweep_ids s' = g_sweep_ids s"
    "g_default_store s' = g_default_store s" "mem_plan s' = mem_plan s" "next_addr s' = next_addr s"
    using run_op_prog_frame [of b op s] run_op_frame [of b op s] run b by simp_all
  obtain a where a: "g_default_store s = Some a" "stores s a \<noteq> None" "a < next_addr s" "a \<noteq> b"
    using ok b by (auto simp: pipe_ok_def)
  have "stores s' a = stores s a" using r(3) a(4) by simp
  with r f a b wf show ?thesis
    by (simp add: keeps_def pipe_ok_def ledger_map_def default_map_def sys_map_def)
qed

lemma read_ledger_ok:
  assumes ok: "pipe_ok s" and r: "read_ledger s k cap = (prev, s1)"
  shows "keeps s s1 \<and> ledger_map s1 = ledger_map s \<and> backend s1 = backend s \<and> g_programmed s1 \<noteq> None \<and>
    prev = (case ledger_map s k of None \<Rightarrow> None | Some d \<Rightarrow> if length d \<le> cap then Some d else None)"
proof -
  obtain x s2 where l: "ledger s = (x, s2)" by fastforce
  obtain b where b: "x = Some b" "g_programmed s2 = Some b" "keeps s s2" "ledger_map s2 = ledger_map s"
    "backend s2 = backend s" using ledger_ok [OF ok l] by blast
  have live: "stores s2 b \<noteq> None" using b(2,3) by (simp add: keeps_def pipe_ok_def)
  then have rd: "sys_read s2 x (fst k) (snd k) cap =
    (case ledger_map s k of
       None \<Rightarrow> (ERR_NOT_FOUND, None, Some cap)
     | Some d \<Rightarrow> if length d \<le> cap then (DANOS_OK, Some d, Some (length d))
                else (ERR_INVALID_ARG, None, Some (length d)))"
    using b(1,2) unfolding b(4) [symmetric]
    by (auto simp: sys_read_def ledger_map_def sys_map_def danos_object_read_cases)
  show ?thesis
    using r b rd by (auto simp: read_ledger_def l split: option.splits if_splits)
qed

lemma ledger_mutation:
  assumes ok: "pipe_ok s" and l: "ledger s = (a, s1)"
    and run: "s2 = snd (case op of
        OpCreate t i d \<Rightarrow> danos_object_create s1 a t i (Some d)
      | OpUpdate t i d \<Rightarrow> danos_object_update s1 a t i (Some d)
      | OpDelete t i \<Rightarrow> danos_object_delete s1 a t i)"
  shows "keeps s s2 \<and> ledger_map s2 = snd (spec_op op (ledger_map s)) \<and> backend s2 = backend s"
proof -
  obtain b where b: "a = Some b" "g_programmed s1 = Some b" "keeps s s1" "ledger_map s1 = ledger_map s"
    "backend s1 = backend s" using ledger_ok [OF ok l] by blast
  have s2: "s2 = snd (run_op b op s1)" using run b(1) by (cases op) simp_all
  have "keeps s1 s2" "ledger_map s2 = snd (spec_op op (ledger_map s1))" "backend s2 = backend s1"
    using ledger_run_op [OF keeps_ok [OF b(3)] b(2), of op "fst (run_op b op s1)" s2] s2
    by (simp_all add: prod_eq_iff)
  then show ?thesis using b keeps_trans [OF b(3)] by simp
qed

lemma addr_del_ok:
  "pipe_ok s \<Longrightarrow> addr_del_stage ops e prev s = (st, s1) \<Longrightarrow> keeps s s1 \<and> ledger_map s1 = ledger_map s"
  by (auto simp: addr_del_stage_def Let_def keeps_refl split: option.splits if_splits dest!: call_op_ok)

lemma program_one_ok:
  assumes ok: "pipe_ok s" and p: "program_one ops t d s = (st, s1)"
  shows "keeps s s1 \<and> ledger_map s1 = ledger_map s"
proof -
  have c: "keeps s v \<and> ledger_map v = ledger_map s"
    if "call_op f u = (x, v)" "keeps s u" "ledger_map u = ledger_map s" for f u v x
    using call_op_ok [OF keeps_ok [OF that(2)] that(1)] keeps_trans [OF that(2)] that(3) by simp
  have "keeps s s" using ok by (rule keeps_refl)
  then show ?thesis
    using p
    by (auto simp: program_one_def Let_def split: option.splits if_splits prod.splits dest: c)
qed

lemma withdraw_ok:
  assumes ok: "pipe_ok s" and w: "withdraw_stage ops e st prev s = (gone, s1)"
  shows "keeps s s1 \<and> ledger_map s1 = (if gone then (ledger_map s)(ent_key e := None) else ledger_map s)"
proof (cases "\<exists>l. prev = Some l \<and> st = ERR_RETRY \<and> ent_type e = OBJ_ROUTE \<and> bo_route_del ops \<noteq> None \<and> length l \<ge> 64")
  case False
  then have "gone = False" "s1 = s" using w by (auto simp: withdraw_stage_def split: option.splits if_splits)
  then show ?thesis using keeps_refl [OF ok] by simp
next
  case True
  then obtain l where l: "prev = Some l" by blast
  obtain st2 s2 where c: "call_op (map_option (\<lambda>f. f (rr_zero (dec_route (bslice 8 56 l)))) (bo_route_del ops)) s = (st2, s2)"
    by fastforce
  obtain a s3 where a: "ledger s2 = (a, s3)" by fastforce
  have k: "keeps s s2" "ledger_map s2 = ledger_map s" using call_op_ok [OF ok c] by simp_all
  let ?s4 = "snd (danos_object_delete s3 a (ent_type e) (ent_id e))"
  have d: "keeps s2 ?s4" "ledger_map ?s4 = (ledger_map s2)(ent_key e := None)"
    using ledger_mutation [OF keeps_ok [OF k(1)] a, of ?s4 "OpDelete (ent_type e) (ent_id e)"]
    by (auto simp: ent_key_def)
  show ?thesis
    using w True l k d keeps_trans [OF k(1) d(1)]
    by (auto simp: withdraw_stage_def c a split: if_splits)
qed

lemma record_ok:
  assumes ok: "pipe_ok s" and prev: "prev \<noteq> None \<longleftrightarrow> ledger_map s (ent_key e) \<noteq> None"
    and len: "\<And>l. prev = Some l \<Longrightarrow> length l = length (ent_data e) + 8"
  shows "keeps s (record_stage e dep prev s) \<and>
    ledger_map (record_stage e dep prev s) = (ledger_map s)(ent_key e \<mapsto> le64 dep @ ent_data e)"
proof -
  let ?rec = "le64 dep @ ent_data e"
  define s0 where s0: "s0 = s\<lparr>stack_overrun := stack_overrun s \<or> length ?rec > 520\<rparr>"
  have ok0: "pipe_ok s0" and k0: "keeps s s0" and m0: "ledger_map s0 = ledger_map s"
    using ok
    by (auto simp: s0 pipe_ok_def keeps_def ledger_map_def default_map_def sys_map_def stores_wf_def split: option.split)
  obtain a s2 where a: "ledger s0 = (a, s2)" by fastforce
  have "length ?rec > 0" by simp
  then have ne: "?rec \<noteq> []" by blast
  let ?op = "if prev = None then OpCreate (ent_type e) (ent_id e) ?rec else OpUpdate (ent_type e) (ent_id e) ?rec"
  have "record_stage e dep prev s = snd (case ?op of
        OpCreate t i d \<Rightarrow> danos_object_create s2 a t i (Some d)
      | OpUpdate t i d \<Rightarrow> danos_object_update s2 a t i (Some d)
      | OpDelete t i \<Rightarrow> danos_object_delete s2 a t i)"
    using len a unfolding s0 by (auto simp: record_stage_def Let_def split: prod.split)
  note m = ledger_mutation [OF ok0 a this]
  show ?thesis
    using m prev ne keeps_trans [OF k0] by (auto simp: m0 ent_key_def)
qed

subsection \<open>The outcome of one entry\<close>

definition in_sync :: "('b, 'z) prog_scheme \<Rightarrow> object_entry \<Rightarrow> bool" where
  "in_sync s e \<longleftrightarrow>
     ledger_map s (ent_key e) = Some (le64 (dep_digest s (ent_type e) (ent_data e)) @ ent_data e)"

text \<open>
  Ledger records fit the 512-byte read buffer and an object keeps its size, as the objects of
  the object layer do.
\<close>

definition fits :: "('b, 'z) prog_scheme \<Rightarrow> object_entry \<Rightarrow> bool" where
  "fits s e \<longleftrightarrow> length (ent_data e) \<le> 504 \<and>
     (\<forall>l. ledger_map s (ent_key e) = Some l \<longrightarrow> length l = length (ent_data e) + 8)"

text \<open>A backend that has every operation and never refuses, and objects it can be given.\<close>

definition accepts :: "'b backend_ops \<Rightarrow> bool" where
  "accepts ops \<longleftrightarrow>
     (\<exists>f. bo_iface_up ops = Some f \<and> (\<forall>i up b. fst (f i up b) = DANOS_OK)) \<and>
     (\<exists>f. bo_iface_addr_set ops = Some f \<and> (\<forall>i b. fst (f i b) = DANOS_OK)) \<and>
     (\<forall>f. bo_iface_addr_del ops = Some f \<longrightarrow> (\<forall>i b. fst (f i b) = DANOS_OK)) \<and>
     (\<exists>f. bo_route_add ops = Some f \<and> (\<forall>r b. fst (f r b) = DANOS_OK)) \<and>
     (\<exists>f. bo_vrf_add ops = Some f \<and> (\<forall>v b. fst (f v b) = DANOS_OK))"

definition programmable :: "('b, 'z) prog_scheme \<Rightarrow> danos_obj_type \<Rightarrow> bytes \<Rightarrow> bool" where
  "programmable s t d \<longleftrightarrow>
     t = OBJ_IFACE \<and> length d \<ge> 144 \<or> t = OBJ_VRF \<and> length d \<ge> 72 \<or>
     t = OBJ_ROUTE \<and> length d \<ge> 56 \<and> fst (resolve_route_nh s (dec_route d)) = DANOS_OK"

lemma fst_call_op:
  "fst (call_op f s) = (case f of None \<Rightarrow> ERR_NOT_SUPPORTED | Some g \<Rightarrow> fst (g (backend s)))"
  by (simp add: call_op_def split: option.split prod.split)

lemma accepts_addr_del: "accepts ops \<Longrightarrow> fst (addr_del_stage ops e prev s) = DANOS_OK"
  by (auto simp: addr_del_stage_def accepts_def fst_call_op Let_def split: option.split)

lemma accepts_program_one:
  assumes acc: "accepts ops" and p: "programmable s t d"
  shows "fst (program_one ops t d s) = DANOS_OK"
proof -
  have "nhgroup_id r = 0 \<Longrightarrow> rt_flags r AND DANOS_ROUTE_FLAG_BLACKHOLE = 0 \<Longrightarrow>
      fst (resolve_route_nh s r) = ERR_RETRY" for r
    by (simp add: resolve_route_nh_def)
  then have nr: "\<not> (nhgroup_id r = 0 \<and> rt_flags r AND DANOS_ROUTE_FLAG_BLACKHOLE = 0)"
    if "fst (resolve_route_nh s r) = DANOS_OK" for r
    using that by auto
  show ?thesis
    using assms nr [of "dec_route d"]
    by (auto simp: program_one_def programmable_def accepts_def fst_call_op Let_def case_prod_beta)
qed

lemma programmable_keeps: "pipe_ok s \<Longrightarrow> keeps s t \<Longrightarrow> programmable t ty d = programmable s ty d"
  by (simp add: programmable_def resolve_keeps)

definition entry_step ::
  "'b backend_ops \<Rightarrow> object_entry \<Rightarrow> program_ctx \<Rightarrow> ('b, 'z) prog_scheme \<Rightarrow> program_ctx \<Rightarrow> ('b, 'z) prog_scheme \<Rightarrow> bool" where
  "entry_step ops e c s c' s' \<longleftrightarrow>
     keeps s s' \<and> (\<forall>k. k \<noteq> ent_key e \<longrightarrow> ledger_map s' k = ledger_map s k) \<and>
     (in_sync s e \<and> c' = c \<and> ledger_map s' = ledger_map s \<and> backend s' = backend s \<or>
      \<not> in_sync s e \<and> c' = c\<lparr>pc_attempted := pc_attempted c + 1, pc_ok := pc_ok c + 1\<rparr> \<and> in_sync s' e \<or>
      \<not> in_sync s e \<and> c' = c\<lparr>pc_attempted := pc_attempted c + 1, pc_failed := pc_failed c + 1\<rparr> \<and>
        ledger_map s' = ledger_map s \<and> \<not> (accepts ops \<and> programmable s (ent_type e) (ent_data e)) \<or>
      \<not> in_sync s e \<and> c' = c\<lparr>pc_attempted := pc_attempted c + 1\<rparr> \<and> ledger_map s' (ent_key e) = None \<and>
        \<not> (accepts ops \<and> programmable s (ent_type e) (ent_data e)))"

lemma program_entry_step:
  assumes ok: "pipe_ok s" and ns: "\<not> type_skipped (ent_type e)" and fits: "fits s e"
    and p: "program_entry ops e (c, s) = (c', s')"
  shows "entry_step ops e c s c' s'"
proof -
  let ?dep = "dep_digest s (ent_type e) (ent_data e)"
  obtain prev s1 where r: "read_ledger s (ent_key e) 512 = (prev, s1)" by fastforce
  have prev: "prev = ledger_map s (ent_key e)" and k1: "keeps s s1" and m1: "ledger_map s1 = ledger_map s"
    and b1: "backend s1 = backend s"
    using read_ledger_ok [OF ok r] fits by (auto simp: fits_def split: option.splits)
  show ?thesis
  proof (cases "in_sync s e")
    case True
    then have "c' = c" "s' = s1" using p ns r prev by (simp_all add: program_entry_def in_sync_def)
    then show ?thesis using True k1 m1 b1 by (simp add: entry_step_def)
  next
    case False
    obtain dst s2 where a: "addr_del_stage ops e prev s1 = (dst, s2)" by fastforce
    have k2: "keeps s s2" and m2: "ledger_map s2 = ledger_map s"
      using addr_del_ok [OF keeps_ok [OF k1] a] keeps_trans [OF k1] m1 by simp_all
    obtain st s3 where o: "program_one ops (ent_type e) (ent_data e) s2 = (st, s3)" by fastforce
    have k3: "keeps s s3" and m3: "ledger_map s3 = ledger_map s"
      using program_one_ok [OF keeps_ok [OF k2] o] keeps_trans [OF k2] m2 by simp_all
    obtain gone s4 where w: "withdraw_stage ops e st prev s3 = (gone, s4)" by fastforce
    have k4: "keeps s s4" and m4: "ledger_map s4 = (if gone then (ledger_map s)(ent_key e := None) else ledger_map s)"
      using withdraw_ok [OF keeps_ok [OF k3] w] keeps_trans [OF k3] m3 by simp_all
    let ?s5 = "record_stage e ?dep prev s3"
    have "keeps s3 ?s5 \<and> ledger_map ?s5 = (ledger_map s3)(ent_key e \<mapsto> le64 ?dep @ ent_data e)"
      using prev m3 fits by (intro record_ok keeps_ok [OF k3]) (auto simp: fits_def)
    then have k5: "keeps s ?s5" and m5: "ledger_map ?s5 = (ledger_map s)(ent_key e \<mapsto> le64 ?dep @ ent_data e)"
      using keeps_trans [OF k3] m3 by simp_all
    have s5: "in_sync ?s5 e" using m5 dep_digest_keeps [OF ok k5] by (simp add: in_sync_def)
    have nprev: "prev \<noteq> Some (le64 ?dep @ ent_data e)" using False prev by (simp add: in_sync_def)
    consider "dst \<noteq> DANOS_OK" | "dst = DANOS_OK" "st \<noteq> DANOS_OK" | "dst = DANOS_OK" "st = DANOS_OK" by blast
    then show ?thesis
    proof cases
      case 1
      then have "s' = s2" "c' = c\<lparr>pc_attempted := pc_attempted c + 1, pc_failed := pc_failed c + 1\<rparr>"
        using p ns r a nprev by (simp_all add: program_entry_def Let_def)
      then show ?thesis using 1 False k2 m2 accepts_addr_del [of ops e prev s1] a by (auto simp: entry_step_def)
    next
      case 2
      then have np: "\<not> (accepts ops \<and> programmable s (ent_type e) (ent_data e))"
        using accepts_program_one [of ops s2 "ent_type e" "ent_data e"] o programmable_keeps [OF ok k2] by auto
      from 2 have "s' = s4" "c' = c\<lparr>pc_attempted := pc_attempted c + 1,
          pc_failed := (if gone then pc_failed c else pc_failed c + 1)\<rparr>"
        using p ns r a o w nprev by (cases c, cases gone, auto simp: program_entry_def Let_def)+
      then show ?thesis using 2 False k4 m4 np by (cases gone) (auto simp: entry_step_def)
    next
      case 3
      then have "s' = ?s5" "c' = c\<lparr>pc_attempted := pc_attempted c + 1, pc_ok := pc_ok c + 1\<rparr>"
        using p ns r a o nprev by (simp_all add: program_entry_def Let_def)
      then show ?thesis using False k5 m5 s5 by (simp add: entry_step_def)
    qed
  qed
qed

subsection \<open>A whole pass\<close>

lemma in_sync_keeps:
  "pipe_ok s \<Longrightarrow> keeps s t \<Longrightarrow> ledger_map t (ent_key e) = ledger_map s (ent_key e) \<Longrightarrow> in_sync t e = in_sync s e"
  by (simp add: in_sync_def dep_digest_keeps)

text \<open>
  The outcome of a pass over a list of entries: \<open>a\<close> entries were attempted, \<open>g\<close> programmed,
  \<open>f\<close> failed.
\<close>

definition pass_ok ::
  "'b backend_ops \<Rightarrow> object_entry list \<Rightarrow> ('b, 'z) prog_scheme \<Rightarrow> ('b, 'z) prog_scheme \<Rightarrow> nat \<Rightarrow> nat \<Rightarrow> nat \<Rightarrow> bool" where
  "pass_ok ops es s s' a g f \<longleftrightarrow>
     keeps s s' \<and> (\<forall>k. k \<notin> ent_key ` set es \<longrightarrow> ledger_map s' k = ledger_map s k) \<and>
     a = length (filter (\<lambda>e. \<not> in_sync s e) es) \<and> g + f \<le> a \<and>
     (g = a \<longrightarrow> (\<forall>e\<in>set es. in_sync s' e)) \<and>
     (accepts ops \<and> (\<forall>e\<in>set es. programmable s (ent_type e) (ent_data e)) \<longrightarrow> g = a) \<and>
     (a = 0 \<longrightarrow> backend s' = backend s \<and> ledger_map s' = ledger_map s)"

definition ctx_add :: "nat \<Rightarrow> nat \<Rightarrow> nat \<Rightarrow> program_ctx \<Rightarrow> program_ctx" where
  "ctx_add a g f c = c\<lparr>pc_attempted := pc_attempted c + of_nat a, pc_ok := pc_ok c + of_nat g,
     pc_failed := pc_failed c + of_nat f\<rparr>"

lemma entry_step_counts:
  assumes "pipe_ok s" and "entry_step ops e c s c' s'"
  shows "\<exists>a g f. c' = ctx_add a g f c \<and> a = (if in_sync s e then 0 else 1) \<and> g + f \<le> a \<and>
    (g = a \<longrightarrow> in_sync s' e) \<and>
    (accepts ops \<and> programmable s (ent_type e) (ent_data e) \<longrightarrow> g = a) \<and> (a = 0 \<longrightarrow> backend s' = backend s \<and> ledger_map s' = ledger_map s)"
proof -
  let ?P = "\<lambda>a g f. c' = ctx_add a g f c \<and> a = (if in_sync s e then 0 else 1) \<and> g + f \<le> a \<and>
    (g = a \<longrightarrow> in_sync s' e) \<and>
    (accepts ops \<and> programmable s (ent_type e) (ent_data e) \<longrightarrow> g = a) \<and> (a = 0 \<longrightarrow> backend s' = backend s \<and> ledger_map s' = ledger_map s)"
  have sy: "in_sync s e \<Longrightarrow> ledger_map s' = ledger_map s \<Longrightarrow> in_sync s' e"
    using assms by (auto simp: entry_step_def in_sync_keeps)
  have "?P 0 0 0 \<or> ?P 1 1 0 \<or> ?P 1 0 1 \<or> ?P 1 0 0"
    using assms sy by (cases c) (auto simp: entry_step_def ctx_add_def)
  then show ?thesis by (elim disjE) (rule exI, rule exI, rule exI, assumption)+
qed

lemma program_pass:
  assumes "pipe_ok s" and "distinct (map ent_key es)"
    and "\<forall>e\<in>set es. \<not> type_skipped (ent_type e) \<and> fits s e"
    and "fold (program_entry ops) es (c, s) = (c', s')"
  shows "\<exists>a g f. c' = ctx_add a g f c \<and> pass_ok ops es s s' a g f"
  using assms
proof (induction es arbitrary: c s)
  case Nil
  then show ?case by (intro exI [of _ 0]) (simp add: ctx_add_def pass_ok_def keeps_refl)
next
  case (Cons e es)
  obtain c1 s1 where p: "program_entry ops e (c, s) = (c1, s1)" by fastforce
  have st: "entry_step ops e c s c1 s1" using Cons.prems by (intro program_entry_step [OF _ _ _ p]) auto
  then have k: "keeps s s1" and other: "\<And>k. k \<noteq> ent_key e \<Longrightarrow> ledger_map s1 k = ledger_map s k"
    by (auto simp: entry_step_def)
  obtain a g f where c1: "c1 = ctx_add a g f c" and a: "a = (if in_sync s e then 0 else 1)" "g + f \<le> a"
    "g = a \<longrightarrow> in_sync s1 e" "accepts ops \<and> programmable s (ent_type e) (ent_data e) \<longrightarrow> g = a"
    "a = 0 \<longrightarrow> backend s1 = backend s \<and> ledger_map s1 = ledger_map s"
    using entry_step_counts [OF Cons.prems(1) st] by (elim exE conjE) (rule that)
  have ne: "ent_key e' \<noteq> ent_key e" if "e' \<in> set es" for e' using Cons.prems(2) that by (metis distinct.simps(2) image_eqI list.map(2) list.set_map)
  have fits: "\<forall>e\<in>set es. \<not> type_skipped (ent_type e) \<and> fits s1 e"
    using Cons.prems(3) ne other by (auto simp: fits_def)
  have ds: "distinct (map ent_key es)" and rest: "fold (program_entry ops) es (c1, s1) = (c', s')"
    using Cons.prems(2,4) p by simp_all
  obtain a' g' f' where c': "c' = ctx_add a' g' f' c1" and r: "pass_ok ops es s1 s' a' g' f'"
    using Cons.IH [OF keeps_ok [OF k] ds fits rest] by (elim exE conjE) (rule that)
  have sy: "in_sync s1 e' = in_sync s e'" if "e' \<in> set es" for e'
    using in_sync_keeps [OF Cons.prems(1) k] other ne that by simp
  then have fl: "filter (\<lambda>e. \<not> in_sync s1 e) es = filter (\<lambda>e. \<not> in_sync s e) es" by (auto cong: filter_cong)
  have le: "ledger_map s' (ent_key e) = ledger_map s1 (ent_key e)"
    using r Cons.prems(2) by (simp add: pass_ok_def del: split_paired_All)
  have ks: "keeps s1 s'" using r by (simp add: pass_ok_def)
  have e': "in_sync s' e = in_sync s1 e" using in_sync_keeps [OF keeps_ok [OF k] ks le] .
  have "pass_ok ops (e # es) s s' (a + a') (g + g') (f + f')"
    using r a e' keeps_trans [OF k ks] other fl programmable_keeps [OF Cons.prems(1) k]
    by (auto simp: pass_ok_def simp del: split_paired_All)
  moreover have "c' = ctx_add (a + a') (g + g') (f + f') c"
    using c1 c' by (simp add: ctx_add_def)
  ultimately show ?case by (intro exI conjI)
qed
end
