(* ===== verification/Programming.thy ===== *)
theory Programming
  imports Backend_Ops
begin

text \<open>
  Whole passes of the programming pipeline: what a run leaves in the ledger, when it
  converges, what its counters say, how a route that lost its next hop is withdrawn, and
  what the tombstone sweep removes.
\<close>

declare split_paired_All [simp del] split_paired_Ex [simp del]

subsection \<open>The desired objects\<close>

definition desired :: "('b, 'z) prog_scheme \<Rightarrow> object_entry list" where
  "desired s =
     (case g_default_store s of
        None \<Rightarrow> []
      | Some a \<Rightarrow> (case stores s a of None \<Rightarrow> [] | Some st \<Rightarrow> filter (\<lambda>e. \<not> type_skipped (ent_type e)) (entries st)))"

definition record_of :: "('b, 'z) prog_scheme \<Rightarrow> obj_key \<Rightarrow> bytes \<Rightarrow> bytes" where
  "record_of s k d = le64 (dep_digest s (fst k) d) @ d"

text \<open>The desired objects whose ledger record is missing or stale, and the state without any.\<close>

definition out_of_sync :: "('b, 'z) prog_scheme \<Rightarrow> obj_key set" where
  "out_of_sync s = {k. \<exists>d. default_map s k = Some d \<and> \<not> type_skipped (fst k) \<and> ledger_map s k \<noteq> Some (record_of s k d)}"

definition sizes_ok :: "('b, 'z) prog_scheme \<Rightarrow> bool" where
  "sizes_ok s \<longleftrightarrow>
     (\<forall>k d. default_map s k = Some d \<and> \<not> type_skipped (fst k) \<longrightarrow>
        length d \<le> 504 \<and> (\<forall>l. ledger_map s k = Some l \<longrightarrow> length l = length d + 8)) \<and>
     card (dom (default_map s)) < 2 ^ 64"

lemma default_entries:
  assumes "pipe_ok s"
  obtains a st where "g_default_store s = Some a" "stores s a = Some st" "store_wf st"
    "default_map s = store_map st"
  using assms by (force simp: pipe_ok_def stores_wf_def default_map_def sys_map_def)

lemma desired_iff:
  assumes "pipe_ok s"
  shows "default_map s k = Some d \<and> \<not> type_skipped (fst k) \<longleftrightarrow>
    (\<exists>e\<in>set (desired s). ent_key e = k \<and> ent_data e = d)"
proof -
  obtain a st where st: "g_default_store s = Some a" "stores s a = Some st" "store_wf st"
    "default_map s = store_map st" using default_entries [OF assms] .
  then have "set (desired s) = {e \<in> set (entries st). \<not> type_skipped (fst (ent_key e))}"
    by (simp add: desired_def ent_key_def)
  then show ?thesis using store_map_iff [OF st(3)] st(4) by auto
qed

lemma desired_distinct:
  assumes "pipe_ok s"
  shows "distinct (map ent_key (desired s))"
proof -
  obtain a st where st: "g_default_store s = Some a" "stores s a = Some st" "store_wf st"
    using default_entries [OF assms] .
  show ?thesis using distinct_map_filter [OF distinct_keys [OF st(3)]] st(1,2) by (simp add: desired_def)
qed

lemma desired_length:
  assumes "pipe_ok s"
  shows "length (desired s) \<le> card (dom (default_map s))"
proof -
  obtain a st where st: "g_default_store s = Some a" "stores s a = Some st" "store_wf st"
    "default_map s = store_map st" using default_entries [OF assms] .
  have "card (dom (default_map s)) = length (entries st)"
    using dom_store_map [OF st(3)] distinct_card [OF distinct_keys [OF st(3)]] st(4) by simp
  then show ?thesis using st(1,2) by (simp add: desired_def)
qed

lemma in_sync_record: "in_sync s e \<longleftrightarrow> ledger_map s (ent_key e) = Some (record_of s (ent_key e) (ent_data e))"
  by (simp add: in_sync_def record_of_def ent_key_def)

lemma out_of_sync_desired:
  assumes "pipe_ok s"
  shows "out_of_sync s = ent_key ` set (filter (\<lambda>e. \<not> in_sync s e) (desired s))"
proof (rule set_eqI)
  fix k
  have "k \<in> out_of_sync s \<longleftrightarrow>
      (\<exists>d. (\<exists>e\<in>set (desired s). ent_key e = k \<and> ent_data e = d) \<and> ledger_map s k \<noteq> Some (record_of s k d))"
    unfolding out_of_sync_def desired_iff [OF assms, symmetric] by simp
  also have "\<dots> \<longleftrightarrow> k \<in> ent_key ` set (filter (\<lambda>e. \<not> in_sync s e) (desired s))"
    by (auto simp: in_sync_record)
  finally show "k \<in> out_of_sync s \<longleftrightarrow> \<dots>" .
qed

lemma card_out_of_sync:
  assumes "pipe_ok s"
  shows "card (out_of_sync s) = length (filter (\<lambda>e. \<not> in_sync s e) (desired s))"
  using distinct_card [OF distinct_map_filter [OF desired_distinct [OF assms], of "\<lambda>e. \<not> in_sync s e"]]
  by (simp add: out_of_sync_desired [OF assms])

lemma sizes_fit: "pipe_ok s \<Longrightarrow> sizes_ok s \<Longrightarrow> e \<in> set (desired s) \<Longrightarrow> fits s e"
  using desired_iff [of s "ent_key e" "ent_data e"] by (auto simp: sizes_ok_def fits_def)

lemma desired_not_skipped: "e \<in> set (desired s) \<Longrightarrow> \<not> type_skipped (ent_type e)"
  by (auto simp: desired_def split: option.splits)

subsection \<open>A run\<close>

lemma fold_skipped:
  "fold (program_entry ops) es u = fold (program_entry ops) (filter (\<lambda>e. \<not> type_skipped (ent_type e)) es) u"
  by (induction es arbitrary: u) (auto simp: program_entry_def case_prod_beta)

lemma run_pass:
  assumes ok: "pipe_ok s" and ops: "g_ops s = Some ops" and sz: "sizes_ok s"
    and run: "danos_programming_run s = ((g0, a0, f0), s')"
  shows "\<exists>a g f. unat a0 = a \<and> unat g0 = g \<and> unat f0 = f \<and> pass_ok ops (desired s) s s' a g f"
proof -
  obtain x st where st: "g_default_store s = Some x" "stores s x = Some st" using default_entries [OF ok] by metis
  let ?c0 = "\<lparr>pc_attempted = 0, pc_ok = 0, pc_failed = 0\<rparr>"
  obtain c s1 where f: "fold (program_entry ops) (desired s) (?c0, s) = (c, s1)" by fastforce
  have it: "danos_object_iterate (stores s x) (program_entry ops) (?c0, s) = (c, s1)"
    using f st by (simp add: danos_object_iterate_entries fold_skipped [of ops "entries st"] desired_def)
  obtain a g f where c: "c = ctx_add a g f ?c0" and p: "pass_ok ops (desired s) s s1 a g f"
    using program_pass [OF ok desired_distinct [OF ok] _ f] sizes_fit [OF ok sz] desired_not_skipped
    by (metis (no_types, lifting))
  have s': "g0 = pc_ok c" "a0 = pc_attempted c" "f0 = pc_failed c"
    "s' = s1\<lparr>prog_attempted := prog_attempted s1 + pc_attempted c, prog_ok := prog_ok s1 + pc_ok c,
       prog_failed := prog_failed s1 + pc_failed c\<rparr>"
    using run it ops st by (auto simp: danos_programming_run_def)
  have "a = length (filter (\<lambda>e. \<not> in_sync s e) (desired s))" "g + f \<le> a" "card (dom (default_map s)) < 2 ^ 64"
    using p sz by (simp_all add: pass_ok_def sizes_ok_def)
  then have small: "a < 2 ^ 64" "g < 2 ^ 64" "f < 2 ^ 64"
    using desired_length [OF ok] length_filter_le [of "\<lambda>e. \<not> in_sync s e" "desired s"] by linarith+
  have m: "ledger_map s' = ledger_map s1" by (simp add: s'(4) ledger_map_def sys_map_def fun_eq_iff split: option.split)
  have k: "keeps s1 s'"
    using p by (auto simp: pass_ok_def s'(4) keeps_def pipe_ok_def default_map_def sys_map_def stores_wf_def)
  have ok1: "pipe_ok s1" using p by (simp add: pass_ok_def keeps_def)
  have "in_sync s' e = in_sync s1 e" for e using in_sync_keeps [OF ok1 k] m by simp
  then have "pass_ok ops (desired s) s s' a g f"
    using p m keeps_trans [OF _ k, of s] by (simp add: pass_ok_def s'(4))
  moreover have "unat a0 = a" "unat g0 = g" "unat f0 = f"
    using small by (simp_all add: s'(1-3) c ctx_add_def unat_of_nat)
  ultimately show ?thesis by blast
qed

lemma run_keeps:
  assumes "pass_ok ops (desired s) s s' a g f" and "pipe_ok s"
  shows "pipe_ok s'" and "default_map s' = default_map s" and "g_ops s' = g_ops s" and "desired s' = desired s"
  using assms by (auto simp: pass_ok_def keeps_def desired_def split: option.split)

lemma sync_complete:
  assumes "pipe_ok s'" and "\<forall>e\<in>set (desired s'). in_sync s' e"
  shows "out_of_sync s' = {}"
  using assms by (simp add: out_of_sync_desired)

lemma sizes_after:
  assumes ok: "pipe_ok s" and sz: "sizes_ok s" and p: "pass_ok ops (desired s) s s' a g f"
    and all: "out_of_sync s' = {}"
  shows "sizes_ok s'"
proof -
  have "length l = length d + 8"
    if "default_map s k = Some d" "\<not> type_skipped (fst k)" "ledger_map s' k = Some l" for k d l
  proof -
    have "ledger_map s' k = Some (record_of s' k d)"
      using that(1,2) all run_keeps(2) [OF p ok] by (auto simp: out_of_sync_def)
    then show ?thesis using that(3) by (simp add: record_of_def)
  qed
  then show ?thesis using sz unfolding sizes_ok_def run_keeps(2) [OF p ok] by blast
qed

lemma pass_converges:
  assumes p: "pass_ok ops (desired s) s s' a g f" and ok: "pipe_ok s" and "accepts ops"
    and pr: "\<forall>k d. default_map s k = Some d \<and> \<not> type_skipped (fst k) \<longrightarrow> programmable s (fst k) d"
  shows "g = a" and "f = 0" and "out_of_sync s' = {}"
proof -
  have "programmable s (ent_type e) (ent_data e)" if "e \<in> set (desired s)" for e
    using pr [rule_format, of "ent_key e" "ent_data e"] desired_iff [OF ok, of "ent_key e" "ent_data e"] that
    by (auto simp: ent_key_def)
  then show "g = a" using p assms(3) by (simp add: pass_ok_def)
  then show "f = 0" "out_of_sync s' = {}"
    using p run_keeps [OF p ok] sync_complete [of s'] by (auto simp: pass_ok_def)
qed

text \<open>
  C3: Programming converges. With a backend that has every operation and never refuses, and
  desired interfaces, VRFs and routes with resolvable next hops, a single run programs
  everything: nothing fails, every attempt succeeds, and afterwards the ledger record of every
  desired object is its current data with the digest of its dependencies. The desired state
  is not changed.
\<close>

theorem programming_converges:
  assumes "pipe_ok s" and "g_ops s = Some ops" and "accepts ops" and "sizes_ok s"
    and "\<forall>k d. default_map s k = Some d \<and> \<not> type_skipped (fst k) \<longrightarrow> programmable s (fst k) d"
    and "danos_programming_run s = ((ok, attempted, failed), s')"
  shows "failed = 0 \<and> ok = attempted \<and> out_of_sync s' = {} \<and> default_map s' = default_map s"
proof -
  obtain a g f where u: "unat attempted = a" "unat ok = g" "unat failed = f"
    and p: "pass_ok ops (desired s) s s' a g f"
    using run_pass [OF assms(1,2,4,6)] by (elim exE conjE) (rule that)
  note c = pass_converges [OF p assms(1,3,5)]
  show ?thesis using u c run_keeps(2) [OF p assms(1)] by (metis unat_eq_zero word_unat_eq_iff)
qed

text \<open>
  C22: A converged pipeline is idle. When every attempt of a run succeeded, the next run
  attempts nothing, calls no backend operation and leaves the ledger as it is, whatever the
  backend would answer.
\<close>

theorem programming_idempotent:
  assumes "pipe_ok s" and "g_ops s = Some ops" and "sizes_ok s"
    and "danos_programming_run s = ((n, n, failed), s')"
  shows "fst (danos_programming_run s') = (0, 0, 0) \<and>
    backend (snd (danos_programming_run s')) = backend s' \<and>
    ledger_map (snd (danos_programming_run s')) = ledger_map s'"
proof -
  obtain a g f where u: "unat n = a" "unat n = g" and p: "pass_ok ops (desired s) s s' a g f"
    using run_pass [OF assms] by (elim exE conjE) (rule that)
  note k = run_keeps [OF p assms(1)]
  have sync: "\<forall>e\<in>set (desired s'). in_sync s' e" using p u k(4) by (simp add: pass_ok_def)
  then have none: "out_of_sync s' = {}" using sync_complete k(1) by blast
  obtain g0 a0 f0 s2 where r: "danos_programming_run s' = ((g0, a0, f0), s2)" by (metis surj_pair)
  have o: "g_ops s' = Some ops" using k(3) assms(2) by simp
  obtain a' g' f' where u': "unat a0 = a'" "unat g0 = g'" "unat f0 = f'"
    and p': "pass_ok ops (desired s') s' s2 a' g' f'"
    using run_pass [OF k(1) o sizes_after [OF assms(1,3) p none] r] by (elim exE conjE) (rule that)
  have "a' = 0" using p' sync by (simp add: pass_ok_def)
  moreover from this have "g' = 0" "f' = 0" using p' by (simp_all add: pass_ok_def)
  ultimately show ?thesis using p' u' r by (simp add: pass_ok_def unat_eq_zero)
qed

text \<open>
  The counters of a run are exact. The number of attempts is the number of desired
  objects whose ledger record is missing or stale, and the numbers of successes and failures
  never add up to more than the attempts, so that no counter wraps.
\<close>

theorem programming_accounting:
  assumes "pipe_ok s" and "g_ops s = Some ops" and "sizes_ok s"
    and "danos_programming_run s = ((ok, attempted, failed), s')"
  shows "unat attempted = card (out_of_sync s) \<and> unat ok + unat failed \<le> unat attempted"
proof -
  obtain a g f where u: "unat attempted = a" "unat ok = g" "unat failed = f"
    and p: "pass_ok ops (desired s) s s' a g f"
    using run_pass [OF assms] by (elim exE conjE) (rule that)
  show ?thesis using p by (simp add: u card_out_of_sync [OF assms(1)] pass_ok_def)
qed

subsection \<open>Withdrawal\<close>

lemma backend_call_op: "backend (snd (call_op f s)) = (case f of None \<Rightarrow> backend s | Some g \<Rightarrow> snd (g (backend s)))"
  by (simp add: call_op_def case_prod_beta Let_def split: option.split)

text \<open>
  The digest of a route's next hops combines the hops of its group by exclusive or. A group that
  lists one next hop twice therefore has the same digest whether the next hop exists or not, and
  the deletion of that next hop leaves the route's ledger record current.
\<close>

lemma duplicate_hop_digest:
  assumes "56 \<le> length d" and "nhgroup_id (dec_route d) \<noteq> 0"
    and "sys_read s (g_default_store s) OBJ_NHGROUP (nhgroup_id (dec_route d)) 536 = (DANOS_OK, Some g, n)"
    and "nh_count (dec_nhgroup g) = 2" and "nh_ids (dec_nhgroup g) ! 0 = nh_ids (dec_nhgroup g) ! 1"
  shows "dep_digest s OBJ_ROUTE d = hash_bytes g"
proof -
  let ?rd = "\<lambda>i. sys_read s (g_default_store s) OBJ_NEXTHOP (nh_ids (dec_nhgroup g) ! i) 56"
  define hop where "hop i = (case ?rd i of (DANOS_OK, Some nh, _) \<Rightarrow> hash_bytes nh | _ \<Rightarrow> 0x535A4A)" for i
  have "(case ?rd i of (DANOS_OK, Some nh, _) \<Rightarrow> h XOR hash_bytes nh | _ \<Rightarrow> h XOR 0x535A4A) = h XOR hop i" for i h
    by (simp add: hop_def split: prod.split danos_status.split option.split)
  moreover have "[0..<min (unat (nh_count (dec_nhgroup g))) 64] = [0, 1]" by (simp add: assms(4) upt_rec)
  moreover have "hop 0 = hop 1" by (simp add: hop_def assms(5))
  moreover have "(x XOR y) XOR y = x" for x y :: u64 by (simp add: xor.assoc)
  ultimately show ?thesis using assms(1-3) by (simp add: dep_digest_def Let_def)
qed

text \<open>
  C23: A route that lost its next hop is withdrawn, provided its ledger record is not current.
  When a programmed route no longer resolves and its ledger record differs from its data and
  dependency digest, the pass deletes it from the backend using the copy recorded in the ledger,
  not the current object. If the backend agrees the ledger forgets the route, so that it is
  programmed again once it resolves, and the entry is not counted as a failure; otherwise the
  ledger keeps it and the entry fails. When the ledger record is current the pass makes no call
  and counts nothing, and the route stays in the backend although it does not resolve. The
  desired state is never changed.
\<close>

theorem lost_route_withdrawn:
  assumes "pipe_ok s" and "ent_type e = OBJ_ROUTE" and "56 \<le> length (ent_data e)"
    and "fst (resolve_route_nh s (dec_route (ent_data e))) = ERR_RETRY"
    and "ledger_map s (ent_key e) = Some l" and "64 \<le> length l" and "length l \<le> 512"
    and "bo_route_del ops = Some f"
    and "f (rr_zero (dec_route (bslice 8 56 l))) (backend s) = (st, b')"
    and "program_entry ops e (c, s) = (c', s')"
  shows "default_map s' = default_map s \<and>
    (if in_sync s e then backend s' = backend s \<and> ledger_map s' = ledger_map s \<and> c' = c
     else backend s' = b' \<and>
       (if st = DANOS_OK
        then ledger_map s' = (ledger_map s)(ent_key e := None) \<and> c' = c\<lparr>pc_attempted := pc_attempted c + 1\<rparr>
        else ledger_map s' = ledger_map s \<and>
          c' = c\<lparr>pc_attempted := pc_attempted c + 1, pc_failed := pc_failed c + 1\<rparr>))"
proof (cases "in_sync s e")
  case True
  obtain prev s1 where r: "read_ledger s (ent_key e) 512 = (prev, s1)" by fastforce
  have "prev = Some (le64 (dep_digest s (ent_type e) (ent_data e)) @ ent_data e)"
    "keeps s s1" "ledger_map s1 = ledger_map s" "backend s1 = backend s"
    using read_ledger_ok [OF assms(1) r] assms(5,7) True by (auto simp: in_sync_def)
  then show ?thesis
    using assms(2,10) r True by (auto simp: program_entry_def type_skipped_def keeps_def)
next
  case False
  obtain prev s1 where r: "read_ledger s (ent_key e) 512 = (prev, s1)" by fastforce
  have prev: "prev = Some l" and k1: "keeps s s1" and m1: "ledger_map s1 = ledger_map s" and b1: "backend s1 = backend s"
    using read_ledger_ok [OF assms(1) r] assms(5,7) by auto
  have n: "\<not> type_skipped (ent_type e)" by (simp add: assms(2) type_skipped_def)
  have ns: "prev \<noteq> Some (le64 (dep_digest s (ent_type e) (ent_data e)) @ ent_data e)"
    using assms(5) False prev by (simp add: in_sync_def)
  have a: "addr_del_stage ops e prev s1 = (DANOS_OK, s1)"
    by (simp add: addr_del_stage_def assms(2) split: option.split)
  have res: "fst (resolve_route_nh s1 (dec_route (ent_data e))) = ERR_RETRY"
    using assms(4) by (simp add: resolve_keeps [OF assms(1) k1])
  then have o: "program_one ops (ent_type e) (ent_data e) s1 = (ERR_RETRY, s1)"
    using assms(2,3) by (auto simp: program_one_def Let_def case_prod_beta)
  obtain gone s4 where w: "withdraw_stage ops e ERR_RETRY prev s1 = (gone, s4)" by fastforce
  note wo = withdraw_ok [OF keeps_ok [OF k1] w]
  let ?s2 = "s1\<lparr>backend := b'\<rparr>"
  have call: "call_op (map_option (\<lambda>f. f (rr_zero (dec_route (bslice 8 56 l)))) (bo_route_del ops)) s1 = (st, ?s2)"
    using assms(8,9) b1 by (simp add: call_op_def)
  obtain x s3 where x: "ledger ?s2 = (x, s3)" by fastforce
  have ok2: "pipe_ok ?s2" using call_op_ok [OF keeps_ok [OF k1] call] by (simp add: keeps_def)
  have "backend (snd (danos_object_delete s3 x (ent_type e) (ent_id e))) = b'"
    using ledger_mutation [OF ok2 x, of _ "OpDelete (ent_type e) (ent_id e)"] by simp
  then have b: "backend s4 = b'" and g: "gone = (st = DANOS_OK)"
    using w call x assms(2,6,8) prev by (auto simp: withdraw_stage_def split: if_splits)
  have "s' = s4" "c' = c\<lparr>pc_attempted := pc_attempted c + 1, pc_failed := (if gone then pc_failed c else pc_failed c + 1)\<rparr>"
    using assms(10) n r ns a o w by (cases c, cases gone, auto simp: program_entry_def Let_def)+
  moreover have "default_map s4 = default_map s" using wo k1 by (simp add: keeps_def)
  ultimately show ?thesis using b g wo m1 False by auto
qed

subsection \<open>Samples\<close>

text \<open>A backend that accepts everything and counts the calls it gets.\<close>

definition sample_ops :: "nat backend_ops" where
  "sample_ops = \<lparr>bo_iface_up = Some (\<lambda>_ _ b. (DANOS_OK, Suc b)), bo_iface_addr_set = Some (\<lambda>_ b. (DANOS_OK, Suc b)),
     bo_iface_addr_del = Some (\<lambda>_ b. (DANOS_OK, Suc b)), bo_route_add = Some (\<lambda>_ b. (DANOS_OK, Suc b)),
     bo_route_del = Some (\<lambda>_ b. (DANOS_OK, Suc b)), bo_vrf_add = Some (\<lambda>_ b. (DANOS_OK, Suc b)),
     bo_vrf_del = Some (\<lambda>_ b. (DANOS_OK, Suc b))\<rparr>"

lemma sample_ops_accepts: "accepts sample_ops"
  by (simp add: accepts_def sample_ops_def)

definition sample_empty :: "nat prog" where
  "sample_empty = \<lparr>stores = [0 \<mapsto> object_store_new 1024, 1 \<mapsto> object_store_new 256], next_addr = 2,
     g_default_store = Some 0,
     g_event_bus = None, sys_fs = sample_fs, g_wal = wal_ctx_zero, g_enabled = False,
     g_recovering = False, g_records_logged = 0, g_recovered = 0, g_dirty = False,
     mem_plan = (\<lambda>_. True), mem_next = 0, wall_clock = 0, g_ops = Some sample_ops, backend = 0,
     g_programmed = Some 1, prog_attempted = 0, prog_ok = 0, prog_failed = 0, g_sweep_ids = [],
     stack_overrun = False\<rparr>"

lemma sample_empty_ok:
  "pipe_ok sample_empty" "default_map sample_empty = Map.empty" "ledger_map sample_empty = Map.empty"
  by (auto simp: pipe_ok_def sample_empty_def stores_wf_def store_wf_new default_map_def ledger_map_def
      sys_map_def store_map_new)

text \<open>One desired object, and one ledger record.\<close>

lemma sample_desired:
  assumes "d \<noteq> []"
  shows "\<exists>s :: nat prog. pipe_ok s \<and> g_ops s = Some sample_ops \<and> default_map s = [(t, i) \<mapsto> d] \<and>
    ledger_map s = Map.empty \<and> g_programmed s = Some 1 \<and> backend s = 0"
proof -
  obtain rc s where run: "run_op 0 (OpCreate t i d) sample_empty = (rc, s)" by fastforce
  have pre: "stores_wf sample_empty" "stores sample_empty 0 \<noteq> None" "mem_plan sample_empty = (\<lambda>_. True)"
    using sample_empty_ok by (auto simp: pipe_ok_def sample_empty_def)
  note r = run_op_exact [OF pre run]
  have m0: "sys_map sample_empty 0 = Map.empty" by (simp add: sample_empty_def sys_map_def store_map_new)
  then have m: "sys_map s 0 = [(t, i) \<mapsto> d]" using r(4) assms by simp
  have s1: "stores s 1 = Some (object_store_new 256)" using r(3) [of 1] by (simp add: sample_empty_def)
  have f: "g_programmed s = Some 1" "g_ops s = Some sample_ops" "backend s = 0" "g_default_store s = Some 0"
    "mem_plan s = (\<lambda>_. True)" "next_addr s = 2"
    using run_op_prog_frame [of 0 "OpCreate t i d" sample_empty] run_op_frame [of 0 "OpCreate t i d" sample_empty] run
    by (simp_all add: sample_empty_def)
  have "pipe_ok s" using r(1,2) s1 f by (simp add: pipe_ok_def)
  moreover have "default_map s = [(t, i) \<mapsto> d]" "ledger_map s = Map.empty"
    using m s1 f by (simp_all add: default_map_def ledger_map_def sys_map_def store_map_new)
  ultimately show ?thesis using f by blast
qed

lemma sample_recorded:
  assumes "d \<noteq> []" and "l \<noteq> []"
  shows "\<exists>s :: nat prog. pipe_ok s \<and> g_ops s = Some sample_ops \<and> default_map s = [(t, i) \<mapsto> d] \<and>
    ledger_map s = [(t', i') \<mapsto> l] \<and> g_programmed s = Some 1 \<and> backend s = 0"
proof -
  obtain s :: "nat prog" where s: "pipe_ok s" "g_ops s = Some sample_ops" "default_map s = [(t, i) \<mapsto> d]"
    "ledger_map s = Map.empty" "g_programmed s = Some 1" "backend s = 0" using sample_desired [OF assms(1)] by metis
  obtain rc s' where run: "run_op 1 (OpCreate t' i' l) s = (rc, s')" by fastforce
  show ?thesis
    using ledger_run_op [OF s(1,5) run] s assms(2) by (intro exI [of _ s']) (simp add: keeps_def)
qed

theorem programming_converges_witness:
  "\<exists>(s :: nat prog) s' n. pipe_ok s \<and> default_map s = [(OBJ_VRF, 5) \<mapsto> replicate 72 0] \<and>
     danos_programming_run s = ((n, n, 0), s') \<and> out_of_sync s' = {}"
proof -
  obtain s :: "nat prog" where s: "pipe_ok s" "g_ops s = Some sample_ops"
    "default_map s = [(OBJ_VRF, 5) \<mapsto> replicate 72 0]" "ledger_map s = Map.empty"
    using sample_desired [of "replicate 72 0" OBJ_VRF 5] by auto
  obtain g a f s' where r: "danos_programming_run s = ((g, a, f), s')" by (metis surj_pair)
  have "sizes_ok s" using s by (simp add: sizes_ok_def)
  moreover have "\<forall>k d. default_map s k = Some d \<and> \<not> type_skipped (fst k) \<longrightarrow> programmable s (fst k) d"
    using s(3) by (simp add: programmable_def)
  ultimately show ?thesis
    using programming_converges [OF s(1,2) sample_ops_accepts _ _ r] r s by blast
qed

theorem programming_idempotent_witness:
  "\<exists>(s :: nat prog) s'. default_map s = [(OBJ_VRF, 5) \<mapsto> replicate 72 0] \<and> ledger_map s = Map.empty \<and>
     danos_programming_run s = ((1, 1, 0), s') \<and> ledger_map s' (OBJ_VRF, 5) \<noteq> None \<and>
     fst (danos_programming_run s') = (0, 0, 0) \<and> backend (snd (danos_programming_run s')) = backend s'"
proof -
  obtain s :: "nat prog" where s: "pipe_ok s" "g_ops s = Some sample_ops"
    "default_map s = [(OBJ_VRF, 5) \<mapsto> replicate 72 0]" "ledger_map s = Map.empty"
    using sample_desired [of "replicate 72 0" OBJ_VRF 5] by auto
  have sz: "sizes_ok s" using s by (simp add: sizes_ok_def)
  have pr: "\<forall>k d. default_map s k = Some d \<and> \<not> type_skipped (fst k) \<longrightarrow> programmable s (fst k) d"
    using s(3) by (simp add: programmable_def)
  obtain g a f s' where r: "danos_programming_run s = ((g, a, f), s')" by (metis surj_pair)
  obtain a' g' f' where u: "unat a = a'" "unat g = g'" "unat f = f'" and p: "pass_ok sample_ops (desired s) s s' a' g' f'"
    using run_pass [OF s(1,2) sz r] by (elim exE conjE) (rule that)
  note c = pass_converges [OF p s(1) sample_ops_accepts pr]
  have "out_of_sync s = {(OBJ_VRF, 5)}" using s by (auto simp: out_of_sync_def type_skipped_def split: if_splits)
  then have "a' = 1" using p card_out_of_sync [OF s(1)] by (simp add: pass_ok_def)
  then have n: "a = 1" "g = 1" "f = 0" using u c(1,2) by (simp_all add: word_unat_eq_iff)
  have "(OBJ_VRF, 5) \<notin> out_of_sync s'" using c(3) by simp
  then have "ledger_map s' (OBJ_VRF, 5) \<noteq> None"
    using run_keeps(2) [OF p s(1)] s(3) by (simp add: out_of_sync_def type_skipped_def)
  then show ?thesis using programming_idempotent [OF s(1,2) sz, of 1 0 s'] r n s(3,4) by auto
qed

theorem programming_accounting_witness:
  "\<exists>(s :: nat prog) ok a f s'. default_map s = [(OBJ_VRF, 5) \<mapsto> [1]] \<and>
     danos_programming_run s = ((ok, a, f), s') \<and> unat a = 1 \<and> unat ok + unat f \<le> 1"
proof -
  obtain s :: "nat prog" where s: "pipe_ok s" "g_ops s = Some sample_ops"
    "default_map s = [(OBJ_VRF, 5) \<mapsto> [1]]" "ledger_map s = Map.empty"
    using sample_desired [of "[1]" OBJ_VRF 5] by auto
  obtain g a f s' where r: "danos_programming_run s = ((g, a, f), s')" by (metis surj_pair)
  have sz: "sizes_ok s" using s by (simp add: sizes_ok_def)
  have "out_of_sync s = {(OBJ_VRF, 5)}" using s by (auto simp: out_of_sync_def type_skipped_def split: if_splits)
  then show ?thesis using programming_accounting [OF s(1,2) sz r] s(3) r by auto
qed

theorem lost_route_withdrawn_witness:
  "\<exists>(s :: nat prog) c' s'.
     ledger_map s = [(OBJ_ROUTE, 1) \<mapsto> replicate 64 1] \<and>
     program_entry sample_ops \<lparr>ent_type = OBJ_ROUTE, ent_id = 1, ent_data = replicate 56 0\<rparr>
       (\<lparr>pc_attempted = 0, pc_ok = 0, pc_failed = 0\<rparr>, s) = (c', s') \<and>
     backend s' = Suc (backend s) \<and> ledger_map s' = Map.empty"
proof -
  let ?e = "\<lparr>ent_type = OBJ_ROUTE, ent_id = 1, ent_data = replicate 56 0\<rparr>"
  let ?c = "\<lparr>pc_attempted = 0, pc_ok = 0, pc_failed = 0\<rparr> :: program_ctx"
  obtain s :: "nat prog" where s: "pipe_ok s" "ledger_map s = [(OBJ_ROUTE, 1) \<mapsto> replicate 64 1]"
    using sample_recorded [of "[1]" "replicate 64 1" OBJ_VRF 5 OBJ_ROUTE 1] by auto
  obtain c' s' where p: "program_entry sample_ops ?e (?c, s) = (c', s')" by fastforce
  have "nhgroup_id (dec_route (replicate 56 0)) = 0 \<and> rt_flags (dec_route (replicate 56 0)) = 0" by code_simp
  then have res: "fst (resolve_route_nh s (dec_route (ent_data ?e))) = ERR_RETRY" by (simp add: resolve_route_nh_def)
  have "(le64 x @ replicate 56 0) ! 63 \<noteq> replicate 64 (1 :: u8) ! 63" for x by (simp add: nth_append)
  then have "le64 x @ replicate 56 0 \<noteq> replicate 64 1" for x by metis
  then have ns: "\<not> in_sync s ?e" using s(2) by (simp add: in_sync_def ent_key_def) metis
  have "fst (ent_key ?e) = OBJ_ROUTE" by (simp add: ent_key_def)
  then show ?thesis
    using lost_route_withdrawn [OF s(1) _ _ res _ _ _ _ _ p, of "replicate 64 1" "\<lambda>_ b. (DANOS_OK, Suc b)" DANOS_OK]
      s p ns by (auto simp: ent_key_def sample_ops_def)
qed

subsection \<open>The tombstone sweep\<close>

lemma read_ledger_live: "g_programmed s = Some b \<Longrightarrow> snd (read_ledger s k cap) = s"
  by (auto simp: read_ledger_def ledger_def split: option.split danos_status.split prod.split)

lemma collect_bounded:
  "length (g_sweep_ids s) \<le> 256 \<Longrightarrow> length (g_sweep_ids (fold (sweep_collect fg) es s)) \<le> 256"
proof (induction es arbitrary: s)
  case (Cons e es)
  have l: "g_sweep_ids (snd (ledger s)) = g_sweep_ids s"
    by (auto simp: ledger_def danos_object_store_create_def malloc_def Let_def)
  have r: "g_sweep_ids (snd (read_ledger s k cap)) = g_sweep_ids s" for k cap
    using l by (auto simp: read_ledger_def split: option.split danos_status.split prod.split)
  have "length (g_sweep_ids (sweep_collect fg e s)) \<le> 256"
    using Cons.prems r [of "ent_key e" 512]
    by (auto simp: sweep_collect_def SWEEP_MAX_def Let_def split: prod.split)
  then show ?case using Cons.IH by simp
qed simp

definition tombstone :: "('b, 'z) prog_scheme \<Rightarrow> object_entry \<Rightarrow> bool" where
  "tombstone s e \<longleftrightarrow> default_map s (ent_key e) = None"

lemma collect_step:
  assumes ok: "pipe_ok s" and b: "g_programmed s = Some b" and n: "length (g_sweep_ids s) < 256"
    and l: "\<exists>l. ledger_map s (ent_key e) = Some l \<and> length l \<le> 512"
    and d: "\<forall>k d. default_map s k = Some d \<and> k \<in> dom (ledger_map s) \<longrightarrow> length d \<le> 512"
  shows "sweep_collect False e s =
    s\<lparr>g_sweep_ids := g_sweep_ids s @ (if tombstone s e then [ent_key e] else [])\<rparr>"
proof -
  obtain prev s1 where r: "read_ledger s (ent_key e) 512 = (prev, s1)" by fastforce
  have s1: "s1 = s" using read_ledger_live [OF b, of "ent_key e" 512] r by simp
  have p: "prev \<noteq> None" using read_ledger_ok [OF ok r] l by auto
  obtain a where "g_default_store s = Some a" using ok by (auto simp: pipe_ok_def)
  moreover have "fst (sys_read s (g_default_store s) (ent_type e) (ent_id e) 512) = DANOS_OK \<longleftrightarrow> \<not> tombstone s e"
    using d [rule_format, of "ent_key e"] l
    by (auto simp: sys_read_default [OF ok] tombstone_def ent_key_def split: option.split)
  ultimately show ?thesis
    using n r s1 p by (auto simp: sweep_collect_def SWEEP_MAX_def)
qed

lemma sweep_ids_frame:
  "pipe_ok (s\<lparr>g_sweep_ids := x\<rparr>) = pipe_ok s" "ledger_map (s\<lparr>g_sweep_ids := x\<rparr>) = ledger_map s"
  "default_map (s\<lparr>g_sweep_ids := x\<rparr>) = default_map s"
  by (simp_all add: pipe_ok_def ledger_map_def default_map_def sys_map_def stores_wf_def split: option.split)

lemma collect_all:
  assumes "pipe_ok s" and "g_programmed s = Some b" and "length (g_sweep_ids s) + length es \<le> 256"
    and "\<forall>e\<in>set es. \<exists>l. ledger_map s (ent_key e) = Some l \<and> length l \<le> 512"
    and "\<forall>k d. default_map s k = Some d \<and> k \<in> dom (ledger_map s) \<longrightarrow> length d \<le> 512"
  shows "fold (sweep_collect False) es s =
    s\<lparr>g_sweep_ids := g_sweep_ids s @ map ent_key (filter (tombstone s) es)\<rparr>"
  using assms
proof (induction es arbitrary: s)
  case (Cons e es)
  have st: "sweep_collect False e s =
    s\<lparr>g_sweep_ids := g_sweep_ids s @ (if tombstone s e then [ent_key e] else [])\<rparr>"
    using Cons.prems by (intro collect_step) auto
  have t: "tombstone (s\<lparr>g_sweep_ids := x\<rparr>) = tombstone s" for x
    by (simp add: tombstone_def [abs_def] sweep_ids_frame)
  show ?case
    using Cons.prems Cons.IH [of "sweep_collect False e s"]
    by (simp add: st sweep_ids_frame t)
qed simp

text \<open>Backends whose route removal never fails.\<close>

definition deletes_routes :: "'b backend_ops \<Rightarrow> bool" where
  "deletes_routes ops \<longleftrightarrow> (\<forall>f r b. bo_route_del ops = Some f \<longrightarrow> fst (f r b) = DANOS_OK)"

text \<open>The backend call that removes an object, by what the ledger recorded of it.\<close>

definition withdraw_call :: "'b backend_ops option \<Rightarrow> obj_key \<Rightarrow> bytes \<Rightarrow> 'b \<Rightarrow> 'b" where
  "withdraw_call ops k l b =
     (case ops of
        None \<Rightarrow> b
      | Some ops \<Rightarrow>
          (case (fst k, bo_route_del ops, bo_iface_up ops) of
             (OBJ_ROUTE, Some f, _) \<Rightarrow> snd (f (rr_zero (dec_route (bslice 8 56 l))) b)
           | (OBJ_IFACE, _, Some f) \<Rightarrow>
               if 152 \<le> length l then snd (f (if_ifindex (dec_iface (bslice 8 144 l))) False b) else b
           | _ \<Rightarrow> b))"

lemma sweep_one_ok:
  assumes ok: "pipe_ok s" and ops: "\<forall>ops. g_ops s = Some ops \<longrightarrow> deletes_routes ops"
    and l: "ledger_map s k = Some l" "64 \<le> length l" "length l \<le> 512"
    and sw: "sweep_one k ((i, f), s) = (c', s')"
  shows "c' = (i + 1, f) \<and> keeps s s' \<and> ledger_map s' = (ledger_map s)(k := None) \<and>
    backend s' = withdraw_call (g_ops s) k l (backend s)"
proof -
  obtain prev s1 where r: "read_ledger s k 520 = (prev, s1)" by fastforce
  have prev: "prev = Some l" and k1: "keeps s s1" and m1: "ledger_map s1 = ledger_map s" and b1: "backend s1 = backend s"
    using read_ledger_ok [OF ok r] l by auto
  let ?del = "case g_ops s1 of
      Some ops \<Rightarrow>
        (if fst k = OBJ_ROUTE \<and> bo_route_del ops \<noteq> None
         then call_op (map_option (\<lambda>f. f (rr_zero (dec_route (bslice 8 56 l)))) (bo_route_del ops)) s1
         else (DANOS_OK, s1))
    | None \<Rightarrow> (DANOS_OK, s1)"
  obtain st s2 where d: "?del = (st, s2)" by fastforce
  have o1: "g_ops s1 = g_ops s" using k1 by (simp add: keeps_def)
  then have "fst ?del = DANOS_OK"
    using ops by (auto simp: deletes_routes_def fst_call_op split: option.split)
  then have st: "st = DANOS_OK" using d by simp
  have k2: "keeps s1 s2" and m2: "ledger_map s2 = ledger_map s1"
    using d call_op_ok [OF keeps_ok [OF k1], of _ st s2] keeps_refl [OF keeps_ok [OF k1]]
    by (auto split: option.splits if_splits)
  define s3 where "s3 = (case g_ops s2 of
      Some ops \<Rightarrow>
        (if fst k = OBJ_IFACE \<and> bo_iface_up ops \<noteq> None \<and> length l \<ge> 8 + 144
         then snd (call_op (map_option (\<lambda>f. f (if_ifindex (dec_iface (bslice 8 144 l))) False)
                (bo_iface_up ops)) s2)
         else s2)
    | None \<Rightarrow> s2)"
  have k3: "keeps s2 s3" and m3: "ledger_map s3 = ledger_map s2"
    using call_op_ok [OF keeps_ok [OF k2]] keeps_refl [OF keeps_ok [OF k2]]
    by (auto simp: s3_def split: option.split) (metis prod.collapse)+
  obtain a s4 where a: "ledger s3 = (a, s4)" by fastforce
  let ?s5 = "snd (danos_object_delete s4 a (fst k) (snd k))"
  have k5: "keeps s3 ?s5" and m5: "ledger_map ?s5 = (ledger_map s3)(k := None)"
    and b5: "backend ?s5 = backend s3"
    using ledger_mutation [OF keeps_ok [OF k3] a, of ?s5 "OpDelete (fst k) (snd k)"] by (auto simp: fun_eq_iff)
  have "backend s2 = backend (snd ?del)" using d by simp
  moreover have "g_ops s2 = g_ops s" using k2 o1 by (simp add: keeps_def)
  ultimately have b: "backend s3 = withdraw_call (g_ops s) k l (backend s)"
    using o1 b1 by (cases "fst k") (auto simp: s3_def withdraw_call_def backend_call_op split: option.split)
  have "c' = (i + 1, f)" "s' = ?s5"
    using sw r prev l(2) d st s3_def a by (simp_all add: sweep_one_def Let_def)
  then show ?thesis
    using b b5 k5 m5 m3 m2 m1 keeps_trans [OF k1 keeps_trans [OF k2 keeps_trans [OF k3 k5]]] by simp
qed

lemma sweep_all:
  assumes "pipe_ok s" and "\<forall>ops. g_ops s = Some ops \<longrightarrow> deletes_routes ops" and "distinct ks"
    and "\<forall>k\<in>set ks. \<exists>l. ledger_map s k = Some l \<and> 64 \<le> length l \<and> length l \<le> 512"
    and "fold sweep_one ks ((i, f), s) = (c', s')"
  shows "c' = (i + of_nat (length ks), f) \<and> keeps s s' \<and> ledger_map s' = ledger_map s |` (- set ks) \<and>
    backend s' = fold (\<lambda>k. withdraw_call (g_ops s) k (the (ledger_map s k))) ks (backend s)"
  using assms
proof (induction ks arbitrary: i s)
  case Nil
  then show ?case by (simp add: keeps_refl)
next
  case (Cons k ks)
  obtain c1 s1 where p: "sweep_one k ((i, f), s) = (c1, s1)" by fastforce
  obtain l where l: "ledger_map s k = Some l" "64 \<le> length l" "length l \<le> 512" using Cons.prems(4) by auto
  note one = sweep_one_ok [OF Cons.prems(1,2) l p]
  have "\<forall>k\<in>set ks. \<exists>l. ledger_map s1 k = Some l \<and> 64 \<le> length l \<and> length l \<le> 512"
    using Cons.prems(3,4) one by auto
  moreover have "pipe_ok s1" "\<forall>ops. g_ops s1 = Some ops \<longrightarrow> deletes_routes ops"
    using one Cons.prems(2) by (simp_all add: keeps_def)
  moreover have "distinct ks" "fold sweep_one ks ((i + 1, f), s1) = (c', s')" using Cons.prems(3,5) p one by simp_all
  ultimately have IH: "c' = (i + 1 + of_nat (length ks), f) \<and> keeps s1 s' \<and> ledger_map s' = ledger_map s1 |` (- set ks) \<and>
      backend s' = fold (\<lambda>k. withdraw_call (g_ops s1) k (the (ledger_map s1 k))) ks (backend s1)"
    using Cons.IH [of s1 "i + 1"] by blast
  have "fold (\<lambda>k. withdraw_call (g_ops s1) k (the (ledger_map s1 k))) ks b =
      fold (\<lambda>k. withdraw_call (g_ops s) k (the (ledger_map s k))) ks b" for b
    using one Cons.prems(3) by (intro List.fold_cong) (auto simp: keeps_def)
  then have "backend s' = fold (\<lambda>k. withdraw_call (g_ops s) k (the (ledger_map s k))) (k # ks) (backend s)"
    using IH one l(1) by simp
  moreover have "ledger_map s' = ledger_map s |` (- set (k # ks))" using IH one by (auto simp: restrict_map_def fun_eq_iff)
  ultimately show ?case using IH one keeps_trans [of s s1 s'] by simp
qed



text \<open>
  Forgetting is bounded. A single call forgets at most 256 ledger records, however
  many there are, so that a backend with a larger table is not replayed in full.
\<close>

theorem forget_bounded: "unat (fst (danos_programming_forget_programmed s)) \<le> 256"
proof (cases "g_programmed s")
  case None
  then show ?thesis by (simp add: danos_programming_forget_programmed_def)
next
  case (Some b)
  let ?s1 = "danos_object_iterate (stores s b) (sweep_collect True) (s\<lparr>g_sweep_ids := []\<rparr>)"
  have ids: "length (g_sweep_ids ?s1) \<le> 256"
    using collect_bounded [of "s\<lparr>g_sweep_ids := []\<rparr>" True]
    by (cases "stores s b") (simp_all add: danos_object_iterate_entries, simp add: danos_object_iterate_def)
  define F where "F = (\<lambda>(k :: obj_key) (n :: u64, s2 :: ('a, 'b) prog_scheme).
      let (st, s3) = danos_object_delete s2 (Some b) (fst k) (snd k)
      in (if st = DANOS_OK then n + 1 else n, s3))"
  have step: "fst (F k (n, t)) \<in> {n, n + 1}" for k n t by (simp add: F_def Let_def case_prod_beta)
  have "unat (fst (fold F ks (n, t))) \<le> m + length ks" if "unat n \<le> m" "m + length ks \<le> 256" for ks n t m
    using that
  proof (induction ks arbitrary: n t m)
    case (Cons k ks)
    obtain n' t' where e: "F k (n, t) = (n', t')" by fastforce
    have "n' = n \<or> n' = n + 1" using step [of k n t] e by simp
    moreover have "unat (n + 1) \<le> Suc (unat n)" 
      using mod_less_eq_dividend [of "Suc (unat n)" "2 ^ 64"] by (simp add: unat_word_ariths)
    ultimately have "unat n' \<le> Suc m" using Cons.prems(1) by auto
    then show ?case using Cons.IH [of n' "Suc m" t'] Cons.prems(2) e by simp
  qed simp
  from this [where n = 0 and m = 0] have "unat (fst (fold F (g_sweep_ids ?s1) (0, ?s1))) \<le> 0 + length (g_sweep_ids ?s1)" using ids by simp
  then have "unat (fst (fold F (g_sweep_ids ?s1) (0, ?s1))) \<le> 256" using ids by simp
  then show ?thesis using Some by (simp add: danos_programming_forget_programmed_def F_def Let_def)
qed
end
