(* ===== verification/Reconciler.thy ===== *)
theory Reconciler
  imports State_Store Programming
begin

text \<open>
  The reconciler of \<^verbatim>\<open>danos-core/src/reconciler/reconciler.c\<close>: one-shot runs that compare the state
  store and drive the programming pipeline, and the thread that wakes every 50 ms and runs when the
  desired state is dirty or the period is over. Its state extends the pipeline's by the global
  \<^verbatim>\<open>g_reconciler\<close>. Clock values and the outcome of \<^verbatim>\<open>pthread_create\<close> are arguments.
\<close>

record danos_reconcile_config =
  reconcile_period_ms :: u64
  max_retries :: u32
  backoff_initial_ms :: u64
  backoff_max_ms :: u64
  antiflap_window_ms :: u32
  antiflap_max_count :: u32

record danos_reconcile_stats =
  total_runs :: u64
  total_diffs :: u64
  total_repairs :: u64
  total_failures :: u64
  total_flaps :: u64

record danos_reconciler =
  rc_config :: danos_reconcile_config
  rc_state :: "state_store option"
  rc_running :: bool
  rc_stats :: danos_reconcile_stats

record 'b recon = "'b prog" +
  g_reconciler :: "danos_reconciler option"

definition kDefaultConfig :: danos_reconcile_config where
  "kDefaultConfig = \<lparr>reconcile_period_ms = 30000, max_retries = 5, backoff_initial_ms = 1000, backoff_max_ms = 60000,
     antiflap_window_ms = 5000, antiflap_max_count = 3\<rparr>"

definition stats_zero :: danos_reconcile_stats where
  "stats_zero = \<lparr>total_runs = 0, total_diffs = 0, total_repairs = 0, total_failures = 0, total_flaps = 0\<rparr>"

definition danos_reconciler_init ::
  "state_store option \<Rightarrow> danos_reconcile_config option \<Rightarrow> ('b, 'z) recon_scheme \<Rightarrow> int \<times> ('b, 'z) recon_scheme" where
  "danos_reconciler_init state config s =
     (if g_reconciler s \<noteq> None then (0, s)
      else
        (let (ok, s1) = malloc s
         in if \<not> ok then (- 1, s1)
            else (0, s1\<lparr>g_reconciler := Some \<lparr>rc_config = (case config of None \<Rightarrow> kDefaultConfig | Some c \<Rightarrow> c),
                   rc_state = state, rc_running = False, rc_stats = stats_zero\<rparr>\<rparr>)))"

definition danos_reconciler_stop :: "('b, 'z) recon_scheme \<Rightarrow> ('b, 'z) recon_scheme" where
  "danos_reconciler_stop s = (case g_reconciler s of None \<Rightarrow> s | Some g \<Rightarrow>
     if \<not> rc_running g then s else s\<lparr>g_reconciler := Some (g\<lparr>rc_running := False\<rparr>)\<rparr>)"

definition danos_reconciler_fini :: "('b, 'z) recon_scheme \<Rightarrow> ('b, 'z) recon_scheme" where
  "danos_reconciler_fini s = (case g_reconciler s of None \<Rightarrow> s | Some _ \<Rightarrow> (danos_reconciler_stop s)\<lparr>g_reconciler := None\<rparr>)"

definition diff_cb :: "danos_obj_type \<Rightarrow> u64 \<Rightarrow> unit \<Rightarrow> unit" where
  "diff_cb type oid user = ()"

text \<open>An update of the statistics under their lock.\<close>

definition add_stats ::
  "u64 \<Rightarrow> u64 \<Rightarrow> u64 \<Rightarrow> u64 \<Rightarrow> ('b, 'z) recon_scheme \<Rightarrow> ('b, 'z) recon_scheme" where
  "add_stats runs diffs repairs failures s =
     s\<lparr>g_reconciler := map_option (\<lambda>g. g\<lparr>rc_stats := (rc_stats g)\<lparr>total_runs := total_runs (rc_stats g) + runs,
        total_diffs := total_diffs (rc_stats g) + diffs, total_repairs := total_repairs (rc_stats g) + repairs,
        total_failures := total_failures (rc_stats g) + failures\<rparr>\<rparr>) (g_reconciler s)\<rparr>"

definition danos_reconciler_run_once :: "u64 \<Rightarrow> ('b, 'z) recon_scheme \<Rightarrow> u64 \<times> ('b, 'z) recon_scheme" where
  "danos_reconciler_run_once now s =
     (case g_reconciler s of
        None \<Rightarrow> (0, s)
      | Some g \<Rightarrow>
          (case rc_state g of
             None \<Rightarrow>
               (let ((ok, attempted, failed), s1) = danos_programming_run s
                in (ok, add_stats 0 0 attempted failed s1))
           | Some state \<Rightarrow>
               (let s1 = add_stats 1 0 0 0 s;
                    (diffs, _, s2) = danos_state_diff_desired_programmed s1 (Some state) (Some diff_cb) ();
                    ((_, attempted, failed), s3) = danos_programming_run s2;
                    s4 = add_stats 0 diffs attempted failed s3;
                    s5 = (if diffs > 0 \<and> g_event_bus s4 \<noteq> None
                          then s4\<lparr>g_event_bus := danos_event_publish (g_event_bus s4)
                                 (Some \<lparr>ev_type = EVENT_RECONCILE, ev_timestamp_ns = now, ev_obj_type = OBJ_INVALID, ev_obj_id = 0,
                                    ev_tx_id = 0, ev_message = Some ''reconcile repaired drift''\<rparr>)\<rparr>
                          else s4)
                in (diffs, s5))))"

text \<open>
  One iteration of the thread's loop after its 50 ms sleep: \<open>waited\<close> is the local counter, and the
  result is \<open>None\<close> when the loop ends.
\<close>

definition reconcile_tick ::
  "u64 \<Rightarrow> u64 \<times> ('b, 'z) recon_scheme \<Rightarrow> (u64 \<times> ('b, 'z) recon_scheme) option" where
  "reconcile_tick now u =
     (let (waited, s) = u
      in case g_reconciler s of
           None \<Rightarrow> None
         | Some g \<Rightarrow>
             if \<not> rc_running g then None
             else
               (let waited = waited + 50000;
                    (dirty, s1) = danos_programming_dirty_take s
                in if \<not> dirty \<and> waited < reconcile_period_ms (rc_config g) * 1000 then Some (waited, s1)
                   else Some (0, snd (danos_reconciler_run_once now s1))))"

fun reconcile_thread ::
  "u64 list \<Rightarrow> u64 \<times> ('b, 'z) recon_scheme \<Rightarrow> (u64 \<times> ('b, 'z) recon_scheme) option" where
  "reconcile_thread [] u = Some u"
| "reconcile_thread (now # ts) u = (case reconcile_tick now u of None \<Rightarrow> None | Some u' \<Rightarrow> reconcile_thread ts u')"

definition danos_reconciler_start :: "bool \<Rightarrow> ('b, 'z) recon_scheme \<Rightarrow> int \<times> ('b, 'z) recon_scheme" where
  "danos_reconciler_start thread_ok s =
     (case g_reconciler s of
        None \<Rightarrow> (- 1, s)
      | Some g \<Rightarrow>
          if rc_running g then (0, s)
          else if \<not> thread_ok then (- 1, s\<lparr>g_reconciler := Some (g\<lparr>rc_running := False\<rparr>)\<rparr>)
          else (0, s\<lparr>g_reconciler := Some (g\<lparr>rc_running := True\<rparr>)\<rparr>))"

definition danos_reconcile_trigger ::
  "u64 \<Rightarrow> danos_obj_type \<Rightarrow> ('b, 'z) recon_scheme \<Rightarrow> danos_status \<times> ('b, 'z) recon_scheme" where
  "danos_reconcile_trigger now type s =
     (let (diffs, s1) = danos_reconciler_run_once now s in (if diffs > 0 then DANOS_OK else DANOS_OK, s1))"

definition danos_reconcile_get_stats ::
  "danos_obj_type \<Rightarrow> danos_reconcile_stats option \<Rightarrow> ('b, 'z) recon_scheme \<Rightarrow> danos_status \<times> danos_reconcile_stats option" where
  "danos_reconcile_get_stats type out s =
     (case out of
        None \<Rightarrow> (ERR_INVALID_ARG, None)
      | Some _ \<Rightarrow> (case g_reconciler s of None \<Rightarrow> (DANOS_OK, Some stats_zero) | Some g \<Rightarrow> (DANOS_OK, Some (rc_stats g))))"

text \<open>An output pointer that is NULL stays NULL.\<close>

definition danos_reconciler_global_stats ::
  "u64 option \<Rightarrow> u64 option \<Rightarrow> u64 option \<Rightarrow> u64 option \<Rightarrow> ('b, 'z) recon_scheme
     \<Rightarrow> u64 option \<times> u64 option \<times> u64 option \<times> u64 option" where
  "danos_reconciler_global_stats runs diffs repairs failures s =
     (case g_reconciler s of
        None \<Rightarrow> (runs, diffs, repairs, failures)
      | Some g \<Rightarrow> (map_option (\<lambda>_. total_runs (rc_stats g)) runs, map_option (\<lambda>_. total_diffs (rc_stats g)) diffs,
                   map_option (\<lambda>_. total_repairs (rc_stats g)) repairs, map_option (\<lambda>_. total_failures (rc_stats g)) failures))"

subsection \<open>Frames\<close>

text \<open>What the pipeline depends on, apart from the allocation counter.\<close>

definition same_core :: "('b, 'z) prog_scheme \<Rightarrow> ('b, 'z) prog_scheme \<Rightarrow> bool" where
  "same_core s t \<longleftrightarrow>
     stores t = stores s \<and> next_addr t = next_addr s \<and> g_default_store t = g_default_store s \<and> mem_plan t = mem_plan s \<and>
     g_ops t = g_ops s \<and> backend t = backend s \<and> g_programmed t = g_programmed s"

lemma same_core_views:
  assumes "same_core s t"
  shows "pipe_ok t = pipe_ok s" "default_map t = default_map s" "ledger_map t = ledger_map s" "sizes_ok t = sizes_ok s"
    "out_of_sync t = out_of_sync s" "programmable t = programmable s" "desired t = desired s" "g_ops t = g_ops s" "backend t = backend s"
    "resolve_route_nh t r = resolve_route_nh s r"
proof -
  note f = assms [unfolded same_core_def]
  have m: "sys_map t = sys_map s" using f by (simp add: sys_map_def fun_eq_iff)
  show d: "default_map t = default_map s" using f by (simp add: default_map_def m split: option.split)
  show l: "ledger_map t = ledger_map s" using f by (simp add: ledger_map_def m split: option.split)
  show "pipe_ok t = pipe_ok s" using f by (simp add: pipe_ok_def stores_wf_def)
  show "sizes_ok t = sizes_ok s" by (simp add: sizes_ok_def d l)
  have r: "sys_read t so = sys_read s so" for so using f by (simp add: sys_read_def fun_eq_iff split: option.split)
  have "dep_digest t ty x = dep_digest s ty x" for ty x
    using f unfolding dep_digest_def by (simp only: r)
  then show "out_of_sync t = out_of_sync s" by (simp add: out_of_sync_def record_of_def d l)
  have "resolve_members t ids i n out = resolve_members s ids i n out" for ids i n out
    using f by (induction n arbitrary: i out) (simp_all add: r Let_def split: prod.split option.split danos_status.split)
  then have res: "resolve_route_nh t x = resolve_route_nh s x" for x
    using f unfolding resolve_route_nh_def by (simp only: r)
  then show "programmable t = programmable s" by (simp add: programmable_def fun_eq_iff)
  show "resolve_route_nh t r = resolve_route_nh s r" by (rule res)
  show "desired t = desired s" using f by (simp add: desired_def split: option.split)
  show "g_ops t = g_ops s" "backend t = backend s" using f by simp_all
qed

lemma same_core_refl [simp]: "same_core s s"
  by (simp add: same_core_def)

lemma same_core_trans: "same_core s t \<Longrightarrow> same_core t u \<Longrightarrow> same_core s u"
  by (simp add: same_core_def)

lemma same_core_updates [simp]:
  "same_core s (s\<lparr>g_dirty := b\<rparr>)" "same_core s (s\<lparr>mem_next := n\<rparr>)" "same_core s (s\<lparr>g_event_bus := eb\<rparr>)"
  "same_core s' (add_stats r d p f s')"
  by (simp_all add: same_core_def add_stats_def)

lemma diff_entry_frame: "\<exists>m. snd (diff_entry p e s) = s\<lparr>mem_next := m\<rparr>"
proof -
  have "snd (diff_entry p e s) \<in> {s, snd (malloc s)}"
    unfolding diff_entry_def Let_def case_prod_beta if_distrib [of snd] snd_conv by simp
  moreover have "s = s\<lparr>mem_next := mem_next s\<rparr>" by simp
  moreover have "snd (malloc s) = s\<lparr>mem_next := Suc (mem_next s)\<rparr>" by (simp add: malloc_def)
  ultimately show ?thesis by (metis insertE singletonD)
qed

lemma diff_frame: "\<exists>m. snd (snd (danos_state_diff_desired_programmed s ss cb u)) = s\<lparr>mem_next := m\<rparr>"
proof -
  have r: "\<exists>m. s = s\<lparr>mem_next := m\<rparr>" by (intro exI [of _ "mem_next s"]) simp
  have f: "\<exists>m. snd (snd (fold (\<lambda>e (n, u, s1).
      let (differs, s2) = diff_entry p e s1 in if differs then (n + 1, f (ent_type e) (ent_id e) u, s2) else (n, u, s2))
      es (n, u, s\<lparr>mem_next := m0\<rparr>))) = s\<lparr>mem_next := m\<rparr>" for p f es and n :: u64 and u m0
  proof (induction es arbitrary: n u m0)
    case (Cons e es)
    obtain b s2 where d: "diff_entry p e (s\<lparr>mem_next := m0\<rparr>) = (b, s2)" by fastforce
    then obtain m1 where "s2 = s\<lparr>mem_next := m1\<rparr>" using diff_entry_frame [of p e "s\<lparr>mem_next := m0\<rparr>"] by auto
    then show ?case using Cons.IH d by simp
  qed auto
  show ?thesis
    using r f [of _ _ _ _ _ "mem_next s"]
    by (auto simp: danos_state_diff_desired_programmed_def split: option.split)
qed

text \<open>The pipeline leaves the reconciler alone.\<close>

lemma object_ops_reconciler [simp]:
  "g_reconciler (snd (danos_object_create s a t i d)) = g_reconciler s"
  "g_reconciler (snd (danos_object_update s a t i d)) = g_reconciler s"
  "g_reconciler (snd (danos_object_delete s a t i)) = g_reconciler s"
  by (simp_all add: danos_object_create_def danos_object_update_def danos_object_delete_def malloc_def danos_persist_on_mutation_def
      danos_persist_log_op_def Let_def notify_event_def danos_programming_mark_dirty_def set_store_def
      split: option.split prod.split)

lemma snd_read_ledger: "snd (read_ledger s k n) = snd (ledger s)"
  unfolding read_ledger_def Let_def case_prod_beta by (simp split: danos_status.split option.split)

lemma stages_reconciler [simp]:
  "g_reconciler (snd (ledger s)) = g_reconciler s" "g_reconciler (snd (call_op f s)) = g_reconciler s"
  by (simp_all add: ledger_def call_op_def danos_object_store_create_def malloc_def Let_def case_prod_beta split: option.split)

lemma program_one_reconciler [simp]: "g_reconciler (snd (program_one ops t d s)) = g_reconciler s"
  by (simp add: program_one_def Let_def case_prod_beta)

lemma entry_reconciler: "g_reconciler (snd (program_entry ops e (c, s))) = g_reconciler s"
  by (simp add: program_entry_def snd_read_ledger addr_del_stage_def withdraw_stage_def record_stage_def Let_def case_prod_beta split: option.split)

lemma pass_reconciler: "g_reconciler (snd (fold (program_entry ops) es u)) = g_reconciler (snd u)"
proof (induction es arbitrary: u)
  case (Cons e es)
  then show ?case using entry_reconciler [of ops e "fst u" "snd u"] by simp
qed simp

lemma iterate_reconciler: "g_reconciler (snd (danos_object_iterate so (program_entry ops) u)) = g_reconciler (snd u)"
  by (cases so) (simp_all add: danos_object_iterate_entries pass_reconciler, simp add: danos_object_iterate_def)

lemma run_reconciler: "g_reconciler (snd (danos_programming_run s)) = g_reconciler s"
  by (auto simp: danos_programming_run_def iterate_reconciler Let_def case_prod_beta split: option.split)

subsection \<open>Runs that have nothing to do\<close>

lemma idle_entry:
  assumes "pipe_ok s" and "in_sync s e" and "length (ent_data e) \<le> 504" and "\<not> type_skipped (ent_type e)"
  shows "program_entry ops e (c, s) = (c, s)"
proof -
  obtain prev s1 where r: "read_ledger s (ent_key e) 512 = (prev, s1)" by fastforce
  have "ledger_map s (ent_key e) = Some (le64 (dep_digest s (ent_type e) (ent_data e)) @ ent_data e)"
    using assms(2) by (simp add: in_sync_def)
  then have "prev = Some (le64 (dep_digest s (ent_type e) (ent_data e)) @ ent_data e)" "g_programmed s \<noteq> None"
    using read_ledger_ok [OF assms(1) r] assms(3) by (simp, auto simp: ledger_map_def split: option.splits)
  moreover have "s1 = s"
    using snd_read_ledger [of s "ent_key e" 512] r \<open>g_programmed s \<noteq> None\<close> by (simp add: ledger_def)
  ultimately show ?thesis using assms(4) r by (simp add: program_entry_def)
qed

lemma idle_run:
  assumes "pipe_ok s" and "sizes_ok s" and "out_of_sync s = {}"
  shows "danos_programming_run s = ((0, 0, 0), s)"
proof -
  have e: "program_entry ops e (c, s) = (c, s)" if "e \<in> set (desired s)" for ops e c
    using that assms out_of_sync_desired [OF assms(1)] sizes_fit [OF assms(1,2) that] desired_not_skipped [OF that]
    by (auto simp: fits_def intro!: idle_entry)
  have f: "fold (program_entry ops) es (c, s) = (c, s)" if "set es \<subseteq> set (desired s)" for ops c es
    using that by (induction es) (simp_all add: e)
  obtain a st where st: "g_default_store s = Some a" "stores s a = Some st" using default_entries [OF assms(1)] by metis
  then have "desired s = filter (\<lambda>e. \<not> type_skipped (ent_type e)) (entries st)" by (simp add: desired_def)
  then have "danos_object_iterate (stores s a) (program_entry ops) (c, s) = (c, s)" for ops c
    using st f [of "desired s" ops c] by (simp add: danos_object_iterate_entries fold_skipped [of ops "entries st"])
  then show ?thesis using st by (simp add: danos_programming_run_def Let_def split: option.split)
qed

text \<open>A one-shot run is a run of the pipeline, between changes that the pipeline does not see.\<close>

definition around_run :: "('b, 'z) recon_scheme \<Rightarrow> ('b, 'z) recon_scheme \<Rightarrow> bool" where
  "around_run s t \<longleftrightarrow> (\<exists>s0 r s1. same_core s s0 \<and> g_dirty s0 = g_dirty s \<and> danos_programming_run s0 = (r, s1) \<and>
     same_core s1 t \<and> g_dirty t = g_dirty s1)"

definition same_mode :: "danos_reconciler \<Rightarrow> ('b, 'z) recon_scheme \<Rightarrow> bool" where
  "same_mode g t \<longleftrightarrow> (\<exists>g'. g_reconciler t = Some g' \<and> rc_config g' = rc_config g \<and> rc_running g' = rc_running g \<and> rc_state g' = rc_state g)"

lemma same_mode_updates [simp]:
  "same_mode g (s\<lparr>g_dirty := b\<rparr>) = same_mode g s" "same_mode g (s\<lparr>mem_next := n\<rparr>) = same_mode g s"
  "same_mode g (s\<lparr>g_event_bus := eb\<rparr>) = same_mode g s" "same_mode g (add_stats r d p f s) = same_mode g s"
  by (auto simp: same_mode_def add_stats_def)

lemma run_once_around:
  assumes "g_reconciler s = Some g"
  shows "around_run s (snd (danos_reconciler_run_once now s)) \<and> same_mode g (snd (danos_reconciler_run_once now s))"
proof (cases "rc_state g")
  case None
  obtain ok a f s1 where r: "danos_programming_run s = ((ok, a, f), s1)" by (metis surj_pair)
  have "same_mode g s1" using run_reconciler [of s] r assms by (simp add: same_mode_def)
  moreover have "around_run s (add_stats 0 0 a f s1)"
    unfolding around_run_def using r by (intro exI [of _ s] exI [of _ s1]) (simp add: add_stats_def same_core_def)
  ultimately show ?thesis using assms None r by (simp add: danos_reconciler_run_once_def)
next
  case (Some state)
  let ?s1 = "add_stats 1 0 0 0 s"
  obtain n u s2 where d: "danos_state_diff_desired_programmed ?s1 (Some state) (Some diff_cb) () = (n, u, s2)" by (metis surj_pair)
  then obtain m where m: "s2 = ?s1\<lparr>mem_next := m\<rparr>" using diff_frame [of ?s1 "Some state" "Some diff_cb" "()"] by auto
  obtain ok a f s3 where r: "danos_programming_run s2 = ((ok, a, f), s3)" by (metis surj_pair)
  have s: "same_core s s2" "g_dirty s2 = g_dirty s" by (simp_all add: m same_core_def add_stats_def)
  have "same_mode g s2" using assms by (simp add: m) (simp add: same_mode_def)
  then have g: "same_mode g s3" using run_reconciler [of s2] r by (simp add: same_mode_def)
  define s4 where "s4 = add_stats 0 n a f s3"
  have s4: "same_mode g s4" "same_core s3 s4" "g_dirty s4 = g_dirty s3"
    using g by (simp_all add: s4_def) (simp add: add_stats_def)
  have "\<exists>b. snd (danos_reconciler_run_once now s) = s4\<lparr>g_event_bus := b\<rparr>"
    using assms Some d r by (simp add: danos_reconciler_run_once_def Let_def s4_def [symmetric]) (metis sys.surjective sys.update_convs(4))
  then obtain b where t: "snd (danos_reconciler_run_once now s) = s4\<lparr>g_event_bus := b\<rparr>" ..
  have "same_core s3 (s4\<lparr>g_event_bus := b\<rparr>)" using s4(2) by (simp add: same_core_def)
  then show ?thesis using s s4 r unfolding around_run_def t by auto
qed

lemma around_idle:
  assumes "around_run s t" and "pipe_ok s" and "sizes_ok s" and "out_of_sync s = {}"
  shows "same_core s t" and "g_dirty t = g_dirty s"
proof -
  obtain s0 r s1 where a: "same_core s s0" "g_dirty s0 = g_dirty s" "danos_programming_run s0 = (r, s1)"
    "same_core s1 t" "g_dirty t = g_dirty s1" using assms(1) by (auto simp: around_run_def)
  have "danos_programming_run s0 = ((0, 0, 0), s0)"
    by (rule idle_run) (simp_all add: same_core_views [OF a(1)] assms)
  then show "same_core s t" "g_dirty t = g_dirty s" using a same_core_trans by auto
qed

lemma around_converges:
  assumes "around_run s t" and "pipe_ok s" and "g_ops s = Some ops" and "accepts ops" and "sizes_ok s"
    and "\<forall>k d. default_map s k = Some d \<and> \<not> type_skipped (fst k) \<longrightarrow> programmable s (fst k) d"
  shows "out_of_sync t = {} \<and> default_map t = default_map s \<and> pipe_ok t \<and> sizes_ok t \<and> g_ops t = Some ops"
proof -
  obtain s0 ok n f s1 where a: "same_core s s0" "danos_programming_run s0 = ((ok, n, f), s1)" "same_core s1 t"
    using assms(1) unfolding around_run_def by (metis surj_pair)
  note v = same_core_views [OF a(1)]
  have o: "pipe_ok s0" "g_ops s0 = Some ops" "sizes_ok s0" by (simp_all add: v assms)
  obtain a' g' f' where p: "pass_ok ops (desired s0) s0 s1 a' g' f'"
    using run_pass [OF o a(2)] by blast
  have "\<forall>k d. default_map s0 k = Some d \<and> \<not> type_skipped (fst k) \<longrightarrow> programmable s0 (fst k) d" using assms(6) by (simp add: v)
  note c = pass_converges(3) [OF p o(1) assms(4) this] run_keeps(2) [OF p o(1)]
  have "pipe_ok s1" "g_ops s1 = Some ops" "sizes_ok s1"
    using run_keeps [OF p o(1)] sizes_after [OF o(1,3) p c(1)] o(2) by simp_all
  then show ?thesis using c by (simp add: same_core_views [OF a(3)] v)
qed

subsection \<open>The thread\<close>

definition period_us :: "danos_reconciler \<Rightarrow> u64" where
  "period_us g = reconcile_period_ms (rc_config g) * 1000"

text \<open>A running reconciler over a pipeline whose backend accepts every desired object.\<close>

definition recon_ready :: "'b backend_ops \<Rightarrow> u64 \<Rightarrow> ('b, 'z) recon_scheme \<Rightarrow> bool" where
  "recon_ready ops p s \<longleftrightarrow>
     pipe_ok s \<and> g_ops s = Some ops \<and> accepts ops \<and> sizes_ok s \<and>
     (\<forall>k d. default_map s k = Some d \<and> \<not> type_skipped (fst k) \<longrightarrow> programmable s (fst k) d) \<and>
     (\<exists>g. g_reconciler s = Some g \<and> rc_running g \<and> period_us g = p)"

lemma ready_core: "same_core s t \<Longrightarrow> g_reconciler s = Some g \<Longrightarrow> same_mode g t \<Longrightarrow> recon_ready ops p s \<Longrightarrow> recon_ready ops p t"
  by (auto simp: recon_ready_def same_core_views same_mode_def period_us_def)

lemma tick_run:
  assumes "recon_ready ops p s" and "g_dirty s \<or> \<not> w + 50000 < p"
  obtains s' where "reconcile_tick now (w, s) = Some (0, s')" "around_run (s\<lparr>g_dirty := False\<rparr>) s'" "recon_ready ops p s'"
    "out_of_sync s' = {}" "default_map s' = default_map s"
proof -
  obtain g where g: "g_reconciler s = Some g" "rc_running g" "period_us g = p" using assms(1) by (auto simp: recon_ready_def)
  let ?s = "s\<lparr>g_dirty := False\<rparr>"
  let ?t = "snd (danos_reconciler_run_once now ?s)"
  have t: "reconcile_tick now (w, s) = Some (0, ?t)"
    using assms(2) g by (auto simp: reconcile_tick_def danos_programming_dirty_take_def Let_def period_us_def)
  have g': "g_reconciler ?s = Some g" using g(1) by simp
  note a = run_once_around [OF g', of now]
  note v = same_core_views [of s ?s, OF same_core_updates(1)]
  have r: "recon_ready ops p ?s" by (rule ready_core [OF same_core_updates(1) g(1) _ assms(1)]) (use g(1) in \<open>simp add: same_mode_def\<close>)
  have c: "out_of_sync ?t = {} \<and> default_map ?t = default_map ?s \<and> pipe_ok ?t \<and> sizes_ok ?t \<and> g_ops ?t = Some ops"
    using r by (intro around_converges [OF conjunct1 [OF a]]) (simp_all add: recon_ready_def)
  have "programmable ?t = programmable ?s"
  proof -
    obtain s0 x s1 where b: "same_core ?s s0" "danos_programming_run s0 = (x, s1)" "same_core s1 ?t"
      using a by (auto simp: around_run_def)
    have o: "pipe_ok s0" "g_ops s0 = Some ops" "sizes_ok s0"
      using r by (simp_all add: same_core_views [OF b(1)] recon_ready_def)
    obtain ok n f where x: "x = (ok, n, f)" by (metis surj_pair)
    obtain a' g' f' where "pass_ok ops (desired s0) s0 s1 a' g' f'" using run_pass [OF o b(2) [unfolded x]] by blast
    then have "keeps s0 s1" by (simp add: pass_ok_def)
    then have "programmable s1 = programmable s0" by (simp add: programmable_keeps [OF o(1)] fun_eq_iff)
    then show ?thesis by (simp add: same_core_views [OF b(1)] same_core_views [OF b(3)])
  qed
  then have "recon_ready ops p ?t"
    using r c a g' by (auto simp: recon_ready_def same_mode_def period_us_def)
  then show ?thesis using that [OF t] a c v by simp
qed

lemma tick_quiet:
  assumes "recon_ready ops p s" and "\<not> g_dirty s" and "w + 50000 < p"
  shows "reconcile_tick now (w, s) = Some (w + 50000, s)"
proof -
  have "s\<lparr>g_dirty := False\<rparr> = s" using assms(2) by (cases s) simp
  then show ?thesis
    using assms by (auto simp: recon_ready_def reconcile_tick_def danos_programming_dirty_take_def Let_def period_us_def)
qed

lemma quiet_thread:
  assumes "recon_ready ops p s" and "\<not> g_dirty s" and "unat w + 50000 * length ts < unat p"
  shows "reconcile_thread ts (w, s) = Some (w + of_nat (50000 * length ts), s)"
  using assms(3)
proof (induction ts arbitrary: w)
  case (Cons t ts)
  have "unat p < 2 ^ 64" using unsigned_less [of p] by simp
  then have "unat w + 50000 < 2 ^ 64" using Cons.prems by simp
  then have u: "unat (w + 50000) = unat w + 50000" by (simp add: unat_word_ariths)
  then have "w + 50000 < p" using Cons.prems by (simp add: word_less_nat_alt)
  then show ?case
    using Cons.IH [of "w + 50000"] Cons.prems tick_quiet [OF assms(1,2)] by (simp add: u algebra_simps)
qed simp

lemma thread_syncs:
  assumes "recon_ready ops p s" and "(g_dirty s \<or> unat p \<le> unat w + 50000 * length ts) \<and> ts \<noteq> [] \<or> out_of_sync s = {}"
    and "unat p < 2 ^ 64 - 50000" and "w \<le> p"
  shows "\<exists>w' s'. reconcile_thread ts (w, s) = Some (w', s') \<and> recon_ready ops p s' \<and> out_of_sync s' = {} \<and>
    default_map s' = default_map s"
  using assms(1,2,4)
proof (induction ts arbitrary: w s)
  case (Cons t ts)
  show ?case
  proof (cases "g_dirty s \<or> \<not> w + 50000 < p")
    case True
    obtain s' where s': "reconcile_tick t (w, s) = Some (0, s')" "recon_ready ops p s'" "out_of_sync s' = {}" "default_map s' = default_map s"
      by (rule tick_run [OF Cons.prems(1) True])
    then show ?thesis using Cons.IH [OF s'(2), of 0] by simp
  next
    case False
    have "unat w + 50000 < 2 ^ 64" using Cons.prems(3) assms(3) by (simp add: word_le_nat_alt)
    then have u: "unat (w + 50000) = unat w + 50000" by (simp add: unat_word_ariths)
    then have "w + 50000 \<le> p" "unat w + 50000 < unat p" using False by (simp_all add: word_less_nat_alt word_le_nat_alt)
    moreover from this(2) have "ts \<noteq> []" if "unat p \<le> unat w + 50000 * length (t # ts)" using that by auto
    ultimately show ?thesis
      using Cons.IH [OF Cons.prems(1), of "w + 50000"] Cons.prems(2) False tick_quiet [OF Cons.prems(1)] by (auto simp: u)
  qed
qed auto

subsection \<open>Properties\<close>

text \<open>
  C4: The reconciler thread settles. Let the reconciler run over a backend that accepts every desired
  object, and let a change have marked the desired state dirty. The next tick of the thread programs
  everything; the tick after it calls the backend no more and leaves the ledger as it is; and from
  then on the ticks of one period do nothing at all. Without a change the same is programmed at the
  latest when the period is over, whatever was out of step.
\<close>

theorem reconciler_settles:
  assumes "recon_ready ops p s" and "w \<le> p" and "unat p < 2 ^ 64 - 50000"
  shows "(g_dirty s \<longrightarrow>
      (\<exists>s1 w2 s2. reconcile_thread [t1] (w, s) = Some (0, s1) \<and> out_of_sync s1 = {} \<and> default_map s1 = default_map s \<and>
         reconcile_thread [t1, t2] (w, s) = Some (w2, s2) \<and> backend s2 = backend s1 \<and> ledger_map s2 = ledger_map s1 \<and>
         (\<forall>ts. 50000 * (length ts + 1) < unat p \<longrightarrow>
            reconcile_thread ts (w2, s2) = Some (w2 + of_nat (50000 * length ts), s2)))) \<and>
    (unat p \<le> unat w + 50000 * length ts \<and> ts \<noteq> [] \<longrightarrow>
      (\<exists>w' s'. reconcile_thread ts (w, s) = Some (w', s') \<and> out_of_sync s' = {} \<and> default_map s' = default_map s))"
proof (intro conjI impI)
  assume "g_dirty s"
  then obtain s1 where s1: "reconcile_tick t1 (w, s) = Some (0, s1)" "recon_ready ops p s1" "out_of_sync s1 = {}"
    "default_map s1 = default_map s" using tick_run [OF assms(1)] by metis
  have "\<exists>w2 s2. reconcile_tick t2 (0, s1) = Some (w2, s2) \<and> same_core s1 s2 \<and> \<not> g_dirty s2 \<and> recon_ready ops p s2 \<and> unat w2 \<le> 50000"
  proof (cases "g_dirty s1 \<or> \<not> 0 + 50000 < p")
    case True
    obtain s2 where s2: "reconcile_tick t2 (0, s1) = Some (0, s2)" "around_run (s1\<lparr>g_dirty := False\<rparr>) s2" "recon_ready ops p s2"
      by (rule tick_run [OF s1(2) True])
    note v = same_core_views [of s1 "s1\<lparr>g_dirty := False\<rparr>", OF same_core_updates(1)]
    have "same_core (s1\<lparr>g_dirty := False\<rparr>) s2" "\<not> g_dirty s2"
      using around_idle [OF s2(2)] s1(2,3) by (simp_all add: v recon_ready_def)
    then show ?thesis using s2 same_core_trans [OF same_core_updates(1)] by (intro exI [of _ 0] exI [of _ s2]) auto
  next
    case False
    then show ?thesis using tick_quiet [OF s1(2), of 0] s1(2) by (intro exI [of _ 50000] exI [of _ s1]) simp
  qed
  then obtain w2 s2 where s2: "reconcile_tick t2 (0, s1) = Some (w2, s2)" "same_core s1 s2" "\<not> g_dirty s2" "recon_ready ops p s2"
    "unat w2 \<le> 50000" by blast
  have "reconcile_thread ts (w2, s2) = Some (w2 + of_nat (50000 * length ts), s2)" if "50000 * (length ts + 1) < unat p" for ts
    by (rule quiet_thread [OF s2(4,3)]) (use that s2(5) in simp)
  then show "\<exists>s1 w2 s2. reconcile_thread [t1] (w, s) = Some (0, s1) \<and> out_of_sync s1 = {} \<and> default_map s1 = default_map s \<and>
      reconcile_thread [t1, t2] (w, s) = Some (w2, s2) \<and> backend s2 = backend s1 \<and> ledger_map s2 = ledger_map s1 \<and>
      (\<forall>ts. 50000 * (length ts + 1) < unat p \<longrightarrow> reconcile_thread ts (w2, s2) = Some (w2 + of_nat (50000 * length ts), s2))"
    using s1 s2(1) same_core_views [OF s2(2)] by (intro exI [of _ s1] exI [of _ w2] exI [of _ s2]) simp
next
  assume "unat p \<le> unat w + 50000 * length ts \<and> ts \<noteq> []"
  then show "\<exists>w' s'. reconcile_thread ts (w, s) = Some (w', s') \<and> out_of_sync s' = {} \<and> default_map s' = default_map s"
    using thread_syncs [OF assms(1) _ assms(3,2), of ts] by blast
qed

definition sample_recon :: "nat prog \<Rightarrow> nat recon" where
  "sample_recon s = prog.extend s (recon.fields (Some \<lparr>rc_config = kDefaultConfig, rc_state = None, rc_running = True, rc_stats = stats_zero\<rparr>))"

lemma sample_recon_fields:
  "stores (sample_recon s) = stores s" "next_addr (sample_recon s) = next_addr s" "g_default_store (sample_recon s) = g_default_store s"
  "mem_plan (sample_recon s) = mem_plan s" "g_ops (sample_recon s) = g_ops s" "backend (sample_recon s) = backend s"
  "g_programmed (sample_recon s) = g_programmed s"
  "g_reconciler (sample_recon s) = Some \<lparr>rc_config = kDefaultConfig, rc_state = None, rc_running = True, rc_stats = stats_zero\<rparr>"
  by (simp_all add: sample_recon_def prog.defs recon.defs)

theorem reconciler_settles_witness:
  "\<exists>(s :: nat recon) w' s'. default_map s = [(OBJ_VRF, 5) \<mapsto> replicate 72 0] \<and> out_of_sync s \<noteq> {} \<and>
     reconcile_thread (replicate 600 0) (0, s) = Some (w', s') \<and> out_of_sync s' = {} \<and>
     reconcile_thread [1] (0, s\<lparr>g_dirty := True\<rparr>) \<noteq> None"
proof -
  obtain s :: "nat prog" where s: "pipe_ok s" "g_ops s = Some sample_ops"
    "default_map s = [(OBJ_VRF, 5) \<mapsto> replicate 72 0]" "ledger_map s = Map.empty"
    using sample_desired [of "replicate 72 0" OBJ_VRF 5] by auto
  let ?s = "sample_recon s"
  have m: "default_map ?s = [(OBJ_VRF, 5) \<mapsto> replicate 72 0]" "ledger_map ?s = Map.empty"
    using s(3,4) by (simp_all add: default_map_def ledger_map_def sys_map_def sample_recon_fields cong: option.case_cong)
  have p: "pipe_ok ?s" using s(1) by (simp add: pipe_ok_def stores_wf_def sample_recon_fields)
  have sz: "sizes_ok ?s" using m by (simp add: sizes_ok_def)
  have r: "recon_ready sample_ops 30000000 ?s"
    unfolding recon_ready_def using p sz s(2) sample_ops_accepts m
    by (simp add: sample_recon_fields programmable_def period_us_def kDefaultConfig_def)
  have r': "recon_ready sample_ops 30000000 (?s\<lparr>g_dirty := True\<rparr>)"
    by (rule ready_core [OF same_core_updates(1) sample_recon_fields(8) _ r]) (simp_all add: sample_recon_fields same_mode_def)
  have "out_of_sync ?s = {(OBJ_VRF, 5)}" using m by (auto simp: out_of_sync_def type_skipped_def split: if_splits)
  moreover have "\<exists>w' s'. reconcile_thread (replicate 600 0) (0, ?s) = Some (w', s') \<and> out_of_sync s' = {}"
    using conjunct2 [OF reconciler_settles [OF r, of 0 0 0 "replicate 600 0"]] by auto
  moreover have "reconcile_thread [1] (0, ?s\<lparr>g_dirty := True\<rparr>) \<noteq> None"
    using conjunct1 [OF reconciler_settles [OF r', of 0 1 1 "[]"]] by auto
  ultimately show ?thesis using m(1) by (intro exI [of _ ?s]) auto
qed

end
