(* ===== verification/Route_Path.thy ===== *)
theory Route_Path
  imports Zapi_Install Reconciler
begin

text \<open>
  The way of a route from a zebra message to the backend: what the zebra mapper leaves alone of the
  core's state, that new objects do not disturb the resolution of old routes, and that a run of the
  pipeline calls the backend for a route that is not in the ledger. The mapper's state and the
  pipeline's extend the core's state \<open>sys\<close> separately; \<open>fib_part\<close> and \<open>core_part\<close> move the shared
  part between them.
\<close>

declare split_paired_All [simp del] split_paired_Ex [simp del]

subsection \<open>What the backend is told\<close>

text \<open>A fact about the backend's state that none of its operations undoes.\<close>

definition keeps_told :: "'b backend_ops \<Rightarrow> ('b \<Rightarrow> bool) \<Rightarrow> bool" where
  "keeps_told ops P \<longleftrightarrow>
     (\<forall>f i up b. bo_iface_up ops = Some f \<and> P b \<longrightarrow> P (snd (f i up b))) \<and>
     (\<forall>f i b. bo_iface_addr_set ops = Some f \<and> P b \<longrightarrow> P (snd (f i b))) \<and>
     (\<forall>f i b. bo_iface_addr_del ops = Some f \<and> P b \<longrightarrow> P (snd (f i b))) \<and>
     (\<forall>f r b. bo_route_add ops = Some f \<and> P b \<longrightarrow> P (snd (f r b))) \<and>
     (\<forall>f r b. bo_route_del ops = Some f \<and> P b \<longrightarrow> P (snd (f r b))) \<and>
     (\<forall>f v b. bo_vrf_add ops = Some f \<and> P b \<longrightarrow> P (snd (f v b)))"

lemma object_ops_backend [simp]:
  "backend (snd (danos_object_create s a t i d)) = backend s"
  "backend (snd (danos_object_update s a t i d)) = backend s"
  "backend (snd (danos_object_delete s a t i)) = backend s"
  by (simp_all add: danos_object_create_def danos_object_update_def danos_object_delete_def malloc_def danos_persist_on_mutation_def
      danos_persist_log_op_def Let_def notify_event_def danos_programming_mark_dirty_def set_store_def
      split: option.split prod.split)

lemma ledger_backend [simp]: "backend (snd (ledger s)) = backend s"
  by (simp add: ledger_def danos_object_store_create_def malloc_def Let_def case_prod_beta)

lemma record_backend [simp]: "backend (record_stage e dep prev s) = backend s"
  by (simp add: record_stage_def Let_def case_prod_beta)

lemma told_stages:
  assumes "keeps_told ops P" and "P (backend s)"
  shows "P (backend (snd (addr_del_stage ops e prev s)))" and "P (backend (snd (withdraw_stage ops e st prev s)))"
    and "P (backend (snd (program_one ops t d s)))"
proof -
  show "P (backend (snd (addr_del_stage ops e prev s)))"
    using assms by (simp add: addr_del_stage_def Let_def backend_call_op keeps_told_def split: option.split)
  show "P (backend (snd (withdraw_stage ops e st prev s)))"
    using assms by (simp add: withdraw_stage_def Let_def case_prod_beta backend_call_op keeps_told_def split: option.split)
  show "P (backend (snd (program_one ops t d s)))"
    using assms by (simp add: program_one_def Let_def case_prod_beta backend_call_op keeps_told_def split: option.split)
qed

lemma told_entry:
  assumes "keeps_told ops P" and "P (backend s)"
  shows "P (backend (snd (program_entry ops e (c, s))))"
proof -
  define prev s1 where "prev = fst (read_ledger s (ent_key e) 512)" and "s1 = snd (read_ledger s (ent_key e) 512)"
  have "P (backend s1)" using assms(2) by (simp add: s1_def snd_read_ledger)
  note t = told_stages [OF assms(1)]
  show ?thesis
    using \<open>P (backend s1)\<close> assms(2)
    by (simp add: program_entry_def Let_def case_prod_beta prev_def [symmetric] s1_def [symmetric] t)
qed

lemma told_fold:
  assumes "keeps_told ops P" and "P (backend (snd u))"
  shows "P (backend (snd (fold (program_entry ops) es u)))"
  using assms(2)
proof (induction es arbitrary: u)
  case (Cons e es)
  then show ?case using told_entry [OF assms(1), of "snd u" e "fst u"] by simp
qed simp

lemma told_route:
  assumes "pipe_ok s" and "fits s e" and "ent_type e = OBJ_ROUTE" and "length (ent_data e) \<ge> 56" and "\<not> in_sync s e"
    and "resolve_route_nh s (dec_route (ent_data e)) = (DANOS_OK, rr)" and "bo_route_add ops = Some f"
    and "\<forall>b. fst (f rr b) = DANOS_OK \<and> P (snd (f rr b))"
  shows "P (backend (snd (program_entry ops e (c, s))))"
proof -
  obtain prev s1 where r: "read_ledger s (ent_key e) 512 = (prev, s1)" by fastforce
  have prev: "prev = ledger_map s (ent_key e)" and k1: "keeps s s1"
    using read_ledger_ok [OF assms(1) r] assms(2) by (auto simp: fits_def split: option.splits)
  have ns: "\<not> type_skipped (ent_type e)" by (simp add: type_skipped_def assms(3))
  have np: "prev \<noteq> Some (le64 (dep_digest s (ent_type e) (ent_data e)) @ ent_data e)" using assms(5) prev by (simp add: in_sync_def)
  have ad: "addr_del_stage ops e prev s1 = (DANOS_OK, s1)" by (simp add: addr_del_stage_def assms(3) split: option.split)
  have rs: "resolve_route_nh s1 (dec_route (ent_data e)) = (DANOS_OK, rr)" using resolve_keeps [OF assms(1) k1] assms(6) by simp
  then have nz: "\<not> (nhgroup_id (dec_route (ent_data e)) = 0 \<and> rt_flags (dec_route (ent_data e)) AND DANOS_ROUTE_FLAG_BLACKHOLE = 0)"
    by (auto simp: resolve_route_nh_def)
  have "program_one ops (ent_type e) (ent_data e) s1 = call_op (Some (f rr)) s1"
    using assms(3,4,7) rs nz by (auto simp: program_one_def Let_def)
  moreover have "fst (call_op (Some (f rr)) s1) = DANOS_OK" by (simp add: fst_call_op assms(8))
  moreover have "P (backend (snd (call_op (Some (f rr)) s1)))" by (simp add: backend_call_op assms(8))
  ultimately show ?thesis using ns r np ad by (simp add: program_entry_def Let_def case_prod_beta)
qed

lemma told_pass:
  assumes kt: "keeps_told ops P" and "pipe_ok s" and "distinct (map ent_key es)" and "\<forall>e\<in>set es. \<not> type_skipped (ent_type e) \<and> fits s e"
    and "e \<in> set es" and e: "ent_type e = OBJ_ROUTE" "length (ent_data e) \<ge> 56" and "\<not> in_sync s e"
    and "resolve_route_nh s (dec_route (ent_data e)) = (DANOS_OK, rr)" and f: "bo_route_add ops = Some f"
    and P: "\<forall>b. fst (f rr b) = DANOS_OK \<and> P (snd (f rr b))"
  shows "P (backend (snd (fold (program_entry ops) es (c, s))))"
  using assms(2-5,8,9)
proof (induction es arbitrary: c s)
  case (Cons e' es)
  obtain c1 s1 where p: "program_entry ops e' (c, s) = (c1, s1)" by fastforce
  have st: "entry_step ops e' c s c1 s1" using Cons.prems by (intro program_entry_step [OF _ _ _ p]) auto
  then have k: "keeps s s1" and other: "\<And>k. k \<noteq> ent_key e' \<Longrightarrow> ledger_map s1 k = ledger_map s k"
    by (auto simp: entry_step_def)
  show ?case
  proof (cases "e' = e")
    case True
    then have "P (backend s1)" using told_route [OF Cons.prems(1) _ e Cons.prems(5,6) f P, of c] Cons.prems(3) p by simp
    then show ?thesis using told_fold [OF kt, of "(c1, s1)" es] p by simp
  next
    case False
    have ne: "ent_key x \<noteq> ent_key e'" if "x \<in> set es" for x using Cons.prems(2) that by (metis distinct.simps(2) image_eqI list.map(2) list.set_map)
    have fits: "\<forall>x\<in>set es. \<not> type_skipped (ent_type x) \<and> fits s1 x" using Cons.prems(3) ne other by (auto simp: fits_def)
    have e1: "e \<in> set es" using Cons.prems(4) False by simp
    have "\<not> in_sync s1 e" using in_sync_keeps [OF Cons.prems(1) k] other ne [OF e1] Cons.prems(5) by simp
    then show ?thesis
      using Cons.IH [OF keeps_ok [OF k] _ fits e1, of c1] Cons.prems(2,6) resolve_keeps [OF Cons.prems(1) k] p by simp
  qed
qed simp

lemma told_run:
  assumes "keeps_told ops P" and "pipe_ok s" and "sizes_ok s" and "g_ops s = Some ops"
    and "default_map s (OBJ_ROUTE, i) = Some d" and "length d \<ge> 56" and "(OBJ_ROUTE, i) \<in> out_of_sync s"
    and "resolve_route_nh s (dec_route d) = (DANOS_OK, rr)" and "bo_route_add ops = Some f"
    and "\<forall>b. fst (f rr b) = DANOS_OK \<and> P (snd (f rr b))"
  shows "P (backend (snd (danos_programming_run s)))"
proof -
  obtain x st where st: "g_default_store s = Some x" "stores s x = Some st" using default_entries [OF assms(2)] by metis
  obtain e where e: "e \<in> set (desired s)" "ent_key e = (OBJ_ROUTE, i)" "ent_data e = d"
    using desired_iff [OF assms(2), of "(OBJ_ROUTE, i)" d] assms(5) by (auto simp: type_skipped_def)
  have ty: "ent_type e = OBJ_ROUTE" using e(2) by (simp add: ent_key_def)
  have ns: "\<not> in_sync s e"
    using assms(7) e(2,3) ty assms(5) by (auto simp: out_of_sync_def in_sync_def record_of_def)
  have fits: "\<forall>e\<in>set (desired s). \<not> type_skipped (ent_type e) \<and> fits s e"
    using sizes_fit [OF assms(2,3)] desired_not_skipped by blast
  have "P (backend (snd (fold (program_entry ops) (desired s) (\<lparr>pc_attempted = 0, pc_ok = 0, pc_failed = 0\<rparr>, s))))"
    by (rule told_pass [OF assms(1,2) desired_distinct [OF assms(2)] fits e(1) ty _ ns _ assms(9,10)]) (simp_all add: e(3) assms(6,8))
  moreover have "desired s = filter (\<lambda>e. \<not> type_skipped (ent_type e)) (entries st)" using st by (simp add: desired_def)
  ultimately show ?thesis
    using st assms(4) by (simp add: danos_programming_run_def danos_object_iterate_entries fold_skipped [of ops "entries st"] Let_def case_prod_beta)
qed

subsection \<open>Resolution\<close>

lemma resolve_members_all:
  assumes "\<forall>j < n. \<exists>x. sys_read s (g_default_store s) OBJ_NEXTHOP (ids ! (i + j)) 56 = (DANOS_OK, Some (d (i + j)), x)"
    and "i + n \<le> length (rr_nh_gw out)" and "i + n \<le> length (rr_nh_oif out)"
  shows "\<exists>out'. resolve_members s ids i n out = (DANOS_OK, out') \<and> rr_route out' = rr_route out \<and> rr_nh_count out' = rr_nh_count out \<and>
    (\<forall>j < i. rr_nh_gw out' ! j = rr_nh_gw out ! j \<and> rr_nh_oif out' ! j = rr_nh_oif out ! j) \<and>
    (\<forall>j. i \<le> j \<and> j < i + n \<longrightarrow> rr_nh_oif out' ! j = nh_ifindex (dec_nexthop (d j)) \<and>
       rr_nh_gw out' ! j = overlay (take (if af (gateway (dec_nexthop (d j))) = DANOS_AF_IPV6 then 16 else 4)
         (addr (gateway (dec_nexthop (d j))))) (rr_nh_gw out ! j))"
  using assms
proof (induction n arbitrary: i out)
  case (Suc n)
  let ?m = "dec_nexthop (d i)"
  let ?g = "\<lambda>j. overlay (take (if af (gateway (dec_nexthop (d j))) = DANOS_AF_IPV6 then 16 else 4)
      (addr (gateway (dec_nexthop (d j))))) (rr_nh_gw out ! j)"
  let ?o = "out\<lparr>rr_nh_gw := (rr_nh_gw out)[i := ?g i], rr_nh_oif := (rr_nh_oif out)[i := nh_ifindex ?m]\<rparr>"
  obtain x where x: "sys_read s (g_default_store s) OBJ_NEXTHOP (ids ! i) 56 = (DANOS_OK, Some (d i), x)"
    using Suc.prems(1) by (metis add_0_right zero_less_Suc)
  have r: "\<forall>j < n. \<exists>x. sys_read s (g_default_store s) OBJ_NEXTHOP (ids ! (Suc i + j)) 56 = (DANOS_OK, Some (d (Suc i + j)), x)"
    using Suc.prems(1) by (metis Suc_mono add_Suc_shift)
  have l: "i < length (rr_nh_gw out)" "i < length (rr_nh_oif out)" using Suc.prems(2,3) by simp_all
  obtain out' where o: "resolve_members s ids (Suc i) n ?o = (DANOS_OK, out')" "rr_route out' = rr_route out" "rr_nh_count out' = rr_nh_count out"
    "\<And>j. j < Suc i \<Longrightarrow> rr_nh_gw out' ! j = rr_nh_gw ?o ! j \<and> rr_nh_oif out' ! j = rr_nh_oif ?o ! j"
    "\<And>j. Suc i \<le> j \<Longrightarrow> j < Suc i + n \<Longrightarrow> rr_nh_oif out' ! j = nh_ifindex (dec_nexthop (d j)) \<and> rr_nh_gw out' ! j = ?g j"
    using Suc.IH [OF r, of ?o] Suc.prems(2,3) by auto
  have s: "resolve_members s ids i (Suc n) out = resolve_members s ids (Suc i) n ?o" using x by (simp add: Let_def)
  have "rr_nh_oif out' ! j = nh_ifindex (dec_nexthop (d j)) \<and> rr_nh_gw out' ! j = ?g j" if "i \<le> j" "j < i + Suc n" for j
    using o(4) [of i] o(5) [of j] that l by (cases "j = i") auto
  moreover have "rr_nh_gw out' ! j = rr_nh_gw out ! j \<and> rr_nh_oif out' ! j = rr_nh_oif out ! j" if "j < i" for j
    using o(4) [of j] that by simp
  ultimately show ?case unfolding s using o(1-3) by blast
qed auto

lemma sys_read_mono:
  assumes "pipe_ok s" and "pipe_ok t" and "default_map s \<subseteq>\<^sub>m default_map t"
    and "sys_read s (g_default_store s) ty i n = (DANOS_OK, Some d, x)"
  shows "sys_read t (g_default_store t) ty i n = (DANOS_OK, Some d, x)"
  using assms(3,4) unfolding sys_read_default [OF assms(1)] sys_read_default [OF assms(2)]
  by (auto simp: map_le_def domI split: option.splits if_splits) (metis domI option.inject)+

lemma resolve_members_mono:
  assumes "pipe_ok s" and "pipe_ok t" and "default_map s \<subseteq>\<^sub>m default_map t" and "resolve_members s ids i n out = (DANOS_OK, out')"
  shows "resolve_members t ids i n out = (DANOS_OK, out')"
  using assms(4)
proof (induction n arbitrary: i out)
  case (Suc n)
  obtain st d x where r: "sys_read s (g_default_store s) OBJ_NEXTHOP (ids ! i) 56 = (st, d, x)" by (metis surj_pair)
  then have "st = DANOS_OK" "d \<noteq> None" using Suc.prems by (auto split: danos_status.splits option.splits)
  then obtain b where b: "sys_read s (g_default_store s) OBJ_NEXTHOP (ids ! i) 56 = (DANOS_OK, Some b, x)" using r by auto
  then show ?case using Suc.prems sys_read_mono [OF assms(1-3) b] Suc.IH by (simp add: Let_def)
qed simp

lemma resolve_mono:
  fixes s t :: "('b, 'z) prog_scheme"
  assumes "pipe_ok s" and "pipe_ok t" and "default_map s \<subseteq>\<^sub>m default_map t" and "fst (resolve_route_nh s r) = DANOS_OK"
  shows "fst (resolve_route_nh t r) = DANOS_OK"
proof (cases "rt_flags r AND DANOS_ROUTE_FLAG_BLACKHOLE = 0 \<and> nhgroup_id r \<noteq> 0")
  case True
  obtain st g x where g: "sys_read s (g_default_store s) OBJ_NHGROUP (nhgroup_id r) 536 = (st, g, x)" by (metis surj_pair)
  then have "st = DANOS_OK" "g \<noteq> None" using assms(4) True by (auto simp: resolve_route_nh_def Let_def split: danos_status.splits option.splits)
  then obtain b where b: "sys_read s (g_default_store s) OBJ_NHGROUP (nhgroup_id r) 536 = (DANOS_OK, Some b, x)" using g by auto
  let ?g = "dec_nhgroup b"
  have n0: "nh_count ?g \<noteq> 0" using assms(4) True b by (auto simp: resolve_route_nh_def Let_def)
  obtain st h y where h: "sys_read s (g_default_store s) OBJ_NEXTHOP (nh_ids ?g ! 0) 56 = (st, h, y)" by (metis surj_pair)
  then have "st = DANOS_OK" "h \<noteq> None"
    using assms(4) True b n0 by (auto simp: resolve_route_nh_def Let_def split: danos_status.splits option.splits)
  then obtain c where c: "sys_read s (g_default_store s) OBJ_NEXTHOP (nh_ids ?g ! 0) 56 = (DANOS_OK, Some c, y)" using h by auto
  define out where "out = (let nh = dec_nexthop c; out = (if af (gateway nh) = DANOS_AF_IPV4
      then (rr_zero r)\<lparr>has_gw := True, rr_gw := overlay (take 4 (addr (gateway nh))) (rr_gw (rr_zero r))\<rparr>
      else if af (gateway nh) = DANOS_AF_IPV6
      then (rr_zero r)\<lparr>has_gw := True, rr_gw := overlay (take 16 (addr (gateway nh))) (rr_gw (rr_zero r))\<rparr> else rr_zero r);
      cnt = (if nh_count ?g > 64 then 64 else nh_count ?g) in out\<lparr>rr_oif := nh_ifindex nh, rr_nh_count := cnt\<rparr>)"
  have e: "resolve_route_nh z r = resolve_members z (nh_ids ?g) 0 (unat (if nh_count ?g > 64 then 64 else nh_count ?g)) out"
    if "sys_read z (g_default_store z) OBJ_NHGROUP (nhgroup_id r) 536 = (DANOS_OK, Some b, x)"
      "sys_read z (g_default_store z) OBJ_NEXTHOP (nh_ids ?g ! 0) 56 = (DANOS_OK, Some c, y)" for z :: "('b, 'z) prog_scheme"
    using True n0 that by (simp add: resolve_route_nh_def out_def Let_def)
  show ?thesis
    using assms(4) unfolding e [OF b c] e [OF sys_read_mono [OF assms(1-3) b] sys_read_mono [OF assms(1-3) c]]
    by (metis resolve_members_mono [OF assms(1-3)] fst_conv surj_pair)
next
  case False
  then show ?thesis
    using assms(4) by (cases "rt_flags r AND DANOS_ROUTE_FLAG_BLACKHOLE = 0") (simp_all add: resolve_route_nh_def Let_def)
qed

text \<open>An installed FRR route resolves to the gateways and interfaces of the message.\<close>

lemma frr_addr: "length g = 16 \<Longrightarrow> overlay (take 4 (addr (set_addr DANOS_AF_IPV4 (take 4 g)))) (replicate 16 0) = addr (set_addr DANOS_AF_IPV4 (take 4 g))"
  by (simp add: set_addr_def overlay_def mem_put_def)

lemma frr_resolves:
  assumes "pipe_ok s" and w: "frr_wf inp" and i: "frr_installed m inp base mp (default_map s)" and "base \<noteq> 0"
  shows "\<exists>rr. resolve_route_nh s (frr_route m inp base) = (DANOS_OK, rr) \<and> rr_route rr = frr_route m inp base \<and>
    rr_nh_count rr = ucast (fr_nexthop_count inp) \<and>
    (\<forall>i < length (fr_nexthops inp). rr_nh_gw rr ! i = addr (gateway (frr_nh inp base i)) \<and>
       rr_nh_oif rr ! i = fn_ifindex (fr_nexthops inp ! i))"
proof (cases "fr_nexthop_count inp > 0")
  case True
  let ?n = "length (fr_nexthops inp)" and ?g = "frr_group inp base" and ?r = "frr_route m inp base"
  have n: "?n = unat (fr_nexthop_count inp)" "?n \<le> 64" "0 < ?n"
    using w True by (auto simp: frr_wf_def zapi_consts word_less_nat_alt)
  have c: "nh_count ?g = ucast (fr_nexthop_count inp)" by (simp add: frr_group_def)
  have u: "unat (nh_count ?g) = ?n" using n(1,2) by (simp add: c unsigned_ucast_eq take_bit_nat_eq_self)
  then have u: "unat (nh_count ?g) = ?n" "\<not> nh_count ?g > 64" "nh_count ?g \<noteq> 0"
    using n(2,3) by (auto simp: word_less_nat_alt)
  have ids: "nh_ids ?g ! j = base + 1 + of_nat j" if "j < ?n" for j
    using that by (simp add: frr_group_def nth_append)
  have rg: "sys_read s (g_default_store s) OBJ_NHGROUP base 536 = (DANOS_OK, Some (enc_nhgroup ?g), Some 536)"
    using i True frr_objects_wf(2) [OF w, of base]
    unfolding sys_read_default [OF assms(1)] by (simp add: frr_installed_def nhgroup_codec.enc_length)
  have rn: "sys_read s (g_default_store s) OBJ_NEXTHOP (nh_ids ?g ! j) 56 = (DANOS_OK, Some (enc_nexthop (frr_nh inp base j)), Some 56)"
    if "j < ?n" for j
    using i that frr_objects_wf(3) [OF w that, of base]
    unfolding sys_read_default [OF assms(1)] ids [OF that] by (simp add: frr_installed_def nexthop_codec.enc_length)
  have dg: "dec_nhgroup (enc_nhgroup ?g) = ?g" by (rule nhgroup_codec.dec_enc [OF frr_objects_wf(2) [OF w]])
  have dn: "dec_nexthop (enc_nexthop (frr_nh inp base j)) = frr_nh inp base j" if "j < ?n" for j
    by (rule nexthop_codec.dec_enc [OF frr_objects_wf(3) [OF w that]])
  have af4: "af (gateway (frr_nh inp base j)) = DANOS_AF_IPV4" for j by (simp add: frr_nh_def Let_def set_addr_def)
  define out where "out = (rr_zero ?r)\<lparr>has_gw := True, rr_gw := overlay (take 4 (addr (gateway (frr_nh inp base 0)))) (rr_gw (rr_zero ?r)),
      rr_oif := nh_ifindex (frr_nh inp base 0), rr_nh_count := nh_count ?g\<rparr>"
  have f: "rt_flags ?r AND DANOS_ROUTE_FLAG_BLACKHOLE = 0" "nhgroup_id ?r = base" using True by (simp_all add: frr_route_def)
  have e: "resolve_route_nh s ?r = resolve_members s (nh_ids ?g) 0 ?n out"
    using f assms(4) rg rn [OF n(3)] dn [OF n(3)] u af4 [of 0] by (simp add: resolve_route_nh_def dg out_def Let_def)
  obtain rr where rr: "resolve_members s (nh_ids ?g) 0 ?n out = (DANOS_OK, rr)" "rr_route rr = ?r" "rr_nh_count rr = nh_count ?g"
    "\<And>j. j < ?n \<Longrightarrow> rr_nh_oif rr ! j = nh_ifindex (dec_nexthop (enc_nexthop (frr_nh inp base j))) \<and>
       rr_nh_gw rr ! j = overlay (take (if af (gateway (dec_nexthop (enc_nexthop (frr_nh inp base j)))) = DANOS_AF_IPV6 then 16 else 4)
         (addr (gateway (dec_nexthop (enc_nexthop (frr_nh inp base j)))))) (rr_nh_gw out ! j)"
    using resolve_members_all [of ?n s "nh_ids ?g" 0 "\<lambda>j. enc_nexthop (frr_nh inp base j)" out] rn n(2)
    by (auto simp: out_def rr_zero_def)
  have "rr_nh_gw rr ! j = addr (gateway (frr_nh inp base j)) \<and> rr_nh_oif rr ! j = fn_ifindex (fr_nexthops inp ! j)" if j: "j < ?n" for j
  proof -
    have l: "length (fn_gateway (fr_nexthops inp ! j)) = 16" using w j by (simp add: frr_wf_def)
    have "overlay (take 4 (addr (gateway (frr_nh inp base j)))) (replicate 16 0) = addr (gateway (frr_nh inp base j))"
    proof (cases "fn_has_gateway (fr_nexthops inp ! j)")
      case True
      then show ?thesis using frr_addr [OF l] by (simp add: frr_nh_def Let_def)
    next
      case False
      then show ?thesis by (simp add: frr_nh_def Let_def addr_zero_def overlay_def flip: replicate_add)
    qed
    moreover have "rr_nh_gw out ! j = replicate 16 0" using j n(2) by (simp add: out_def rr_zero_def)
    moreover have "nh_ifindex (frr_nh inp base j) = fn_ifindex (fr_nexthops inp ! j)" by (simp add: frr_nh_def Let_def)
    ultimately show ?thesis using rr(4) [OF j] dn [OF j] af4 [of j] by (simp add: DANOS_AF_IPV4_def DANOS_AF_IPV6_def)
  qed
  then show ?thesis using e rr(1-3) by (simp add: c)
next
  case False
  then have z: "fr_nexthop_count inp = 0" by (simp add: word_gt_0)
  then have "fr_nexthops inp = []" using w by (simp add: frr_wf_def)
  moreover have "rt_flags (frr_route m inp base) AND DANOS_ROUTE_FLAG_BLACKHOLE \<noteq> 0"
    using z by (simp add: frr_route_def DANOS_ROUTE_FLAG_BLACKHOLE_def)
  ultimately show ?thesis using z by (simp add: resolve_route_nh_def rr_zero_def)
qed

subsection \<open>What the zebra mapper leaves alone\<close>

definition default_only :: "'z sys_scheme \<Rightarrow> 'z sys_scheme \<Rightarrow> bool" where
  "default_only s t \<longleftrightarrow> g_default_store t = g_default_store s \<and> next_addr t = next_addr s \<and> mem_plan t = mem_plan s \<and>
     (\<forall>b. g_default_store s \<noteq> Some b \<longrightarrow> stores t b = stores s b)"

lemma default_only_trans: "default_only s t \<Longrightarrow> default_only t u \<Longrightarrow> default_only s u"
  by (simp add: default_only_def)

lemma run_op_default_only: "g_default_store s = Some a \<Longrightarrow> default_only s (snd (run_op a op s))"
  unfolding default_only_def
  by (cases op) (auto simp: danos_object_create_def danos_object_update_def danos_object_delete_def malloc_def
      Let_def notify_event_def danos_programming_mark_dirty_def set_store_def split: option.split)

lemma create_default_only:
  assumes "g_default_store s \<noteq> None"
  shows "default_only s (snd (default_create s t i d))" and "default_only s (snd (default_delete s t i))"
    and "fst (default_create s t i d) = DANOS_OK \<Longrightarrow> g_dirty (snd (default_create s t i d))"
proof -
  obtain a where a: "g_default_store s = Some a" using assms by blast
  show "default_only s (snd (default_create s t i d))" "default_only s (snd (default_delete s t i))"
    using run_op_default_only [OF a, of "OpCreate t i d"] run_op_default_only [OF a, of "OpDelete t i"] a
    by (simp_all add: default_create_def default_delete_def get_default_store_def)
  show "g_dirty (snd (default_create s t i d))" if "fst (default_create s t i d) = DANOS_OK"
    using run_op_done [of a "OpCreate t i d" s] that a by (simp add: default_create_def get_default_store_def)
qed

lemma default_only_next_id: "default_only s (s\<lparr>g_zapi_next_id := n\<rparr>)"
  by (simp add: default_only_def)

lemma frr_create_default_only:
  assumes "g_default_store s \<noteq> None" and "frr_create_nexthops srcs i cnt fam f grp s = Some (r, t)"
  shows "default_only s t"
  using assms
proof (induction srcs arbitrary: i grp s)
  case (Cons src srcs)
  let ?s = "s\<lparr>g_zapi_next_id := g_zapi_next_id s + 1\<rparr>"
  define nh where "nh = nexthop_zero\<lparr>nh_id := g_zapi_next_id s, nh_ifindex := fn_ifindex src,
    gateway := (if fn_has_gateway src then set_addr f (take (if fam = 2 then 4 else 16) (fn_gateway src)) else addr_zero\<lparr>af := f\<rparr>),
    nh_weight := 1, nh_flags := (if cnt > 1 then DANOS_NH_FLAG_ECMP else 0)\<rparr>"
  obtain st s1 where n: "danos_nh_create ?s (Some nh) = (st, s1)" by fastforce
  have r: "Some (r, t) = (if st \<noteq> DANOS_OK then Some (Inl st, s1)
      else frr_create_nexthops srcs (Suc i) cnt fam f (grp\<lparr>nh_ids := (nh_ids grp)[i := g_zapi_next_id s]\<rparr>) s1)"
    using Cons.prems(2) n unfolding frr_create_nexthops.simps take_id_def Let_def prod.case nh_def by (simp split: if_split_asm)
  have "default_only ?s s1"
    using create_default_only(1) [of ?s] Cons.prems(1) n by (auto simp: danos_nh_create_def) (metis snd_conv)
  then have d: "default_only s s1" using default_only_trans [OF default_only_next_id] by blast
  then have g1: "g_default_store s1 \<noteq> None" using Cons.prems(1) by (simp add: default_only_def)
  show ?case
  proof (cases "st = DANOS_OK")
    case True
    then show ?thesis using default_only_trans [OF d Cons.IH [OF g1]] r by simp
  next
    case False
    then show ?thesis using r d by simp
  qed
qed (simp add: default_only_def)

lemma frr_dispatch_frame:
  assumes "g_default_store s \<noteq> None" and "zh_command (zm_header m) = ZEBRA_FRR_REDISTRIBUTE_ROUTE_ADD"
    and "zapi_dispatch_frr (Some m) s = Some (DANOS_OK, t)"
  shows "default_only s t \<and> g_dirty t"
proof -
  obtain s2 r where r: "danos_route_create s2 (Some r) = (DANOS_OK, t)" "default_only s s2"
  proof -
    obtain inp where dec: "zapi_decode_frr_route (Some m) = Inr inp" "fr_family inp = 2"
      using assms(2,3) by (auto simp: zapi_dispatch_frr_def Let_def split: sum.splits if_splits)
    show ?thesis
    proof (cases "fr_nexthop_count inp > 0")
      case True
      let ?s = "s\<lparr>g_zapi_next_id := g_zapi_next_id s + 1\<rparr>"
      let ?g = "nhgroup_zero\<lparr>grp_id := g_zapi_next_id s, nh_count := ucast (fr_nexthop_count inp)\<rparr>"
      obtain x s1 where f: "frr_create_nexthops (fr_nexthops inp) 0 (fr_nexthop_count inp) 2 DANOS_AF_IPV4 ?g ?s = Some (x, s1)"
        using assms(2,3) dec True by (auto simp: zapi_dispatch_frr_def take_id_def Let_def split: option.splits)
      have d1: "default_only s s1" "g_default_store s1 \<noteq> None"
        using frr_create_default_only [OF _ f] assms(1) default_only_trans [OF default_only_next_id]
        by (auto simp: default_only_def)
      show ?thesis
      proof (cases x)
        case (Inr grp)
        obtain st s2 where c: "danos_nhgroup_create s1 (Some grp) = (st, s2)" by fastforce
        have "default_only s1 s2"
          using create_default_only(1) [OF d1(2)] c by (auto simp: danos_nhgroup_create_def) (metis snd_conv)
        then have d2: "default_only s s2" using d1(1) default_only_trans by blast
        show ?thesis
          using assms(2,3) dec True f Inr c that [OF _ d2] by (auto simp: zapi_dispatch_frr_def take_id_def Let_def split: if_splits)
      next
        case (Inl st)
        then have st: "st = DANOS_OK" using assms(2,3) dec True f by (simp add: zapi_dispatch_frr_def take_id_def Let_def)
        have "r \<noteq> Inl DANOS_OK" if "frr_create_nexthops srcs i cnt fam ff grp z = Some (r, z')" for srcs i cnt fam ff grp z z' r
          using that by (induction srcs arbitrary: i grp z) (auto simp: Let_def split: if_splits prod.splits)
        then show ?thesis using f Inl st by blast
      qed
    next
      case False
      then show ?thesis
        using assms(2,3) dec that [of s] by (auto simp: zapi_dispatch_frr_def Let_def default_only_def)
    qed
  qed
  have g2: "g_default_store s2 \<noteq> None" using assms(1) r(2) by (simp add: default_only_def)
  have "default_only s2 t \<and> g_dirty t"
    using create_default_only(1,3) [OF g2] r(1) by (auto simp: danos_route_create_def) (metis fst_conv snd_conv)+
  then show ?thesis using r(2) default_only_trans by blast
qed

subsection \<open>The two views of the core's state\<close>

definition fib_part :: "u64 \<Rightarrow> ('b, 'z) recon_scheme \<Rightarrow> fib" where
  "fib_part n s = sys.extend (sys.truncate s) (fib.fields n)"

definition core_part :: "fib \<Rightarrow> ('b, 'z) recon_scheme \<Rightarrow> ('b, 'z) recon_scheme" where
  "core_part t s = sys.extend (sys.truncate t) (sys.more s)"

lemma fib_part_fields [simp]:
  "stores (fib_part n s) = stores s" "next_addr (fib_part n s) = next_addr s" "g_default_store (fib_part n s) = g_default_store s"
  "mem_plan (fib_part n s) = mem_plan s" "g_zapi_next_id (fib_part n s) = n"
  by (simp_all add: fib_part_def sys.defs fib.defs)

lemma core_part_fields [simp]:
  "stores (core_part t s) = stores t" "next_addr (core_part t s) = next_addr t" "g_default_store (core_part t s) = g_default_store t"
  "mem_plan (core_part t s) = mem_plan t" "g_dirty (core_part t s) = g_dirty t" "g_ops (core_part t s) = g_ops s"
  "backend (core_part t s) = backend s" "g_programmed (core_part t s) = g_programmed s" "g_reconciler (core_part t s) = g_reconciler s"
  by (cases s, simp add: core_part_def sys.defs)+

lemma part_maps [simp]:
  "default_map (fib_part n s) = default_map s" "default_map (core_part t s) = default_map t"
  by (simp_all add: default_map_def sys_map_def split: option.split)

text \<open>A zebra message that arrives at the daemon, whose id counter is \<open>n\<close>.\<close>

definition zebra_message ::
  "zapi_message \<Rightarrow> u64 \<times> ('b, 'z) recon_scheme \<Rightarrow> (danos_status \<times> u64 \<times> ('b, 'z) recon_scheme) option" where
  "zebra_message m u = (case zapi_dispatch_frr (Some m) (fib_part (fst u) (snd u)) of
     None \<Rightarrow> None
   | Some (rc, t) \<Rightarrow> Some (rc, g_zapi_next_id t, core_part t (snd u)))"

lemma pipe_roomy: "pipe_ok s \<Longrightarrow> roomy (fib_part n s)"
  by (auto simp: pipe_ok_def roomy_def dpa_ok_def stores_wf_def)

lemma core_part_pipe:
  assumes ok: "pipe_ok s" and t: "roomy t" "default_only (fib_part n s) t"
  shows "pipe_ok (core_part t s)" and "ledger_map (core_part t s) = ledger_map s"
proof -
  obtain a where a: "g_default_store s = Some a" "a < next_addr s" "g_programmed s \<noteq> Some a" using ok by (auto simp: pipe_ok_def)
  have b: "stores t b = stores s b" if "g_programmed s = Some b" for b using t(2) a that by (auto simp: default_only_def)
  show "pipe_ok (core_part t s)"
    using ok t a b by (auto simp: pipe_ok_def roomy_def dpa_ok_def default_only_def stores_wf_def)
  show "ledger_map (core_part t s) = ledger_map s"
    using b by (simp add: ledger_map_def sys_map_def split: option.split)
qed

subsection \<open>The state after the message\<close>

lemma installed_domain:
  assumes i: "frr_installed m inp base mp mp'" and n: "length (fr_nexthops inp) \<le> 64" and f: "finite (dom mp)"
  shows "card (dom mp') \<le> card (dom mp) + 66"
proof -
  let ?N = "(\<lambda>i. (OBJ_NEXTHOP, base + 1 + of_nat i)) ` {..< length (fr_nexthops inp)}"
  have "dom mp' \<subseteq> insert (frr_key m inp) (insert (OBJ_NHGROUP, base) (?N \<union> dom mp))"
    using i unfolding frr_installed_def by fastforce
  then have "card (dom mp') \<le> card (insert (frr_key m inp) (insert (OBJ_NHGROUP, base) (?N \<union> dom mp)))"
    by (rule card_mono [rotated]) (simp add: f)
  also have "\<dots> \<le> Suc (Suc (card (?N \<union> dom mp)))" using f by (simp add: card_insert_if)
  also have "\<dots> \<le> Suc (Suc (64 + card (dom mp)))"
    using card_Un_le [of ?N "dom mp"] card_image_le [of "{..< length (fr_nexthops inp)}" "\<lambda>i. (OBJ_NEXTHOP, base + 1 + of_nat i)"] n by simp
  finally show ?thesis by simp
qed

lemma finite_default: "pipe_ok s \<Longrightarrow> finite (dom (default_map s))"
  by (metis default_entries dom_store_map List.finite_set finite_imageI)

lemma installed_extends:
  assumes "frr_installed m inp base mp mp'" and "mp (frr_key m inp) = None" and "mp (OBJ_NHGROUP, base) = None"
    and "nh_fresh mp base 0 (length (fr_nexthops inp))"
  shows "mp \<subseteq>\<^sub>m mp'"
proof (unfold map_le_def, rule ballI)
  fix k assume "k \<in> dom mp"
  then have "k \<noteq> frr_key m inp" "k \<noteq> (OBJ_NHGROUP, base)" "\<forall>i < length (fr_nexthops inp). k \<noteq> (OBJ_NEXTHOP, base + 1 + of_nat i)"
    using assms(2-4) by (auto simp: nh_fresh_def)
  then show "mp k = mp' k" using assms(1) unfolding frr_installed_def by simp
qed

lemma frr_message_ready:
  assumes r: "recon_ready ops p s" and cmd: "zh_command (zm_header m) = ZEBRA_FRR_REDISTRIBUTE_ROUTE_ADD"
    and dec: "zapi_decode_frr_route (Some m) = Inr inp" and fam: "fr_family inp = 2"
    and new: "default_map s (frr_key m inp) = None" "ledger_map s (frr_key m inp) = None"
    and ids: "n \<noteq> 0" "default_map s (OBJ_NHGROUP, n) = None" "nh_fresh (default_map s) n 0 (length (fr_nexthops inp))"
    and card: "card (dom (default_map s)) + 66 < 2 ^ 64"
  obtains n' s1 where "zebra_message m (n, s) = Some (DANOS_OK, n', s1)" and "recon_ready ops p s1" and "g_dirty s1"
    and "frr_installed m inp n (default_map s) (default_map s1)" and "ledger_map s1 = ledger_map s"
proof -
  have w: "frr_wf inp" by (rule frr_decode_wf [OF dec])
  have ok: "pipe_ok s" using r by (simp add: recon_ready_def)
  obtain t where t: "zapi_dispatch_frr (Some m) (fib_part n s) = Some (DANOS_OK, t)" "roomy t"
    "frr_installed m inp n (default_map s) (default_map t)"
    using frr_add_installs [OF pipe_roomy [OF ok, of n] cmd dec fam, of n] new(1) ids by auto
  have fr: "default_only (fib_part n s) t \<and> g_dirty t"
    by (rule frr_dispatch_frame [OF _ cmd t(1)]) (use ok in \<open>auto simp: pipe_ok_def\<close>)
  let ?s = "core_part t s"
  have p: "pipe_ok ?s" and l: "ledger_map ?s = ledger_map s" using core_part_pipe [OF ok t(2)] fr by blast+
  have i: "frr_installed m inp n (default_map s) (default_map ?s)" using t(3) by simp
  have le: "default_map s \<subseteq>\<^sub>m default_map ?s" by (rule installed_extends [OF i new(1) ids(2,3)])
  have old: "default_map s k = Some d" if "default_map ?s k = Some d" "\<not> type_skipped (fst k)" "k \<noteq> frr_key m inp" for k d
  proof -
    have "k \<noteq> (OBJ_NHGROUP, n)" "\<forall>i < length (fr_nexthops inp). k \<noteq> (OBJ_NEXTHOP, n + 1 + of_nat i)"
      using that(2) by (auto simp: type_skipped_def)
    then show ?thesis using i that(1,3) unfolding frr_installed_def by simp
  qed
  have key: "default_map ?s (frr_key m inp) = Some (enc_route (frr_route m inp n))" using i by (simp add: frr_installed_def)
  have len: "length (enc_route (frr_route m inp n)) = 56" by (rule route_codec.enc_length [OF frr_objects_wf(1) [OF w]])
  have sz: "length d \<le> 504 \<and> (\<forall>l. ledger_map ?s k = Some l \<longrightarrow> length l = length d + 8)"
    if "default_map ?s k = Some d" "\<not> type_skipped (fst k)" for k d
    using that old [OF that] key len new(2) r by (cases "k = frr_key m inp") (auto simp: l recon_ready_def sizes_ok_def)
  have "card (dom (default_map ?s)) < 2 ^ 64"
    using installed_domain [OF i _ finite_default [OF ok]] w card by (auto simp: frr_wf_def zapi_consts)
  then have sizes: "sizes_ok ?s" using sz by (auto simp: sizes_ok_def)
  obtain rr where rr: "resolve_route_nh ?s (frr_route m inp n) = (DANOS_OK, rr)" using frr_resolves [OF p w i ids(1)] by blast
  have pr: "programmable ?s (fst k) d" if "default_map ?s k = Some d" "\<not> type_skipped (fst k)" for k d
  proof (cases "k = frr_key m inp")
    case True
    then have "fst k = OBJ_ROUTE" "d = enc_route (frr_route m inp n)" using key that(1) by (simp_all add: frr_key_def Let_def)
    then show ?thesis
      using rr len route_codec.dec_enc [OF frr_objects_wf(1) [OF w, of m n]] by (simp add: programmable_def)
  next
    case False
    then have "programmable s (fst k) d" using old [OF that] that(2) r by (auto simp: recon_ready_def)
    then show ?thesis using resolve_mono [OF ok p le, of "dec_route d"] by (auto simp: programmable_def)
  qed
  have "recon_ready ops p ?s" using r p sizes pr by (auto simp: recon_ready_def)
  then show ?thesis using that [of "g_zapi_next_id t" ?s] t(1) fr i l by (simp add: zebra_message_def)
qed

lemma told_around:
  assumes "around_run s t" and "keeps_told ops P" and "pipe_ok s" and "sizes_ok s" and "g_ops s = Some ops" and "accepts ops"
    and "default_map s (OBJ_ROUTE, i) = Some d" and "length d \<ge> 56" and "(OBJ_ROUTE, i) \<in> out_of_sync s"
    and "resolve_route_nh s (dec_route d) = (DANOS_OK, rr)" and "\<forall>f b. bo_route_add ops = Some f \<longrightarrow> P (snd (f rr b))"
  shows "P (backend t)"
proof -
  obtain s0 r s1 where a: "same_core s s0" "danos_programming_run s0 = (r, s1)" "same_core s1 t"
    using assms(1) by (auto simp: around_run_def)
  obtain f where f: "bo_route_add ops = Some f" "\<forall>b. fst (f rr b) = DANOS_OK \<and> P (snd (f rr b))"
    using assms(6,11) by (auto simp: accepts_def)
  have "P (backend (snd (danos_programming_run s0)))"
    by (rule told_run [where i = i, OF assms(2) _ _ _ _ assms(8) _ _ f]) (simp_all add: same_core_views [OF a(1)] assms)
  then show ?thesis using a(2) by (simp add: same_core_views [OF a(3)])
qed

end
