(* ===== verification/Slot_Table.thy ===== *)
theory Slot_Table
  imports Danos_Prelude
begin

text \<open>
  Tables in fixed arrays: the high-availability modules keep their sessions and processes in an
  array of slots with a \<open>used\<close> flag, look a key up by a scan for the first used slot with the
  key, and insert into the first unused slot. \<open>slot_map\<close> abstracts such an array to a map;
  \<open>keyed_table\<close> and \<open>session_table\<close> are the contracts of a table that its clients rely on.
\<close>

subsection \<open>The scan of an array\<close>

fun find_slot :: "('e \<Rightarrow> bool) \<Rightarrow> 'e list \<Rightarrow> nat option" where
  "find_slot P [] = None"
| "find_slot P (e # es) = (if P e then Some 0 else map_option Suc (find_slot P es))"

lemma find_slot_None: "find_slot P es = None \<longleftrightarrow> (\<forall>e \<in> set es. \<not> P e)"
  by (induction es) auto

lemma find_slot_Some: "find_slot P es = Some i \<Longrightarrow> i < length es \<and> P (es ! i)"
  by (induction es arbitrary: i) (auto split: if_splits)

lemma find_slot_first: "find_slot P es = Some i \<Longrightarrow> j < i \<Longrightarrow> \<not> P (es ! j)"
  by (induction es arbitrary: i j) (auto split: if_splits simp: nth_Cons split: nat.split)

lemma find_slot_cong: "map P es = map P es' \<Longrightarrow> find_slot P es = find_slot P es'"
proof (induction es arbitrary: es')
  case (Cons e es)
  then show ?case by (cases es') auto
qed simp

lemma find_slot_update:
  assumes "i < length es" and "P e = P (es ! i)"
  shows "find_slot P (es[i := e]) = find_slot P es"
  by (rule find_slot_cong) (use assms in \<open>auto intro!: nth_equalityI simp: nth_list_update split: if_splits\<close>)

subsection \<open>The map of an array\<close>

definition slot_map :: "('e \<Rightarrow> bool) \<Rightarrow> ('e \<Rightarrow> 'k) \<Rightarrow> 'e list \<Rightarrow> 'k \<Rightarrow> 'e option" where
  "slot_map used key es k = map_option (nth es) (find_slot (\<lambda>e. used e \<and> key e = k) es)"

definition slots_wf :: "('e \<Rightarrow> bool) \<Rightarrow> ('e \<Rightarrow> 'k) \<Rightarrow> 'e list \<Rightarrow> bool" where
  "slots_wf used key es \<longleftrightarrow>
     (\<forall>i j. i < length es \<and> j < length es \<and> used (es ! i) \<and> used (es ! j) \<and> key (es ! i) = key (es ! j) \<longrightarrow> i = j)"

lemma slots_wfD:
  "slots_wf used key es \<Longrightarrow> i < length es \<Longrightarrow> j < length es \<Longrightarrow> used (es ! i) \<Longrightarrow> used (es ! j) \<Longrightarrow>
     key (es ! i) = key (es ! j) \<Longrightarrow> i = j"
  by (simp add: slots_wf_def)

lemma slot_map_None: "slot_map used key es k = None \<longleftrightarrow> (\<forall>e \<in> set es. \<not> (used e \<and> key e = k))"
  by (simp add: slot_map_def find_slot_None)

lemma slot_map_found:
  "find_slot (\<lambda>e. used e \<and> key e = k) es = Some i \<Longrightarrow> slot_map used key es k = Some (es ! i)"
  by (simp add: slot_map_def)

lemma slot_map_iff:
  assumes "slots_wf used key es"
  shows "slot_map used key es k = Some e \<longleftrightarrow> (\<exists>i < length es. es ! i = e \<and> used e \<and> key e = k)"
proof
  assume "slot_map used key es k = Some e"
  then show "\<exists>i < length es. es ! i = e \<and> used e \<and> key e = k"
    unfolding slot_map_def using find_slot_Some by fastforce
next
  assume "\<exists>i < length es. es ! i = e \<and> used e \<and> key e = k"
  then obtain i where i: "i < length es" "es ! i = e" "used e" "key e = k" by blast
  then obtain j where j: "find_slot (\<lambda>e. used e \<and> key e = k) es = Some j"
    using find_slot_None [of "\<lambda>e. used e \<and> key e = k" es] nth_mem [OF i(1)] by (metis not_None_eq)
  then have "j = i" using find_slot_Some [OF j] i slots_wfD [OF assms, of j i] by simp
  then show "slot_map used key es k = Some e" using j i by (simp add: slot_map_def)
qed

lemma slot_map_eqI:
  assumes "slots_wf used key es"
    and "\<And>k e. m k = Some e \<longleftrightarrow> (\<exists>i < length es. es ! i = e \<and> used e \<and> key e = k)"
  shows "slot_map used key es = m"
proof
  fix k
  show "slot_map used key es k = m k"
    using slot_map_iff [OF assms(1), of k] assms(2) [of k] by (metis not_Some_eq)
qed

text \<open>The three ways the modules write to a slot.\<close>

lemma slot_insert:
  assumes w: "slots_wf used key es" and i: "i < length es" "\<not> used (es ! i)" and e: "used e"
    and new: "slot_map used key es (key e) = None"
  shows "slots_wf used key (es[i := e])" and "slot_map used key (es[i := e]) = (slot_map used key es)(key e \<mapsto> e)"
proof -
  have n: "used (es ! j) \<Longrightarrow> key (es ! j) \<noteq> key e" if "j < length es" for j
    using new nth_mem [OF that] by (auto simp: slot_map_None)
  show wf: "slots_wf used key (es[i := e])"
    unfolding slots_wf_def
  proof (intro allI impI)
    fix a b
    assume "a < length (es[i := e]) \<and> b < length (es[i := e]) \<and> used (es[i := e] ! a) \<and> used (es[i := e] ! b) \<and>
      key (es[i := e] ! a) = key (es[i := e] ! b)"
    then show "a = b" using i(1) n slots_wfD [OF w, of a b] by (auto simp: nth_list_update split: if_splits)
  qed
  show "slot_map used key (es[i := e]) = (slot_map used key es)(key e \<mapsto> e)"
  proof (rule slot_map_eqI [OF wf])
    fix k x
    show "((slot_map used key es)(key e \<mapsto> e)) k = Some x \<longleftrightarrow> (\<exists>j < length (es[i := e]). es[i := e] ! j = x \<and> used x \<and> key x = k)"
    proof (cases "k = key e")
      case True
      then show ?thesis using i e n by (auto simp: nth_list_update)
    next
      case False
      then show ?thesis using i slot_map_iff [OF w, of k x] by (auto simp: nth_list_update)
    qed
  qed
qed

lemma slot_replace:
  assumes w: "slots_wf used key es" and i: "i < length es" "used (es ! i)" and e: "used e" "key e = key (es ! i)"
  shows "slots_wf used key (es[i := e])" and "slot_map used key (es[i := e]) = (slot_map used key es)(key e \<mapsto> e)"
proof -
  show wf: "slots_wf used key (es[i := e])"
    unfolding slots_wf_def
  proof (intro allI impI)
    fix a b
    assume "a < length (es[i := e]) \<and> b < length (es[i := e]) \<and> used (es[i := e] ! a) \<and> used (es[i := e] ! b) \<and>
      key (es[i := e] ! a) = key (es[i := e] ! b)"
    then show "a = b"
      using i e slots_wfD [OF w, of a b] slots_wfD [OF w, of i b] slots_wfD [OF w, of a i]
      by (auto simp: nth_list_update split: if_splits)
  qed
  show "slot_map used key (es[i := e]) = (slot_map used key es)(key e \<mapsto> e)"
  proof (rule slot_map_eqI [OF wf])
    fix k x
    show "((slot_map used key es)(key e \<mapsto> e)) k = Some x \<longleftrightarrow> (\<exists>j < length (es[i := e]). es[i := e] ! j = x \<and> used x \<and> key x = k)"
    proof (cases "k = key e")
      case True
      then show ?thesis using i e slots_wfD [OF w, of _ i] by (auto simp: nth_list_update)
    next
      case False
      then show ?thesis using i e slot_map_iff [OF w, of k x] by (auto simp: nth_list_update)
    qed
  qed
qed

lemma slot_release:
  assumes w: "slots_wf used key es" and i: "i < length es" "used (es ! i)" and e: "\<not> used e"
  shows "slots_wf used key (es[i := e])" and "slot_map used key (es[i := e]) = (slot_map used key es)(key (es ! i) := None)"
proof -
  show wf: "slots_wf used key (es[i := e])"
    using w e i unfolding slots_wf_def by (auto simp: nth_list_update split: if_splits)
  show "slot_map used key (es[i := e]) = (slot_map used key es)(key (es ! i) := None)"
  proof (rule slot_map_eqI [OF wf])
    fix k x
    show "((slot_map used key es)(key (es ! i) := None)) k = Some x \<longleftrightarrow> (\<exists>j < length (es[i := e]). es[i := e] ! j = x \<and> used x \<and> key x = k)"
    proof (cases "k = key (es ! i)")
      case True
      then show ?thesis using i e slots_wfD [OF w, of _ i] by (auto simp: nth_list_update)
    next
      case False
      then show ?thesis using i e slot_map_iff [OF w, of k x] by (auto simp: nth_list_update)
    qed
  qed
qed

text \<open>The table is full exactly when the map has as many keys as the array has slots.\<close>

lemma slot_map_card:
  assumes "slots_wf used key es"
  shows "card (dom (slot_map used key es)) = card {i. i < length es \<and> used (es ! i)}"
proof -
  have d: "dom (slot_map used key es) = (\<lambda>i. key (es ! i)) ` {i. i < length es \<and> used (es ! i)}"
    by (auto simp: dom_def slot_map_iff [OF assms])
  have "inj_on (\<lambda>i. key (es ! i)) {i. i < length es \<and> used (es ! i)}"
    using slots_wfD [OF assms] by (auto intro!: inj_onI)
  then show ?thesis unfolding d by (rule card_image)
qed

lemma slot_full_iff:
  assumes "slots_wf used key es"
  shows "find_slot (\<lambda>e. \<not> used e) es = None \<longleftrightarrow> \<not> card (dom (slot_map used key es)) < length es"
proof -
  have "find_slot (\<lambda>e. \<not> used e) es = None \<longleftrightarrow> {i. i < length es \<and> used (es ! i)} = {i. i < length es}"
    by (auto simp: find_slot_None all_set_conv_all_nth)
  also have "\<dots> \<longleftrightarrow> \<not> card {i. i < length es \<and> used (es ! i)} < length es"
  proof
    assume "\<not> card {i. i < length es \<and> used (es ! i)} < length es"
    then show "{i. i < length es \<and> used (es ! i)} = {i. i < length es}"
      by (intro card_seteq) auto
  qed simp
  finally show ?thesis by (simp add: slot_map_card [OF assms])
qed

text \<open>The same facts for the part \<open>g\<close> of a slot that the clients see.\<close>

definition slot_view :: "('e \<Rightarrow> bool) \<Rightarrow> ('e \<Rightarrow> 'k) \<Rightarrow> ('e \<Rightarrow> 'v) \<Rightarrow> 'e list \<Rightarrow> 'k \<Rightarrow> 'v option" where
  "slot_view used key g es = map_option g \<circ> slot_map used key es"

lemma slot_view_missing:
  "find_slot (\<lambda>e. used e \<and> key e = k) es = None \<Longrightarrow> slot_view used key g es k = None"
  by (simp add: slot_view_def slot_map_def)

lemma slot_view_found:
  "find_slot (\<lambda>e. used e \<and> key e = k) es = Some i \<Longrightarrow> slot_view used key g es k = Some (g (es ! i))"
  by (simp add: slot_view_def slot_map_def)

lemma slot_view_full:
  "slots_wf used key es \<Longrightarrow> find_slot (\<lambda>e. \<not> used e) es = None \<longleftrightarrow> \<not> card (dom (slot_view used key g es)) < length es"
  unfolding slot_view_def dom_map_option_comp by (rule slot_full_iff)

lemma slot_view_insert:
  assumes "slots_wf used key es" and "find_slot (\<lambda>e. \<not> used e) es = Some i" and "used e"
    and "find_slot (\<lambda>x. used x \<and> key x = key e) es = None"
  shows "slots_wf used key (es[i := e]) \<and> slot_view used key g (es[i := e]) = (slot_view used key g es)(key e \<mapsto> g e)"
proof -
  have i: "i < length es" "\<not> used (es ! i)" using find_slot_Some [OF assms(2)] by simp_all
  have n: "slot_map used key es (key e) = None" using assms(4) by (simp add: slot_map_def)
  show ?thesis using slot_insert [OF assms(1) i assms(3) n] by (simp add: slot_view_def map_option_o_map_upd)
qed

lemma slot_view_replace:
  assumes "slots_wf used key es" and "find_slot (\<lambda>x. used x \<and> key x = key e) es = Some i" and "used e"
  shows "slots_wf used key (es[i := e]) \<and> slot_view used key g (es[i := e]) = (slot_view used key g es)(key e \<mapsto> g e)"
proof -
  have i: "i < length es" "used (es ! i)" "key e = key (es ! i)" using find_slot_Some [OF assms(2)] by simp_all
  show ?thesis using slot_replace [OF assms(1) i(1,2) assms(3) i(3)] by (simp add: slot_view_def map_option_o_map_upd)
qed

lemma slot_view_release:
  assumes "slots_wf used key es" and "find_slot (\<lambda>x. used x \<and> key x = k) es = Some i" and "\<not> used e"
  shows "slots_wf used key (es[i := e]) \<and> slot_view used key g (es[i := e]) = (slot_view used key g es)(k := None)"
proof -
  have i: "i < length es" "used (es ! i)" "key (es ! i) = k" using find_slot_Some [OF assms(2)] by simp_all
  show ?thesis using slot_release [OF assms(1) i(1,2) assms(3)] i(3) by (simp add: slot_view_def fun_eq_iff)
qed

lemma slots_wf_unused: "(\<forall>e \<in> set es. \<not> used e) \<Longrightarrow> slots_wf used key es \<and> slot_view used key g es = Map.empty"
  by (auto simp: slots_wf_def slot_view_def slot_map_def fun_eq_iff find_slot_None)

text \<open>Inserting a slot, and changing the slot of a key, as the modules do both.\<close>

definition slots_create :: "('e \<Rightarrow> bool) \<Rightarrow> ('e \<Rightarrow> 'k) \<Rightarrow> 'e \<Rightarrow> 'e list \<Rightarrow> int \<times> 'e list" where
  "slots_create used key e es =
     (if find_slot (\<lambda>x. used x \<and> key x = key e) es \<noteq> None then (- 1, es)
      else case find_slot (\<lambda>x. \<not> used x) es of None \<Rightarrow> (- 1, es) | Some i \<Rightarrow> (0, es[i := e]))"

definition slots_modify :: "('e \<Rightarrow> bool) \<Rightarrow> ('e \<Rightarrow> 'k) \<Rightarrow> ('e \<Rightarrow> 'e) \<Rightarrow> 'k \<Rightarrow> 'e list \<Rightarrow> int \<times> 'e list" where
  "slots_modify used key f k es =
     (case find_slot (\<lambda>x. used x \<and> key x = k) es of None \<Rightarrow> (- 1, es) | Some i \<Rightarrow> (0, es[i := f (es ! i)]))"

lemma slots_create_spec:
  assumes "slots_wf used key es" and "used e" and "slots_create used key e es = (r, es')"
  shows "length es' = length es \<and> slots_wf used key es' \<and> (r, slot_view used key g es') =
    (if slot_view used key g es (key e) = None \<and> card (dom (slot_view used key g es)) < length es
     then (0, (slot_view used key g es)(key e \<mapsto> g e)) else (- 1, slot_view used key g es))"
proof (cases "find_slot (\<lambda>x. used x \<and> key x = key e) es")
  case None
  note m = slot_view_missing [OF None, of g] and f = slot_view_full [OF assms(1), of g]
  show ?thesis
  proof (cases "find_slot (\<lambda>x. \<not> used x) es")
    case (Some i)
    then show ?thesis
      using assms(3) slot_view_insert [OF assms(1) Some assms(2) None, of g] m f None by (auto simp: slots_create_def)
  qed (use assms m f None in \<open>auto simp: slots_create_def\<close>)
next
  case (Some i)
  then show ?thesis using assms slot_view_found [OF Some, of g] by (auto simp: slots_create_def)
qed

lemma slots_update_spec:
  assumes "slots_wf used key es" and "slots_modify used key f k es = (r, es')"
    and f: "\<And>x. used x \<Longrightarrow> key x = k \<Longrightarrow> used (f x) \<and> key (f x) = k \<and> g (f x) = v"
  shows "length es' = length es \<and> slots_wf used key es' \<and> (r, slot_view used key g es') =
    (if slot_view used key g es k = None then (- 1, slot_view used key g es) else (0, (slot_view used key g es)(k \<mapsto> v)))"
proof (cases "find_slot (\<lambda>x. used x \<and> key x = k) es")
  case None
  then show ?thesis using assms slot_view_missing [OF None, of g] by (auto simp: slots_modify_def)
next
  case (Some i)
  have u: "used (f (es ! i))" "key (f (es ! i)) = k" "g (f (es ! i)) = v" using f find_slot_Some [OF Some] by blast+
  have "find_slot (\<lambda>x. used x \<and> key x = key (f (es ! i))) es = Some i" using Some u(2) by simp
  then show ?thesis
    using assms(1,2) Some u slot_view_found [OF Some, of g] slot_view_replace [OF assms(1) _ u(1), of i g]
    by (auto simp: slots_modify_def)
qed

lemma slots_delete_spec:
  assumes "slots_wf used key es" and "slots_modify used key f k es = (r, es')" and f: "\<And>x. \<not> used (f x)"
  shows "length es' = length es \<and> slots_wf used key es' \<and> (r, slot_view used key g es') =
    (if slot_view used key g es k = None then (- 1, slot_view used key g es) else (0, (slot_view used key g es)(k := None)))"
proof (cases "find_slot (\<lambda>x. used x \<and> key x = k) es")
  case None
  then show ?thesis using assms slot_view_missing [OF None, of g] by (auto simp: slots_modify_def)
next
  case (Some i)
  then show ?thesis
    using assms(1,2) slot_view_found [OF Some, of g] slot_view_release [OF assms(1) Some f [of "es ! i"], of g] by (auto simp: slots_modify_def)
qed

lemma slots_unused: "slots_modify used key f k es = (r, es') \<Longrightarrow> (\<forall>e \<in> set es. \<not> used e) \<Longrightarrow> es' = es"
  by (auto simp: slots_modify_def find_slot_None dest!: find_slot_Some split: option.splits)

subsection \<open>The contracts\<close>

datatype ('k, 'v) table_op = TCreate 'v | TDelete 'k | TUpdate 'v

text \<open>What a table with room for \<open>cap\<close> values promises, status 0 for success and -1 for failure.\<close>

fun spec_table_op :: "nat \<Rightarrow> ('v \<Rightarrow> 'k) \<Rightarrow> ('k, 'v) table_op \<Rightarrow> ('k \<Rightarrow> 'v option) \<Rightarrow> int \<times> ('k \<Rightarrow> 'v option)" where
  "spec_table_op cap key (TCreate v) m =
     (if m (key v) = None \<and> card (dom m) < cap then (0, m(key v \<mapsto> v)) else (- 1, m))"
| "spec_table_op cap key (TDelete k) m = (if m k = None then (- 1, m) else (0, m(k := None)))"
| "spec_table_op cap key (TUpdate v) m = (if m (key v) = None then (- 1, m) else (0, m(key v \<mapsto> v)))"

fun table_step ::
  "('v \<Rightarrow> 's \<Rightarrow> int \<times> 's) \<Rightarrow> ('k \<Rightarrow> 's \<Rightarrow> int \<times> 's) \<Rightarrow> ('v \<Rightarrow> 's \<Rightarrow> int \<times> 's) \<Rightarrow> ('k, 'v) table_op \<Rightarrow> 's \<Rightarrow> int \<times> 's" where
  "table_step create del update (TCreate v) = create v"
| "table_step create del update (TDelete k) = del k"
| "table_step create del update (TUpdate v) = update v"

fun run_table :: "('op \<Rightarrow> 's \<Rightarrow> int \<times> 's) \<Rightarrow> 'op list \<Rightarrow> 's \<Rightarrow> int list \<times> 's" where
  "run_table step [] s = ([], s)"
| "run_table step (x # xs) s = (let (r, s) = step x s; (rs, s) = run_table step xs s in (r # rs, s))"

locale keyed_table =
  fixes inv :: "'s \<Rightarrow> bool" and view :: "'s \<Rightarrow> 'k \<Rightarrow> 'v option" and cap :: nat and key :: "'v \<Rightarrow> 'k"
    and create :: "'v \<Rightarrow> 's \<Rightarrow> int \<times> 's" and del :: "'k \<Rightarrow> 's \<Rightarrow> int \<times> 's"
  assumes create_spec: "inv s \<Longrightarrow> create v s = (r, s') \<Longrightarrow> inv s' \<and> (r, view s') = spec_table_op cap key (TCreate v) (view s)"
    and del_spec: "inv s \<Longrightarrow> del k s = (r, s') \<Longrightarrow> inv s' \<and> (r, view s') = spec_table_op cap key (TDelete k) (view s)"
begin

lemma create_delete:
  assumes "inv s" and "create v s = (0, s1)" and "del (key v) s1 = (r, s2)"
  shows "r = 0 \<and> view s2 = view s"
proof -
  have c: "inv s1" "view s (key v) = None" "view s1 = (view s)(key v \<mapsto> v)"
    using create_spec [OF assms(1,2)] by (auto split: if_splits)
  then show ?thesis using del_spec [OF c(1) assms(3)] by (auto simp: fun_upd_idem)
qed

lemma delete_makes_room:
  assumes "inv s" and "finite (dom (view s))" and "card (dom (view s)) \<le> cap" and "del k s = (0, s1)"
    and "view s (key v) = None \<or> key v = k" and "create v s1 = (r, s2)"
  shows "r = 0"
proof -
  have d: "inv s1" "view s k \<noteq> None" "view s1 = (view s)(k := None)" using del_spec [OF assms(1,4)] by (auto split: if_splits)
  have "card (dom (view s1)) < card (dom (view s))"
    unfolding d(3) using d(2) assms(2) by (intro psubset_card_mono) auto
  then show ?thesis using create_spec [OF d(1) assms(6)] d(3) assms(3,5) by (auto split: if_splits)
qed

end

locale session_table = keyed_table inv view cap key create del
  for inv :: "'s \<Rightarrow> bool" and view :: "'s \<Rightarrow> 'k \<Rightarrow> 'v option" and cap :: nat and key :: "'v \<Rightarrow> 'k"
    and create :: "'v \<Rightarrow> 's \<Rightarrow> int \<times> 's" and del :: "'k \<Rightarrow> 's \<Rightarrow> int \<times> 's" +
  fixes update :: "'v \<Rightarrow> 's \<Rightarrow> int \<times> 's" and read :: "'k \<Rightarrow> 's \<Rightarrow> 'v option"
  assumes update_spec: "inv s \<Longrightarrow> update v s = (r, s') \<Longrightarrow> inv s' \<and> (r, view s') = spec_table_op cap key (TUpdate v) (view s)"
    and read_spec: "inv s \<Longrightarrow> read k s = view s k"
begin

abbreviation step :: "('k, 'v) table_op \<Rightarrow> 's \<Rightarrow> int \<times> 's" where
  "step \<equiv> table_step create del update"

lemma step_spec: "inv s \<Longrightarrow> step x s = (r, s') \<Longrightarrow> inv s' \<and> (r, view s') = spec_table_op cap key x (view s)"
  using create_spec [of s _ r s'] del_spec [of s _ r s'] update_spec [of s _ r s'] by (cases x) simp_all

lemma run_refines:
  assumes "inv s" and "run_table step xs s = (rs, s')"
  shows "inv s' \<and> (rs, view s') = run_table (spec_table_op cap key) xs (view s)"
  using assms
proof (induction xs arbitrary: s rs)
  case (Cons x xs)
  obtain r s1 where s1: "step x s = (r, s1)" by fastforce
  obtain rs' where rs: "run_table step xs s1 = (rs', s')" "rs = r # rs'" using Cons.prems(2) s1 by (auto split: prod.splits)
  have i: "inv s1" "(r, view s1) = spec_table_op cap key x (view s)" using step_spec [OF Cons.prems(1) s1] by simp_all
  show ?case using Cons.IH [OF i(1) rs(1)] rs(2) i(2) [symmetric] by (auto split: prod.splits)
qed simp

lemma run_read:
  assumes "inv s" and "run_table step xs s = (rs, s')"
  shows "run_table (spec_table_op cap key) xs (view s) = (rs, \<lambda>k. read k s')"
  using run_refines [OF assms] read_spec by (auto simp: fun_eq_iff)

end

end
