(* ===== verification/Antiflap.thy ===== *)
theory Antiflap
  imports Slot_Table
begin

text \<open>
  The anti-flap filter of \<^verbatim>\<open>danos-core/src/antiflap/antiflap.c\<close>: repairs of an object are counted per
  time window, and an object that is repaired too often is suppressed until it is cleared. The
  entries in use are a list, \<^verbatim>\<open>entry_count\<close> its length; the ring of time stamps, which no function
  uses, is left out. The clock value a call reads is its argument; the lock makes each call atomic.
\<close>

record antiflap_config =
  window_ms :: u32
  max_count :: u32

record antiflap_entry =
  af_obj_key :: u64
  af_count :: u32
  af_window_start :: u64
  af_flapping :: bool
  af_total_repairs :: u32
  af_suppressed :: u32

record antiflap_ctx =
  af_config :: antiflap_config
  af_entries :: "antiflap_entry list"
  af_total_suppressed :: u64

definition ANTIFLAP_DEFAULT :: antiflap_config where
  "ANTIFLAP_DEFAULT = \<lparr>window_ms = 5000, max_count = 3\<rparr>"

definition af_find_entry :: "antiflap_ctx \<Rightarrow> u64 \<Rightarrow> nat option" where
  "af_find_entry ctx k = find_slot (\<lambda>e. af_obj_key e = k) (af_entries ctx)"

definition af_create_entry :: "antiflap_ctx \<Rightarrow> u64 \<Rightarrow> (nat \<times> antiflap_ctx) option" where
  "af_create_entry ctx k =
     (if length (af_entries ctx) \<ge> 256 then None
      else Some (length (af_entries ctx), ctx\<lparr>af_entries := af_entries ctx @
             [\<lparr>af_obj_key = k, af_count = 0, af_window_start = 0, af_flapping = False, af_total_repairs = 0, af_suppressed = 0\<rparr>]\<rparr>))"

definition antiflap_init :: "antiflap_config option \<Rightarrow> antiflap_ctx" where
  "antiflap_init config =
     (let c = (case config of None \<Rightarrow> ANTIFLAP_DEFAULT | Some c \<Rightarrow> c);
          c = (if window_ms c = 0 then c\<lparr>window_ms := 5000\<rparr> else c);
          c = (if max_count c = 0 then c\<lparr>max_count := 3\<rparr> else c)
      in \<lparr>af_config = c, af_entries = [], af_total_suppressed = 0\<rparr>)"

text \<open>The part of \<^verbatim>\<open>antiflap_check_and_record\<close> that works on the entry: the result, the entry and
  whether a suppression is counted.\<close>

definition record_entry :: "antiflap_config \<Rightarrow> u64 \<Rightarrow> antiflap_entry \<Rightarrow> bool \<times> antiflap_entry" where
  "record_entry cfg now e =
     (let window_ns = ucast (window_ms cfg) * 1000000 :: u64 in
      if af_flapping e then (False, e\<lparr>af_suppressed := af_suppressed e + 1\<rparr>)
      else
        let e = (if af_count e = 0 \<or> now - af_window_start e > window_ns
                 then e\<lparr>af_window_start := now, af_count := 1\<rparr>
                 else e\<lparr>af_count := af_count e + 1\<rparr>);
            e = e\<lparr>af_total_repairs := af_total_repairs e + 1\<rparr>
        in if af_count e > max_count cfg
           then (False, e\<lparr>af_flapping := True, af_suppressed := af_suppressed e + 1\<rparr>)
           else (True, e))"

definition antiflap_check_and_record :: "antiflap_ctx option \<Rightarrow> u64 \<Rightarrow> u64 \<Rightarrow> bool \<times> antiflap_ctx option" where
  "antiflap_check_and_record ctx k now = (case ctx of None \<Rightarrow> (True, ctx) | Some c \<Rightarrow>
     case (case af_find_entry c k of Some i \<Rightarrow> Some (i, c) | None \<Rightarrow> af_create_entry c k) of
       None \<Rightarrow> (True, ctx)
     | Some (i, c) \<Rightarrow>
         let (ok, e) = record_entry (af_config c) now (af_entries c ! i)
         in (ok, Some (c\<lparr>af_entries := (af_entries c)[i := e],
                  af_total_suppressed := (if ok then af_total_suppressed c else af_total_suppressed c + 1)\<rparr>)))"

definition antiflap_is_flapping :: "antiflap_ctx option \<Rightarrow> u64 \<Rightarrow> bool" where
  "antiflap_is_flapping ctx k = (case ctx of None \<Rightarrow> False | Some c \<Rightarrow>
     case af_find_entry c k of None \<Rightarrow> False | Some i \<Rightarrow> af_flapping (af_entries c ! i))"

definition antiflap_clear :: "antiflap_ctx option \<Rightarrow> u64 \<Rightarrow> int \<times> antiflap_ctx option" where
  "antiflap_clear ctx k = (case ctx of None \<Rightarrow> (- 1, ctx) | Some c \<Rightarrow>
     case af_find_entry c k of
       None \<Rightarrow> (0, ctx)
     | Some i \<Rightarrow> (0, Some (c\<lparr>af_entries := (af_entries c)[i :=
           (af_entries c ! i)\<lparr>af_flapping := False, af_count := 0, af_window_start := 0\<rparr>]\<rparr>)))"

record antiflap_stats =
  tracked_objects :: u32
  flapping_objects :: u32
  st_total_suppressed :: u64

definition antiflap_get_stats :: "antiflap_ctx option \<Rightarrow> antiflap_stats option \<Rightarrow> antiflap_stats option" where
  "antiflap_get_stats ctx out = (case (ctx, out) of
     (Some c, Some _) \<Rightarrow> Some \<lparr>tracked_objects = of_nat (length (af_entries c)),
        flapping_objects = of_nat (length (filter af_flapping (af_entries c))), st_total_suppressed = af_total_suppressed c\<rparr>
   | _ \<Rightarrow> out)"

subsection \<open>One object's repairs\<close>

text \<open>A run of calls (object, clock value), with the decisions about object \<open>k\<close>.\<close>

fun af_run :: "(u64 \<times> u64) list \<Rightarrow> antiflap_ctx \<Rightarrow> bool list \<times> antiflap_ctx" where
  "af_run [] c = ([], c)"
| "af_run ((k, now) # xs) c =
     (case antiflap_check_and_record (Some c) k now of
        (ok, Some c) \<Rightarrow> (let (oks, c) = af_run xs c in (ok # oks, c))
      | (ok, None) \<Rightarrow> ([], c))"

fun entry_run :: "antiflap_config \<Rightarrow> u64 list \<Rightarrow> antiflap_entry \<Rightarrow> bool list \<times> antiflap_entry" where
  "entry_run cfg [] e = ([], e)"
| "entry_run cfg (now # ts) e = (let (ok, e) = record_entry cfg now e; (oks, e) = entry_run cfg ts e in (ok # oks, e))"

lemma flapping_stays:
  "af_flapping e \<Longrightarrow> set (fst (entry_run cfg ts e)) \<subseteq> {False} \<and> af_flapping (snd (entry_run cfg ts e))"
proof (induction ts arbitrary: e)
  case (Cons t ts)
  then show ?case
    using Cons.IH [of "e\<lparr>af_suppressed := af_suppressed e + 1\<rparr>"] by (simp add: record_entry_def split_beta)
qed simp

definition window_ns :: "antiflap_config \<Rightarrow> nat" where
  "window_ns cfg = unat (window_ms cfg) * 1000000"

lemma unat_window: "unat (ucast (window_ms cfg) * 1000000 :: u64) = window_ns cfg"
proof -
  have b: "unat (window_ms cfg) < 2 ^ 32" using unsigned_less [of "window_ms cfg"] by simp
  then have "unat (window_ms cfg) * 1000000 < 2 ^ 64" by simp
  moreover have u: "unat (ucast (window_ms cfg) :: u64) = unat (window_ms cfg)"
    using b by (simp add: unsigned_ucast_eq take_bit_nat_eq_self_iff)
  ultimately show ?thesis unfolding window_ns_def by (subst unat_mult_lem [THEN iffD1]) (simp_all add: u)
qed

text \<open>
  The bound on the allowed repairs of an entry from its state on: the rest of the current window
  and, when the span is no longer than a window, at most one more.
\<close>

definition allowed :: "bool list \<Rightarrow> nat" where
  "allowed oks = length (filter (\<lambda>b. b) oks)"

lemma record_cases:
  assumes "record_entry cfg now e = (ok, e')" and "\<not> af_flapping e" and "af_window_start e \<le> now" and "max_count cfg < 0xFFFFFFFF"
    and "af_count e \<le> max_count cfg" and "0 < max_count cfg"
  shows "(ok \<longrightarrow> \<not> af_flapping e' \<and> af_count e' \<le> max_count cfg \<and> af_count e' \<noteq> 0 \<and>
      (if af_count e = 0 \<or> unat now - unat (af_window_start e) > window_ns cfg
       then af_window_start e' = now \<and> af_count e' = 1
       else af_window_start e' = af_window_start e \<and> unat (af_count e') = Suc (unat (af_count e)))) \<and>
    (\<not> ok \<longrightarrow> af_flapping e')"
proof -
  have w: "now - af_window_start e > ucast (window_ms cfg) * 1000000 \<longleftrightarrow> unat now - unat (af_window_start e) > window_ns cfg"
    using assms(3) by (simp add: word_less_nat_alt unat_window unat_sub word_le_nat_alt [symmetric])
  have c: "unat (af_count e + 1) = Suc (unat (af_count e))"
  proof -
    have "unat (af_count e) < 0xFFFFFFFF" using assms(4,5) by (simp add: word_le_nat_alt word_less_nat_alt)
    then have "Suc (unat (af_count e)) < 2 ^ LENGTH(32)" by simp
    then show ?thesis by (metis Suc_eq_plus1 unat_1 unat_add_lem len_num1)
  qed
  show ?thesis
    using assms(1,2,4,5,6) c w unfolding record_entry_def
    by (auto simp: Let_def word_le_nat_alt word_less_nat_alt split: if_splits)
qed

lemma flapping_none: "af_flapping e \<Longrightarrow> allowed (fst (entry_run cfg ts e)) = 0"
  using flapping_stays [of e cfg ts] by (auto simp: allowed_def filter_empty_conv)

lemma window_bound:
  assumes "\<not> af_flapping e \<longrightarrow> af_count e \<le> max_count cfg \<and> af_count e \<noteq> 0"
    and "\<forall>t \<in> set ts. af_window_start e \<le> t \<and> unat t - unat (af_window_start e) \<le> window_ns cfg"
    and cfg: "max_count cfg < 0xFFFFFFFF" "0 < max_count cfg"
  shows "allowed (fst (entry_run cfg ts e)) \<le> unat (max_count cfg) - unat (af_count e)"
  using assms(1,2)
proof (induction ts arbitrary: e)
  case (Cons t ts)
  obtain ok e' where r: "record_entry cfg t e = (ok, e')" by fastforce
  have run: "fst (entry_run cfg (t # ts) e) = ok # fst (entry_run cfg ts e')" using r by (simp add: split_beta)
  show ?case
  proof (cases "af_flapping e")
    case True
    then show ?thesis using flapping_none [OF True, of cfg "t # ts"] by simp
  next
    case False
    have c: "af_count e \<le> max_count cfg" "af_count e \<noteq> 0" "af_window_start e \<le> t" "unat t - unat (af_window_start e) \<le> window_ns cfg"
      using Cons.prems False by simp_all
    note rc = record_cases [OF r False c(3) cfg(1) c(1) cfg(2)]
    show ?thesis
    proof (cases ok)
      case True
      then have e': "\<not> af_flapping e'" "af_count e' \<le> max_count cfg" "af_count e' \<noteq> 0" "af_window_start e' = af_window_start e"
        "unat (af_count e') = Suc (unat (af_count e))"
        using rc c(2,4) by simp_all
      have "allowed (fst (entry_run cfg ts e')) \<le> unat (max_count cfg) - unat (af_count e')"
        by (rule Cons.IH) (use e' Cons.prems(2) in simp_all)
      then show ?thesis using True e'(2,5) unfolding run by (simp add: allowed_def word_le_nat_alt)
    next
      case False
      then show ?thesis using rc flapping_none [of e' cfg ts] unfolding run by (simp add: allowed_def)
    qed
  qed
qed (simp add: allowed_def)

lemma span_bound:
  assumes "\<not> af_flapping e \<longrightarrow> af_count e \<le> max_count cfg" and "\<forall>t \<in> set ts. af_window_start e \<le> t"
    and "sorted ts" and "\<forall>t \<in> set ts. \<forall>u \<in> set ts. unat t - unat u \<le> window_ns cfg"
    and cfg: "max_count cfg < 0xFFFFFFFF" "0 < max_count cfg"
  shows "allowed (fst (entry_run cfg ts e)) \<le>
    (if af_count e = 0 then unat (max_count cfg) else 2 * unat (max_count cfg) - unat (af_count e))"
  using assms(1-4)
proof (induction ts arbitrary: e)
  case (Cons t ts)
  obtain ok e' where r: "record_entry cfg t e = (ok, e')" by fastforce
  have run: "fst (entry_run cfg (t # ts) e) = ok # fst (entry_run cfg ts e')" using r by (simp add: split_beta)
  show ?case
  proof (cases "af_flapping e")
    case True
    then show ?thesis using flapping_none [OF True, of cfg "t # ts"] by simp
  next
    case False
    have c: "af_count e \<le> max_count cfg" "af_window_start e \<le> t" using Cons.prems False by simp_all
    note rc = record_cases [OF r False c(2) cfg(1) c(1) cfg(2)]
    show ?thesis
    proof (cases ok)
      case ok: True
      show ?thesis
      proof (cases "af_count e = 0 \<or> unat t - unat (af_window_start e) > window_ns cfg")
        case True
        then have e': "\<not> af_flapping e'" "af_count e' \<le> max_count cfg" "af_count e' \<noteq> 0" "af_window_start e' = t" "af_count e' = 1"
          using rc ok by (auto split: if_splits)
        have "allowed (fst (entry_run cfg ts e')) \<le> unat (max_count cfg) - unat (af_count e')"
          by (rule window_bound [OF _ _ cfg]) (use e' Cons.prems(3,4) in auto)
        then show ?thesis using ok c(1) e'(5) cfg(2) unfolding run by (auto simp: allowed_def word_le_nat_alt word_less_nat_alt)
      next
        case False
        then have e': "\<not> af_flapping e'" "af_count e' \<le> max_count cfg" "af_window_start e' = af_window_start e"
          "unat (af_count e') = Suc (unat (af_count e))" "af_count e' \<noteq> 0"
          using rc ok by simp_all
        have "allowed (fst (entry_run cfg ts e')) \<le>
            (if af_count e' = 0 then unat (max_count cfg) else 2 * unat (max_count cfg) - unat (af_count e'))"
          by (rule Cons.IH) (use e' Cons.prems in auto)
        then show ?thesis using ok e'(2,4,5) False unfolding run by (simp add: allowed_def word_le_nat_alt)
      qed
    next
      case False
      then show ?thesis using rc flapping_none [of e' cfg ts] unfolding run by (simp add: allowed_def)
    qed
  qed
qed (simp add: allowed_def)

subsection \<open>Objects do not disturb each other\<close>

definition decisions :: "u64 \<Rightarrow> (u64 \<times> u64) list \<Rightarrow> bool list \<Rightarrow> bool list" where
  "decisions k xs oks = map snd (filter (\<lambda>(x, ok). fst x = k) (zip xs oks))"

lemma check_effect:
  assumes "af_find_entry c k = Some i"
  obtains ok c' where "antiflap_check_and_record (Some c) j now = (ok, Some c')" and "af_config c' = af_config c"
    and "af_find_entry c' k = Some i"
    and "af_entries c' ! i = (if j = k then snd (record_entry (af_config c) now (af_entries c ! i)) else af_entries c ! i)"
    and "j = k \<Longrightarrow> ok = fst (record_entry (af_config c) now (af_entries c ! i))"
proof -
  have keep: "af_obj_key (snd (record_entry cfg now e)) = af_obj_key e" for cfg e
    by (simp add: record_entry_def Let_def)
  note i = find_slot_Some [OF assms [unfolded af_find_entry_def]]
  show ?thesis
  proof (cases "af_find_entry c j")
    case (Some m)
    note m = find_slot_Some [OF Some [unfolded af_find_entry_def]]
    let ?e = "snd (record_entry (af_config c) now (af_entries c ! m))"
    have f: "find_slot (\<lambda>e. af_obj_key e = k) ((af_entries c)[m := ?e]) = Some i"
      using find_slot_update [of m "af_entries c" "\<lambda>e. af_obj_key e = k" ?e] m keep assms by (simp add: af_find_entry_def)
    have mi: "m = i \<longleftrightarrow> j = k"
    proof
      assume "m = i"
      then show "j = k" using i m by simp
    next
      assume "j = k"
      then show "m = i" using Some assms by simp
    qed
    let ?c = "c\<lparr>af_entries := (af_entries c)[m := ?e], af_total_suppressed :=
      (if fst (record_entry (af_config c) now (af_entries c ! m)) then af_total_suppressed c else af_total_suppressed c + 1)\<rparr>"
    have "antiflap_check_and_record (Some c) j now = (fst (record_entry (af_config c) now (af_entries c ! m)), Some ?c)"
      using Some by (simp add: antiflap_check_and_record_def split_beta)
    then show ?thesis
      by (rule that) (use f i m mi in \<open>auto simp: af_find_entry_def nth_list_update\<close>)
  next
    case None
    then have jk: "j \<noteq> k" using assms by auto
    show ?thesis
    proof (cases "length (af_entries c) \<ge> 256")
      case True
      then show ?thesis using None jk assms that by (simp add: antiflap_check_and_record_def af_create_entry_def)
    next
      case False
      have app: "find_slot P es = Some i \<Longrightarrow> find_slot P (es @ fs) = Some i" for P :: "antiflap_entry \<Rightarrow> bool" and es fs i
        by (induction es arbitrary: i) (auto split: if_splits)
      show ?thesis
        using None False jk i that assms
        by (simp add: antiflap_check_and_record_def af_create_entry_def split_beta af_find_entry_def app nth_append)
    qed
  qed
qed

lemma run_decisions:
  assumes "af_find_entry c k = Some i"
  shows "decisions k xs (fst (af_run xs c)) =
    fst (entry_run (af_config c) (map snd (filter (\<lambda>x. fst x = k) xs)) (af_entries c ! i))"
  using assms
proof (induction xs arbitrary: c)
  case (Cons x xs)
  obtain j now where x: "x = (j, now)" by fastforce
  obtain ok c' where c': "antiflap_check_and_record (Some c) j now = (ok, Some c')" "af_config c' = af_config c"
    "af_find_entry c' k = Some i"
    "af_entries c' ! i = (if j = k then snd (record_entry (af_config c) now (af_entries c ! i)) else af_entries c ! i)"
    "j = k \<Longrightarrow> ok = fst (record_entry (af_config c) now (af_entries c ! i))"
    by (rule check_effect [OF Cons.prems, of j now]) blast
  show ?case using Cons.IH [OF c'(3)] c' by (simp add: x split_beta decisions_def)
qed (simp add: decisions_def)

text \<open>
  C40: The filter bounds repairs. As long as no record is cleared by hand with \<^verbatim>\<open>antiflap_clear\<close>, and
  whatever calls about other objects are interleaved, the calls about a
  tracked object that fall into a span no longer than the window are allowed at most 2 m - 1
  times, m being the configured count (a window that ends inside the span is followed by one more),
  and once the object is flapping none is allowed.
\<close>

theorem antiflap_bounds_repairs:
  assumes "af_find_entry c k = Some i" and "e = af_entries c ! i" and "max_count (af_config c) < 0xFFFFFFFF" and "0 < max_count (af_config c)"
    and "\<not> af_flapping e \<longrightarrow> af_count e \<le> max_count (af_config c)" and "ts = map snd (filter (\<lambda>x. fst x = k) xs)" and "sorted ts"
    and "\<forall>t \<in> set ts. af_window_start e \<le> t \<and> (\<forall>u \<in> set ts. unat t - unat u \<le> unat (window_ms (af_config c)) * 1000000)"
  shows "length (filter (\<lambda>b. b) (decisions k xs (fst (af_run xs c)))) \<le> 2 * unat (max_count (af_config c)) - 1 \<and>
    (af_flapping e \<longrightarrow> True \<notin> set (decisions k xs (fst (af_run xs c))))"
proof -
  have d: "decisions k xs (fst (af_run xs c)) = fst (entry_run (af_config c) ts e)"
    unfolding assms(2,6) by (rule run_decisions [OF assms(1)])
  have "allowed (fst (entry_run (af_config c) ts e)) \<le>
      (if af_count e = 0 then unat (max_count (af_config c)) else 2 * unat (max_count (af_config c)) - unat (af_count e))"
    by (rule span_bound) (use assms in \<open>auto simp: window_ns_def\<close>)
  moreover have "0 < unat (max_count (af_config c))" using assms(4) by (simp add: word_less_nat_alt)
  moreover have "af_count e \<noteq> 0 \<longrightarrow> 0 < unat (af_count e)" by (simp add: unat_gt_0)
  ultimately show ?thesis using flapping_stays [of e "af_config c" ts] unfolding d by (auto simp: allowed_def split: if_splits)
qed

definition sample_af :: antiflap_ctx where
  "sample_af = the (snd (antiflap_check_and_record (Some (antiflap_init None)) 5 1000))"

theorem antiflap_bounds_repairs_witness:
  "length (filter (\<lambda>b. b) (decisions 5 [(5, 2000), (6, 2500), (5, 3000), (5, 4000)] (fst (af_run [(5, 2000), (6, 2500), (5, 3000), (5, 4000)] sample_af)))) \<le> 5"
proof -
  have s: "sample_af = \<lparr>af_config = \<lparr>window_ms = 5000, max_count = 3\<rparr>, af_entries =
      [\<lparr>af_obj_key = 5, af_count = 1, af_window_start = 1000, af_flapping = False, af_total_repairs = 1, af_suppressed = 0\<rparr>],
      af_total_suppressed = 0\<rparr>"
    by (simp add: sample_af_def antiflap_init_def ANTIFLAP_DEFAULT_def antiflap_check_and_record_def af_find_entry_def
        af_create_entry_def record_entry_def Let_def)
  show ?thesis
    using antiflap_bounds_repairs [of sample_af 5 0 "af_entries sample_af ! 0" "[2000, 3000, 4000]"
        "[(5, 2000), (6, 2500), (5, 3000), (5, 4000)]"]
    by (simp add: s af_find_entry_def)
qed

text \<open>
  The bound is reached: with the default configuration, which is meant to allow three repairs in
  five seconds, five repairs within two milliseconds are allowed.
\<close>

lemma window_boundary_doubles:
  "fst (entry_run ANTIFLAP_DEFAULT [0, 4999000000, 4999000001, 5000000001, 5000000002, 5000000003]
     \<lparr>af_obj_key = 5, af_count = 0, af_window_start = 0, af_flapping = False, af_total_repairs = 0, af_suppressed = 0\<rparr>) =
   [True, True, True, True, True, True]"
  by (simp add: ANTIFLAP_DEFAULT_def record_entry_def Let_def)

text \<open>A full table lets every repair of a further object pass.\<close>

lemma full_table_allows:
  "length (af_entries c) \<ge> 256 \<Longrightarrow> af_find_entry c k = None \<Longrightarrow> antiflap_check_and_record (Some c) k now = (True, Some c)"
  by (simp add: antiflap_check_and_record_def af_create_entry_def)

end
