(* ===== verification/Ha.thy ===== *)
theory Ha
  imports Slot_Table
begin

text \<open>
  The high-availability modules: BFD sessions (\<^verbatim>\<open>danos-ha/src/bfd.c\<close>), VRRP sessions
  (\<^verbatim>\<open>vrrp.c\<close>) and the process supervisor (\<^verbatim>\<open>supervisor.c\<close>). Each keeps a fixed array of
  slots; a pointer into it is an index. A callback is an opaque handle, and \<open>bfd_calls\<close> is the
  trace of its invocations, latest last. The functions of \<^verbatim>\<open>bfd.c\<close> that share their name with a
  function of the typed object API have the suffix \<open>_ha\<close>.
\<close>

subsection \<open>BFD sessions\<close>

record danos_bfd_session =
  bs_id :: u64
  bs_remote :: bytes
  bs_local :: bytes
  bs_multihop :: bool
  bs_desired_tx_ms :: u32
  bs_required_rx_ms :: u32
  bs_detect_mult :: u8

datatype danos_bfd_state = BFD_STATE_DOWN | BFD_STATE_INIT | BFD_STATE_UP | BFD_STATE_ADMINDOWN

record bfd_entry =
  be_sess :: danos_bfd_session
  be_state :: danos_bfd_state
  be_used :: bool

record bfd_mod =
  bfd_sessions :: "bfd_entry list"
  bfd_callback :: "nat option"
  bfd_cb_user :: u64
  bfd_initialized :: bool
  bfd_calls :: "(nat \<times> u64 \<times> danos_bfd_state \<times> danos_bfd_state \<times> u64) list"

definition BFD_MAX_SESSIONS :: nat where "BFD_MAX_SESSIONS = 256"

definition bfd_entry_zero :: bfd_entry where
  "bfd_entry_zero = \<lparr>be_sess = \<lparr>bs_id = 0, bs_remote = replicate 46 0, bs_local = replicate 46 0, bs_multihop = False,
     bs_desired_tx_ms = 0, bs_required_rx_ms = 0, bs_detect_mult = 0\<rparr>, be_state = BFD_STATE_DOWN, be_used = False\<rparr>"

text \<open>The module before any call: static storage is zero.\<close>

definition bfd_boot :: bfd_mod where
  "bfd_boot = \<lparr>bfd_sessions = replicate BFD_MAX_SESSIONS bfd_entry_zero, bfd_callback = None, bfd_cb_user = 0,
     bfd_initialized = False, bfd_calls = []\<rparr>"

definition bfd_find_session :: "u64 \<Rightarrow> bfd_mod \<Rightarrow> nat option" where
  "bfd_find_session i s = find_slot (\<lambda>e. be_used e \<and> bs_id (be_sess e) = i) (bfd_sessions s)"

definition bfd_find_free :: "bfd_mod \<Rightarrow> nat option" where
  "bfd_find_free s = find_slot (\<lambda>e. \<not> be_used e) (bfd_sessions s)"

definition danos_bfd_init :: "bfd_mod \<Rightarrow> int \<times> bfd_mod" where
  "danos_bfd_init s =
     (0, s\<lparr>bfd_sessions := replicate BFD_MAX_SESSIONS bfd_entry_zero, bfd_callback := None, bfd_cb_user := 0,
         bfd_initialized := True\<rparr>)"

definition danos_bfd_create_ha :: "danos_bfd_session option \<Rightarrow> bfd_mod \<Rightarrow> int \<times> bfd_mod" where
  "danos_bfd_create_ha sess s = (case sess of None \<Rightarrow> (- 1, s) | Some x \<Rightarrow>
     let s = (if \<not> bfd_initialized s then snd (danos_bfd_init s) else s) in
     if bfd_find_session (bs_id x) s \<noteq> None then (- 1, s)
     else case bfd_find_free s of
            None \<Rightarrow> (- 1, s)
          | Some i \<Rightarrow> (0, s\<lparr>bfd_sessions := (bfd_sessions s)[i := \<lparr>be_sess = x, be_state = BFD_STATE_DOWN, be_used = True\<rparr>]\<rparr>))"

definition danos_bfd_update_ha :: "danos_bfd_session option \<Rightarrow> bfd_mod \<Rightarrow> int \<times> bfd_mod" where
  "danos_bfd_update_ha sess s = (case sess of None \<Rightarrow> (- 1, s) | Some x \<Rightarrow>
     case bfd_find_session (bs_id x) s of
       None \<Rightarrow> (- 1, s)
     | Some i \<Rightarrow> (0, s\<lparr>bfd_sessions := (bfd_sessions s)[i := (bfd_sessions s ! i)\<lparr>be_sess := x\<rparr>]\<rparr>))"

definition danos_bfd_delete_ha :: "u64 \<Rightarrow> bfd_mod \<Rightarrow> int \<times> bfd_mod" where
  "danos_bfd_delete_ha k s = (case bfd_find_session k s of
     None \<Rightarrow> (- 1, s)
   | Some i \<Rightarrow> (0, s\<lparr>bfd_sessions := (bfd_sessions s)[i := (bfd_sessions s ! i)\<lparr>be_used := False\<rparr>]\<rparr>))"

text \<open>The result and the output buffer after the call.\<close>

definition danos_bfd_read_ha :: "u64 \<Rightarrow> danos_bfd_session option \<Rightarrow> bfd_mod \<Rightarrow> int \<times> danos_bfd_session option" where
  "danos_bfd_read_ha k out s = (case out of None \<Rightarrow> (- 1, out) | Some y \<Rightarrow>
     case bfd_find_session k s of None \<Rightarrow> (- 1, out) | Some i \<Rightarrow> (0, Some (be_sess (bfd_sessions s ! i))))"

definition danos_bfd_get_state :: "u64 \<Rightarrow> bfd_mod \<Rightarrow> danos_bfd_state" where
  "danos_bfd_get_state k s = (case bfd_find_session k s of
     None \<Rightarrow> BFD_STATE_DOWN | Some i \<Rightarrow> be_state (bfd_sessions s ! i))"

definition danos_bfd_register_callback :: "nat option \<Rightarrow> u64 \<Rightarrow> bfd_mod \<Rightarrow> int \<times> bfd_mod" where
  "danos_bfd_register_callback cb user s = (0, s\<lparr>bfd_callback := cb, bfd_cb_user := user\<rparr>)"

definition danos_bfd_set_state :: "u64 \<Rightarrow> danos_bfd_state \<Rightarrow> bfd_mod \<Rightarrow> bfd_mod" where
  "danos_bfd_set_state k new_state s = (case bfd_find_session k s of
     None \<Rightarrow> s
   | Some i \<Rightarrow>
       let e = bfd_sessions s ! i; old = be_state e in
       if old = new_state then s
       else let s = s\<lparr>bfd_sessions := (bfd_sessions s)[i := e\<lparr>be_state := new_state\<rparr>]\<rparr> in
            case bfd_callback s of
              None \<Rightarrow> s
            | Some cb \<Rightarrow> s\<lparr>bfd_calls := bfd_calls s @ [(cb, k, old, new_state, bfd_cb_user s)]\<rparr>)"

subsection \<open>VRRP sessions\<close>

record danos_vrrp_session =
  vr_vrid :: u32
  vr_ifindex :: u32
  vr_priority :: u8
  vr_preempt :: bool
  vr_advert_int_ms :: u32
  vr_virtual_ip :: bytes
  vr_ipv6 :: bool
  vr_bfd_link :: bool
  vr_bfd_session_id :: u64
  vr_bfd_down_priority :: u8

datatype danos_vrrp_state = VRRP_STATE_INIT | VRRP_STATE_BACKUP | VRRP_STATE_MASTER

record vrrp_entry =
  ve_sess :: danos_vrrp_session
  ve_state :: danos_vrrp_state
  ve_used :: bool

record vrrp_mod =
  vrrp_sessions :: "vrrp_entry list"
  vrrp_initialized :: bool

definition VRRP_MAX_SESSIONS :: nat where "VRRP_MAX_SESSIONS = 64"

definition vrrp_entry_zero :: vrrp_entry where
  "vrrp_entry_zero = \<lparr>ve_sess = \<lparr>vr_vrid = 0, vr_ifindex = 0, vr_priority = 0, vr_preempt = False, vr_advert_int_ms = 0,
     vr_virtual_ip = replicate 46 0, vr_ipv6 = False, vr_bfd_link = False, vr_bfd_session_id = 0, vr_bfd_down_priority = 0\<rparr>,
     ve_state = VRRP_STATE_INIT, ve_used = False\<rparr>"

definition vrrp_boot :: vrrp_mod where
  "vrrp_boot = \<lparr>vrrp_sessions = replicate VRRP_MAX_SESSIONS vrrp_entry_zero, vrrp_initialized = False\<rparr>"

definition vrrp_find_session :: "u32 \<Rightarrow> u32 \<Rightarrow> vrrp_mod \<Rightarrow> nat option" where
  "vrrp_find_session vrid ifindex s =
     find_slot (\<lambda>e. ve_used e \<and> vr_vrid (ve_sess e) = vrid \<and> vr_ifindex (ve_sess e) = ifindex) (vrrp_sessions s)"

definition vrrp_find_free :: "vrrp_mod \<Rightarrow> nat option" where
  "vrrp_find_free s = find_slot (\<lambda>e. \<not> ve_used e) (vrrp_sessions s)"

definition danos_vrrp_init :: "vrrp_mod \<Rightarrow> int \<times> vrrp_mod" where
  "danos_vrrp_init s = (0, s\<lparr>vrrp_sessions := replicate VRRP_MAX_SESSIONS vrrp_entry_zero, vrrp_initialized := True\<rparr>)"

definition danos_vrrp_create :: "danos_vrrp_session option \<Rightarrow> vrrp_mod \<Rightarrow> int \<times> vrrp_mod" where
  "danos_vrrp_create sess s = (case sess of None \<Rightarrow> (- 1, s) | Some x \<Rightarrow>
     let s = (if \<not> vrrp_initialized s then snd (danos_vrrp_init s) else s) in
     if vrrp_find_session (vr_vrid x) (vr_ifindex x) s \<noteq> None then (- 1, s)
     else case vrrp_find_free s of
            None \<Rightarrow> (- 1, s)
          | Some i \<Rightarrow> (0, s\<lparr>vrrp_sessions := (vrrp_sessions s)[i := \<lparr>ve_sess = x, ve_state = VRRP_STATE_INIT, ve_used = True\<rparr>]\<rparr>))"

definition danos_vrrp_update :: "danos_vrrp_session option \<Rightarrow> vrrp_mod \<Rightarrow> int \<times> vrrp_mod" where
  "danos_vrrp_update sess s = (case sess of None \<Rightarrow> (- 1, s) | Some x \<Rightarrow>
     case vrrp_find_session (vr_vrid x) (vr_ifindex x) s of
       None \<Rightarrow> (- 1, s)
     | Some i \<Rightarrow> (0, s\<lparr>vrrp_sessions := (vrrp_sessions s)[i := (vrrp_sessions s ! i)\<lparr>ve_sess := x\<rparr>]\<rparr>))"

definition danos_vrrp_delete :: "u32 \<Rightarrow> u32 \<Rightarrow> vrrp_mod \<Rightarrow> int \<times> vrrp_mod" where
  "danos_vrrp_delete vrid ifindex s = (case vrrp_find_session vrid ifindex s of
     None \<Rightarrow> (- 1, s)
   | Some i \<Rightarrow> (0, s\<lparr>vrrp_sessions := (vrrp_sessions s)[i := (vrrp_sessions s ! i)\<lparr>ve_used := False\<rparr>]\<rparr>))"

definition danos_vrrp_read :: "u32 \<Rightarrow> u32 \<Rightarrow> danos_vrrp_session option \<Rightarrow> vrrp_mod \<Rightarrow> int \<times> danos_vrrp_session option" where
  "danos_vrrp_read vrid ifindex out s = (case out of None \<Rightarrow> (- 1, out) | Some y \<Rightarrow>
     case vrrp_find_session vrid ifindex s of None \<Rightarrow> (- 1, out) | Some i \<Rightarrow> (0, Some (ve_sess (vrrp_sessions s ! i))))"

definition danos_vrrp_get_state :: "u32 \<Rightarrow> u32 \<Rightarrow> vrrp_mod \<Rightarrow> danos_vrrp_state" where
  "danos_vrrp_get_state vrid ifindex s = (case vrrp_find_session vrid ifindex s of
     None \<Rightarrow> VRRP_STATE_INIT | Some i \<Rightarrow> ve_state (vrrp_sessions s ! i))"

subsection \<open>The process supervisor\<close>

record danos_sup_proc =
  sp_name :: bytes
  sp_cmdline :: bytes
  sp_pidfile :: bytes
  sp_restart_min_ms :: u32
  sp_restart_max_ms :: u32
  sp_critical :: bool

datatype danos_sup_state = SUP_STATE_STOPPED | SUP_STATE_RUNNING | SUP_STATE_RESTARTING | SUP_STATE_FAILED | SUP_STATE_SAFE_MODE

record sup_entry =
  se_proc :: danos_sup_proc
  se_state :: danos_sup_state
  se_restart_count :: u32
  se_current_delay_ms :: u32
  se_used :: bool

record sup_mod =
  sup_procs :: "sup_entry list"
  sup_initialized :: bool

definition SUP_MAX_PROCS :: nat where "SUP_MAX_PROCS = 32"

definition sup_entry_zero :: sup_entry where
  "sup_entry_zero = \<lparr>se_proc = \<lparr>sp_name = replicate 64 0, sp_cmdline = replicate 256 0, sp_pidfile = replicate 128 0,
     sp_restart_min_ms = 0, sp_restart_max_ms = 0, sp_critical = False\<rparr>, se_state = SUP_STATE_STOPPED,
     se_restart_count = 0, se_current_delay_ms = 0, se_used = False\<rparr>"

definition sup_boot :: sup_mod where
  "sup_boot = \<lparr>sup_procs = replicate SUP_MAX_PROCS sup_entry_zero, sup_initialized = False\<rparr>"

definition find_proc :: "bytes option \<Rightarrow> sup_mod \<Rightarrow> nat option" where
  "find_proc name s = (case name of None \<Rightarrow> None | Some n \<Rightarrow>
     find_slot (\<lambda>e. se_used e \<and> cstr (sp_name (se_proc e)) = cstr n) (sup_procs s))"

definition sup_find_free :: "sup_mod \<Rightarrow> nat option" where
  "sup_find_free s = find_slot (\<lambda>e. \<not> se_used e) (sup_procs s)"

definition danos_sup_init :: "sup_mod \<Rightarrow> int \<times> sup_mod" where
  "danos_sup_init s = (0, s\<lparr>sup_procs := replicate SUP_MAX_PROCS sup_entry_zero, sup_initialized := True\<rparr>)"

definition danos_sup_register :: "danos_sup_proc option \<Rightarrow> sup_mod \<Rightarrow> int \<times> sup_mod" where
  "danos_sup_register p s = (case p of None \<Rightarrow> (- 1, s) | Some x \<Rightarrow>
     let s = (if \<not> sup_initialized s then snd (danos_sup_init s) else s) in
     if find_proc (Some (sp_name x)) s \<noteq> None then (- 1, s)
     else case sup_find_free s of
            None \<Rightarrow> (- 1, s)
          | Some i \<Rightarrow> (0, s\<lparr>sup_procs := (sup_procs s)[i := \<lparr>se_proc = x, se_state = SUP_STATE_STOPPED, se_restart_count = 0,
                            se_current_delay_ms = sp_restart_min_ms x, se_used = True\<rparr>]\<rparr>))"

definition danos_sup_unregister :: "bytes option \<Rightarrow> sup_mod \<Rightarrow> int \<times> sup_mod" where
  "danos_sup_unregister name s = (case find_proc name s of
     None \<Rightarrow> (- 1, s)
   | Some i \<Rightarrow> (0, s\<lparr>sup_procs := (sup_procs s)[i := (sup_procs s ! i)\<lparr>se_used := False\<rparr>]\<rparr>))"

definition danos_sup_get_state :: "bytes option \<Rightarrow> sup_mod \<Rightarrow> danos_sup_state" where
  "danos_sup_get_state name s = (case find_proc name s of
     None \<Rightarrow> SUP_STATE_STOPPED | Some i \<Rightarrow> se_state (sup_procs s ! i))"

definition danos_sup_get_restart_count :: "bytes option \<Rightarrow> sup_mod \<Rightarrow> u32" where
  "danos_sup_get_restart_count name s = (case find_proc name s of
     None \<Rightarrow> 0 | Some i \<Rightarrow> se_restart_count (sup_procs s ! i))"

definition danos_sup_start :: "sup_mod \<Rightarrow> int \<times> sup_mod" where
  "danos_sup_start s = (let s = (if \<not> sup_initialized s then snd (danos_sup_init s) else s) in
     (0, s\<lparr>sup_procs := map (\<lambda>e. if se_used e \<and> se_state e = SUP_STATE_STOPPED then e\<lparr>se_state := SUP_STATE_RUNNING\<rparr> else e)
           (sup_procs s)\<rparr>))"

definition danos_sup_stop :: "sup_mod \<Rightarrow> int \<times> sup_mod" where
  "danos_sup_stop s =
     (0, s\<lparr>sup_procs := map (\<lambda>e. if se_used e then e\<lparr>se_state := SUP_STATE_STOPPED\<rparr> else e) (sup_procs s)\<rparr>)"

definition exit_entry :: "sup_entry \<Rightarrow> sup_entry" where
  "exit_entry e =
     (let count = se_restart_count e + 1;
          delay = se_current_delay_ms e * 2;
          delay = (if delay > sp_restart_max_ms (se_proc e) then sp_restart_max_ms (se_proc e) else delay);
          st = (if count > 10 then (if sp_critical (se_proc e) then SUP_STATE_SAFE_MODE else SUP_STATE_FAILED)
                else SUP_STATE_RESTARTING)
      in e\<lparr>se_restart_count := count, se_current_delay_ms := delay, se_state := st\<rparr>)"

definition danos_sup_on_exit :: "bytes option \<Rightarrow> sup_mod \<Rightarrow> sup_mod" where
  "danos_sup_on_exit name s = (case find_proc name s of
     None \<Rightarrow> s
   | Some i \<Rightarrow> s\<lparr>sup_procs := (sup_procs s)[i := exit_entry (sup_procs s ! i)]\<rparr>)"

end
