(* ===== verification/Ha_Sessions.thy ===== *)
theory Ha_Sessions
  imports Ha
begin

text \<open>
  The tables of the high-availability modules are maps, BFD state changes are reported exactly, and
  the supervisor backs off exponentially.
\<close>

subsection \<open>The tables implement maps\<close>

definition bfd_inv :: "bfd_mod \<Rightarrow> bool" where
  "bfd_inv s \<longleftrightarrow> length (bfd_sessions s) = BFD_MAX_SESSIONS \<and>
     slots_wf be_used (\<lambda>e. bs_id (be_sess e)) (bfd_sessions s) \<and>
     (\<not> bfd_initialized s \<longrightarrow> (\<forall>e \<in> set (bfd_sessions s). \<not> be_used e))"

definition bfd_view :: "bfd_mod \<Rightarrow> u64 \<Rightarrow> danos_bfd_session option" where
  "bfd_view s = slot_view be_used (\<lambda>e. bs_id (be_sess e)) be_sess (bfd_sessions s)"

definition bfd_lookup :: "u64 \<Rightarrow> bfd_mod \<Rightarrow> danos_bfd_session option" where
  "bfd_lookup k s = (case danos_bfd_read_ha k (Some (be_sess bfd_entry_zero)) s of (rc, out) \<Rightarrow> if rc = 0 then out else None)"

lemma bfd_boot_inv: "bfd_inv bfd_boot" "bfd_view bfd_boot = Map.empty"
  using slots_wf_unused [of "replicate BFD_MAX_SESSIONS bfd_entry_zero" be_used "\<lambda>e. bs_id (be_sess e)" be_sess]
  by (simp_all add: bfd_inv_def bfd_view_def bfd_boot_def bfd_entry_zero_def)

lemma bfd_init_inv:
  assumes "bfd_inv s"
  shows "bfd_inv (if \<not> bfd_initialized s then snd (danos_bfd_init s) else s)"
    "bfd_view (if \<not> bfd_initialized s then snd (danos_bfd_init s) else s) = bfd_view s"
    "bfd_initialized (if \<not> bfd_initialized s then snd (danos_bfd_init s) else s)"
  using assms bfd_boot_inv slots_wf_unused [of "bfd_sessions s" be_used "\<lambda>e. bs_id (be_sess e)" be_sess]
  by (auto simp: bfd_inv_def bfd_view_def bfd_boot_def danos_bfd_init_def bfd_entry_zero_def)

lemma bfd_same: "s\<lparr>bfd_sessions := bfd_sessions s\<rparr> = s" for s :: bfd_mod
  by (cases s) simp

lemmas bfd_ops_defs = danos_bfd_create_ha_def danos_bfd_update_ha_def danos_bfd_delete_ha_def
  bfd_find_session_def bfd_find_free_def slots_create_def slots_modify_def Let_def

lemma bfd_create_spec:
  assumes "bfd_inv s" and "danos_bfd_create_ha (Some x) s = (r, s')"
  shows "bfd_inv s' \<and> (r, bfd_view s') = spec_table_op BFD_MAX_SESSIONS bs_id (TCreate x) (bfd_view s)"
proof -
  let ?e = "\<lparr>be_sess = x, be_state = BFD_STATE_DOWN, be_used = True\<rparr>"
  define t where "t = (if \<not> bfd_initialized s then snd (danos_bfd_init s) else s)"
  have t: "bfd_inv t" "bfd_view s = bfd_view t" "bfd_initialized t" using bfd_init_inv [OF assms(1)] by (simp_all add: t_def)
  have "danos_bfd_create_ha (Some x) s =
      (if bfd_find_session (bs_id x) t \<noteq> None then (- 1, t)
       else case bfd_find_free t of None \<Rightarrow> (- 1, t) | Some i \<Rightarrow> (0, t\<lparr>bfd_sessions := (bfd_sessions t)[i := ?e]\<rparr>))"
    by (simp only: danos_bfd_create_ha_def option.case t_def Let_def)
  note e = trans [OF this [symmetric] assms(2)]
  obtain r' es where es': "slots_create be_used (\<lambda>e. bs_id (be_sess e)) ?e (bfd_sessions t) = (r', es)" by fastforce
  have "(r', t\<lparr>bfd_sessions := es\<rparr>) = (r, s')"
    unfolding e [symmetric] using es' by (auto simp: bfd_ops_defs bfd_same split: option.splits)
  then have es: "slots_create be_used (\<lambda>e. bs_id (be_sess e)) ?e (bfd_sessions t) = (r, es)" "s' = t\<lparr>bfd_sessions := es\<rparr>" using es' by simp_all
  show ?thesis
    using slots_create_spec [OF _ _ es(1), of be_sess] t es(2) by (auto simp: bfd_inv_def bfd_view_def split: if_splits)
qed

lemma bfd_update_spec:
  assumes "bfd_inv s" and "danos_bfd_update_ha (Some x) s = (r, s')"
  shows "bfd_inv s' \<and> (r, bfd_view s') = spec_table_op BFD_MAX_SESSIONS bs_id (TUpdate x) (bfd_view s)"
proof -
  obtain r' es where es': "slots_modify be_used (\<lambda>e. bs_id (be_sess e)) (\<lambda>e. e\<lparr>be_sess := x\<rparr>) (bs_id x) (bfd_sessions s) = (r', es)" by fastforce
  have "(r', s\<lparr>bfd_sessions := es\<rparr>) = (r, s')"
    unfolding assms(2) [symmetric] using es' by (auto simp: bfd_ops_defs bfd_same split: option.splits)
  then have es: "slots_modify be_used (\<lambda>e. bs_id (be_sess e)) (\<lambda>e. e\<lparr>be_sess := x\<rparr>) (bs_id x) (bfd_sessions s) = (r, es)" "s' = s\<lparr>bfd_sessions := es\<rparr>" using es' by simp_all
  show ?thesis
    using slots_update_spec [OF _ es(1), of be_sess x] slots_unused [OF es(1)] assms(1) es(2)
    by (auto simp: bfd_inv_def bfd_view_def split: if_splits)
qed

lemma bfd_delete_spec:
  assumes "bfd_inv s" and "danos_bfd_delete_ha k s = (r, s')"
  shows "bfd_inv s' \<and> (r, bfd_view s') = spec_table_op BFD_MAX_SESSIONS bs_id (TDelete k) (bfd_view s)"
proof -
  obtain r' es where es': "slots_modify be_used (\<lambda>e. bs_id (be_sess e)) (\<lambda>e. e\<lparr>be_used := False\<rparr>) k (bfd_sessions s) = (r', es)" by fastforce
  have "(r', s\<lparr>bfd_sessions := es\<rparr>) = (r, s')"
    unfolding assms(2) [symmetric] using es' by (auto simp: bfd_ops_defs bfd_same split: option.splits)
  then have es: "slots_modify be_used (\<lambda>e. bs_id (be_sess e)) (\<lambda>e. e\<lparr>be_used := False\<rparr>) k (bfd_sessions s) = (r, es)" "s' = s\<lparr>bfd_sessions := es\<rparr>" using es' by simp_all
  show ?thesis
    using slots_delete_spec [OF _ es(1), of be_sess] slots_unused [OF es(1)] assms(1) es(2)
    by (auto simp: bfd_inv_def bfd_view_def split: if_splits)
qed

lemma bfd_lookup_view: "bfd_lookup k s = bfd_view s k"
  by (simp add: bfd_lookup_def danos_bfd_read_ha_def bfd_find_session_def bfd_view_def slot_view_def slot_map_def
      split: option.split)

interpretation bfd: session_table bfd_inv bfd_view BFD_MAX_SESSIONS bs_id
  "\<lambda>x. danos_bfd_create_ha (Some x)" danos_bfd_delete_ha "\<lambda>x. danos_bfd_update_ha (Some x)" bfd_lookup
  by unfold_locales
    (erule (1) bfd_create_spec, erule (1) bfd_delete_spec, erule (1) bfd_update_spec, rule bfd_lookup_view)

text \<open>VRRP sessions are keyed by virtual router and interface.\<close>

abbreviation vr_key :: "danos_vrrp_session \<Rightarrow> u32 \<times> u32" where
  "vr_key x \<equiv> (vr_vrid x, vr_ifindex x)"

definition vrrp_inv :: "vrrp_mod \<Rightarrow> bool" where
  "vrrp_inv s \<longleftrightarrow> length (vrrp_sessions s) = VRRP_MAX_SESSIONS \<and>
     slots_wf ve_used (\<lambda>e. vr_key (ve_sess e)) (vrrp_sessions s) \<and>
     (\<not> vrrp_initialized s \<longrightarrow> (\<forall>e \<in> set (vrrp_sessions s). \<not> ve_used e))"

definition vrrp_view :: "vrrp_mod \<Rightarrow> u32 \<times> u32 \<Rightarrow> danos_vrrp_session option" where
  "vrrp_view s = slot_view ve_used (\<lambda>e. vr_key (ve_sess e)) ve_sess (vrrp_sessions s)"

definition vrrp_lookup :: "u32 \<times> u32 \<Rightarrow> vrrp_mod \<Rightarrow> danos_vrrp_session option" where
  "vrrp_lookup k s = (case danos_vrrp_read (fst k) (snd k) (Some (ve_sess vrrp_entry_zero)) s of
     (rc, out) \<Rightarrow> if rc = 0 then out else None)"

lemma vrrp_boot_inv: "vrrp_inv vrrp_boot" "vrrp_view vrrp_boot = Map.empty"
  using slots_wf_unused [of "replicate VRRP_MAX_SESSIONS vrrp_entry_zero" ve_used "\<lambda>e. vr_key (ve_sess e)" ve_sess]
  by (simp_all add: vrrp_inv_def vrrp_view_def vrrp_boot_def vrrp_entry_zero_def)

lemma vrrp_init_inv:
  assumes "vrrp_inv s"
  shows "vrrp_inv (if \<not> vrrp_initialized s then snd (danos_vrrp_init s) else s)"
    "vrrp_view (if \<not> vrrp_initialized s then snd (danos_vrrp_init s) else s) = vrrp_view s"
    "vrrp_initialized (if \<not> vrrp_initialized s then snd (danos_vrrp_init s) else s)"
  using assms vrrp_boot_inv slots_wf_unused [of "vrrp_sessions s" ve_used "\<lambda>e. vr_key (ve_sess e)" ve_sess]
  by (auto simp: vrrp_inv_def vrrp_view_def vrrp_boot_def danos_vrrp_init_def vrrp_entry_zero_def)

lemma vrrp_same: "s\<lparr>vrrp_sessions := vrrp_sessions s\<rparr> = s" for s :: vrrp_mod
  by (cases s) simp

lemmas vrrp_ops_defs = danos_vrrp_create_def danos_vrrp_update_def danos_vrrp_delete_def
  vrrp_find_session_def vrrp_find_free_def slots_create_def slots_modify_def Let_def

lemma vrrp_create_spec:
  assumes "vrrp_inv s" and "danos_vrrp_create (Some x) s = (r, s')"
  shows "vrrp_inv s' \<and> (r, vrrp_view s') = spec_table_op VRRP_MAX_SESSIONS vr_key (TCreate x) (vrrp_view s)"
proof -
  let ?e = "\<lparr>ve_sess = x, ve_state = VRRP_STATE_INIT, ve_used = True\<rparr>"
  define t where "t = (if \<not> vrrp_initialized s then snd (danos_vrrp_init s) else s)"
  have t: "vrrp_inv t" "vrrp_view s = vrrp_view t" "vrrp_initialized t" using vrrp_init_inv [OF assms(1)] by (simp_all add: t_def)
  have "danos_vrrp_create (Some x) s =
      (if vrrp_find_session (vr_vrid x) (vr_ifindex x) t \<noteq> None then (- 1, t)
       else case vrrp_find_free t of None \<Rightarrow> (- 1, t) | Some i \<Rightarrow> (0, t\<lparr>vrrp_sessions := (vrrp_sessions t)[i := ?e]\<rparr>))"
    by (simp only: danos_vrrp_create_def option.case t_def Let_def)
  note e = trans [OF this [symmetric] assms(2)]
  obtain r' es where es': "slots_create ve_used (\<lambda>e. vr_key (ve_sess e)) ?e (vrrp_sessions t) = (r', es)" by fastforce
  have "(r', t\<lparr>vrrp_sessions := es\<rparr>) = (r, s')"
    unfolding e [symmetric] using es' by (auto simp: vrrp_ops_defs vrrp_same split: option.splits)
  then have es: "slots_create ve_used (\<lambda>e. vr_key (ve_sess e)) ?e (vrrp_sessions t) = (r, es)" "s' = t\<lparr>vrrp_sessions := es\<rparr>" using es' by simp_all
  show ?thesis
    using slots_create_spec [OF _ _ es(1), of ve_sess] t es(2) by (auto simp: vrrp_inv_def vrrp_view_def split: if_splits)
qed

lemma vrrp_update_spec:
  assumes "vrrp_inv s" and "danos_vrrp_update (Some x) s = (r, s')"
  shows "vrrp_inv s' \<and> (r, vrrp_view s') = spec_table_op VRRP_MAX_SESSIONS vr_key (TUpdate x) (vrrp_view s)"
proof -
  obtain r' es where es': "slots_modify ve_used (\<lambda>e. vr_key (ve_sess e)) (\<lambda>e. e\<lparr>ve_sess := x\<rparr>) (vr_key x) (vrrp_sessions s) = (r', es)" by fastforce
  have "(r', s\<lparr>vrrp_sessions := es\<rparr>) = (r, s')"
    unfolding assms(2) [symmetric] using es' by (auto simp: vrrp_ops_defs vrrp_same split: option.splits)
  then have es: "slots_modify ve_used (\<lambda>e. vr_key (ve_sess e)) (\<lambda>e. e\<lparr>ve_sess := x\<rparr>) (vr_key x) (vrrp_sessions s) = (r, es)" "s' = s\<lparr>vrrp_sessions := es\<rparr>" using es' by simp_all
  show ?thesis
    using slots_update_spec [OF _ es(1), of ve_sess x] slots_unused [OF es(1)] assms(1) es(2)
    by (auto simp: vrrp_inv_def vrrp_view_def split: if_splits)
qed

lemma vrrp_delete_spec:
  assumes "vrrp_inv s" and "danos_vrrp_delete (fst k) (snd k) s = (r, s')"
  shows "vrrp_inv s' \<and> (r, vrrp_view s') = spec_table_op VRRP_MAX_SESSIONS vr_key (TDelete k) (vrrp_view s)"
proof -
  obtain r' es where es': "slots_modify ve_used (\<lambda>e. vr_key (ve_sess e)) (\<lambda>e. e\<lparr>ve_used := False\<rparr>) k (vrrp_sessions s) = (r', es)" by fastforce
  have "(r', s\<lparr>vrrp_sessions := es\<rparr>) = (r, s')"
    unfolding assms(2) [symmetric] using es' by (cases k) (auto simp: vrrp_ops_defs vrrp_same split: option.splits)
  then have es: "slots_modify ve_used (\<lambda>e. vr_key (ve_sess e)) (\<lambda>e. e\<lparr>ve_used := False\<rparr>) k (vrrp_sessions s) = (r, es)" "s' = s\<lparr>vrrp_sessions := es\<rparr>" using es' by simp_all
  show ?thesis
    using slots_delete_spec [OF _ es(1), of ve_sess] slots_unused [OF es(1)] assms(1) es(2)
    by (auto simp: vrrp_inv_def vrrp_view_def split: if_splits)
qed

lemma vrrp_lookup_view: "vrrp_lookup k s = vrrp_view s k"
  by (cases k) (simp add: vrrp_lookup_def danos_vrrp_read_def vrrp_find_session_def vrrp_view_def slot_view_def slot_map_def
      split: option.split)

interpretation vrrp: session_table vrrp_inv vrrp_view VRRP_MAX_SESSIONS vr_key
  "\<lambda>x. danos_vrrp_create (Some x)" "\<lambda>k. danos_vrrp_delete (fst k) (snd k)" "\<lambda>x. danos_vrrp_update (Some x)" vrrp_lookup
  by unfold_locales
    (erule (1) vrrp_create_spec, erule (1) vrrp_delete_spec, erule (1) vrrp_update_spec, rule vrrp_lookup_view)

text \<open>Supervised processes are keyed by the string of their name.\<close>

definition sup_inv :: "sup_mod \<Rightarrow> bool" where
  "sup_inv s \<longleftrightarrow> length (sup_procs s) = SUP_MAX_PROCS \<and>
     slots_wf se_used (\<lambda>e. cstr (sp_name (se_proc e))) (sup_procs s) \<and>
     (\<not> sup_initialized s \<longrightarrow> (\<forall>e \<in> set (sup_procs s). \<not> se_used e))"

definition sup_view :: "sup_mod \<Rightarrow> bytes \<Rightarrow> danos_sup_proc option" where
  "sup_view s = slot_view se_used (\<lambda>e. cstr (sp_name (se_proc e))) se_proc (sup_procs s)"

lemma sup_boot_inv: "sup_inv sup_boot" "sup_view sup_boot = Map.empty"
  using slots_wf_unused [of "replicate SUP_MAX_PROCS sup_entry_zero" se_used "\<lambda>e. cstr (sp_name (se_proc e))" se_proc]
  by (simp_all add: sup_inv_def sup_view_def sup_boot_def sup_entry_zero_def)

lemma sup_init_inv:
  assumes "sup_inv s"
  shows "sup_inv (if \<not> sup_initialized s then snd (danos_sup_init s) else s)"
    "sup_view (if \<not> sup_initialized s then snd (danos_sup_init s) else s) = sup_view s"
    "sup_initialized (if \<not> sup_initialized s then snd (danos_sup_init s) else s)"
  using assms sup_boot_inv slots_wf_unused [of "sup_procs s" se_used "\<lambda>e. cstr (sp_name (se_proc e))" se_proc]
  by (auto simp: sup_inv_def sup_view_def sup_boot_def danos_sup_init_def sup_entry_zero_def)

lemma sup_same: "s\<lparr>sup_procs := sup_procs s\<rparr> = s" for s :: sup_mod
  by (cases s) simp

lemmas sup_ops_defs = danos_sup_register_def danos_sup_unregister_def find_proc_def sup_find_free_def
  slots_create_def slots_modify_def Let_def

lemma sup_register_spec:
  assumes "sup_inv s" and "danos_sup_register (Some x) s = (r, s')"
  shows "sup_inv s' \<and> (r, sup_view s') = spec_table_op SUP_MAX_PROCS (\<lambda>p. cstr (sp_name p)) (TCreate x) (sup_view s)"
proof -
  let ?e = "\<lparr>se_proc = x, se_state = SUP_STATE_STOPPED, se_restart_count = 0, se_current_delay_ms = sp_restart_min_ms x, se_used = True\<rparr>"
  define t where "t = (if \<not> sup_initialized s then snd (danos_sup_init s) else s)"
  have t: "sup_inv t" "sup_view s = sup_view t" "sup_initialized t" using sup_init_inv [OF assms(1)] by (simp_all add: t_def)
  have "danos_sup_register (Some x) s =
      (if find_proc (Some (sp_name x)) t \<noteq> None then (- 1, t)
       else case sup_find_free t of None \<Rightarrow> (- 1, t) | Some i \<Rightarrow> (0, t\<lparr>sup_procs := (sup_procs t)[i := ?e]\<rparr>))"
    by (simp only: danos_sup_register_def option.case t_def Let_def)
  note e = trans [OF this [symmetric] assms(2)]
  obtain r' es where es': "slots_create se_used (\<lambda>e. cstr (sp_name (se_proc e))) ?e (sup_procs t) = (r', es)" by fastforce
  have "(r', t\<lparr>sup_procs := es\<rparr>) = (r, s')"
    unfolding e [symmetric] using es' by (auto simp: sup_ops_defs sup_same split: option.splits)
  then have es: "slots_create se_used (\<lambda>e. cstr (sp_name (se_proc e))) ?e (sup_procs t) = (r, es)" "s' = t\<lparr>sup_procs := es\<rparr>" using es' by simp_all
  show ?thesis
    using slots_create_spec [OF _ _ es(1), of se_proc] t es(2) by (auto simp: sup_inv_def sup_view_def split: if_splits)
qed

lemma sup_unregister_spec:
  assumes "sup_inv s" and "danos_sup_unregister (Some n) s = (r, s')"
  shows "sup_inv s' \<and> (r, sup_view s') = spec_table_op SUP_MAX_PROCS (\<lambda>p. cstr (sp_name p)) (TDelete (cstr n)) (sup_view s)"
proof -
  obtain r' es where es': "slots_modify se_used (\<lambda>e. cstr (sp_name (se_proc e))) (\<lambda>e. e\<lparr>se_used := False\<rparr>) (cstr n) (sup_procs s) = (r', es)" by fastforce
  have "(r', s\<lparr>sup_procs := es\<rparr>) = (r, s')"
    unfolding assms(2) [symmetric] using es' by (auto simp: sup_ops_defs sup_same split: option.splits)
  then have es: "slots_modify se_used (\<lambda>e. cstr (sp_name (se_proc e))) (\<lambda>e. e\<lparr>se_used := False\<rparr>) (cstr n) (sup_procs s) = (r, es)" "s' = s\<lparr>sup_procs := es\<rparr>" using es' by simp_all
  show ?thesis
    using slots_delete_spec [OF _ es(1), of se_proc] slots_unused [OF es(1)] assms(1) es(2)
    by (auto simp: sup_inv_def sup_view_def split: if_splits)
qed

subsection \<open>State changes and notifications\<close>

fun set_states :: "(u64 \<times> danos_bfd_state) list \<Rightarrow> bfd_mod \<Rightarrow> bfd_mod" where
  "set_states [] s = s"
| "set_states ((k, st) # xs) s = set_states xs (danos_bfd_set_state k st s)"

text \<open>The calls about one session lead from one state to the other, each through a real change.\<close>

fun call_chain :: "danos_bfd_state \<Rightarrow> (nat \<times> u64 \<times> danos_bfd_state \<times> danos_bfd_state \<times> u64) list \<Rightarrow> danos_bfd_state \<Rightarrow> bool" where
  "call_chain a [] b \<longleftrightarrow> a = b"
| "call_chain a ((cb, k, old, new, user) # cs) b \<longleftrightarrow> old = a \<and> new \<noteq> old \<and> call_chain new cs b"

lemma set_state_effect:
  assumes "bfd_callback s = Some cb"
  obtains cs where "bfd_calls (danos_bfd_set_state k st s) = bfd_calls s @ cs" and "bfd_callback (danos_bfd_set_state k st s) = Some cb"
    and "\<And>j. bfd_find_session j (danos_bfd_set_state k st s) = bfd_find_session j s"
    and "\<And>j. j \<noteq> k \<Longrightarrow> danos_bfd_get_state j (danos_bfd_set_state k st s) = danos_bfd_get_state j s"
    and "\<forall>c \<in> set cs. fst (snd c) = k"
    and "bfd_find_session k s \<noteq> None \<Longrightarrow> danos_bfd_get_state k (danos_bfd_set_state k st s) = st \<and>
      cs = (if danos_bfd_get_state k s = st then [] else [(cb, k, danos_bfd_get_state k s, st, bfd_cb_user s)])"
proof (cases "bfd_find_session k s")
  case None
  then show ?thesis using that [of "[]"] assms by (simp add: danos_bfd_set_state_def)
next
  case (Some i)
  note f = find_slot_Some [OF Some [unfolded bfd_find_session_def]]
  let ?es = "(bfd_sessions s)[i := (bfd_sessions s ! i)\<lparr>be_state := st\<rparr>]"
  have find: "find_slot (\<lambda>e. be_used e \<and> bs_id (be_sess e) = j) ?es = bfd_find_session j s" for j
    unfolding bfd_find_session_def by (rule find_slot_update) (use f in simp_all)
  have other: "j \<noteq> k \<Longrightarrow> bfd_find_session j s \<noteq> Some i" for j
    using f find_slot_Some [of "\<lambda>e. be_used e \<and> bs_id (be_sess e) = j" "bfd_sessions s" i] by (auto simp: bfd_find_session_def)
  show ?thesis
  proof (cases "be_state (bfd_sessions s ! i) = st")
    case True
    then show ?thesis using that [of "[]"] assms Some by (simp add: danos_bfd_set_state_def danos_bfd_get_state_def Let_def)
  next
    case False
    then have e: "danos_bfd_set_state k st s = s\<lparr>bfd_sessions := ?es,
        bfd_calls := bfd_calls s @ [(cb, k, be_state (bfd_sessions s ! i), st, bfd_cb_user s)]\<rparr>"
      using Some assms by (simp add: danos_bfd_set_state_def Let_def)
    have find': "bfd_find_session j (danos_bfd_set_state k st s) = bfd_find_session j s" for j
      unfolding e by (simp add: bfd_find_session_def find [unfolded bfd_find_session_def])
    show ?thesis
    proof (rule that [of "[(cb, k, be_state (bfd_sessions s ! i), st, bfd_cb_user s)]"])
      fix j assume "j \<noteq> k"
      then show "danos_bfd_get_state j (danos_bfd_set_state k st s) = danos_bfd_get_state j s"
        using other [of j] unfolding danos_bfd_get_state_def find' by (auto simp: e nth_list_update split: option.split)
    next
      show "danos_bfd_get_state k (danos_bfd_set_state k st s) = st \<and>
          [(cb, k, be_state (bfd_sessions s ! i), st, bfd_cb_user s)] =
            (if danos_bfd_get_state k s = st then [] else [(cb, k, danos_bfd_get_state k s, st, bfd_cb_user s)])"
        using f False Some unfolding danos_bfd_get_state_def find' by (simp add: e)
    qed (use assms in \<open>simp_all add: e find' [unfolded e]\<close>)
  qed
qed

text \<open>
  C36: BFD state changes are reported exactly. With a callback registered, any sequence of state
  changes of any sessions invokes it so that the calls about a session that exists form a chain
  from its state before to its state after, each call reporting a real change: no transition is
  lost, repeated or reported with a wrong old state.
\<close>

theorem bfd_changes_reported:
  assumes "bfd_callback s = Some cb" and "bfd_find_session k s \<noteq> None"
  shows "\<exists>cs. bfd_calls (set_states xs s) = bfd_calls s @ cs \<and>
    call_chain (danos_bfd_get_state k s) (filter (\<lambda>c. fst (snd c) = k) cs) (danos_bfd_get_state k (set_states xs s))"
  using assms
proof (induction xs arbitrary: s)
  case (Cons x xs)
  obtain j st where x: "x = (j, st)" by fastforce
  obtain cs where cs: "bfd_calls (danos_bfd_set_state j st s) = bfd_calls s @ cs" "bfd_callback (danos_bfd_set_state j st s) = Some cb"
    "\<And>i. bfd_find_session i (danos_bfd_set_state j st s) = bfd_find_session i s"
    "\<And>i. i \<noteq> j \<Longrightarrow> danos_bfd_get_state i (danos_bfd_set_state j st s) = danos_bfd_get_state i s"
    "\<forall>c \<in> set cs. fst (snd c) = j"
    "bfd_find_session j s \<noteq> None \<Longrightarrow> danos_bfd_get_state j (danos_bfd_set_state j st s) = st \<and>
      cs = (if danos_bfd_get_state j s = st then [] else [(cb, j, danos_bfd_get_state j s, st, bfd_cb_user s)])"
    by (rule set_state_effect [OF Cons.prems(1), of j st]) blast
  have "bfd_find_session k (danos_bfd_set_state j st s) \<noteq> None" using cs(3) Cons.prems(2) by simp
  from Cons.IH [OF cs(2) this] obtain ds where ds: "bfd_calls (set_states xs (danos_bfd_set_state j st s)) = bfd_calls s @ cs @ ds"
    "call_chain (danos_bfd_get_state k (danos_bfd_set_state j st s)) (filter (\<lambda>c. fst (snd c) = k) ds)
       (danos_bfd_get_state k (set_states xs (danos_bfd_set_state j st s)))"
    using cs(1) by auto
  have "call_chain (danos_bfd_get_state k s) (filter (\<lambda>c. fst (snd c) = k) (cs @ ds))
      (danos_bfd_get_state k (set_states xs (danos_bfd_set_state j st s)))"
  proof (cases "j = k")
    case True
    then show ?thesis using cs(6) Cons.prems(2) ds(2) by auto
  next
    case False
    then have "filter (\<lambda>c. fst (snd c) = k) cs = []" using cs(5) by (auto simp: filter_empty_conv)
    then show ?thesis using ds(2) cs(4) [of k] False by simp
  qed
  then show ?case using ds(1) x by auto
qed simp

definition sample_bfd :: "u64 \<Rightarrow> danos_bfd_session" where
  "sample_bfd k = (be_sess bfd_entry_zero)\<lparr>bs_id := k\<rparr>"

definition sample_bfd_mod :: bfd_mod where
  "sample_bfd_mod = snd (danos_bfd_register_callback (Some 7) 0 (snd (danos_bfd_create_ha (Some (sample_bfd 5)) bfd_boot)))"

lemma sample_bfd_created:
  "danos_bfd_create_ha (Some (sample_bfd 5)) bfd_boot =
     (0, \<lparr>bfd_sessions = \<lparr>be_sess = sample_bfd 5, be_state = BFD_STATE_DOWN, be_used = True\<rparr> # replicate 255 bfd_entry_zero,
          bfd_callback = None, bfd_cb_user = 0, bfd_initialized = True, bfd_calls = []\<rparr>)"
  "bs_id (sample_bfd k) = k"
proof -
  have r: "replicate BFD_MAX_SESSIONS bfd_entry_zero = bfd_entry_zero # replicate 255 bfd_entry_zero"
    using replicate_Suc [of 255 bfd_entry_zero] by (simp add: BFD_MAX_SESSIONS_def)
  have "find_slot (\<lambda>e. be_used e \<and> bs_id (be_sess e) = i) (bfd_entry_zero # replicate 255 bfd_entry_zero) = None" for i
    by (simp add: find_slot_None bfd_entry_zero_def)
  then show "danos_bfd_create_ha (Some (sample_bfd 5)) bfd_boot =
     (0, \<lparr>bfd_sessions = \<lparr>be_sess = sample_bfd 5, be_state = BFD_STATE_DOWN, be_used = True\<rparr> # replicate 255 bfd_entry_zero,
          bfd_callback = None, bfd_cb_user = 0, bfd_initialized = True, bfd_calls = []\<rparr>)"
    by (simp add: danos_bfd_create_ha_def bfd_boot_def danos_bfd_init_def bfd_find_session_def bfd_find_free_def r Let_def)
      (simp add: bfd_entry_zero_def)
qed (simp add: sample_bfd_def)

theorem bfd_changes_reported_witness:
  "\<exists>cs. bfd_calls (set_states [(5, BFD_STATE_INIT), (9, BFD_STATE_UP), (5, BFD_STATE_UP)] sample_bfd_mod) = cs \<and>
     call_chain BFD_STATE_DOWN (filter (\<lambda>c. fst (snd c) = 5) cs)
       (danos_bfd_get_state 5 (set_states [(5, BFD_STATE_INIT), (9, BFD_STATE_UP), (5, BFD_STATE_UP)] sample_bfd_mod))"
proof -
  have c: "bfd_callback sample_bfd_mod = Some 7" "bfd_calls sample_bfd_mod = []" "bfd_find_session 5 sample_bfd_mod \<noteq> None"
    "danos_bfd_get_state 5 sample_bfd_mod = BFD_STATE_DOWN"
    by (simp_all add: sample_bfd_mod_def sample_bfd_created danos_bfd_register_callback_def bfd_find_session_def danos_bfd_get_state_def)
  show ?thesis
    using bfd_changes_reported [OF c(1,3), of "[(5, BFD_STATE_INIT), (9, BFD_STATE_UP), (5, BFD_STATE_UP)]"] c(2,4) by simp
qed

text \<open>
  C35: The session tables are maps. Whatever sequence of creates, updates and deletes runs on the BFD
  or the VRRP module from its boot state, every call returns the status that the operation has on
  a map with room for 256 or 64 sessions (a create fails exactly when the key is taken or the map
  is full, an update and a delete exactly when the key is missing), and afterwards the read
  function returns for every key what the map holds.
\<close>

theorem ha_tables_refine_maps:
  "(run_table (table_step (\<lambda>x. danos_bfd_create_ha (Some x)) danos_bfd_delete_ha (\<lambda>x. danos_bfd_update_ha (Some x))) xs bfd_boot = (rs, s) \<longrightarrow>
      run_table (spec_table_op 256 bs_id) xs Map.empty = (rs, \<lambda>k. bfd_lookup k s)) \<and>
   (run_table (table_step (\<lambda>x. danos_vrrp_create (Some x)) (\<lambda>k. danos_vrrp_delete (fst k) (snd k)) (\<lambda>x. danos_vrrp_update (Some x))) ys vrrp_boot = (qs, t) \<longrightarrow>
      run_table (spec_table_op 64 vr_key) ys Map.empty = (qs, \<lambda>k. vrrp_lookup k t))"
  using bfd.run_read [OF bfd_boot_inv(1), of xs rs s] vrrp.run_read [OF vrrp_boot_inv(1), of ys qs t]
  by (simp add: bfd_boot_inv vrrp_boot_inv BFD_MAX_SESSIONS_def VRRP_MAX_SESSIONS_def)

theorem ha_tables_refine_maps_witness:
  "run_table (spec_table_op 256 bs_id) [TCreate (sample_bfd 5), TCreate (sample_bfd 5), TDelete 5] Map.empty =
    ([0, - 1, 0], \<lambda>k. bfd_lookup k (snd (run_table (table_step (\<lambda>x. danos_bfd_create_ha (Some x)) danos_bfd_delete_ha
        (\<lambda>x. danos_bfd_update_ha (Some x))) [TCreate (sample_bfd 5), TCreate (sample_bfd 5), TDelete 5] bfd_boot)))"
proof -
  let ?xs = "[TCreate (sample_bfd 5), TCreate (sample_bfd 5), TDelete 5]"
  obtain rs s where r: "run_table (table_step (\<lambda>x. danos_bfd_create_ha (Some x)) danos_bfd_delete_ha
      (\<lambda>x. danos_bfd_update_ha (Some x))) ?xs bfd_boot = (rs, s)" by fastforce
  have "run_table (spec_table_op 256 bs_id) ?xs Map.empty = (rs, \<lambda>k. bfd_lookup k s)"
    using ha_tables_refine_maps r by blast
  moreover have "fst (run_table (spec_table_op 256 bs_id) ?xs Map.empty) = [0, - 1, 0]"
    by (simp add: sample_bfd_def)
  ultimately show ?thesis using r by (metis fst_conv snd_conv prod.collapse)
qed

subsection \<open>Restarts with back-off\<close>

lemma exit_entry_keeps: "se_proc (exit_entry e) = se_proc e" "se_used (exit_entry e) = se_used e"
  by (simp_all add: exit_entry_def Let_def)

lemma exit_entry_fields:
  "se_restart_count (exit_entry e) = se_restart_count e + 1"
  "se_current_delay_ms (exit_entry e) =
     (if se_current_delay_ms e * 2 > sp_restart_max_ms (se_proc e) then sp_restart_max_ms (se_proc e) else se_current_delay_ms e * 2)"
  "se_state (exit_entry e) =
     (if se_restart_count e + 1 > 10 then (if sp_critical (se_proc e) then SUP_STATE_SAFE_MODE else SUP_STATE_FAILED)
      else SUP_STATE_RESTARTING)"
  by (simp_all add: exit_entry_def Let_def)

lemma exit_entry_pow_keeps: "se_proc ((exit_entry ^^ n) e) = se_proc e" "se_used ((exit_entry ^^ n) e) = se_used e"
  by (induction n) (simp_all add: exit_entry_keeps)

lemma exit_pow:
  assumes "se_restart_count e = 0" and "se_current_delay_ms e = sp_restart_min_ms (se_proc e)"
    and m: "sp_restart_min_ms (se_proc e) \<le> sp_restart_max_ms (se_proc e)" "unat (sp_restart_max_ms (se_proc e)) < 2 ^ 31"
    and "n < 2 ^ 32"
  shows "se_restart_count ((exit_entry ^^ n) e) = of_nat n \<and>
    unat (se_current_delay_ms ((exit_entry ^^ n) e)) =
      min (unat (sp_restart_max_ms (se_proc e))) (unat (sp_restart_min_ms (se_proc e)) * 2 ^ n) \<and>
    se_state ((exit_entry ^^ n) e) =
      (if n = 0 then se_state e else if n \<le> 10 then SUP_STATE_RESTARTING
       else if sp_critical (se_proc e) then SUP_STATE_SAFE_MODE else SUP_STATE_FAILED)"
  using assms(5)
proof (induction n)
  case 0
  then show ?case using assms(1-3) by (simp add: word_le_nat_alt)
next
  case (Suc n)
  let ?x = "(exit_entry ^^ n) e" and ?M = "unat (sp_restart_max_ms (se_proc e))" and ?m = "unat (sp_restart_min_ms (se_proc e))"
  have IH: "se_restart_count ?x = of_nat n" "unat (se_current_delay_ms ?x) = min ?M (?m * 2 ^ n)" using Suc by simp_all
  have "unat (of_nat (Suc n) :: u32) = Suc n" using Suc.prems unfolding unat_of_nat by simp
  then have c: "unat (of_nat n + 1 :: u32) = Suc n" by (simp add: add.commute)
  have d: "unat (se_current_delay_ms ?x * 2) = 2 * min ?M (?m * 2 ^ n)"
    using IH(2) m(2) by (subst unat_mult_lem [THEN iffD1]) (simp_all)
  have "unat (se_current_delay_ms (exit_entry ?x)) = min ?M (2 * min ?M (?m * 2 ^ n))"
    using d by (simp add: exit_entry_fields exit_entry_pow_keeps word_less_nat_alt)
  also have "\<dots> = min ?M (?m * 2 ^ Suc n)" by (simp add: min_def)
  finally have "unat (se_current_delay_ms (exit_entry ?x)) = min ?M (?m * 2 ^ Suc n)" .
  moreover have "(of_nat n + 1 > (10 :: u32)) \<longleftrightarrow> Suc n > 10" using c by (simp add: word_less_nat_alt)
  ultimately show ?case using IH(1) by (simp add: exit_entry_fields(1,3) exit_entry_pow_keeps add.commute)
qed

lemma find_proc_exit: "find_proc m (danos_sup_on_exit name s) = find_proc m s"
proof (cases "find_proc name s")
  case (Some i)
  then obtain n where n: "name = Some n" by (cases name) (auto simp: find_proc_def)
  have i: "i < length (sup_procs s)" using find_slot_Some [OF Some [unfolded find_proc_def n option.case]] by simp
  show ?thesis
    using i Some by (auto simp: danos_sup_on_exit_def find_proc_def exit_entry_keeps split: option.split intro!: find_slot_update)
qed (simp add: danos_sup_on_exit_def)

lemma on_exit_pow:
  assumes "find_proc name s = Some i"
  shows "find_proc m ((danos_sup_on_exit name ^^ n) s) = find_proc m s \<and>
    (danos_sup_on_exit name ^^ n) s = s\<lparr>sup_procs := (sup_procs s)[i := (exit_entry ^^ n) (sup_procs s ! i)]\<rparr>"
proof (induction n arbitrary: m)
  case (Suc n)
  obtain k where k: "name = Some k" using assms by (cases name) (auto simp: find_proc_def)
  have i: "i < length (sup_procs s)" using find_slot_Some [OF assms [unfolded find_proc_def k option.case]] by simp
  note IH = Suc.IH [THEN conjunct1] Suc.IH [THEN conjunct2]
  have f: "find_proc name ((danos_sup_on_exit name ^^ n) s) = Some i" by (rule trans [OF IH(1) assms])
  have "find_proc m ((danos_sup_on_exit name ^^ Suc n) s) = find_proc m s"
    by (simp only: funpow.simps o_apply find_proc_exit IH(1))
  moreover have "(danos_sup_on_exit name ^^ Suc n) s = s\<lparr>sup_procs := (sup_procs s)[i := (exit_entry ^^ Suc n) (sup_procs s ! i)]\<rparr>"
    unfolding funpow.simps o_apply danos_sup_on_exit_def [of name "(danos_sup_on_exit name ^^ n) s"] f option.case
    unfolding IH(2) using i by simp
  ultimately show ?case by (rule conjI)
qed (simp add: sup_same list_update_id)

lemma sup_registered:
  assumes "sup_inv s" and "danos_sup_register (Some p) s = (0, s1)"
  obtains i where "i < length (sup_procs s1)" and "find_proc (Some (sp_name p)) s1 = Some i"
    and "sup_procs s1 ! i = \<lparr>se_proc = p, se_state = SUP_STATE_STOPPED, se_restart_count = 0,
       se_current_delay_ms = sp_restart_min_ms p, se_used = True\<rparr>"
proof -
  define t where "t = (if \<not> sup_initialized s then snd (danos_sup_init s) else s)"
  let ?e = "\<lparr>se_proc = p, se_state = SUP_STATE_STOPPED, se_restart_count = 0, se_current_delay_ms = sp_restart_min_ms p, se_used = True\<rparr>"
  have "danos_sup_register (Some p) s =
      (if find_proc (Some (sp_name p)) t \<noteq> None then (- 1, t)
       else case sup_find_free t of None \<Rightarrow> (- 1, t) | Some i \<Rightarrow> (0, t\<lparr>sup_procs := (sup_procs t)[i := ?e]\<rparr>))"
    by (simp only: danos_sup_register_def option.case t_def Let_def)
  note e = trans [OF this [symmetric] assms(2)]
  obtain j where j: "find_slot (\<lambda>e. \<not> se_used e) (sup_procs t) = Some j" "s1 = t\<lparr>sup_procs := (sup_procs t)[j := ?e]\<rparr>"
    using e by (auto simp: sup_ops_defs split: option.splits if_splits)
  have l: "j < length (sup_procs t)" using find_slot_Some [OF j(1)] by simp
  have "sup_inv s1" using sup_register_spec [OF assms] by simp
  then have wf: "slots_wf se_used (\<lambda>e. cstr (sp_name (se_proc e))) (sup_procs s1)" by (simp add: sup_inv_def)
  have "slot_map se_used (\<lambda>e. cstr (sp_name (se_proc e))) (sup_procs s1) (cstr (sp_name p)) = Some ?e"
    unfolding slot_map_iff [OF wf] using l j(2) by (intro exI [of _ j]) simp
  then obtain i where i: "find_slot (\<lambda>e. se_used e \<and> cstr (sp_name (se_proc e)) = cstr (sp_name p)) (sup_procs s1) = Some i"
    "sup_procs s1 ! i = ?e"
    by (auto simp: slot_map_def)
  show ?thesis using that [of i] i find_slot_Some [OF i(1)] by (simp add: find_proc_def)
qed

text \<open>
  C37: Exponential back-off of restarts. A process that was registered with delays min and max, min at most
  max and max below 2^31 ms, has after n exits the restart count n and the delay min(max, min * 2^n);
  it is RESTARTING for the first ten exits and from the eleventh on in SAFE_MODE if it is critical
  and FAILED otherwise. The states of all other processes are unchanged. The delay before the first
  restart is thus twice the minimum, and the limit of ten is the code's; section 21.2.1 of the
  archived HA design starts at the minimum and enters safe mode after five failures.
\<close>

theorem sup_backoff:
  assumes "sup_inv s" and reg: "danos_sup_register (Some p) s = (0, s1)"
    and "sp_restart_min_ms p \<le> sp_restart_max_ms p" and "unat (sp_restart_max_ms p) < 2 ^ 31" and "n < 2 ^ 32"
    and s': "s' = (danos_sup_on_exit (Some (sp_name p)) ^^ n) s1"
  shows "danos_sup_get_restart_count (Some (sp_name p)) s' = of_nat n \<and>
    (\<exists>i. find_proc (Some (sp_name p)) s' = Some i \<and>
       unat (se_current_delay_ms (sup_procs s' ! i)) = min (unat (sp_restart_max_ms p)) (unat (sp_restart_min_ms p) * 2 ^ n)) \<and>
    danos_sup_get_state (Some (sp_name p)) s' =
      (if n = 0 then SUP_STATE_STOPPED else if n \<le> 10 then SUP_STATE_RESTARTING
       else if sp_critical p then SUP_STATE_SAFE_MODE else SUP_STATE_FAILED) \<and>
    (\<forall>m. cstr m \<noteq> cstr (sp_name p) \<longrightarrow> danos_sup_get_state (Some m) s' = danos_sup_get_state (Some m) s1)"
proof -
  obtain i where i: "i < length (sup_procs s1)" "find_proc (Some (sp_name p)) s1 = Some i"
    "sup_procs s1 ! i = \<lparr>se_proc = p, se_state = SUP_STATE_STOPPED, se_restart_count = 0,
       se_current_delay_ms = sp_restart_min_ms p, se_used = True\<rparr>"
    by (rule sup_registered [OF assms(1) reg])
  note pw = on_exit_pow [OF i(2), of _ n, folded s']
  define e0 where "e0 = sup_procs s1 ! i"
  have p0: "se_proc e0 = p" "se_state e0 = SUP_STATE_STOPPED" by (simp_all add: e0_def i(3))
  have ex: "se_restart_count ((exit_entry ^^ n) e0) = of_nat n \<and>
      unat (se_current_delay_ms ((exit_entry ^^ n) e0)) = min (unat (sp_restart_max_ms p)) (unat (sp_restart_min_ms p) * 2 ^ n) \<and>
      se_state ((exit_entry ^^ n) e0) = (if n = 0 then SUP_STATE_STOPPED else if n \<le> 10 then SUP_STATE_RESTARTING
       else if sp_critical p then SUP_STATE_SAFE_MODE else SUP_STATE_FAILED)"
    unfolding p0 [symmetric] by (rule exit_pow) (use assms(3-5) i(3) p0 in \<open>simp_all add: e0_def\<close>)
  have e: "sup_procs s' ! i = (exit_entry ^^ n) e0" using pw i(1) by (simp add: e0_def)
  have other: "find_proc (Some m) s1 \<noteq> Some i" if "cstr m \<noteq> cstr (sp_name p)" for m
    using that i(3) find_slot_Some [of "\<lambda>e. se_used e \<and> cstr (sp_name (se_proc e)) = cstr m" "sup_procs s1" i]
    by (auto simp: find_proc_def)
  have o: "sup_procs s' ! j = sup_procs s1 ! j" if "find_proc (Some m) s1 = Some j" "cstr m \<noteq> cstr (sp_name p)" for j m
    using pw that other [of m] by auto
  show ?thesis
    unfolding danos_sup_get_restart_count_def danos_sup_get_state_def pw [THEN conjunct1] i(2)
    using e ex i(1) by (auto simp: o danos_sup_get_restart_count_def danos_sup_get_state_def split: option.split)
qed

definition sample_proc :: danos_sup_proc where
  "sample_proc = (se_proc sup_entry_zero)\<lparr>sp_name := [118, 112, 112] @ replicate 61 0, sp_restart_min_ms := 1000,
     sp_restart_max_ms := 60000, sp_critical := True\<rparr>"

theorem sup_backoff_witness:
  "danos_sup_get_state (Some (sp_name sample_proc))
      ((danos_sup_on_exit (Some (sp_name sample_proc)) ^^ 11) (snd (danos_sup_register (Some sample_proc) sup_boot))) = SUP_STATE_SAFE_MODE"
proof -
  obtain r s1 where r: "danos_sup_register (Some sample_proc) sup_boot = (r, s1)" by fastforce
  then have "r = 0" using sup_register_spec [OF sup_boot_inv(1) r] by (simp add: sup_boot_inv(2) SUP_MAX_PROCS_def)
  then show ?thesis
    using sup_backoff [OF sup_boot_inv(1), of sample_proc s1 11] r by (simp add: sample_proc_def)
qed

text \<open>No function of the module ever moves a VRRP session out of its initial state.\<close>

definition vrrp_idle :: "vrrp_mod \<Rightarrow> bool" where
  "vrrp_idle s \<longleftrightarrow> (\<forall>e \<in> set (vrrp_sessions s). ve_state e = VRRP_STATE_INIT)"

lemma idle_update: "(\<forall>e \<in> set es. P e) \<Longrightarrow> P x \<Longrightarrow> (\<forall>e \<in> set (es[i := x]). P e)"
  using set_update_subset_insert [of es i x] by auto

lemma vrrp_stays_idle:
  assumes "vrrp_idle s"
  shows "vrrp_idle (snd (danos_vrrp_create x s))" "vrrp_idle (snd (danos_vrrp_update x s))"
    "vrrp_idle (snd (danos_vrrp_delete v i s))" "danos_vrrp_get_state v i s = VRRP_STATE_INIT"
  using assms
  by (auto simp: vrrp_idle_def danos_vrrp_create_def danos_vrrp_update_def danos_vrrp_delete_def danos_vrrp_get_state_def
      danos_vrrp_init_def vrrp_entry_zero_def vrrp_find_session_def Let_def split: option.split
      dest!: find_slot_Some dest: set_update_subset_insert [THEN subsetD])

text \<open>A callback that is registered before the first session is created is lost.\<close>

lemma early_callback_lost:
  "bfd_callback (snd (danos_bfd_create_ha (Some x) (snd (danos_bfd_register_callback cb user bfd_boot)))) = None"
  by (simp add: danos_bfd_create_ha_def danos_bfd_register_callback_def bfd_boot_def danos_bfd_init_def Let_def
      bfd_find_session_def bfd_find_free_def split: option.split)

text \<open>A process that exited is never set running again: a start only affects stopped processes.\<close>

lemma restarting_never_runs:
  assumes "sup_initialized s" and "find_proc name s = Some i" and "se_state (sup_procs s ! i) = SUP_STATE_RESTARTING"
  shows "danos_sup_get_state name (snd (danos_sup_start s)) = SUP_STATE_RESTARTING"
proof -
  obtain n where n: "name = Some n" using assms(2) by (cases name) (auto simp: find_proc_def)
  have i: "i < length (sup_procs s)" using find_slot_Some [OF assms(2) [unfolded find_proc_def n option.case]] by simp
  have "find_proc name (snd (danos_sup_start s)) = find_proc name s"
    using assms(1) n by (auto simp: find_proc_def danos_sup_start_def intro!: find_slot_cong)
  then show ?thesis using assms i by (simp add: danos_sup_get_state_def danos_sup_start_def)
qed

end
