(* ===== verification/Security.thy ===== *)
theory Security
  imports Slot_Table
begin

text \<open>
  The security modules: role-based access control (\<^verbatim>\<open>danos-security/src/rbac.c\<close>), the audit log
  (\<^verbatim>\<open>audit.c\<close>) and control-plane policing (\<^verbatim>\<open>copp.c\<close>). An enumeration that a caller may pass
  with any value is a 32-bit word. The files of the audit log are part of its state: what each
  path holds, and which paths can be opened; a stream writes through since every entry is flushed.
\<close>

subsection \<open>Access control\<close>

definition DANOS_SEC_OBJ_SECURITY :: u32 where "DANOS_SEC_OBJ_SECURITY = 7"
definition DANOS_SEC_OBJ_ALL :: u32 where "DANOS_SEC_OBJ_ALL = 99"
definition DANOS_SEC_OP_READ :: u32 where "DANOS_SEC_OP_READ = 1"
definition DANOS_ROLE_ADMIN :: u32 where "DANOS_ROLE_ADMIN = 1"
definition DANOS_ROLE_OPERATOR :: u32 where "DANOS_ROLE_OPERATOR = 2"
definition DANOS_ROLE_VIEWER :: u32 where "DANOS_ROLE_VIEWER = 3"
definition DANOS_ROLE_SECURITY_ADMIN :: u32 where "DANOS_ROLE_SECURITY_ADMIN = 4"

lemmas sec_consts = DANOS_SEC_OBJ_SECURITY_def DANOS_SEC_OBJ_ALL_def DANOS_SEC_OP_READ_def DANOS_ROLE_ADMIN_def
  DANOS_ROLE_OPERATOR_def DANOS_ROLE_VIEWER_def DANOS_ROLE_SECURITY_ADMIN_def

definition danos_rbac_check :: "u32 \<Rightarrow> u32 \<Rightarrow> u32 \<Rightarrow> bool" where
  "danos_rbac_check role obj op =
     (if role = DANOS_ROLE_ADMIN then True
      else if role = DANOS_ROLE_VIEWER then op = DANOS_SEC_OP_READ
      else if role = DANOS_ROLE_OPERATOR then
        (if op = DANOS_SEC_OP_READ then True else obj \<noteq> DANOS_SEC_OBJ_SECURITY)
      else if role = DANOS_ROLE_SECURITY_ADMIN then
        (if op = DANOS_SEC_OP_READ then True else obj = DANOS_SEC_OBJ_SECURITY)
      else False)"

text \<open>String literals, and \<^verbatim>\<open>strcasecmp(a, b) == 0\<close> in the C locale.\<close>

definition ascii :: "string \<Rightarrow> bytes" where
  "ascii s = map (\<lambda>c. of_nat (of_char c)) s"

definition lower :: "u8 \<Rightarrow> u8" where
  "lower b = (if 65 \<le> b \<and> b \<le> 90 then b + 32 else b)"

definition strcase_eq :: "bytes \<Rightarrow> bytes \<Rightarrow> bool" where
  "strcase_eq a b \<longleftrightarrow> map lower (cstr a) = map lower (cstr b)"

text \<open>The result and what the output pointer holds afterwards.\<close>

definition danos_rbac_role_by_name :: "bytes option \<Rightarrow> u32 option \<Rightarrow> int \<times> u32 option" where
  "danos_rbac_role_by_name name out = (case (name, out) of
     (Some n, Some _) \<Rightarrow>
       (if strcase_eq n (ascii ''admin'') then (0, Some DANOS_ROLE_ADMIN)
        else if strcase_eq n (ascii ''operator'') then (0, Some DANOS_ROLE_OPERATOR)
        else if strcase_eq n (ascii ''viewer'') then (0, Some DANOS_ROLE_VIEWER)
        else if strcase_eq n (ascii ''security-admin'') \<or> strcase_eq n (ascii ''security_admin'')
        then (0, Some DANOS_ROLE_SECURITY_ADMIN)
        else (- 1, out))
   | _ \<Rightarrow> (- 1, out))"

definition danos_rbac_role_name :: "u32 \<Rightarrow> bytes" where
  "danos_rbac_role_name role =
     (if role = DANOS_ROLE_ADMIN then ascii ''admin'' else if role = DANOS_ROLE_OPERATOR then ascii ''operator''
      else if role = DANOS_ROLE_VIEWER then ascii ''viewer''
      else if role = DANOS_ROLE_SECURITY_ADMIN then ascii ''security-admin'' else ascii ''unknown'')"

subsection \<open>The audit log\<close>

definition MAX_ENTRIES :: nat where "MAX_ENTRIES = 4096"

record danos_audit_entry =
  ae_tx_id :: u64
  ae_event :: u32
  ae_initiator :: bytes
  ae_source_ip :: bytes
  ae_obj_type :: bytes
  ae_obj_id :: bytes
  ae_diff :: bytes
  ae_sec :: int
  ae_nsec :: int

definition audit_entry_zero :: danos_audit_entry where
  "audit_entry_zero = \<lparr>ae_tx_id = 0, ae_event = 0, ae_initiator = replicate 64 0, ae_source_ip = replicate 46 0,
     ae_obj_type = replicate 32 0, ae_obj_id = replicate 64 0, ae_diff = replicate 256 0, ae_sec = 0, ae_nsec = 0\<rparr>"

text \<open>The stream, when it is open, appends to the file at \<open>au_fp\<close>.\<close>

record audit_mod =
  au_fp :: "bytes option"
  au_path :: bytes
  au_files :: "bytes \<Rightarrow> bytes"
  au_can_open :: "bytes \<Rightarrow> bool"
  au_ring :: "danos_audit_entry list"
  au_head :: nat
  au_count :: nat

definition event_name :: "u32 \<Rightarrow> bytes" where
  "event_name e =
     (if e = 1 then ascii ''tx_begin'' else if e = 2 then ascii ''tx_commit'' else if e = 3 then ascii ''tx_abort''
      else if e = 4 then ascii ''tx_rollback'' else if e = 5 then ascii ''auth_ok'' else if e = 6 then ascii ''auth_fail''
      else if e = 7 then ascii ''permit'' else if e = 8 then ascii ''deny'' else if e = 9 then ascii ''key_rotate''
      else ascii ''unknown'')"

definition danos_audit_init :: "bytes option \<Rightarrow> audit_mod \<Rightarrow> int \<times> audit_mod" where
  "danos_audit_init path s =
     (let s = (case path of None \<Rightarrow> s | Some p \<Rightarrow> s\<lparr>au_path := take 255 (cstr p)\<rparr>);
          s = s\<lparr>au_fp := (if au_can_open s (au_path s) then Some (au_path s) else None)\<rparr>
      in (0, s\<lparr>au_head := 0, au_count := 0\<rparr>))"

definition danos_audit_close :: "audit_mod \<Rightarrow> audit_mod" where
  "danos_audit_close s = s\<lparr>au_fp := None\<rparr>"

text \<open>\<^verbatim>\<open>%lu\<close>, \<^verbatim>\<open>%ld\<close> and \<^verbatim>\<open>%09ld\<close>.\<close>

fun dec_nat :: "nat \<Rightarrow> bytes" where
  "dec_nat n = (if n < 10 then [48 + of_nat n] else dec_nat (n div 10) @ [48 + of_nat (n mod 10)])"

declare dec_nat.simps [simp del]

definition dec_int :: "int \<Rightarrow> bytes" where
  "dec_int i = (if i < 0 then 45 # dec_nat (nat (- i)) else dec_nat (nat i))"

definition dec_pad9 :: "int \<Rightarrow> bytes" where
  "dec_pad9 i = (if i < 0 then let d = dec_nat (nat (- i)) in 45 # replicate (8 - length d) 48 @ d
                 else let d = dec_nat (nat i) in replicate (9 - length d) 48 @ d)"

definition quoted :: "string \<Rightarrow> bytes \<Rightarrow> bytes" where
  "quoted k v = [34] @ ascii k @ [34, 58, 34] @ v @ [34]"

definition audit_line :: "danos_audit_entry \<Rightarrow> bytes" where
  "audit_line e =
     ascii ''{'' @ [34] @ ascii ''ts'' @ [34] @ ascii '':'' @ dec_int (ae_sec e) @ ascii ''.'' @ dec_pad9 (ae_nsec e) @ ascii '',''
     @ [34] @ ascii ''tx_id'' @ [34] @ ascii '':'' @ dec_nat (unat (ae_tx_id e)) @ ascii '',''
     @ quoted ''event'' (event_name (ae_event e)) @ ascii '',''
     @ quoted ''initiator'' (cstr (ae_initiator e)) @ ascii '','' @ quoted ''src'' (cstr (ae_source_ip e)) @ ascii '',''
     @ quoted ''obj_type'' (cstr (ae_obj_type e)) @ ascii '','' @ quoted ''obj_id'' (cstr (ae_obj_id e)) @ ascii '',''
     @ quoted ''diff'' (cstr (ae_diff e)) @ ascii ''}'' @ [10]"

definition danos_audit_log :: "danos_audit_entry option \<Rightarrow> audit_mod \<Rightarrow> int \<times> audit_mod" where
  "danos_audit_log entry s = (case entry of None \<Rightarrow> (- 1, s) | Some e \<Rightarrow>
     let s = (if au_fp s = None \<and> au_count s = 0 then snd (danos_audit_init None s) else s);
         s = s\<lparr>au_ring := (au_ring s)[au_head s := e], au_head := (au_head s + 1) mod MAX_ENTRIES\<rparr>;
         s = (if au_count s < MAX_ENTRIES then s\<lparr>au_count := au_count s + 1\<rparr> else s)
     in case au_fp s of
          None \<Rightarrow> (0, s)
        | Some p \<Rightarrow> (0, s\<lparr>au_files := (au_files s)(p := au_files s p @ audit_line e)\<rparr>))"

text \<open>The query loop with \<open>n\<close> turns left, at turn \<open>i\<close>.\<close>

fun audit_scan :: "danos_audit_entry list \<Rightarrow> nat \<Rightarrow> u64 \<Rightarrow> int \<Rightarrow> nat \<Rightarrow> nat \<Rightarrow> danos_audit_entry list \<Rightarrow> danos_audit_entry list" where
  "audit_scan ring start tx mx i 0 out = out"
| "audit_scan ring start tx mx i (Suc n) out =
     (if \<not> int (length out) < mx then out
      else let e = ring ! ((start + i) mod MAX_ENTRIES)
           in audit_scan ring start tx mx (Suc i) n (if tx = 0 \<or> ae_tx_id e = tx then out @ [e] else out))"

text \<open>The entries stored to the caller's array; the result of the C function is their number.\<close>

definition danos_audit_query :: "u64 \<Rightarrow> bool \<Rightarrow> int \<Rightarrow> audit_mod \<Rightarrow> danos_audit_entry list" where
  "danos_audit_query tx have_buf mx s =
     (if \<not> have_buf \<or> mx \<le> 0 then []
      else audit_scan (au_ring s) (if au_count s < MAX_ENTRIES then 0 else au_head s) tx mx 0 (au_count s) [])"

subsection \<open>Control-plane policing\<close>

record danos_copp_policy =
  cp_cls :: u32
  cp_cir_bps :: u64
  cp_cb_bytes :: u64
  cp_drop_on_exceed :: bool
  cp_exceed_dscp :: u8

record copp_mod =
  cg_initialized :: bool
  cg_applied :: "danos_copp_policy list"

definition copp_row :: "u32 \<Rightarrow> u64 \<Rightarrow> u64 \<Rightarrow> bool \<Rightarrow> u8 \<Rightarrow> danos_copp_policy" where
  "copp_row c r b d x = \<lparr>cp_cls = c, cp_cir_bps = r, cp_cb_bytes = b, cp_drop_on_exceed = d, cp_exceed_dscp = x\<rparr>"

definition g_defaults :: "danos_copp_policy list" where
  "g_defaults =
    [copp_row 1 10000000 125000 True 0, copp_row 2 5000000 62500 True 0, copp_row 3 5000000 62500 True 0,
     copp_row 4 5000000 62500 True 0, copp_row 5 2000000 25000 True 0, copp_row 6 2000000 25000 True 0,
     copp_row 7 2000000 25000 True 0, copp_row 8 1000000 12500 True 0, copp_row 9 1000000 12500 False 6,
     copp_row 10 1000000 12500 True 0, copp_row 11 1000000 12500 True 0, copp_row 12 1000000 12500 True 0,
     copp_row 13 5000000 62500 True 0]"

definition copp_boot :: copp_mod where
  "copp_boot = \<lparr>cg_initialized = False, cg_applied = replicate 13 (copp_row 0 0 0 False 0)\<rparr>"

definition danos_copp_init :: "copp_mod \<Rightarrow> int \<times> copp_mod" where
  "danos_copp_init s = (0, s\<lparr>cg_applied := g_defaults, cg_initialized := True\<rparr>)"

definition danos_copp_defaults :: "danos_copp_policy list \<times> int" where
  "danos_copp_defaults = (g_defaults, int (length g_defaults))"

definition danos_copp_apply :: "danos_copp_policy option \<Rightarrow> copp_mod \<Rightarrow> int \<times> copp_mod" where
  "danos_copp_apply policy s = (case policy of None \<Rightarrow> (- 1, s) | Some p \<Rightarrow>
     let s = (if \<not> cg_initialized s then snd (danos_copp_init s) else s) in
     case find_slot (\<lambda>q. cp_cls q = cp_cls p) (cg_applied s) of
       None \<Rightarrow> (- 1, s)
     | Some i \<Rightarrow> (0, s\<lparr>cg_applied := (cg_applied s)[i := p]\<rparr>))"

definition danos_copp_get :: "u32 \<Rightarrow> danos_copp_policy option \<Rightarrow> copp_mod \<Rightarrow> int \<times> danos_copp_policy option \<times> copp_mod" where
  "danos_copp_get cls out s = (case out of None \<Rightarrow> (- 1, out, s) | Some _ \<Rightarrow>
     let s = (if \<not> cg_initialized s then snd (danos_copp_init s) else s) in
     case find_slot (\<lambda>q. cp_cls q = cls) (cg_applied s) of
       None \<Rightarrow> (- 1, out, s)
     | Some i \<Rightarrow> (0, Some (cg_applied s ! i), s))"

subsection \<open>Properties\<close>

text \<open>
  C38: Who may do what. Security objects are changed by admins and security admins only, objects of
  every other class by admins and operators only, so that apart from admins no role changes both;
  reading is for the four known roles, and a viewer or an unknown role changes nothing. The class
  that stands for all objects counts as one of the others: an operator may change it, security
  objects included. The name of every role reads back as the role in any mixture of cases, and
  a name that is none of theirs, nor security_admin, is refused without touching the output.
\<close>

theorem rbac_separation:
  "(op \<noteq> DANOS_SEC_OP_READ \<longrightarrow>
      {r. danos_rbac_check r DANOS_SEC_OBJ_SECURITY op} = {DANOS_ROLE_ADMIN, DANOS_ROLE_SECURITY_ADMIN} \<and>
      (obj \<noteq> DANOS_SEC_OBJ_SECURITY \<longrightarrow>
        {r. danos_rbac_check r obj op} = {DANOS_ROLE_ADMIN, DANOS_ROLE_OPERATOR})) \<and>
   {r. danos_rbac_check r obj DANOS_SEC_OP_READ} =
     {DANOS_ROLE_ADMIN, DANOS_ROLE_OPERATOR, DANOS_ROLE_VIEWER, DANOS_ROLE_SECURITY_ADMIN} \<and>
   danos_rbac_check DANOS_ROLE_OPERATOR DANOS_SEC_OBJ_ALL op \<and>
   (role \<in> {DANOS_ROLE_ADMIN, DANOS_ROLE_OPERATOR, DANOS_ROLE_VIEWER, DANOS_ROLE_SECURITY_ADMIN} \<longrightarrow>
      map lower (cstr name) = map lower (danos_rbac_role_name role) \<longrightarrow>
      danos_rbac_role_by_name (Some name) (Some r0) = (0, Some role)) \<and>
   (map lower (cstr name) \<notin> ascii ` {''admin'', ''operator'', ''viewer'', ''security-admin'', ''security_admin''} \<longrightarrow>
      danos_rbac_role_by_name (Some name) (Some r0) = (- 1, Some r0))"
proof (intro conjI)
  have l: "map lower (ascii ''admin'') = ascii ''admin''" "map lower (ascii ''operator'') = ascii ''operator''"
    "map lower (ascii ''viewer'') = ascii ''viewer''" "map lower (ascii ''security-admin'') = ascii ''security-admin''"
    "map lower (ascii ''security_admin'') = ascii ''security_admin''"
    by code_simp+
  have c: "cstr (ascii ''admin'') = ascii ''admin''" "cstr (ascii ''operator'') = ascii ''operator''"
    "cstr (ascii ''viewer'') = ascii ''viewer''" "cstr (ascii ''security-admin'') = ascii ''security-admin''"
    "cstr (ascii ''security_admin'') = ascii ''security_admin''"
    by code_simp+
  have d: "ascii ''operator'' \<noteq> ascii ''admin''" "ascii ''viewer'' \<noteq> ascii ''admin''" "ascii ''viewer'' \<noteq> ascii ''operator''"
    "ascii ''security-admin'' \<noteq> ascii ''admin''" "ascii ''security-admin'' \<noteq> ascii ''operator''" "ascii ''security-admin'' \<noteq> ascii ''viewer''"
    by code_simp+
  show "role \<in> {DANOS_ROLE_ADMIN, DANOS_ROLE_OPERATOR, DANOS_ROLE_VIEWER, DANOS_ROLE_SECURITY_ADMIN} \<longrightarrow>
      map lower (cstr name) = map lower (danos_rbac_role_name role) \<longrightarrow>
      danos_rbac_role_by_name (Some name) (Some r0) = (0, Some role)"
    using l c d
    by (auto simp: danos_rbac_role_by_name_def danos_rbac_role_name_def strcase_eq_def sec_consts)
  show "map lower (cstr name) \<notin> ascii ` {''admin'', ''operator'', ''viewer'', ''security-admin'', ''security_admin''} \<longrightarrow>
      danos_rbac_role_by_name (Some name) (Some r0) = (- 1, Some r0)"
    using l c by (auto simp: danos_rbac_role_by_name_def strcase_eq_def)
qed (auto simp: danos_rbac_check_def sec_consts)

theorem rbac_separation_witness:
  "danos_rbac_check DANOS_ROLE_SECURITY_ADMIN DANOS_SEC_OBJ_SECURITY 2 \<and> \<not> danos_rbac_check DANOS_ROLE_SECURITY_ADMIN 3 2 \<and>
   danos_rbac_role_by_name (Some (ascii ''Security-ADMIN'' @ [0])) (Some 0) = (0, Some DANOS_ROLE_SECURITY_ADMIN) \<and>
   danos_rbac_role_by_name (Some (ascii ''root'' @ [0])) (Some 9) = (- 1, Some 9)"
proof -
  have n: "map lower (cstr (ascii ''Security-ADMIN'' @ [0])) = map lower (danos_rbac_role_name DANOS_ROLE_SECURITY_ADMIN)" by code_simp
  have r: "map lower (cstr (ascii ''root'' @ [0])) \<notin>
    ascii ` {''admin'', ''operator'', ''viewer'', ''security-admin'', ''security_admin''}" by code_simp
  note sep = rbac_separation [of 2 3]
  have "{r. danos_rbac_check r DANOS_SEC_OBJ_SECURITY 2} = {DANOS_ROLE_ADMIN, DANOS_ROLE_SECURITY_ADMIN}"
    "{r. danos_rbac_check r 3 2} = {DANOS_ROLE_ADMIN, DANOS_ROLE_OPERATOR}"
    using sep by (simp_all add: sec_consts)
  then have "danos_rbac_check DANOS_ROLE_SECURITY_ADMIN DANOS_SEC_OBJ_SECURITY 2"
    "\<not> danos_rbac_check DANOS_ROLE_SECURITY_ADMIN 3 2"
    by (auto simp: set_eq_iff sec_consts)
  moreover have "danos_rbac_role_by_name (Some (ascii ''Security-ADMIN'' @ [0])) (Some 0) = (0, Some DANOS_ROLE_SECURITY_ADMIN)"
    using sep [of DANOS_ROLE_SECURITY_ADMIN "ascii ''Security-ADMIN'' @ [0]" 0] n by blast
  moreover have "danos_rbac_role_by_name (Some (ascii ''root'' @ [0])) (Some 9) = (- 1, Some 9)"
    using sep [of _ "ascii ''root'' @ [0]" 9] r by blast
  ultimately show ?thesis by blast
qed

text \<open>The ring buffer as the list of its entries, oldest first.\<close>

definition ring_ok :: "audit_mod \<Rightarrow> bool" where
  "ring_ok s \<longleftrightarrow> length (au_ring s) = MAX_ENTRIES \<and> au_count s \<le> MAX_ENTRIES \<and> au_head s < MAX_ENTRIES \<and>
     (au_count s < MAX_ENTRIES \<longrightarrow> au_head s = au_count s)"

definition ring_start :: "audit_mod \<Rightarrow> nat" where
  "ring_start s = (if au_count s < MAX_ENTRIES then 0 else au_head s)"

definition ring_list :: "audit_mod \<Rightarrow> danos_audit_entry list" where
  "ring_list s = map (\<lambda>i. au_ring s ! ((ring_start s + i) mod MAX_ENTRIES)) [0..<au_count s]"

definition last_entries :: "'a list \<Rightarrow> 'a list" where
  "last_entries xs = drop (length xs - MAX_ENTRIES) xs"

lemma last_entries_snoc: "last_entries (last_entries xs @ [x]) = last_entries (xs @ [x])"
  by (cases "length xs \<le> MAX_ENTRIES") (simp_all add: last_entries_def Suc_diff_le)

lemma ring_push:
  assumes "length ring = MAX_ENTRIES" and "count \<le> MAX_ENTRIES" and "head < MAX_ENTRIES" and "count < MAX_ENTRIES \<longrightarrow> head = count"
  shows "map (\<lambda>i. ring[head := e] ! (((if min (Suc count) MAX_ENTRIES < MAX_ENTRIES then 0 else Suc head mod MAX_ENTRIES) + i) mod MAX_ENTRIES))
      [0..<min (Suc count) MAX_ENTRIES] =
    last_entries (map (\<lambda>i. ring ! (((if count < MAX_ENTRIES then 0 else head) + i) mod MAX_ENTRIES)) [0..<count] @ [e])"
proof (cases "count < MAX_ENTRIES")
  case True
  then have h: "head = count" using assms(4) by simp
  show ?thesis
  proof (cases "Suc count < MAX_ENTRIES")
    case True
    then show ?thesis using h assms(1) by (auto simp: last_entries_def nth_append intro!: nth_equalityI)
  next
    case False
    then have s: "Suc count = MAX_ENTRIES" using \<open>count < MAX_ENTRIES\<close> by simp
    then show ?thesis
      using h assms(1) by (auto simp: s [symmetric] last_entries_def nth_append less_Suc_eq nth_list_update intro!: nth_equalityI)
  qed
next
  case False
  then have c: "count = MAX_ENTRIES" using assms(2) by simp
  have pos: "0 < MAX_ENTRIES" by (simp add: MAX_ENTRIES_def)
  have ix: "(Suc head mod MAX_ENTRIES + i) mod MAX_ENTRIES = (head + Suc i) mod MAX_ENTRIES" for i by (simp add: mod_simps)
  have ne: "(head + Suc i) mod MAX_ENTRIES \<noteq> head" if "Suc i < MAX_ENTRIES" for i
    using that assms(3) by (auto simp: mod_if)
  have last: "(head + MAX_ENTRIES) mod MAX_ENTRIES = head" using assms(3) by simp
  define f where "f i = ring ! ((head + i) mod MAX_ENTRIES)" for i
  have r: "last_entries (map f [0..<MAX_ENTRIES] @ [e]) = drop 1 (map f [0..<MAX_ENTRIES] @ [e])" by (simp add: last_entries_def)
  have "map (\<lambda>i. ring[head := e] ! ((Suc head mod MAX_ENTRIES + i) mod MAX_ENTRIES)) [0..<MAX_ENTRIES] =
      last_entries (map f [0..<MAX_ENTRIES] @ [e])"
    unfolding r
  proof (rule nth_equalityI)
    fix i assume "i < length (map (\<lambda>i. ring[head := e] ! ((Suc head mod MAX_ENTRIES + i) mod MAX_ENTRIES)) [0..<MAX_ENTRIES])"
    then have i: "i < MAX_ENTRIES" by simp
    have d: "drop 1 (map f [0..<MAX_ENTRIES] @ [e]) ! i = (map f [0..<MAX_ENTRIES] @ [e]) ! Suc i"
      using i by (subst nth_drop) simp_all
    show "map (\<lambda>i. ring[head := e] ! ((Suc head mod MAX_ENTRIES + i) mod MAX_ENTRIES)) [0..<MAX_ENTRIES] ! i =
        drop 1 (map f [0..<MAX_ENTRIES] @ [e]) ! i"
    proof (cases "Suc i < MAX_ENTRIES")
      case True
      then show ?thesis unfolding d using ne [OF True] i by (simp add: ix nth_append f_def)
    next
      case False
      then have n: "Suc i = MAX_ENTRIES" using i by simp
      have "(Suc head mod MAX_ENTRIES + i) mod MAX_ENTRIES = head" unfolding ix n using last by simp
      then show ?thesis unfolding d using i n assms(1,3) by (simp add: nth_append)
    qed
  qed simp
  then show ?thesis using c by (simp add: f_def [abs_def])
qed

definition push :: "danos_audit_entry \<Rightarrow> audit_mod \<Rightarrow> audit_mod" where
  "push e s = snd (danos_audit_log (Some e) s)"

lemma push_ring:
  assumes "ring_ok s"
  shows "ring_ok (push e s) \<and> ring_list (push e s) = last_entries (ring_list s @ [e])"
proof -
  define t where "t = (if au_fp s = None \<and> au_count s = 0 then snd (danos_audit_init None s) else s)"
  have t: "ring_ok t" "ring_list t = ring_list s"
    using assms by (auto simp: t_def danos_audit_init_def Let_def ring_ok_def ring_list_def ring_start_def MAX_ENTRIES_def)
  have p: "au_ring (push e s) = (au_ring t)[au_head t := e]" "au_head (push e s) = Suc (au_head t) mod MAX_ENTRIES"
    "au_count (push e s) = min (Suc (au_count t)) MAX_ENTRIES"
    using t(1) unfolding push_def danos_audit_log_def option.case t_def [symmetric] Let_def
    by (auto simp: ring_ok_def split: option.split)
  have ok: "ring_ok (push e s)"
    using t(1) unfolding ring_ok_def p by (auto simp: MAX_ENTRIES_def min_def)
  show ?thesis
    using ok ring_push [of "au_ring t" "au_count t" "au_head t" e] t
    unfolding ring_list_def [of "push e s"] ring_start_def p by (auto simp: ring_ok_def ring_list_def ring_start_def)
qed

lemma fold_push_ring:
  "ring_ok s \<Longrightarrow> ring_ok (fold push es s) \<and> ring_list (fold push es s) = last_entries (ring_list s @ es)"
proof (induction es rule: rev_induct)
  case Nil
  then show ?case by (simp add: last_entries_def ring_list_def ring_ok_def)
next
  case (snoc e es)
  then show ?case
    using push_ring [of "fold push es s" e] last_entries_snoc [of "ring_list s @ es" e] by simp
qed

lemma audit_scan_filter:
  "audit_scan ring start tx mx i n out = out @ take (nat mx - length out)
     (filter (\<lambda>e. tx = 0 \<or> ae_tx_id e = tx) (map (\<lambda>j. ring ! ((start + j) mod MAX_ENTRIES)) [i..<i + n]))"
proof (induction n arbitrary: i out)
  case (Suc n)
  have u: "[i..<i + Suc n] = i # [Suc i..<Suc i + n]" by (simp add: upt_conv_Cons)
  show ?case
  proof (cases "int (length out) < mx")
    case True
    then have k: "nat mx - length out = Suc (nat mx - Suc (length out))" by linarith
    show ?thesis unfolding u audit_scan.simps(2) Let_def Suc.IH using True by (simp add: k)
  qed simp
qed simp

text \<open>
  C39: The audit query is exact. After any number of entries was logged since the initialisation, a query
  returns, oldest first and up to the size of the caller's array, exactly the entries of the
  transaction (of all transactions for id 0) among the last 4096 that were logged.
\<close>

theorem audit_query_exact:
  assumes "length (au_ring s) = MAX_ENTRIES" and "0 < mx"
  shows "danos_audit_query tx True mx (fold (\<lambda>e s. snd (danos_audit_log (Some e) s)) es (snd (danos_audit_init path s))) =
    take (nat mx) (filter (\<lambda>e. tx = 0 \<or> ae_tx_id e = tx) (drop (length es - 4096) es))"
proof -
  let ?s = "snd (danos_audit_init path s)"
  have ok: "ring_ok ?s" "ring_list ?s = []"
    using assms(1) by (simp_all add: danos_audit_init_def Let_def ring_ok_def ring_list_def MAX_ENTRIES_def split: option.split)
  have f: "(\<lambda>e s. snd (danos_audit_log (Some e) s)) = push" by (simp add: push_def fun_eq_iff)
  have "ring_list (fold push es ?s) = drop (length es - 4096) es"
    using fold_push_ring [OF ok(1), of es] ok(2) by (simp add: last_entries_def MAX_ENTRIES_def)
  then show ?thesis
    using assms(2) unfolding f danos_audit_query_def audit_scan_filter by (simp add: ring_list_def ring_start_def)
qed

definition sample_audit :: audit_mod where
  "sample_audit = \<lparr>au_fp = None, au_path = [], au_files = (\<lambda>_. []), au_can_open = (\<lambda>_. True),
     au_ring = replicate 4096 audit_entry_zero, au_head = 0, au_count = 0\<rparr>"

theorem audit_query_exact_witness:
  "danos_audit_query 7 True 5 (fold (\<lambda>e s. snd (danos_audit_log (Some e) s))
      [audit_entry_zero\<lparr>ae_tx_id := 7\<rparr>, audit_entry_zero, audit_entry_zero\<lparr>ae_tx_id := 7, ae_event := 2\<rparr>]
      (snd (danos_audit_init None sample_audit))) =
    [audit_entry_zero\<lparr>ae_tx_id := 7\<rparr>, audit_entry_zero\<lparr>ae_tx_id := 7, ae_event := 2\<rparr>]"
proof -
  have "length (au_ring sample_audit) = MAX_ENTRIES" by (simp add: sample_audit_def MAX_ENTRIES_def)
  from audit_query_exact [OF this, of 5 7 "[audit_entry_zero\<lparr>ae_tx_id := 7\<rparr>, audit_entry_zero, audit_entry_zero\<lparr>ae_tx_id := 7, ae_event := 2\<rparr>]" None]
  show ?thesis by (simp add: audit_entry_zero_def)
qed

text \<open>
  The line of an entry does not escape its strings: a diff that contains a quote and a line break
  writes two lines, the second of which is the line of an entry \<open>e\<close> that was never logged.
\<close>

lemma audit_line_forged:
  assumes "audit_line e = b @ [34] @ ascii ''}'' @ [10]" and "cstr d = [34] @ ascii ''}'' @ [10] @ b"
  shows "\<exists>l. audit_line (x\<lparr>ae_diff := d\<rparr>) = l @ [10] @ audit_line e"
  unfolding audit_line_def [of "x\<lparr>ae_diff := d\<rparr>"] quoted_def assms(1) by (simp add: assms(2))

subsection \<open>Policies by class\<close>

definition copp_ok :: "copp_mod \<Rightarrow> bool" where
  "copp_ok s \<longleftrightarrow> (cg_initialized s \<longrightarrow> map cp_cls (cg_applied s) = map cp_cls g_defaults)"

definition copp_policy :: "copp_mod \<Rightarrow> u32 \<Rightarrow> danos_copp_policy option" where
  "copp_policy s cls = (case danos_copp_get cls (Some (copp_row 0 0 0 False 0)) s of (rc, out, _) \<Rightarrow> if rc = 0 then out else None)"

lemma copp_classes: "find_slot (\<lambda>c. c = cls) (map cp_cls g_defaults) = None \<longleftrightarrow> \<not> (1 \<le> cls \<and> cls \<le> 13)"
proof -
  have "set (map cp_cls g_defaults) = {1, 2, 3, 4, 5, 6, 7, 8, 9, 10, 11, 12, 13}" by (simp add: g_defaults_def copp_row_def)
  moreover have "1 \<le> cls \<and> cls \<le> 13 \<longleftrightarrow> cls \<in> {1, 2, 3, 4, 5, 6, 7, 8, 9, 10, 11, 12, 13}"
  proof -
    have "1 \<le> cls \<and> cls \<le> 13 \<longleftrightarrow> unat cls \<in> {1, 2, 3, 4, 5, 6, 7, 8, 9, 10, 11, 12, 13}"
      by (auto simp: word_le_nat_alt) presburger
    also have "\<dots> \<longleftrightarrow> cls \<in> {1, 2, 3, 4, 5, 6, 7, 8, 9, 10, 11, 12, 13}"
      by (simp add: word_unat_eq_iff)
    finally show ?thesis .
  qed
  ultimately show ?thesis by (auto simp: find_slot_None)
qed

text \<open>
  Applying a policy. A policy for one of the thirteen classes is accepted; from then on the module
  returns it for its class, and the policies of all other classes stay as they were. A policy for
  any other class is refused and changes none.
\<close>

theorem copp_apply_exact:
  assumes "copp_ok s" and "danos_copp_apply (Some p) s = (r, s')"
  shows "copp_ok s' \<and> (r = 0 \<longleftrightarrow> 1 \<le> cp_cls p \<and> cp_cls p \<le> 13) \<and>
    copp_policy s' = (if r = 0 then (copp_policy s)(cp_cls p \<mapsto> p) else copp_policy s)"
proof -
  define t where "t = (if \<not> cg_initialized s then snd (danos_copp_init s) else s)"
  have t: "cg_initialized t" "map cp_cls (cg_applied t) = map cp_cls g_defaults"
    using assms(1) by (auto simp: t_def copp_ok_def danos_copp_init_def)
  have get: "copp_policy u cls = map_option (nth (cg_applied u)) (find_slot (\<lambda>q. cp_cls q = cls) (cg_applied u))"
    if "cg_initialized u" for u cls
    using that by (simp add: copp_policy_def danos_copp_get_def split: option.split)
  have st: "copp_policy s = copp_policy t"
    by (simp add: copp_policy_def danos_copp_get_def t_def danos_copp_init_def fun_eq_iff split: option.split)
  have cls: "find_slot (\<lambda>q. cp_cls q = cls) (cg_applied t) = None \<longleftrightarrow> \<not> (1 \<le> cls \<and> cls \<le> 13)" for cls
    using copp_classes [of cls] t(2) [symmetric] by (auto simp: find_slot_None)
  have a: "danos_copp_apply (Some p) s = (case find_slot (\<lambda>q. cp_cls q = cp_cls p) (cg_applied t) of
      None \<Rightarrow> (- 1, t) | Some i \<Rightarrow> (0, t\<lparr>cg_applied := (cg_applied t)[i := p]\<rparr>))"
    unfolding danos_copp_apply_def option.case t_def [symmetric] Let_def by simp
  show ?thesis
  proof (cases "find_slot (\<lambda>q. cp_cls q = cp_cls p) (cg_applied t)")
    case None
    then show ?thesis using a assms(2) cls [of "cp_cls p"] st t by (auto simp: copp_ok_def)
  next
    case (Some i)
    note i = find_slot_Some [OF Some]
    have s': "r = 0" "s' = t\<lparr>cg_applied := (cg_applied t)[i := p]\<rparr>" using a Some assms(2) by simp_all
    have f: "find_slot (\<lambda>q. cp_cls q = c) ((cg_applied t)[i := p]) = find_slot (\<lambda>q. cp_cls q = c) (cg_applied t)" for c
      by (rule find_slot_update) (use i in auto)
    have "copp_policy s' c = ((copp_policy s)(cp_cls p \<mapsto> p)) c" for c
    proof (cases "find_slot (\<lambda>q. cp_cls q = c) (cg_applied t)")
      case None
      then have "c \<noteq> cp_cls p" using Some by auto
      then show ?thesis using None f [of c] st get [of s' c] get [OF t(1), of c] t(1) s'(2) by simp
    next
      case (Some j)
      note j = find_slot_Some [OF Some]
      have "j = i \<longleftrightarrow> c = cp_cls p" using i j Some \<open>find_slot (\<lambda>q. cp_cls q = cp_cls p) (cg_applied t) = Some i\<close> by auto
      then show ?thesis using Some f [of c] st get [of s' c] get [OF t(1), of c] t(1) s'(2) i j by auto
    qed
    moreover have "map cp_cls ((cg_applied t)[i := p]) = map cp_cls (cg_applied t)"
      using i by (simp add: map_update list_update_same_conv)
    ultimately show ?thesis using s' cls [of "cp_cls p"] Some t by (auto simp: copp_ok_def)
  qed
qed

theorem copp_apply_exact_witness:
  "copp_policy (snd (danos_copp_apply (Some (copp_row 9 5 6 True 0)) copp_boot)) 9 = Some (copp_row 9 5 6 True 0)"
proof -
  obtain r s' where r: "danos_copp_apply (Some (copp_row 9 5 6 True 0)) copp_boot = (r, s')" by fastforce
  have "copp_ok copp_boot" by (simp add: copp_ok_def copp_boot_def)
  from copp_apply_exact [OF this r] show ?thesis unfolding r by (simp add: copp_row_def)
qed

end
