(* ===== verification/Spec2Isabelle.thy ===== *)
theory Spec2Isabelle
  imports Transaction Hpack Gnmi_Wellformed Route_Path Antiflap Ha_Sessions Security
begin

text \<open>
  Verification of DANOS-Open, a network operating system in C: a core that keeps the desired
  configuration as typed objects and drives a dataplane backend, adapters that feed it (FRR's
  zebra protocol, gNMI) and modules beside it. Source paths below are relative to the
  repository's root directory.

  \<^bold>\<open>The parts and their theories.\<close>

  \<^item> \<open>Danos_Prelude\<close>: machine integers, little-endian object representation, C strings, stores into
    a buffer, and the generic lemmas the components share.
  \<^item> \<open>Dpa_Types\<close>, \<open>Dpa_Structs\<close>: the data model of \<^verbatim>\<open>danos-dpa/include/danos/dpa.h\<close>. Status
    codes, object types and events are datatypes; each object struct is a record with its byte
    representation \<open>enc\<close>, the view of a blob through a struct pointer \<open>dec\<close>, and its
    well-formedness \<open>wf\<close>, tied together by the locale \<open>struct_codec\<close>, which every struct interprets.
  \<^item> \<open>Object_Registry\<close>: the hash table of \<^verbatim>\<open>danos-core/src/object/object_registry.c\<close>; \<open>store_map\<close>
    abstracts it to a finite map and the locale \<open>kv_store\<close> is its interface.
  \<^item> \<open>Wal\<close>: the write-ahead log of \<^verbatim>\<open>danos-core/src/wal/wal.c\<close> on a file system that is a parameter.
  \<^item> \<open>Event_Bus\<close>: \<^verbatim>\<open>danos-core/src/event/event_bus.c\<close>.
  \<^item> \<open>Core_State\<close>: the global state (\<open>sys\<close>) and the mutating object operations with their persistence,
    dirty-flag and event hooks.
  \<^item> \<open>Persist\<close>, \<open>Durability\<close>: \<^verbatim>\<open>danos-core/src/persist/persist.c\<close>, recovery and crash behaviour.
  \<^item> \<open>Dpa_Objects\<close>: the typed API of \<^verbatim>\<open>danos-core/src/object/dpa_objects.c\<close>.
  \<^item> \<open>State_Store\<close>: \<^verbatim>\<open>danos-core/src/state/state_store.c\<close>.
  \<^item> \<open>Backend_Ops\<close>, \<open>Programming\<close>: the programming pipeline \<^verbatim>\<open>danos-core/src/backend/backend_ops.c\<close>,
    on \<open>sys\<close> extended by the ledger and a backend that is a parameter.
  \<^item> \<open>Transaction\<close>: \<^verbatim>\<open>danos-core/src/transaction/transaction.c\<close>.
  \<^item> \<open>Leb128\<close>, \<open>Hpack_Huffman\<close>, \<open>Huffman_Codec\<close>, \<open>Hpack\<close>: the HPACK codec
    (\<^verbatim>\<open>danos-mgmt/src/gnmi/hpack_huffman.c\<close>, \<^verbatim>\<open>hpack.c\<close>).
  \<^item> \<open>Gnmi_Proto\<close>, \<open>Gnmi_Writer\<close>, \<open>Gnmi_Reader\<close>, \<open>Gnmi_Roundtrip\<close>, \<open>Gnmi_Wellformed\<close>: the protobuf
    codec of the gNMI service (\<^verbatim>\<open>danos-mgmt/src/gnmi/gnmi_proto.c\<close>).
  \<^item> \<open>Zapi\<close>, \<open>Zapi_Mapper\<close>, \<open>Zapi_Install\<close>: the zebra protocol (\<^verbatim>\<open>danos-fib/src/zapi/zapi_parse.c\<close>)
    and its mapping to objects (\<^verbatim>\<open>danos-fib/src/mapper/zapi_mapper.c\<close>), on \<open>sys\<close> extended by the
    id counter.
  \<^item> \<open>Reconciler\<close>: \<^verbatim>\<open>danos-core/src/reconciler/reconciler.c\<close>, on the pipeline's state extended by
    \<^verbatim>\<open>g_reconciler\<close>; the thread is a sequence of 50 ms ticks.
  \<^item> \<open>Route_Path\<close>: lemmas that join the zebra mapper, the core, the pipeline and the reconciler. The
    mapper's and the reconciler's state extend \<open>sys\<close> separately, and \<open>fib_part\<close> and \<open>core_part\<close> move
    the shared part between them, as both run on the same globals of one process.
  \<^item> \<open>Antiflap\<close>: \<^verbatim>\<open>danos-core/src/antiflap/antiflap.c\<close>, the limit on repairs of one object.
  \<^item> \<open>Slot_Table\<close>: fixed arrays of slots with a used flag; its locales \<open>keyed_table\<close> and \<open>session_table\<close>
    are the interface that the session tables below interpret.
  \<^item> \<open>Ha\<close>, \<open>Ha_Sessions\<close>: BFD and VRRP sessions and the process supervisor (\<^verbatim>\<open>danos-ha/src/bfd.c\<close>,
    \<^verbatim>\<open>vrrp.c\<close>, \<^verbatim>\<open>supervisor.c\<close>).
  \<^item> \<open>Security\<close>: access control, the audit log and control-plane policing
    (\<^verbatim>\<open>danos-security/src/rbac.c\<close>, \<^verbatim>\<open>audit.c\<close>, \<^verbatim>\<open>copp.c\<close>).

  \<^bold>\<open>How the parts interact.\<close> The zebra and gNMI adapters call the typed API; the typed API calls the
  object operations of \<open>Core_State\<close> on the default store; these log to the write-ahead log, set the
  dirty flag and publish an event; the reconciler and the programming pipeline walk the default
  store and bring the backend and the ledger in line with it. The state record \<open>sys\<close> is extensible:
  a theory that adds a component's globals extends it, and the operations below work on every
  extension, so the lemmas about them carry over.

  \<^bold>\<open>What the lemmas show.\<close>

  \<^item> Refinement: the hash-table store implements a map (\<open>Core_State\<close>), the replay table the last
    logged operation of each key (\<open>Persist\<close>), and a restart after a crash in the middle of an operation
    recovers the logged configuration (\<open>Durability\<close>).
  \<^item> Round trips: log append and replay, struct codecs and typed API, HPACK integers, strings and
    header blocks, the Huffman code, gNMI Set requests, zebra messages.
  \<^item> Invariants and safety: every transaction call does what the transition table \<open>tx_table\<close> says,
    handles agree with their records, and the calls that dereference a missing manager are
    characterised exactly; decoders fill well-formed objects from any bytes; encoders stay in their buffers.
  \<^item> Pipeline: with an accepting backend one run converges and the next one is idle; routes that lost
    their next hop are withdrawn unless their ledger record is still current; a sweep removes what is
    no longer desired, with the backend calls given call by call.
  \<^item> Composition: an FRR route message ends as the route, group and next hops that it describes, and
    after the next tick of the reconciler the backend has been told them (this theory, below). The
    reconciler thread settles after a change and repairs what is out of step within a period.
  \<^item> Side modules: the session tables implement bounded maps, state changes of BFD sessions are
    reported exactly once, restarts back off exponentially, a query of the audit log returns exactly
    the last entries, each role has exactly its rights, and repairs of one object are bounded per window.

  \<^bold>\<open>Modelling decisions.\<close> Functions of the code are functions on explicit state; NULL pointers are
  \<open>None\<close>; memory allocation follows an oracle in the state, so every failure path is a branch. Words
  keep their C width. Locks make each API call one atomic step; interleavings are sequences of calls.
  Loops are structural recursions or have a termination proof; the field loops of the protobuf reader,
  which may not end, are partial functions into \<open>option\<close>, and \<open>gnmi_decoders_return\<close> shows when they
  end. The only fuel is the bound of a loop in the code (4096 probes, 64 next hops, 256 sweeps).
  A store or read outside an object is an explicit outcome (\<open>Fault\<close>, \<open>None\<close>, a buffer that changes its
  length, or the flag \<open>stack_overrun\<close>), so that its absence is a theorem and its presence a finding.

  \<^bold>\<open>Parameters.\<close> The file system (\<open>fsys\<close>), the backend's function table and its state, allocation
  outcomes, clock values and the outcome of timed lock waits are arguments or state components; what
  is assumed about them is a hypothesis of the theorem that needs it.

  \<^bold>\<open>Not modelled.\<close> Socket and thread code: the zebra session, the gRPC/HTTP2 server
  (\<^verbatim>\<open>gnmi_grpc.c\<close>), the VPP adapter under \<^verbatim>\<open>danos-vpp\<close> (its client, message encoders and mapper: one
  implementation of the backend that the pipeline takes as a parameter),
  netlink, the Prometheus server, the NETCONF and CLI front ends, and the daemon's main loop: they
  are loops around system calls whose effect is outside the sources. The gNMI request handlers
  (\<^verbatim>\<open>gnmi.c\<close>, \<^verbatim>\<open>model_paths.c\<close>, \<^verbatim>\<open>model_routes.c\<close>) are printf-style text generation over the typed API.
  The registry of backends and their constant capability sets (\<^verbatim>\<open>dpa_version.c\<close>,
  \<^verbatim>\<open>dpa_capability.c\<close>) is used by no modelled part. Configuration import reads and writes text files.
  Placeholders without code (\<^verbatim>\<open>danos-p4\<close>, \<^verbatim>\<open>danos-ovs\<close>, \<^verbatim>\<open>danos-platform\<close>), YANG models, scripts,
  tests and the archived headers under \<^verbatim>\<open>docs/archive\<close> have nothing to model.
\<close>

declare split_paired_All [simp del] split_paired_Ex [simp del]

text \<open>
  C1: From the routing daemon to the dataplane. Let the reconciler run over a backend that accepts every
  desired object, and let an FRR route-add message arrive for a prefix that is neither desired nor
  programmed, with the ids from the counter on unused. The message is answered with OK; the next tick
  of the reconciler thread brings the whole desired state into the ledger, the new route included; and
  the backend is told the route with the gateway and the interface of every next hop of the message:
  every fact that its route-add operation establishes for this route, and that no operation
  undoes, holds of the backend afterwards.
\<close>

theorem frr_route_reaches_backend:
  assumes "recon_ready ops p s" and "zh_command (zm_header m) = ZEBRA_FRR_REDISTRIBUTE_ROUTE_ADD"
    and "zapi_decode_frr_route (Some m) = Inr inp" and "fr_family inp = 2"
    and "default_map s (frr_key m inp) = None" and "ledger_map s (frr_key m inp) = None"
    and "n \<noteq> 0" and "default_map s (OBJ_NHGROUP, n) = None" and "nh_fresh (default_map s) n 0 (length (fr_nexthops inp))"
    and "card (dom (default_map s)) + 66 < 2 ^ 64"
  shows "\<exists>n' s1 s2 rr. zebra_message m (n, s) = Some (DANOS_OK, n', s1) \<and> reconcile_tick now (w, s1) = Some (0, s2) \<and>
    out_of_sync s2 = {} \<and> ledger_map s2 (frr_key m inp) = Some (record_of s2 (frr_key m inp) (enc_route (frr_route m inp n))) \<and>
    rr_route rr = frr_route m inp n \<and> rr_nh_count rr = ucast (fr_nexthop_count inp) \<and>
    (\<forall>i < length (fr_nexthops inp). rr_nh_gw rr ! i = addr (gateway (frr_nh inp n i)) \<and>
       rr_nh_oif rr ! i = fn_ifindex (fr_nexthops inp ! i)) \<and>
    (\<forall>P. keeps_told ops P \<and> (\<forall>f b. bo_route_add ops = Some f \<longrightarrow> P (snd (f rr b))) \<longrightarrow> P (backend s2))"
proof -
  have w: "frr_wf inp" by (rule frr_decode_wf [OF assms(3)])
  obtain n' s1 where s1: "zebra_message m (n, s) = Some (DANOS_OK, n', s1)" "recon_ready ops p s1" "g_dirty s1"
    "frr_installed m inp n (default_map s) (default_map s1)" "ledger_map s1 = ledger_map s"
    by (rule frr_message_ready [OF assms])
  let ?s = "s1\<lparr>g_dirty := False\<rparr>"
  note v = same_core_views [of s1 ?s, OF same_core_updates(1)]
  have ok: "pipe_ok s1" "sizes_ok s1" "g_ops s1 = Some ops" "accepts ops" using s1(2) by (simp_all add: recon_ready_def)
  obtain i where key: "frr_key m inp = (OBJ_ROUTE, i)" by (simp add: frr_key_def Let_def)
  have d: "default_map s1 (OBJ_ROUTE, i) = Some (enc_route (frr_route m inp n))" using s1(4) key by (simp add: frr_installed_def)
  have len: "length (enc_route (frr_route m inp n)) = 56" and dec: "dec_route (enc_route (frr_route m inp n)) = frr_route m inp n"
    by (simp_all add: route_codec.enc_length route_codec.dec_enc frr_objects_wf(1) [OF w])
  have out: "(OBJ_ROUTE, i) \<in> out_of_sync s1"
    using d s1(5) assms(6) key by (auto simp: out_of_sync_def type_skipped_def)
  obtain rr where rr: "resolve_route_nh s1 (frr_route m inp n) = (DANOS_OK, rr)" "rr_route rr = frr_route m inp n"
    "rr_nh_count rr = ucast (fr_nexthop_count inp)"
    "\<forall>i < length (fr_nexthops inp). rr_nh_gw rr ! i = addr (gateway (frr_nh inp n i)) \<and> rr_nh_oif rr ! i = fn_ifindex (fr_nexthops inp ! i)"
    using frr_resolves [OF ok(1) w s1(4) assms(7)] by blast
  obtain s2 where s2: "reconcile_tick now (w, s1) = Some (0, s2)" "around_run ?s s2" "out_of_sync s2 = {}" "default_map s2 = default_map s1"
    using tick_run [OF s1(2)] s1(3) by metis
  have "P (backend s2)" if "keeps_told ops P" "\<forall>f b. bo_route_add ops = Some f \<longrightarrow> P (snd (f rr b))" for P
    by (rule told_around [OF s2(2) that(1) _ _ _ ok(4) _ _ _ _ that(2), of i "enc_route (frr_route m inp n)"])
      (simp_all add: v ok d len dec out rr(1))
  moreover have "ledger_map s2 (frr_key m inp) = Some (record_of s2 (frr_key m inp) (enc_route (frr_route m inp n)))"
  proof -
    have "(OBJ_ROUTE, i) \<notin> out_of_sync s2" by (simp add: s2(3))
    then show ?thesis using s2(4) d by (simp add: key out_of_sync_def type_skipped_def)
  qed
  ultimately show ?thesis using s1(1) s2(1,3) rr(2-4) by blast
qed

text \<open>10.0.0.0/8 with two next hops, into an empty core with a backend that counts its calls.\<close>

theorem frr_route_reaches_backend_witness:
  "\<exists>n' s1 s2. zebra_message sample_frr (1000, sample_recon sample_empty) = Some (DANOS_OK, n', s1) \<and>
     reconcile_tick 0 (0, s1) = Some (0, s2) \<and> backend s2 > 0 \<and> ledger_map s2 (frr_key sample_frr sample_inp) \<noteq> None"
proof -
  let ?s = "sample_recon sample_empty"
  have m: "default_map ?s = Map.empty" "ledger_map ?s = Map.empty"
    using sample_empty_ok(2,3)
    by (simp_all add: default_map_def ledger_map_def sys_map_def sample_recon_fields cong: option.case_cong)
  have p: "pipe_ok ?s" using sample_empty_ok(1) by (simp add: pipe_ok_def stores_wf_def sample_recon_fields)
  have r: "recon_ready sample_ops 30000000 ?s"
    unfolding recon_ready_def using p sample_ops_accepts m
    by (simp add: sample_recon_fields sizes_ok_def period_us_def kDefaultConfig_def) (simp add: sample_empty_def)
  have x: "zh_command (zm_header sample_frr) = ZEBRA_FRR_REDISTRIBUTE_ROUTE_ADD" "fr_family sample_inp = 2"
    by (simp_all add: sample_frr_def sample_inp_def ZEBRA_FRR_REDISTRIBUTE_ROUTE_ADD_def)
  have k: "keeps_told sample_ops (\<lambda>b. b > 0)" "\<forall>f b. bo_route_add sample_ops = Some f \<longrightarrow> snd (f rr b) > 0" for rr
    by (simp_all add: keeps_told_def sample_ops_def)
  obtain n' s1 s2 rr where o: "zebra_message sample_frr (1000, ?s) = Some (DANOS_OK, n', s1)" "reconcile_tick 0 (0, s1) = Some (0, s2)"
    "ledger_map s2 (frr_key sample_frr sample_inp) \<noteq> None"
    "\<forall>P. keeps_told sample_ops P \<and> (\<forall>f b. bo_route_add sample_ops = Some f \<longrightarrow> P (snd (f rr b))) \<longrightarrow> P (backend s2)"
    using frr_route_reaches_backend [OF r x(1) sample_frr_decodes x(2), of 1000 0 0] by (auto simp: m nh_fresh_def)
  have "backend s2 > 0" using o(4) k by blast
  then show ?thesis using o(1-3) by blast
qed

end
